(* ===== verification/Prelude.thy ===== *)
theory Prelude
  imports "HOL-Library.Word" "HOL-Library.List_Lexorder" "HOL-Library.Char_ord"
    "HOL-Library.AList" "HOL-Library.Sublist"
begin

text \<open>
  Shared vocabulary of the development: Go's bytes, strings and results, the
  big- and little-endian integers the wire formats use, and the generic lemmas
  on lists and results that the component proofs rest on.

  A Go \<open>byte\<close> is an \<open>8 word\<close>; a \<open>[]byte\<close> is a list of them; a Go \<open>string\<close> is an
  immutable byte sequence and is a \<open>string\<close> here (an Isabelle character is one
  byte). A fallible Go call \<open>(x, err)\<close> is a sum, \<open>Inl err\<close> or \<open>Inr x\<close>; the early
  return on \<open>err != nil\<close> is \<open>and_then\<close>. Go's \<open>int\<close> has 64 bits on every platform
  the engine ships for; sizes and indices that the code keeps within range are
  natural numbers.
\<close>

unbundle bit_operations_syntax

named_theorems codec_simps \<open>unfoldings of the wire-format readers and writers\<close>

subsection \<open>Bytes, strings and results\<close>

type_synonym byte = "8 word"
type_synonym bytes = "byte list"
type_synonym u16 = "16 word"
type_synonym u32 = "32 word"
type_synonym u64 = "64 word"

definition byte_of_char :: "char \<Rightarrow> byte" where
  "byte_of_char c = of_nat (of_char c)"

definition char_of_byte :: "byte \<Rightarrow> char" where
  "char_of_byte b = char_of (unat b)"

definition bytes_of_string :: "string \<Rightarrow> bytes" where
  "bytes_of_string s = map byte_of_char s"

definition string_of_bytes :: "bytes \<Rightarrow> string" where
  "string_of_bytes bs = map char_of_byte bs"

definition and_then :: "'e + 'a \<Rightarrow> ('a \<Rightarrow> 'e + 'b) \<Rightarrow> 'e + 'b" where
  "and_then r f = (case r of Inl e \<Rightarrow> Inl e | Inr x \<Rightarrow> f x)"

text \<open>Methods that change their receiver also when they fail: state and result side by side.\<close>

definition then_st :: "'s \<times> ('e + 'a) \<Rightarrow> ('a \<Rightarrow> 's \<Rightarrow> 's \<times> ('e + 'b)) \<Rightarrow> 's \<times> ('e + 'b)" where
  "then_st r f = (case r of (s, Inl e) \<Rightarrow> (s, Inl e) | (s, Inr x) \<Rightarrow> f x s)"

definition is_ok :: "'e + 'a \<Rightarrow> bool" where
  "is_ok r = (case r of Inl _ \<Rightarrow> False | Inr _ \<Rightarrow> True)"

subsection \<open>Integers as bytes\<close>

text \<open>
  \<open>be_nat\<close> is the loop \<open>v = v<<8 | int(b)\<close> (the low eight bits of \<open>v<<8\<close> are
  zero, so the or is an addition); \<open>le_nat\<close> is \<open>binary.LittleEndian\<close>'s reading.
\<close>

definition be_nat :: "bytes \<Rightarrow> nat" where
  "be_nat bs = foldl (\<lambda>v b. v * 256 + unat b) 0 bs"

definition be_u32 :: "bytes \<Rightarrow> u32" where
  "be_u32 bs = of_nat (be_nat bs)"

fun le_nat :: "bytes \<Rightarrow> nat" where
  "le_nat [] = 0"
| "le_nat (b # bs) = unat b + 256 * le_nat bs"

fun le_bytes :: "nat \<Rightarrow> nat \<Rightarrow> bytes" where
  "le_bytes 0 n = []"
| "le_bytes (Suc k) n = of_nat n # le_bytes k (n div 256)"

subsection \<open>Decimal numerals (strconv)\<close>

fun nat_to_dec :: "nat \<Rightarrow> string" where
  "nat_to_dec n =
     (if n < 10 then [char_of (48 + n)] else nat_to_dec (n div 10) @ [char_of (48 + n mod 10)])"

declare nat_to_dec.simps [simp del]

definition int_to_dec :: "int \<Rightarrow> string" where
  "int_to_dec i = (if i < 0 then CHR ''-'' # nat_to_dec (nat (- i)) else nat_to_dec (nat i))"

fun parse_dec_acc :: "nat \<Rightarrow> string \<Rightarrow> nat option" where
  "parse_dec_acc v [] = Some v"
| "parse_dec_acc v (c # cs) =
     (let n = (of_char c :: nat)
      in if 48 \<le> n \<and> n \<le> 57 then parse_dec_acc (10 * v + (n - 48)) cs else None)"

text \<open>\<open>strconv.ParseUint(s, 10, bits)\<close>: digits only, at least one, below \<open>2 ^ bits\<close>.\<close>

definition parse_uint :: "nat \<Rightarrow> string \<Rightarrow> nat option" where
  "parse_uint bits s =
     (if s = [] then None
      else case parse_dec_acc 0 s of
             None \<Rightarrow> None
           | Some v \<Rightarrow> if v < 2 ^ bits then Some v else None)"

subsection \<open>Searching strings (strings.Cut, IndexByte, LastIndex)\<close>

definition IndexByte :: "string \<Rightarrow> char \<Rightarrow> nat option" where
  "IndexByte s c = (if c \<in> set s then Some (length (takeWhile (\<lambda>x. x \<noteq> c) s)) else None)"

definition LastIndexByte :: "string \<Rightarrow> char \<Rightarrow> nat option" where
  "LastIndexByte s c = map_option (\<lambda>i. length s - 1 - i) (IndexByte (rev s) c)"

text \<open>\<open>strings.Cut\<close> with a one-byte separator; \<open>None\<close> when it does not occur.\<close>

definition Cut :: "string \<Rightarrow> char \<Rightarrow> (string \<times> string) option" where
  "Cut s c = map_option (\<lambda>i. (take i s, drop (i + 1) s)) (IndexByte s c)"

subsection \<open>Lemmas: results\<close>

lemma and_then_Inr [simp]: "and_then (Inr x) f = f x"
  by (simp add: and_then_def)

lemma and_then_Inl [simp]: "and_then (Inl e) f = Inl e"
  by (simp add: and_then_def)

lemma and_then_eq_Inr: "and_then r f = Inr y \<longleftrightarrow> (\<exists>x. r = Inr x \<and> f x = Inr y)"
  by (cases r) auto

lemma and_then_eq_Inl: "and_then r f = Inl e \<longleftrightarrow> r = Inl e \<or> (\<exists>x. r = Inr x \<and> f x = Inl e)"
  by (cases r) auto

lemma then_st_inv: "P (fst m) \<Longrightarrow> (\<And>x s. P s \<Longrightarrow> P (fst (f x s))) \<Longrightarrow> P (fst (then_st m f))"
  by (auto simp: then_st_def split: prod.splits sum.splits)

lemma then_st_eq_Inr: "then_st m f = (s', Inr y) \<longleftrightarrow> (\<exists>s x. m = (s, Inr x) \<and> f x s = (s', Inr y))"
  by (auto simp: then_st_def split: prod.splits sum.splits)

lemma then_st_simps [simp]: "then_st (s, Inr x) f = f x s" "then_st (s, Inl e) f = (s, Inl e)"
  by (simp_all add: then_st_def)

lemma is_ok_simps [simp]: "is_ok (Inr x)" "\<not> is_ok (Inl e)"
  by (simp_all add: is_ok_def)

lemma is_ok_iff: "is_ok r \<longleftrightarrow> (\<exists>x. r = Inr x)"
  by (cases r) auto

subsection \<open>Lemmas: characters and bytes\<close>

lemma char_of_byte_of_char [simp]: "char_of_byte (byte_of_char c) = c"
proof -
  have "unat (of_nat (of_char c) :: byte) = of_char c"
    by (simp add: unat_of_nat)
  then show ?thesis by (simp add: char_of_byte_def byte_of_char_def)
qed

lemma byte_of_char_of_byte [simp]: "byte_of_char (char_of_byte b) = b"
proof -
  have "unat b < 256" using unsigned_less [of b, where ?'a = nat] by simp
  then have "of_char (char_of (unat b)) = unat b" by simp
  then show ?thesis by (simp add: char_of_byte_def byte_of_char_def)
qed

lemma unat_byte_of_char: "unat (byte_of_char c) = of_char c"
  by (simp add: byte_of_char_def unat_of_nat)

lemma byte_of_char_inject [simp]: "byte_of_char c = byte_of_char d \<longleftrightarrow> c = d"
  by (metis char_of_byte_of_char)

lemma string_of_bytes_of_string [simp]: "string_of_bytes (bytes_of_string s) = s"
  by (simp add: string_of_bytes_def bytes_of_string_def comp_def)

lemma bytes_of_string_of_bytes [simp]: "bytes_of_string (string_of_bytes bs) = bs"
  by (simp add: string_of_bytes_def bytes_of_string_def comp_def)

lemma length_bytes_of_string [simp]: "length (bytes_of_string s) = length s"
  by (simp add: bytes_of_string_def)

lemma length_string_of_bytes [simp]: "length (string_of_bytes bs) = length bs"
  by (simp add: string_of_bytes_def)

lemma bytes_of_string_simps [simp]:
  "bytes_of_string [] = []"
  "bytes_of_string (c # s) = byte_of_char c # bytes_of_string s"
  "bytes_of_string (s @ t) = bytes_of_string s @ bytes_of_string t"
  by (simp_all add: bytes_of_string_def)

lemma string_of_bytes_simps [simp]:
  "string_of_bytes [] = []"
  "string_of_bytes (b # bs) = char_of_byte b # string_of_bytes bs"
  "string_of_bytes (bs @ cs) = string_of_bytes bs @ string_of_bytes cs"
  by (simp_all add: string_of_bytes_def)

lemma bytes_of_string_inject [simp]: "bytes_of_string s = bytes_of_string t \<longleftrightarrow> s = t"
  by (metis string_of_bytes_of_string)

lemma byte_bound: "unat (b :: byte) < 256"
  using unsigned_less [of b, where ?'a = nat] by simp

subsection \<open>Lemmas: integers as bytes\<close>

lemma unat_byte_of_nat: "unat (of_nat n :: byte) = n mod 256"
  by (simp add: unat_of_nat)

lemma unat_ucast_byte: "unat (ucast (v :: 'a::len word) :: byte) = unat v mod 256"
  by (simp add: unsigned_ucast_eq take_bit_eq_mod)

lemma be_nat_simps [simp]:
  "be_nat [] = 0"
  "be_nat [a] = unat a"
  "be_nat [a, b] = unat a * 256 + unat b"
  "be_nat [a, b, c] = (unat a * 256 + unat b) * 256 + unat c"
  "be_nat [a, b, c, d] = ((unat a * 256 + unat b) * 256 + unat c) * 256 + unat d"
  by (simp_all add: be_nat_def)

lemma be_nat_snoc: "be_nat (bs @ [b]) = be_nat bs * 256 + unat b"
  by (simp add: be_nat_def)

lemma be_nat_bound: "be_nat bs < 256 ^ length bs"
proof (induction bs rule: rev_induct)
  case Nil
  then show ?case by simp
next
  case (snoc b bs)
  have "be_nat bs * 256 + unat b < (be_nat bs + 1) * 256"
    using byte_bound [of b] by simp
  also have "\<dots> \<le> 256 ^ length bs * 256"
    using snoc.IH by (intro mult_le_mono1) simp
  finally show ?case by (simp add: be_nat_snoc mult.commute)
qed

lemma be_nat_u16:
  assumes "n < 65536"
  shows "be_nat [of_nat (n div 256), of_nat n] = n"
proof -
  from assms have "n div 256 < 256" by simp
  then show ?thesis by (simp add: unat_byte_of_nat)
qed

lemma length_le_bytes [simp]: "length (le_bytes k n) = k"
  by (induction k n rule: le_bytes.induct) auto

lemma le_nat_le_bytes [simp]: "le_nat (le_bytes k n) = n mod 256 ^ k"
proof (induction k n rule: le_bytes.induct)
  case (1 n)
  then show ?case by simp
next
  case (2 k n)
  then show ?case
    by (simp add: unat_byte_of_nat mod_mult2_eq add.commute)
qed

subsection \<open>Lemmas: decimal numerals\<close>

lemma nat_to_dec_nonempty [simp]: "nat_to_dec n \<noteq> []"
  by (subst nat_to_dec.simps) simp

lemma digit_char: "d < 10 \<Longrightarrow> of_char (char_of (48 + d) :: char) = (48 + d :: nat)"
  by simp

lemma parse_dec_acc_append:
  "parse_dec_acc v (s @ t) =
     (case parse_dec_acc v s of None \<Rightarrow> None | Some w \<Rightarrow> parse_dec_acc w t)"
  by (induction v s rule: parse_dec_acc.induct) (auto simp: Let_def)

lemma parse_nat_to_dec: "parse_dec_acc 0 (nat_to_dec n) = Some n"
proof (induction n rule: nat_to_dec.induct)
  case (1 n)
  show ?case
  proof (cases "n < 10")
    case True
    then show ?thesis by (subst nat_to_dec.simps) (simp add: Let_def)
  next
    case False
    with "1.IH" have "parse_dec_acc 0 (nat_to_dec (n div 10)) = Some (n div 10)" by simp
    with False show ?thesis
      by (subst nat_to_dec.simps) (simp add: parse_dec_acc_append Let_def)
  qed
qed

lemma parse_uint_nat_to_dec: "n < 2 ^ bits \<Longrightarrow> parse_uint bits (nat_to_dec n) = Some n"
  by (simp add: parse_uint_def parse_nat_to_dec)

lemma nat_to_dec_digits: "c \<in> set (nat_to_dec n) \<Longrightarrow> 48 \<le> (of_char c :: nat) \<and> (of_char c :: nat) \<le> 57"
proof (induction n rule: nat_to_dec.induct)
  case (1 n)
  show ?case
  proof (cases "n < 10")
    case True
    with "1.prems" show ?thesis by (subst (asm) nat_to_dec.simps) auto
  next
    case False
    with "1.prems" have "c \<in> set (nat_to_dec (n div 10)) \<or> c = char_of (48 + n mod 10)"
      by (subst (asm) nat_to_dec.simps) auto
    then show ?thesis using "1.IH" [OF False] by auto
  qed
qed

subsection \<open>Lemmas: searching strings\<close>

lemma IndexByte_None [simp]: "IndexByte s c = None \<longleftrightarrow> c \<notin> set s"
  by (simp add: IndexByte_def)

lemma IndexByte_absent: "c \<notin> set s \<Longrightarrow> IndexByte s c = None"
  by simp

lemma IndexByte_first [simp]:
  assumes "c \<notin> set s"
  shows "IndexByte (s @ c # t) c = Some (length s)"
proof -
  have "takeWhile (\<lambda>x. x \<noteq> c) s = s" using assms by (auto simp: takeWhile_eq_all_conv)
  then show ?thesis by (simp add: IndexByte_def takeWhile_tail)
qed

lemma LastIndexByte_absent [simp]: "c \<notin> set s \<Longrightarrow> LastIndexByte s c = None"
  by (simp add: LastIndexByte_def)

lemma Cut_first [simp]: "c \<notin> set s \<Longrightarrow> Cut (s @ c # t) c = Some (s, t)"
  by (simp add: Cut_def)

lemma Cut_absent [simp]: "c \<notin> set s \<Longrightarrow> Cut s c = None"
  by (simp add: Cut_def)

lemma Cut_SomeD: "Cut s c = Some (a, b) \<Longrightarrow> s = a @ c # b \<and> c \<notin> set a"
proof -
  assume a: "Cut s c = Some (a, b)"
  then have "c \<in> set s" by (auto simp: Cut_def IndexByte_def split: if_splits)
  then obtain xs ys where "s = xs @ c # ys" "c \<notin> set xs" by (meson split_list_first)
  with a show ?thesis by simp
qed

lemma update_fresh: "k \<notin> fst ` set al \<Longrightarrow> AList.update k v al = al @ [(k, v)]"
  by (induction al) auto

lemma set_delete_subset: "set (AList.delete k m) \<subseteq> set m"
  by (auto simp: AList.delete_eq)

end
