(* ===== verification/Jid.thy ===== *)
theory Jid
  imports Prelude
begin

text \<open>
  JIDs of \<^verbatim>\<open>protocol/binary/jid.go\<close>: the address record, its ADJID domain
  byte, the printer \<open>JID_String\<close> and the parser \<open>ParseJID\<close>.
\<close>

subsection \<open>Servers, agents, addresses\<close>

definition ServerUser :: string where "ServerUser = ''s.whatsapp.net''"
definition ServerGroup :: string where "ServerGroup = ''g.us''"
definition ServerLID :: string where "ServerLID = ''lid''"
definition ServerMSGram :: string where "ServerMSGram = ''msgr''"
definition ServerInterop :: string where "ServerInterop = ''interop''"
definition ServerHosted :: string where "ServerHosted = ''hosted''"
definition ServerHostedLID :: string where "ServerHostedLID = ''hosted.lid''"

definition AgentWhatsApp :: byte where "AgentWhatsApp = 0"
definition AgentLID :: byte where "AgentLID = 1"
definition AgentHosted :: byte where "AgentHosted = 128"
definition AgentHostedLID :: byte where "AgentHostedLID = 129"

lemmas server_defs = ServerUser_def ServerGroup_def ServerLID_def ServerMSGram_def ServerInterop_def
  ServerHosted_def ServerHostedLID_def
lemmas agent_defs = AgentWhatsApp_def AgentLID_def AgentHosted_def AgentHostedLID_def

record JID =
  User :: string
  RawAgent :: byte
  Device :: u16
  Integrator :: u16
  Server :: string

definition empty_jid :: JID where
  "empty_jid = \<lparr>User = '''', RawAgent = 0, Device = 0, Integrator = 0, Server = ''''\<rparr>"

datatype jid_error = EmptyJID | BadIntegrator string | BadAgent string | BadDevice string

definition NewJID :: "string \<Rightarrow> string \<Rightarrow> JID" where
  "NewJID user server = empty_jid\<lparr>User := user, Server := server\<rparr>"

definition NewADJID :: "string \<Rightarrow> byte \<Rightarrow> byte \<Rightarrow> JID" where
  "NewADJID user agent device =
     (let j = empty_jid\<lparr>User := user, Device := ucast device\<rparr>
      in if agent = AgentLID then j\<lparr>Server := ServerLID\<rparr>
         else if agent = AgentHosted then j\<lparr>Server := ServerHosted\<rparr>
         else if agent = AgentHostedLID then j\<lparr>Server := ServerHostedLID\<rparr>
         else if agent = AgentWhatsApp then j\<lparr>Server := ServerUser\<rparr>
         else j\<lparr>RawAgent := agent, Server := ServerUser\<rparr>)"

definition ActualAgent :: "JID \<Rightarrow> byte" where
  "ActualAgent j =
     (if Server j = ServerUser then AgentWhatsApp
      else if Server j = ServerLID then AgentLID
      else if Server j = ServerHosted then AgentHosted
      else if Server j = ServerHostedLID then AgentHostedLID
      else RawAgent j)"

definition isADJIDEncodable :: "JID \<Rightarrow> bool" where
  "isADJIDEncodable j =
     (if Server j \<in> {ServerUser, ServerLID, ServerHosted, ServerHostedLID}
      then Device j > 0 \<or> RawAgent j \<noteq> 0 else False)"

definition JID_String :: "JID \<Rightarrow> string" where
  "JID_String j =
     (if Server j = '''' then ''''
      else if RawAgent j > 0 then
        User j @ ''.'' @ nat_to_dec (unat (RawAgent j)) @ '':'' @ nat_to_dec (unat (Device j))
          @ ''@'' @ Server j
      else if Device j > 0 \<and> (Server j = ServerUser \<or> Server j = ServerLID) then
        User j @ '':'' @ nat_to_dec (unat (Device j)) @ ''@'' @ Server j
      else if User j \<noteq> '''' then User j @ ''@'' @ Server j
      else Server j)"

subsection \<open>Parsing\<close>

text \<open>The three suffixes of the user part, each a \<open>ParseUint\<close> of what follows its separator.\<close>

definition parse_integrator :: "string \<Rightarrow> string \<Rightarrow> string \<Rightarrow> jid_error + (string \<times> string \<times> u16)" where
  "parse_integrator raw user server =
     (case LastIndexByte user (CHR ''@'') of
        None \<Rightarrow> Inr (user, server, 0)
      | Some at \<Rightarrow> (case parse_uint 16 (drop (at + 1) user) of
                      None \<Rightarrow> Inl (BadIntegrator raw)
                    | Some iv \<Rightarrow> Inr (take at user, ServerInterop, of_nat iv)))"

definition parse_agent :: "string \<Rightarrow> string \<Rightarrow> jid_error + (string \<times> byte)" where
  "parse_agent raw user =
     (case IndexByte user (CHR ''.'') of
        None \<Rightarrow> Inr (user, 0)
      | Some dot \<Rightarrow> (case parse_uint 8 (drop (dot + 1) user) of
                       None \<Rightarrow> Inl (BadAgent raw)
                     | Some av \<Rightarrow> Inr (take dot user, of_nat av)))"

definition parse_device :: "string \<Rightarrow> string \<Rightarrow> jid_error + (string \<times> u16)" where
  "parse_device raw user =
     (case IndexByte user (CHR '':'') of
        None \<Rightarrow> Inr (user, 0)
      | Some colon \<Rightarrow> (case parse_uint 16 (drop (colon + 1) user) of
                         None \<Rightarrow> Inl (BadDevice raw)
                       | Some dv \<Rightarrow> Inr (take colon user, of_nat dv)))"

definition ParseJID :: "string \<Rightarrow> jid_error + JID" where
  "ParseJID raw =
     (case Cut raw (CHR ''@'') of
        None \<Rightarrow> if raw = '''' then Inl EmptyJID else Inr (empty_jid\<lparr>Server := raw\<rparr>)
      | Some (user, server) \<Rightarrow>
          and_then (parse_integrator raw user server) (\<lambda>(user, server, integrator).
          and_then (parse_agent raw user) (\<lambda>(user, agent).
          and_then (parse_device raw user) (\<lambda>(user, device).
            Inr \<lparr>User = user, RawAgent = agent, Device = device, Integrator = integrator,
                 Server = server\<rparr>))))"

text \<open>
  The addresses the string form can carry: no agent, no integrator, no separator
  inside the user part, and a device only on the two servers that print one.
\<close>

definition jid_canonical :: "JID \<Rightarrow> bool" where
  "jid_canonical j \<longleftrightarrow> RawAgent j = 0 \<and> Integrator j = 0 \<and> Server j \<noteq> '''' \<and>
     set (User j) \<inter> {CHR ''@'', CHR ''.'', CHR '':''} = {} \<and>
     (Device j > 0 \<longrightarrow> Server j = ServerUser \<or> Server j = ServerLID) \<and>
     (User j = '''' \<and> Device j = 0 \<longrightarrow> CHR ''@'' \<notin> set (Server j))"

subsection \<open>Lemmas\<close>

lemma dec_no_separator [simp]:
  "CHR ''@'' \<notin> set (nat_to_dec n)" "CHR ''.'' \<notin> set (nat_to_dec n)" "CHR '':'' \<notin> set (nat_to_dec n)"
  by (auto dest: nat_to_dec_digits)

lemma u16_bound: "unat (d :: u16) < 2 ^ 16"
  using unsigned_less [of d, where ?'a = nat] by simp

lemma parse_device_printed [simp]:
  "CHR '':'' \<notin> set user \<Longrightarrow> parse_device raw (user @ CHR '':'' # nat_to_dec (unat d)) = Inr (user, d)"
  using u16_bound [of d] by (simp add: parse_device_def parse_uint_nat_to_dec)

lemma ParseJID_user:
  assumes "set user \<inter> {CHR ''@'', CHR ''.'', CHR '':''} = {}"
  shows "ParseJID (user @ CHR ''@'' # server) = Inr (empty_jid\<lparr>User := user, Server := server\<rparr>)"
  using assms
  by (simp add: ParseJID_def parse_integrator_def parse_agent_def parse_device_def empty_jid_def
      IndexByte_absent)

lemma ParseJID_device:
  assumes "set user \<inter> {CHR ''@'', CHR ''.'', CHR '':''} = {}"
  shows "ParseJID (user @ CHR '':'' # nat_to_dec (unat d) @ CHR ''@'' # server)
           = Inr (empty_jid\<lparr>User := user, Device := d, Server := server\<rparr>)"
proof -
  have "Cut (user @ CHR '':'' # nat_to_dec (unat d) @ CHR ''@'' # server) (CHR ''@'')
      = Some (user @ CHR '':'' # nat_to_dec (unat d), server)"
    using assms Cut_first [of "CHR ''@''" "user @ CHR '':'' # nat_to_dec (unat d)" server] by simp
  then show ?thesis
    using assms
    by (simp add: ParseJID_def parse_integrator_def parse_agent_def empty_jid_def IndexByte_absent)
qed

lemma parse_uint_separator: "CHR '':'' \<in> set s \<Longrightarrow> parse_uint bits s = None"
proof -
  have "CHR '':'' \<in> set s \<Longrightarrow> parse_dec_acc v s = None" for v
    by (induction s arbitrary: v) (auto simp: Let_def)
  then show "CHR '':'' \<in> set s \<Longrightarrow> parse_uint bits s = None"
    by (simp add: parse_uint_def)
qed

subsection \<open>Properties\<close>

text \<open>
  Printing a canonical address and parsing the string gives
  the address back: bare servers, user addresses and device addresses.
\<close>

theorem jid_string_roundtrip: "jid_canonical j \<Longrightarrow> ParseJID (JID_String j) = Inr j"
proof -
  assume c: "jid_canonical j"
  then have j: "empty_jid\<lparr>User := User j, Device := Device j, Server := Server j\<rparr> = j"
    by (simp add: jid_canonical_def empty_jid_def)
  consider (device) "Device j > 0" | (user) "Device j = 0" "User j \<noteq> ''''"
    | (bare) "Device j = 0" "User j = ''''" by (auto simp: word_gt_0)
  then show ?thesis
  proof cases
    case device
    then show ?thesis using c ParseJID_device [of "User j" "Device j" "Server j"] j
      by (simp add: jid_canonical_def JID_String_def)
  next
    case user
    then show ?thesis using c ParseJID_user [of "User j" "Server j"] j
      by (simp add: jid_canonical_def JID_String_def empty_jid_def)
  next
    case bare
    then show ?thesis using c j
      by (simp add: jid_canonical_def JID_String_def ParseJID_def empty_jid_def)
  qed
qed

lemma jid_string_roundtrip_witness:
  "ParseJID (JID_String \<lparr>User = ''628'', RawAgent = 0, Device = 7, Integrator = 0, Server = ServerUser\<rparr>)
     = Inr \<lparr>User = ''628'', RawAgent = 0, Device = 7, Integrator = 0, Server = ServerUser\<rparr>"
  by (rule jid_string_roundtrip) (simp add: jid_canonical_def server_defs)

text \<open>
  The string form of an address with an agent is never parsed back:
  the parser takes the device for a part of the agent and refuses it.
\<close>

theorem jid_agent_rejected:
  assumes "RawAgent j > 0" "Server j \<noteq> ''''" "set (User j) \<inter> {CHR ''@'', CHR ''.''} = {}"
  shows "ParseJID (JID_String j) = Inl (BadAgent (JID_String j))"
proof -
  let ?suffix = "nat_to_dec (unat (RawAgent j)) @ CHR '':'' # nat_to_dec (unat (Device j))"
  have s: "JID_String j = (User j @ CHR ''.'' # ?suffix) @ CHR ''@'' # Server j"
    using assms(1,2) by (simp add: JID_String_def)
  have "Cut (JID_String j) (CHR ''@'') = Some (User j @ CHR ''.'' # ?suffix, Server j)"
    unfolding s using assms(3) by (intro Cut_first) simp
  then show ?thesis
    using assms(3)
    by (simp add: ParseJID_def parse_integrator_def parse_agent_def parse_uint_separator)
qed

lemma jid_agent_rejected_witness:
  "ParseJID (JID_String (NewADJID ''628'' 2 3)) = Inl (BadAgent (JID_String (NewADJID ''628'' 2 3)))"
  by (rule jid_agent_rejected)
    (simp_all add: NewADJID_def agent_defs server_defs empty_jid_def Let_def)

end
