(* ===== verification/Node.thy ===== *)
theory Node
  imports Jid
begin

text \<open>
  Protocol nodes of \<^verbatim>\<open>protocol/binary/node.go\<close>: the node tree, its
  constructors and its accessors. A value of Go's \<open>any\<close> is a \<open>val\<close>, one
  constructor per dynamic type the codec distinguishes; \<open>VOther\<close> stands for
  every other type and carries its \<open>%v\<close> rendering. The \<open>Attrs\<close> map is an
  association list with distinct keys (a nil map and an empty one are \<open>[]\<close>).
\<close>

subsection \<open>Nodes and values\<close>

datatype val =
    VNil
  | VStr string
  | VBytes bytes
  | VJID JID
  | VBool bool
  | VInt u64
  | VInt32 u32
  | VInt64 u64
  | VUint u64
  | VUint32 u32
  | VUint64 u64
  | VNode node
  | VNodes "node list"
  | VOther string
and node = Node (Tag: string) (Attrs: "(string \<times> val) list") (Content: val)

definition no_node :: node where
  "no_node = Node '''' [] VNil"

definition NewNode :: "string \<Rightarrow> (string \<times> val) list \<Rightarrow> node list \<Rightarrow> node" where
  "NewNode tag attrs content =
     (if length content > 0 then Node tag attrs (VNodes content) else Node tag attrs VNil)"

definition NewTextNode :: "string \<Rightarrow> string \<Rightarrow> node" where
  "NewTextNode tag text = Node tag [] (VStr text)"

definition NewBinaryNode :: "string \<Rightarrow> bytes \<Rightarrow> node" where
  "NewBinaryNode tag data = Node tag [] (VBytes data)"

definition Children :: "node \<Rightarrow> node list" where
  "Children n = (case Content n of VNodes c \<Rightarrow> c | _ \<Rightarrow> [])"

definition ChildByTag :: "node \<Rightarrow> string \<Rightarrow> node option" where
  "ChildByTag n tag = find (\<lambda>c. Tag c = tag) (Children n)"

definition ChildrenByTag :: "node \<Rightarrow> string \<Rightarrow> node list" where
  "ChildrenByTag n tag = filter (\<lambda>c. Tag c = tag) (Children n)"

fun DeepChild :: "node \<Rightarrow> string list \<Rightarrow> node option" where
  "DeepChild cur [] = Some cur"
| "DeepChild cur (tag # tags) =
     (case ChildByTag cur tag of None \<Rightarrow> None | Some next_node \<Rightarrow> DeepChild next_node tags)"

definition BytesContent :: "node \<Rightarrow> bytes option" where
  "BytesContent n =
     (case Content n of VBytes c \<Rightarrow> Some c | VStr c \<Rightarrow> Some (bytes_of_string c) | _ \<Rightarrow> None)"

definition TextContent :: "node \<Rightarrow> string option" where
  "TextContent n =
     (case Content n of VStr c \<Rightarrow> Some c | VBytes c \<Rightarrow> Some (string_of_bytes c) | _ \<Rightarrow> None)"

subsection \<open>Formatting with \<open>%v\<close>\<close>

definition join :: "string \<Rightarrow> string list \<Rightarrow> string" where
  "join sep xs = (case xs of [] \<Rightarrow> [] | x # ys \<Rightarrow> x @ concat (map (\<lambda>y. sep @ y) ys))"

definition FormatBool :: "bool \<Rightarrow> string" where
  "FormatBool b = (if b then ''true'' else ''false'')"

text \<open>
  \<open>fmt.Sprintf("%v", v)\<close>: nil, byte slices and node slices in brackets, a node as
  the struct \<open>{tag map[k:v] content}\<close> with the map's keys in order, a JID by its
  \<open>String\<close> method.
\<close>

primrec fmt_v :: "val \<Rightarrow> string" and fmt_node :: "node \<Rightarrow> string" where
  "fmt_v VNil = ''<nil>''"
| "fmt_v (VStr s) = s"
| "fmt_v (VBytes b) = ''['' @ join '' '' (map (\<lambda>x. nat_to_dec (unat x)) b) @ '']''"
| "fmt_v (VJID j) = JID_String j"
| "fmt_v (VBool b) = FormatBool b"
| "fmt_v (VInt i) = int_to_dec (sint i)"
| "fmt_v (VInt32 i) = int_to_dec (sint i)"
| "fmt_v (VInt64 i) = int_to_dec (sint i)"
| "fmt_v (VUint i) = nat_to_dec (unat i)"
| "fmt_v (VUint32 i) = nat_to_dec (unat i)"
| "fmt_v (VUint64 i) = nat_to_dec (unat i)"
| "fmt_v (VNode n) = fmt_node n"
| "fmt_v (VNodes ns) = ''['' @ join '' '' (map fmt_node ns) @ '']''"
| "fmt_v (VOther s) = s"
| "fmt_node (Node tag attrs content) =
     ''{'' @ tag @ '' map['' @
     join '' '' (map (\<lambda>(k, v). k @ '':'' @ v) (sort_key fst (map (map_prod (\<lambda>k. k) fmt_v) attrs)))
     @ ''] '' @ fmt_v content @ ''}''"

subsection \<open>Attribute accessors\<close>

definition StringAttr :: "node \<Rightarrow> string \<Rightarrow> string option" where
  "StringAttr n key =
     (case map_of (Attrs n) key of
        None \<Rightarrow> None
      | Some VNil \<Rightarrow> None
      | Some (VStr s) \<Rightarrow> Some s
      | Some (VBytes b) \<Rightarrow> Some (string_of_bytes b)
      | Some (VJID j) \<Rightarrow> Some (JID_String j)
      | Some (VInt64 i) \<Rightarrow> Some (int_to_dec (sint i))
      | Some (VBool b) \<Rightarrow> Some (if b then ''true'' else ''false'')
      | Some v \<Rightarrow> Some (fmt_v v))"

definition MustStringAttr :: "node \<Rightarrow> string \<Rightarrow> string" where
  "MustStringAttr n key = (case StringAttr n key of Some s \<Rightarrow> s | None \<Rightarrow> '''')"

text \<open>\<open>ParseJIDAttr\<close> of \<^verbatim>\<open>decoder.go\<close> and the \<open>JIDAttr\<close> method share their switch.\<close>

definition ParseJIDAttr :: "val \<Rightarrow> JID option" where
  "ParseJIDAttr v =
     (case v of
        VJID j \<Rightarrow> Some j
      | VStr s \<Rightarrow> (case ParseJID s of Inl _ \<Rightarrow> None | Inr j \<Rightarrow> Some j)
      | _ \<Rightarrow> None)"

definition JIDAttr :: "node \<Rightarrow> string \<Rightarrow> JID option" where
  "JIDAttr n key = (case map_of (Attrs n) key of None \<Rightarrow> None | Some v \<Rightarrow> ParseJIDAttr v)"

subsection \<open>Valid UTF-8\<close>

definition in_range :: "byte \<Rightarrow> byte \<Rightarrow> byte \<Rightarrow> bool" where
  "in_range lo hi b \<longleftrightarrow> lo \<le> b \<and> b \<le> hi"

text \<open>\<open>utf8.Valid\<close>: no overlong forms, no surrogates, nothing above U+10FFFF.\<close>

fun utf8_valid :: "bytes \<Rightarrow> bool" where
  "utf8_valid [] = True"
| "utf8_valid (b # bs) =
     (if b < 0x80 then utf8_valid bs
      else if in_range 0xC2 0xDF b then
        (case bs of c # cs \<Rightarrow> in_range 0x80 0xBF c \<and> utf8_valid cs | _ \<Rightarrow> False)
      else if in_range 0xE0 0xEF b then
        (case bs of c # c' # cs \<Rightarrow>
           in_range (if b = 0xE0 then 0xA0 else 0x80) (if b = 0xED then 0x9F else 0xBF) c
           \<and> in_range 0x80 0xBF c' \<and> utf8_valid cs | _ \<Rightarrow> False)
      else if in_range 0xF0 0xF4 b then
        (case bs of c # c' # c'' # cs \<Rightarrow>
           in_range (if b = 0xF0 then 0x90 else 0x80) (if b = 0xF4 then 0x8F else 0xBF) c
           \<and> in_range 0x80 0xBF c' \<and> in_range 0x80 0xBF c'' \<and> utf8_valid cs | _ \<Rightarrow> False)
      else False)"

text \<open>Texts that \<open>encoding/json\<close> keeps: it replaces the bytes of others.\<close>

definition utf8 :: "string \<Rightarrow> bool" where
  "utf8 s \<longleftrightarrow> utf8_valid (bytes_of_string s)"

lemma utf8_valid_ascii: "list_all (\<lambda>b. b < 0x80) bs \<Longrightarrow> utf8_valid bs"
  by (induction bs) simp_all

subsection \<open>Lemmas on accessors\<close>

lemma ChildByTag_tag: "ChildByTag n tag = Some c \<Longrightarrow> c \<in> set (ChildrenByTag n tag)"
  by (auto simp: ChildByTag_def ChildrenByTag_def find_Some_iff)

lemma find_filter: "find P xs = (case filter P xs of [] \<Rightarrow> None | x # ys \<Rightarrow> Some x)"
  by (induction xs) simp_all

lemma ChildByTag_hd:
  "ChildByTag n tag = (case ChildrenByTag n tag of [] \<Rightarrow> None | c # cs \<Rightarrow> Some c)"
  by (simp add: ChildByTag_def ChildrenByTag_def find_filter)

end
