(* ===== verification/Token.thy ===== *)
theory Token
  imports Prelude
begin

text \<open>
  The token dictionaries of \<^verbatim>\<open>protocol/token/token.go\<close>: the tag bytes, a
  dictionary with its two reverse indices, the loader that fills them and the
  four lookups. \<open>json.Unmarshal\<close> is a parameter of the loader. An index byte is
  the word \<open>byte(i)\<close> and wraps as the code's conversion does.
\<close>

subsection \<open>Tags\<close>

definition ListEmpty :: byte where "ListEmpty = 0"
definition Dictionary0 :: byte where "Dictionary0 = 236"
definition Dictionary1 :: byte where "Dictionary1 = 237"
definition Dictionary2 :: byte where "Dictionary2 = 238"
definition Dictionary3 :: byte where "Dictionary3 = 239"
definition InteropJID :: byte where "InteropJID = 245"
definition FBJID :: byte where "FBJID = 246"
definition ADJID :: byte where "ADJID = 247"
definition List8 :: byte where "List8 = 248"
definition List16 :: byte where "List16 = 249"
definition JIDPair :: byte where "JIDPair = 250"
definition Hex8 :: byte where "Hex8 = 251"
definition Binary8 :: byte where "Binary8 = 252"
definition Binary20 :: byte where "Binary20 = 253"
definition Binary32 :: byte where "Binary32 = 254"
definition Nibble8 :: byte where "Nibble8 = 255"

definition PackedMax :: nat where "PackedMax = 127"
definition SingleByteMax :: nat where "SingleByteMax = 256"

lemmas tag_defs = ListEmpty_def Dictionary0_def Dictionary1_def Dictionary2_def Dictionary3_def
  InteropJID_def FBJID_def ADJID_def List8_def List16_def JIDPair_def Hex8_def Binary8_def
  Binary20_def Binary32_def Nibble8_def

subsection \<open>Dictionaries\<close>

record dictFile =
  df_Version :: int
  df_SingleByte :: "string list"
  df_DoubleByte :: "string list list"

record Dictionary =
  Version :: int
  SingleByte :: "string list"
  DoubleByte :: "string list list"
  singleIndex :: "string \<rightharpoonup> byte"
  doubleIndex :: "string \<rightharpoonup> byte \<times> byte"

datatype token_error = ParseDictionary string | TooManySingle nat | TooManyDouble nat

text \<open>The two index loops: a later single-byte token wins, an earlier double-byte one does.\<close>

definition index_singles :: "string list \<Rightarrow> string \<rightharpoonup> byte" where
  "index_singles ts =
     fold (\<lambda>(i, t) m. if t \<noteq> '''' then m(t \<mapsto> of_nat i) else m) (enumerate 0 ts) Map.empty"

definition index_doubles :: "string list list \<Rightarrow> string \<rightharpoonup> byte \<times> byte" where
  "index_doubles ds =
     fold (\<lambda>(di, list) m.
       fold (\<lambda>(i, t) m. if m t = None then m(t \<mapsto> (of_nat di, of_nat i)) else m)
         (enumerate 0 list) m) (enumerate 0 ds) Map.empty"

definition FromJSON :: "(bytes \<Rightarrow> string + dictFile) \<Rightarrow> bytes \<Rightarrow> token_error + Dictionary" where
  "FromJSON unmarshal data =
     (case unmarshal data of
        Inl err \<Rightarrow> Inl (ParseDictionary err)
      | Inr f \<Rightarrow>
          if length (df_SingleByte f) > SingleByteMax then Inl (TooManySingle (length (df_SingleByte f)))
          else if length (df_DoubleByte f) > 4 then Inl (TooManyDouble (length (df_DoubleByte f)))
          else Inr \<lparr>Version = df_Version f, SingleByte = df_SingleByte f,
                    DoubleByte = df_DoubleByte f,
                    singleIndex = index_singles (df_SingleByte f),
                    doubleIndex = index_doubles (df_DoubleByte f)\<rparr>)"

definition SingleToken :: "Dictionary \<Rightarrow> int \<Rightarrow> string option" where
  "SingleToken d index =
     (if index < 1 \<or> index \<ge> int (length (SingleByte d)) \<or> SingleByte d ! nat index = '''' then None
      else Some (SingleByte d ! nat index))"

definition DoubleToken :: "Dictionary \<Rightarrow> int \<Rightarrow> int \<Rightarrow> string option" where
  "DoubleToken d dict index =
     (if dict < 0 \<or> dict \<ge> int (length (DoubleByte d)) \<or> index < 0
         \<or> index \<ge> int (length (DoubleByte d ! nat dict)) then None
      else Some (DoubleByte d ! nat dict ! nat index))"

definition IndexOfSingle :: "Dictionary \<Rightarrow> string \<Rightarrow> byte option" where
  "IndexOfSingle d t = singleIndex d t"

definition IndexOfDouble :: "Dictionary \<Rightarrow> string \<Rightarrow> (byte \<times> byte) option" where
  "IndexOfDouble d t = doubleIndex d t"

definition Lookup :: "Dictionary \<Rightarrow> string \<Rightarrow> string \<times> byte \<times> byte" where
  "Lookup d t =
     (case singleIndex d t of
        Some i \<Rightarrow> (''single'', i, 0)
      | None \<Rightarrow> (case doubleIndex d t of
                   Some (a, b) \<Rightarrow> (''double'', a, b)
                 | None \<Rightarrow> ('''', 0, 0)))"

definition Dictionary_String :: "Dictionary \<Rightarrow> string" where
  "Dictionary_String d =
     ''token.Dictionary{v'' @ int_to_dec (Version d) @ '' single='' @ nat_to_dec (length (SingleByte d))
     @ concat (map (\<lambda>l. '' double+'' @ nat_to_dec (length l)) (DoubleByte d)) @ ''}''"

subsection \<open>The indices invert the tables\<close>

lemma fold_singles:
  "fold (\<lambda>(i, t) m. if t \<noteq> '''' then m(t \<mapsto> of_nat i) else m) (enumerate n ts) m t = Some b \<Longrightarrow>
     m t = Some b \<or> (t \<noteq> '''' \<and> (\<exists>i < length ts. ts ! i = t \<and> b = of_nat (n + i)))"
proof (induction ts arbitrary: n m)
  case Nil
  then show ?case by simp
next
  case (Cons u ts)
  from Cons.IH [of "Suc n" "if u \<noteq> '''' then m(u \<mapsto> of_nat n) else m"] Cons.prems
  consider "(if u \<noteq> '''' then m(u \<mapsto> of_nat n) else m) t = Some b"
    | i where "t \<noteq> ''''" "i < length ts" "ts ! i = t" "b = of_nat (Suc n + i)" by auto
  then show ?case
  proof cases
    case 1
    then show ?thesis by (auto split: if_splits intro!: exI [of _ 0])
  next
    case 2
    then show ?thesis by (intro disjI2 conjI exI [of _ "Suc i"]) auto
  qed
qed

lemma index_singles_nth:
  assumes "index_singles ts t = Some b" "length ts \<le> 256"
  shows "t \<noteq> '''' \<and> unat b < length ts \<and> ts ! unat b = t"
  using fold_singles [of 0 ts Map.empty t b] assms
  by (auto simp: index_singles_def unat_of_nat)

lemma fold_doubles_row:
  "fold (\<lambda>(i, t) m. if m t = None then m(t \<mapsto> (of_nat di, of_nat i)) else m) (enumerate n ts) m t
     = Some (a, b) \<Longrightarrow>
     m t = Some (a, b) \<or> (\<exists>i < length ts. ts ! i = t \<and> a = of_nat di \<and> b = of_nat (n + i))"
proof (induction ts arbitrary: n m)
  case Nil
  then show ?case by simp
next
  case (Cons u ts)
  from Cons.IH [of "Suc n" "if m u = None then m(u \<mapsto> (of_nat di, of_nat n)) else m"] Cons.prems
  consider "(if m u = None then m(u \<mapsto> (of_nat di, of_nat n)) else m) t = Some (a, b)"
    | i where "i < length ts" "ts ! i = t" "a = of_nat di" "b = of_nat (Suc n + i)" by auto
  then show ?case
  proof cases
    case 1
    then show ?thesis by (auto split: if_splits intro!: exI [of _ 0])
  next
    case 2
    then show ?thesis by (intro disjI2 exI [of _ "Suc i"]) auto
  qed
qed

lemma fold_doubles:
  "fold (\<lambda>(di, list) m.
       fold (\<lambda>(i, t) m. if m t = None then m(t \<mapsto> (of_nat di, of_nat i)) else m)
         (enumerate 0 list) m) (enumerate n ds) m t = Some (a, b) \<Longrightarrow>
     m t = Some (a, b) \<or>
     (\<exists>j < length ds. \<exists>i < length (ds ! j). ds ! j ! i = t \<and> a = of_nat (n + j) \<and> b = of_nat i)"
proof (induction ds arbitrary: n m)
  case Nil
  then show ?case by simp
next
  case (Cons row ds)
  let ?m = "fold (\<lambda>(i, t) m. if m t = None then m(t \<mapsto> (of_nat n, of_nat i)) else m) (enumerate 0 row) m"
  from Cons.IH [of "Suc n" ?m] Cons.prems
  consider "?m t = Some (a, b)"
    | j i where "j < length ds" "i < length (ds ! j)" "ds ! j ! i = t" "a = of_nat (Suc n + j)"
        "b = of_nat i" by auto
  then show ?case
  proof cases
    case 1
    from fold_doubles_row [OF this] consider "m t = Some (a, b)"
      | i where "i < length row" "row ! i = t" "a = of_nat n" "b = of_nat i" by auto
    then show ?thesis
    proof cases
      case 2
      then have "\<exists>i < length ((row # ds) ! 0). (row # ds) ! 0 ! i = t \<and> a = of_nat (n + 0) \<and> b = of_nat i"
        by auto
      then show ?thesis by (metis length_greater_0_conv list.distinct(1))
    qed simp
  next
    case 2
    then show ?thesis by (intro disjI2 exI [of _ "Suc j"]) auto
  qed
qed

lemma index_doubles_nth:
  assumes "index_doubles ds t = Some (a, b)" "length ds \<le> 4" "\<forall>row \<in> set ds. length row \<le> 256"
  shows "unat a < length ds \<and> unat b < length (ds ! unat a) \<and> ds ! unat a ! unat b = t"
proof -
  obtain j i where ji: "j < length ds" "i < length (ds ! j)" "ds ! j ! i = t" "a = of_nat j" "b = of_nat i"
    using fold_doubles [of 0 ds Map.empty t a b] assms(1) by (auto simp: index_doubles_def)
  moreover have "length (ds ! j) \<le> 256" using ji(1) assms(3) by simp
  ultimately show ?thesis using assms(2) by (simp add: unat_of_nat)
qed

lemma index_singles_complete:
  "t \<in> set ts \<Longrightarrow> t \<noteq> '''' \<Longrightarrow> \<exists>b. index_singles ts t = Some b"
proof -
  have "m t \<noteq> None \<or> t \<in> set ts \<Longrightarrow> t \<noteq> '''' \<Longrightarrow>
      fold (\<lambda>(i, t) m. if t \<noteq> '''' then m(t \<mapsto> of_nat i) else m) (enumerate n ts) m t \<noteq> None"
    for n m
    by (induction ts arbitrary: n m) auto
  then show "t \<in> set ts \<Longrightarrow> t \<noteq> '''' \<Longrightarrow> \<exists>b. index_singles ts t = Some b"
    by (simp add: index_singles_def option.collapse)
qed

lemma fold_doubles_row_keeps:
  "m t \<noteq> None \<or> t \<in> set ts \<Longrightarrow>
   fold (\<lambda>(i, t) m. if m t = None then m(t \<mapsto> (of_nat di, of_nat i)) else m) (enumerate n ts) m t
     \<noteq> None"
  by (induction ts arbitrary: n m) auto

lemma index_doubles_complete:
  "row \<in> set ds \<Longrightarrow> t \<in> set row \<Longrightarrow> \<exists>p. index_doubles ds t = Some p"
proof -
  have "m t \<noteq> None \<or> (\<exists>row \<in> set ds. t \<in> set row) \<Longrightarrow>
      fold (\<lambda>(di, list) m.
       fold (\<lambda>(i, t) m. if m t = None then m(t \<mapsto> (of_nat di, of_nat i)) else m)
         (enumerate 0 list) m) (enumerate n ds) m t \<noteq> None" for n and m :: "string \<rightharpoonup> byte \<times> byte"
  proof (induction ds arbitrary: n m)
    case Nil
    then show ?case by simp
  next
    case (Cons row ds)
    let ?m = "fold (\<lambda>(i, t) m. if m t = None then m(t \<mapsto> (of_nat n, of_nat i)) else m) (enumerate 0 row) m"
    have "?m t \<noteq> None \<or> (\<exists>row \<in> set ds. t \<in> set row)"
      using Cons.prems fold_doubles_row_keeps [of m t row n 0] by (cases "t \<in> set row") auto
    with Cons.IH [of ?m "Suc n"] show ?case by simp
  qed
  from this [of Map.empty 0] show "row \<in> set ds \<Longrightarrow> t \<in> set row \<Longrightarrow> \<exists>p. index_doubles ds t = Some p"
    unfolding index_doubles_def not_None_eq [symmetric] by blast
qed

subsection \<open>Well-formed dictionaries\<close>

text \<open>
  A dictionary as the loader builds it: the indices are those of the tables and
  the limits hold. \<open>dict_tables\<close> is what the loader does not check: that a
  single-byte index is not one of the tags, that index 0 is unused and that a
  row has at most 256 tokens.
\<close>

definition loaded :: "Dictionary \<Rightarrow> bool" where
  "loaded d \<longleftrightarrow> length (SingleByte d) \<le> SingleByteMax \<and> length (DoubleByte d) \<le> 4 \<and>
     singleIndex d = index_singles (SingleByte d) \<and> doubleIndex d = index_doubles (DoubleByte d)"

definition dict_tables :: "string list \<Rightarrow> string list list \<Rightarrow> bool" where
  "dict_tables single double \<longleftrightarrow> length single \<le> 236 \<and> (single \<noteq> [] \<longrightarrow> hd single = '''') \<and>
     (\<forall>row \<in> set double. length row \<le> 256)"

lemma FromJSON_loaded: "FromJSON unmarshal data = Inr d \<Longrightarrow> loaded d"
  by (auto simp: FromJSON_def loaded_def split: sum.splits if_splits)

lemma SingleToken_uint:
  "SingleToken d (uint (b :: byte)) =
     (if unat b = 0 \<or> length (SingleByte d) \<le> unat b \<or> SingleByte d ! unat b = '''' then None
      else Some (SingleByte d ! unat b))"
proof -
  have u: "uint b = int (unat b)" by simp
  have "int (unat b) < 1 \<longleftrightarrow> unat b = 0" by linarith
  then show ?thesis unfolding SingleToken_def u of_nat_le_iff nat_int by simp
qed

lemma DoubleToken_uint:
  "DoubleToken d (uint (a :: byte)) (uint (b :: byte)) =
     (if length (DoubleByte d) \<le> unat a \<or> length (DoubleByte d ! unat a) \<le> unat b then None
      else Some (DoubleByte d ! unat a ! unat b))"
proof -
  have u: "uint a = int (unat a)" "uint b = int (unat b)" by simp_all
  show ?thesis unfolding DoubleToken_def u of_nat_le_iff by simp
qed

lemma singleIndex_SingleToken:
  assumes "loaded d" "dict_tables (SingleByte d) (DoubleByte d)" "singleIndex d t = Some b"
  shows "0 < unat b \<and> unat b < 236 \<and> SingleToken d (int (unat b)) = Some t"
proof -
  have nth: "t \<noteq> '''' \<and> unat b < length (SingleByte d) \<and> SingleByte d ! unat b = t"
    using assms by (intro index_singles_nth) (auto simp: loaded_def SingleByteMax_def)
  moreover have "unat b \<noteq> 0"
  proof
    assume z: "unat b = 0"
    with nth have "SingleByte d \<noteq> []" by auto
    with nth z assms(2) show False by (auto simp: dict_tables_def hd_conv_nth)
  qed
  ultimately show ?thesis using assms(2) by (auto simp: SingleToken_uint dict_tables_def)
qed

lemma doubleIndex_DoubleToken:
  assumes "loaded d" "dict_tables (SingleByte d) (DoubleByte d)" "doubleIndex d t = Some (a, b)"
  shows "unat a < 4 \<and> DoubleToken d (int (unat a)) (int (unat b)) = Some t"
proof -
  have "unat a < length (DoubleByte d) \<and> unat b < length (DoubleByte d ! unat a)
      \<and> DoubleByte d ! unat a ! unat b = t"
    using assms by (intro index_doubles_nth) (auto simp: loaded_def dict_tables_def)
  then show ?thesis using assms(1) by (auto simp: DoubleToken_uint loaded_def)
qed

subsection \<open>Property\<close>

text \<open>
  In a dictionary the loader accepts, whose tables leave index 0
  and the tag bytes free, every token is found and its index reads back as the
  token: a non-empty single-byte token always, at an index below the tags, and a
  double-byte token in one of the four dictionaries.
\<close>

theorem token_lookup_inverse:
  assumes "FromJSON unmarshal data = Inr d" "dict_tables (SingleByte d) (DoubleByte d)"
  shows "(\<forall>t. t \<in> set (SingleByte d) \<and> t \<noteq> '''' \<longrightarrow>
            (\<exists>i. Lookup d t = (''single'', i, 0) \<and> unat i < 236 \<and> SingleToken d (int (unat i)) = Some t)) \<and>
         (\<forall>row t. row \<in> set (DoubleByte d) \<and> t \<in> set row \<and> IndexOfSingle d t = None \<longrightarrow>
            (\<exists>a b. Lookup d t = (''double'', a, b) \<and> unat a < 4 \<and>
                   DoubleToken d (int (unat a)) (int (unat b)) = Some t))"
proof (intro conjI allI impI)
  have l: "loaded d" using assms(1) by (rule FromJSON_loaded)
  fix t assume "t \<in> set (SingleByte d) \<and> t \<noteq> ''''"
  then obtain i where "singleIndex d t = Some i"
    using l index_singles_complete by (auto simp: loaded_def)
  then show "\<exists>i. Lookup d t = (''single'', i, 0) \<and> unat i < 236 \<and> SingleToken d (int (unat i)) = Some t"
    using singleIndex_SingleToken [OF l assms(2)] by (auto simp: Lookup_def)
next
  have l: "loaded d" using assms(1) by (rule FromJSON_loaded)
  fix row t assume *: "row \<in> set (DoubleByte d) \<and> t \<in> set row \<and> IndexOfSingle d t = None"
  then obtain a b where "doubleIndex d t = Some (a, b)"
    using l index_doubles_complete by (fastforce simp: loaded_def)
  then show "\<exists>a b. Lookup d t = (''double'', a, b) \<and> unat a < 4 \<and>
      DoubleToken d (int (unat a)) (int (unat b)) = Some t"
    using doubleIndex_DoubleToken [OF l assms(2)] * by (auto simp: Lookup_def IndexOfSingle_def)
qed

lemma token_lookup_inverse_witness:
  "\<exists>d. FromJSON (\<lambda>_. Inr \<lparr>df_Version = 3, df_SingleByte = ['''', ''iq''], df_DoubleByte = [[''media'']]\<rparr>) [] = Inr d
     \<and> (\<exists>i. Lookup d ''iq'' = (''single'', i, 0) \<and> SingleToken d (int (unat i)) = Some ''iq'')"
proof -
  let ?f = "\<lparr>df_Version = 3, df_SingleByte = ['''', ''iq''], df_DoubleByte = [[''media'']]\<rparr>"
  obtain d where d: "FromJSON (\<lambda>_. Inr ?f) [] = Inr d" "SingleByte d = ['''', ''iq'']"
      "DoubleByte d = [[''media'']]"
    by (auto simp: FromJSON_def SingleByteMax_def)
  then show ?thesis using token_lookup_inverse [OF d(1)] by (auto simp: dict_tables_def)
qed

end
