(* ===== verification/Encoder.thy ===== *)
theory Encoder
  imports Node Token
begin

text \<open>
  The node encoder of \<^verbatim>\<open>protocol/binary/encoder.go\<close>. The encoder is a record
  with the dictionary, the output so far and the first error; every method is a
  function on it, and a failed encoder ignores what follows.
\<close>

subsection \<open>State\<close>

datatype enc_error = ListTooLarge nat | UnsupportedContentType | BlobTooLarge nat

record Encoder =
  enc_dict :: Dictionary
  enc_buf :: bytes
  enc_err :: "enc_error option"

definition NewEncoder :: "Dictionary \<Rightarrow> Encoder" where
  "NewEncoder d = \<lparr>enc_dict = d, enc_buf = [], enc_err = None\<rparr>"

definition push :: "bytes \<Rightarrow> Encoder \<Rightarrow> Encoder" where
  "push bs e = (if enc_err e \<noteq> None then e else e\<lparr>enc_buf := enc_buf e @ bs\<rparr>)"

definition fail :: "enc_error \<Rightarrow> Encoder \<Rightarrow> Encoder" where
  "fail x e = (if enc_err e = None then e\<lparr>enc_err := Some x\<rparr> else e)"

subsection \<open>Headers\<close>

definition writeListStart :: "nat \<Rightarrow> Encoder \<Rightarrow> Encoder" where
  "writeListStart sz =
     (if sz = 0 then push [ListEmpty]
      else if sz < 256 then push [List8, of_nat sz]
      else if sz < 65535 then push [List16, of_nat (sz div 256), of_nat sz]
      else fail (ListTooLarge sz))"

definition writeBytesLen :: "nat \<Rightarrow> Encoder \<Rightarrow> Encoder" where
  "writeBytesLen n =
     (if n < 256 then push [Binary8, of_nat n]
      else if n < 2 ^ 20 then
        push [Binary20, of_nat (n div 2 ^ 16) AND 0x0F, of_nat (n div 256), of_nat n]
      else if n < 2 ^ 31 - 1 then
        push [Binary32, of_nat (n div 2 ^ 24), of_nat (n div 2 ^ 16), of_nat (n div 256), of_nat n]
      else fail (BlobTooLarge n))"

definition writeBytes :: "bytes \<Rightarrow> Encoder \<Rightarrow> Encoder" where
  "writeBytes b = push b \<circ> writeBytesLen (length b)"

subsection \<open>Packed strings\<close>

definition nibble_char :: "byte \<Rightarrow> bool" where
  "nibble_char c \<longleftrightarrow> (0x30 \<le> c \<and> c \<le> 0x39) \<or> c = 0x2D \<or> c = 0x2E"

definition hex_char :: "byte \<Rightarrow> bool" where
  "hex_char c \<longleftrightarrow> (0x30 \<le> c \<and> c \<le> 0x39) \<or> (0x41 \<le> c \<and> c \<le> 0x46)"

definition isNibblePackable :: "bytes \<Rightarrow> bool" where
  "isNibblePackable s =
     (if length s = 0 \<or> length s > PackedMax then False else list_all nibble_char s)"

definition isHexPackable :: "bytes \<Rightarrow> bool" where
  "isHexPackable s =
     (if length s = 0 \<or> length s > PackedMax then False else list_all hex_char s)"

definition packNibble :: "byte \<Rightarrow> byte" where
  "packNibble c =
     (if 0x30 \<le> c \<and> c \<le> 0x39 then c - 0x30
      else if c = 0x2D then 10
      else if c = 0x2E then 11
      else 15)"

definition packHex :: "byte \<Rightarrow> byte" where
  "packHex c =
     (if 0x30 \<le> c \<and> c \<le> 0x39 then c - 0x30
      else if 0x41 \<le> c \<and> c \<le> 0x46 then 10 + (c - 0x41)
      else 15)"

text \<open>The two loops of \<open>writePacked\<close>: pairs, then the last character of an odd string.\<close>

fun pack_pairs :: "(byte \<Rightarrow> byte) \<Rightarrow> bytes \<Rightarrow> bytes" where
  "pack_pairs pack (a # b # s) = (push_bit 4 (pack a) OR pack b) # pack_pairs pack s"
| "pack_pairs pack [a] = [push_bit 4 (pack a)]"
| "pack_pairs pack [] = []"

definition writePacked :: "bytes \<Rightarrow> byte \<Rightarrow> (byte \<Rightarrow> byte) \<Rightarrow> Encoder \<Rightarrow> Encoder" where
  "writePacked s tag pack =
     (let round = (of_nat ((length s + 1) div 2) :: byte);
          round = (if length s mod 2 \<noteq> 0 then round OR 0x80 else round)
      in push (pack_pairs pack s) \<circ> push [round] \<circ> push [tag])"

definition writeString :: "string \<Rightarrow> Encoder \<Rightarrow> Encoder" where
  "writeString s e =
     (let b = bytes_of_string s
      in case IndexOfSingle (enc_dict e) s of
           Some idx \<Rightarrow> push [idx] e
         | None \<Rightarrow>
             (case IndexOfDouble (enc_dict e) s of
                Some (dictIdx, idx) \<Rightarrow> push [Dictionary0 + dictIdx, idx] e
              | None \<Rightarrow>
                  if isNibblePackable b then writePacked b Nibble8 packNibble e
                  else if isHexPackable b then writePacked b Hex8 packHex e
                  else push b (writeBytesLen (length s) e)))"

subsection \<open>Values\<close>

definition writeJID :: "JID \<Rightarrow> Encoder \<Rightarrow> Encoder" where
  "writeJID j =
     (if isADJIDEncodable j then
        writeString (User j) \<circ> push [ADJID, ActualAgent j, ucast (Device j AND 0xFF)]
      else if Server j = ServerMSGram then
        writeString (Server j) \<circ> push [ucast (drop_bit 8 (Device j)), ucast (Device j)]
          \<circ> writeString (User j) \<circ> push [FBJID]
      else if Server j = ServerInterop then
        writeString (Server j) \<circ> push [ucast (drop_bit 8 (Integrator j)), ucast (Integrator j)]
          \<circ> push [ucast (drop_bit 8 (Device j)), ucast (Device j)]
          \<circ> writeString (User j) \<circ> push [InteropJID]
      else
        writeString (Server j)
          \<circ> (if User j = '''' then push [ListEmpty] else writeString (User j)) \<circ> push [JIDPair])"

text \<open>\<open>countableAttrs\<close>: the attributes with a value, in the order of their keys.\<close>

definition countable_val :: "val \<Rightarrow> bool" where
  "countable_val v \<longleftrightarrow> v \<noteq> VNil \<and> v \<noteq> VStr ''''"

definition countableAttrs :: "node \<Rightarrow> (string \<times> val) list" where
  "countableAttrs n = sort_key fst (filter (\<lambda>(k, v). countable_val v) (Attrs n))"

lemma countableAttrs_size: "kv \<in> set (countableAttrs n) \<Longrightarrow> size (snd kv) < size n"
proof (cases n)
  case (Node tag attrs content)
  assume "kv \<in> set (countableAttrs n)"
  then have m: "kv \<in> set attrs" by (auto simp: Node countableAttrs_def)
  then have "size (snd kv) \<le> size_list (size_prod (\<lambda>_. 0) size) attrs"
    by (intro size_list_estimation') (auto simp: size_prod_simp)
  then show ?thesis by (simp add: Node)
qed

lemma Content_size: "size (Content n) < size n"
  by (cases n) simp

lemma VNodes_size: "child \<in> set ns \<Longrightarrow> size child < size (VNodes ns)"
  using size_list_estimation' [of child ns "size child" size] by simp

function (sequential) WriteNode :: "node \<Rightarrow> Encoder \<Rightarrow> Encoder"
  and write_val :: "val \<Rightarrow> Encoder \<Rightarrow> Encoder" where
  "WriteNode n e =
     (if enc_err e \<noteq> None then e
      else if Tag n = ''0'' then push [List8, ListEmpty] e
      else
        let hasContent = (if Content n \<noteq> VNil then 1 else 0);
            attrs = countableAttrs n;
            e = writeListStart (2 * length attrs + 1 + hasContent) e;
            e = writeString (Tag n) e;
            e = fold (\<lambda>kv e. write_val (snd kv) (writeString (fst kv) e)) attrs e
        in if hasContent = (1::nat) then write_val (Content n) e else e)"
| "write_val VNil e = push [ListEmpty] e"
| "write_val (VNode n) e = WriteNode n e"
| "write_val (VNodes ns) e = fold (\<lambda>child e. WriteNode child e) ns (writeListStart (length ns) e)"
| "write_val (VJID j) e = writeJID j e"
| "write_val (VStr s) e = writeString s e"
| "write_val (VBytes b) e = writeBytes b e"
| "write_val (VBool b) e = writeString (FormatBool b) e"
| "write_val (VInt i) e = writeString (int_to_dec (sint i)) e"
| "write_val (VInt32 i) e = writeString (int_to_dec (sint i)) e"
| "write_val (VInt64 i) e = writeString (int_to_dec (sint i)) e"
| "write_val (VUint i) e = writeString (nat_to_dec (unat i)) e"
| "write_val (VUint32 i) e = writeString (nat_to_dec (unat i)) e"
| "write_val (VUint64 i) e = writeString (nat_to_dec (unat i)) e"
| "write_val (VOther s) e = fail UnsupportedContentType e"
  by pat_completeness auto
termination
  by (relation "measure (\<lambda>x. case x of Inl (n, e) \<Rightarrow> size n | Inr (v, e) \<Rightarrow> size v)")
    (simp_all only: wf_measure in_measure sum.case prod.case Content_size countableAttrs_size
      VNodes_size, simp)

declare WriteNode.simps [simp del]

definition Encode :: "node \<Rightarrow> Dictionary \<Rightarrow> enc_error + bytes" where
  "Encode n d =
     (let enc = WriteNode n (NewEncoder d)
      in case enc_err enc of Some x \<Rightarrow> Inl x | None \<Rightarrow> Inr (enc_buf enc))"

definition streamFlagRaw :: byte where "streamFlagRaw = 0"

text \<open>A failed encoding is the nil slice.\<close>

definition MarshalDict :: "node \<Rightarrow> Dictionary \<Rightarrow> bytes" where
  "MarshalDict n d = (case Encode n d of Inl _ \<Rightarrow> [] | Inr stream \<Rightarrow> streamFlagRaw # stream)"

end
