(* ===== verification/Decoder.thy ===== *)
theory Decoder
  imports Node Token
begin

text \<open>
  The node decoder of \<^verbatim>\<open>protocol/binary/decoder.go\<close>. A decoder is a record
  with the dictionary, the stream and the read index; a method is a reader, a
  function from a decoder to an error or a value and the decoder left. The
  mutual recursion \<open>readContent\<close>, \<open>readStringLike\<close>, \<open>ReadNode\<close>, \<open>readList\<close> and
  the JID readers goes through \<open>readContent\<close>: the others take it as an argument,
  and it recurses on fuel. A recursive call is made only after a byte was read,
  so a fuel above the number of bytes left is never used up (shown below).

  The errors are the sentinels callers test with \<open>errors.Is\<close>; \<open>OutOfFuel\<close> is the
  model's own. \<open>zlib\<close> inflation is a parameter.
\<close>

subsection \<open>State and readers\<close>

datatype dec_error =
    ErrTruncated
  | ErrInvalidToken
  | ErrInvalidNode
  | ErrNonStringKey
  | ErrTrailingData
  | ErrInvalidPacked
  | ErrUnsupportedData
  | OutOfFuel

record Decoder =
  dec_dict :: Dictionary
  dec_data :: bytes
  dec_index :: nat

type_synonym 'a reader = "Decoder \<Rightarrow> dec_error + ('a \<times> Decoder)"

definition ret :: "'a \<Rightarrow> 'a reader" where
  "ret a d = Inr (a, d)"

definition throw :: "dec_error \<Rightarrow> 'a reader" where
  "throw e d = Inl e"

definition bind :: "'a reader \<Rightarrow> ('a \<Rightarrow> 'b reader) \<Rightarrow> 'b reader" where
  "bind r k d = and_then (r d) (\<lambda>(a, d). k a d)"

definition NewDecoder :: "Dictionary \<Rightarrow> bytes \<Rightarrow> Decoder" where
  "NewDecoder dict stream = \<lparr>dec_dict = dict, dec_data = stream, dec_index = 0\<rparr>"

subsection \<open>Bytes\<close>

definition need :: "nat \<Rightarrow> unit reader" where
  "need n d = (if dec_index d + n > length (dec_data d) then Inl ErrTruncated else Inr ((), d))"

definition readByte :: "byte reader" where
  "readByte = bind (need 1) (\<lambda>_ d. Inr (dec_data d ! dec_index d, d\<lparr>dec_index := dec_index d + 1\<rparr>))"

definition readInt :: "nat \<Rightarrow> nat reader" where
  "readInt n = bind (need n) (\<lambda>_ d.
     Inr (be_nat (take n (drop (dec_index d) (dec_data d))), d\<lparr>dec_index := dec_index d + n\<rparr>))"

definition readRaw :: "nat \<Rightarrow> bytes reader" where
  "readRaw n = bind (need n) (\<lambda>_ d.
     Inr (take n (drop (dec_index d) (dec_data d)), d\<lparr>dec_index := dec_index d + n\<rparr>))"

definition listSize :: "byte \<Rightarrow> nat reader" where
  "listSize tag =
     (if tag = ListEmpty then ret 0
      else if tag = List8 then readInt 1
      else if tag = List16 then readInt 2
      else throw ErrInvalidToken)"

text \<open>\<open>tag20\<close>: twenty bits, the high nibble of the first byte ignored.\<close>

definition tag20 :: "byte \<Rightarrow> byte \<Rightarrow> byte \<Rightarrow> u32" where
  "tag20 a b c = push_bit 16 (ucast (a AND 0x0F)) OR push_bit 8 (ucast b) OR ucast c"

definition bytesOrString :: "nat \<Rightarrow> bool \<Rightarrow> val reader" where
  "bytesOrString n asString = bind (readRaw n) (\<lambda>raw.
     if asString \<and> utf8_valid raw then ret (VStr (string_of_bytes raw)) else ret (VBytes raw))"

subsection \<open>Packed strings\<close>

definition unpackByte :: "byte \<Rightarrow> byte \<Rightarrow> dec_error + byte" where
  "unpackByte tag v =
     (if tag = Nibble8 then
        (if v < 10 then Inr (0x30 + v)
         else if v = 10 then Inr 0x2D
         else if v = 11 then Inr 0x2E
         else if v = 15 then Inr 0
         else Inl ErrInvalidPacked)
      else if tag = Hex8 then
        (if v < 10 then Inr (0x30 + v)
         else if v < 16 then Inr (0x41 + (v - 10))
         else Inl ErrInvalidPacked)
      else Inl ErrInvalidToken)"

fun unpack_bytes :: "byte \<Rightarrow> bytes \<Rightarrow> dec_error + bytes" where
  "unpack_bytes tag [] = Inr []"
| "unpack_bytes tag (b # bs) =
     and_then (unpackByte tag (drop_bit 4 b)) (\<lambda>c1.
     and_then (unpackByte tag (b AND 0x0F)) (\<lambda>c2.
     and_then (unpack_bytes tag bs) (\<lambda>cs. Inr (c1 # c2 # cs))))"

definition lift_result :: "dec_error + 'a \<Rightarrow> 'a reader" where
  "lift_result r d = and_then r (\<lambda>a. Inr (a, d))"

definition readPacked8 :: "byte \<Rightarrow> val reader" where
  "readPacked8 tag =
     bind readByte (\<lambda>head.
     bind (readRaw (unat (head AND 0x7F))) (\<lambda>raw.
     bind (lift_result (unpack_bytes tag raw)) (\<lambda>sb.
       if head AND 0x80 \<noteq> 0 then
         (if length sb = 0 then throw ErrInvalidPacked
          else ret (VStr (string_of_bytes (take (length sb - 1) sb))))
       else ret (VStr (string_of_bytes sb)))))"

subsection \<open>Strings and JIDs\<close>

text \<open>The content reader the recursion goes through, as an argument.\<close>

type_synonym content_reader = "bool \<Rightarrow> val reader"

definition readStringLike :: "content_reader \<Rightarrow> val reader" where
  "readStringLike readContent =
     bind (readContent False) (\<lambda>v. ret (case v of
         VBytes b \<Rightarrow> VStr (string_of_bytes b)
       | VJID j \<Rightarrow> VStr (JID_String j)
       | _ \<Rightarrow> v))"

definition string_or_empty :: "val \<Rightarrow> string" where
  "string_or_empty v = (case v of VStr s \<Rightarrow> s | _ \<Rightarrow> '''')"

definition readJIDPair :: "content_reader \<Rightarrow> val reader" where
  "readJIDPair rc =
     bind (readStringLike rc) (\<lambda>user.
     bind (readStringLike rc) (\<lambda>server.
       case server of
         VStr s \<Rightarrow> if s = '''' then throw ErrInvalidNode
                   else ret (VJID (NewJID (string_or_empty user) s))
       | _ \<Rightarrow> throw ErrInvalidNode))"

definition readADJID :: "content_reader \<Rightarrow> val reader" where
  "readADJID rc =
     bind readByte (\<lambda>agent.
     bind readByte (\<lambda>device.
     bind (readStringLike rc) (\<lambda>user.
       ret (VJID (NewADJID (string_or_empty user) agent device)))))"

definition toStringOrBytes :: "val \<Rightarrow> string" where
  "toStringOrBytes v = (case v of VStr t \<Rightarrow> t | VBytes t \<Rightarrow> string_of_bytes t | _ \<Rightarrow> fmt_v v)"

definition readFBJID :: "content_reader \<Rightarrow> val reader" where
  "readFBJID rc =
     bind (readStringLike rc) (\<lambda>user.
     bind (readInt 2) (\<lambda>device.
     bind (readStringLike rc) (\<lambda>server.
       ret (VJID (empty_jid\<lparr>User := toStringOrBytes user, Device := of_nat device,
                            Server := toStringOrBytes server\<rparr>)))))"

definition readInteropJID :: "content_reader \<Rightarrow> val reader" where
  "readInteropJID rc =
     bind (readStringLike rc) (\<lambda>user.
     bind (readInt 2) (\<lambda>device.
     bind (readInt 2) (\<lambda>integrator.
     bind (readStringLike rc) (\<lambda>server.
       ret (VJID (empty_jid\<lparr>User := toStringOrBytes user, Device := of_nat device,
                            Integrator := of_nat integrator, Server := toStringOrBytes server\<rparr>))))))"

subsection \<open>Nodes\<close>

text \<open>The attribute loop; \<open>n.Attrs[key] = val\<close> overwrites an earlier value of the key.\<close>

fun read_attrs :: "content_reader \<Rightarrow> nat \<Rightarrow> (string \<times> val) list \<Rightarrow> (string \<times> val) list reader" where
  "read_attrs rc 0 attrs = ret attrs"
| "read_attrs rc (Suc n) attrs =
     bind (readStringLike rc) (\<lambda>kRaw.
       case kRaw of
         VStr key \<Rightarrow> bind (rc True) (\<lambda>v. read_attrs rc n (AList.update key v attrs))
       | _ \<Rightarrow> throw ErrNonStringKey)"

definition ReadNode :: "content_reader \<Rightarrow> node reader" where
  "ReadNode rc =
     bind readByte (\<lambda>tag.
       if tag = ListEmpty then throw ErrInvalidNode
       else bind (listSize tag) (\<lambda>sz.
         if tag = List8 \<and> sz = 0 then ret (Node ''0'' [] VNil)
         else if sz = 0 then throw ErrInvalidNode
         else bind (readStringLike rc) (\<lambda>rawTag.
           case rawTag of
             VStr tagStr \<Rightarrow>
               bind (read_attrs rc ((sz - 1) div 2) []) (\<lambda>attrs.
                 if sz mod 2 = 0 then bind (rc True) (\<lambda>content. ret (Node tagStr attrs content))
                 else ret (Node tagStr attrs VNil))
           | _ \<Rightarrow> throw ErrInvalidNode)))"

fun read_nodes :: "content_reader \<Rightarrow> nat \<Rightarrow> node list reader" where
  "read_nodes rc 0 = ret []"
| "read_nodes rc (Suc n) = bind (ReadNode rc) (\<lambda>x. bind (read_nodes rc n) (\<lambda>xs. ret (x # xs)))"

definition readList :: "content_reader \<Rightarrow> node list reader" where
  "readList rc = bind readByte (\<lambda>tag. bind (listSize tag) (\<lambda>sz. read_nodes rc sz))"

subsection \<open>Content\<close>

definition unread :: "unit reader" where
  "unread d = Inr ((), d\<lparr>dec_index := dec_index d - 1\<rparr>)"

definition readTag20 :: "nat reader" where
  "readTag20 = bind (need 3) (\<lambda>_ d.
     Inr (unat (tag20 (dec_data d ! dec_index d) (dec_data d ! (dec_index d + 1))
            (dec_data d ! (dec_index d + 2))), d\<lparr>dec_index := dec_index d + 3\<rparr>))"

definition token_or_fail :: "(Dictionary \<Rightarrow> string option) \<Rightarrow> val reader" where
  "token_or_fail look d =
     (case look (dec_dict d) of Some s \<Rightarrow> Inr (VStr s, d) | None \<Rightarrow> Inl ErrInvalidToken)"

definition content_of_tag :: "content_reader \<Rightarrow> bool \<Rightarrow> byte \<Rightarrow> val reader" where
  "content_of_tag rc asString tag =
     (if tag = ListEmpty then ret VNil
      else if tag = List8 \<or> tag = List16 then
        bind unread (\<lambda>_. bind (readList rc) (\<lambda>ns. ret (VNodes ns)))
      else if tag = Binary8 then bind (readInt 1) (\<lambda>sz. bytesOrString sz asString)
      else if tag = Binary20 then
        bind readTag20 (\<lambda>sz. bytesOrString sz asString)
      else if tag = Binary32 then bind (readInt 4) (\<lambda>sz. bytesOrString sz asString)
      else if tag \<in> {Dictionary0, Dictionary1, Dictionary2, Dictionary3} then
        bind readByte (\<lambda>i. token_or_fail (\<lambda>D. DoubleToken D (uint tag - uint Dictionary0) (uint i)))
      else if tag = FBJID then readFBJID rc
      else if tag = InteropJID then readInteropJID rc
      else if tag = JIDPair then readJIDPair rc
      else if tag = ADJID then readADJID rc
      else if tag = Nibble8 \<or> tag = Hex8 then readPacked8 tag
      else token_or_fail (\<lambda>D. SingleToken D (uint tag)))"

primrec readContent :: "nat \<Rightarrow> content_reader" where
  "readContent 0 = (\<lambda>asString. throw OutOfFuel)"
| "readContent (Suc fuel) =
     (\<lambda>asString. bind readByte (content_of_tag (readContent fuel) asString))"

subsection \<open>Payloads\<close>

text \<open>\<open>DecodeStream\<close>'s loop: a node takes at least one byte, so the rounds are bounded too.\<close>

fun decode_loop :: "nat \<Rightarrow> nat \<Rightarrow> node list \<Rightarrow> Decoder \<Rightarrow> dec_error + node list" where
  "decode_loop 0 fuel nodes d = (if dec_index d < length (dec_data d) then Inl OutOfFuel else Inr nodes)"
| "decode_loop (Suc rounds) fuel nodes d =
     (if dec_index d < length (dec_data d) then
        and_then (ReadNode (readContent fuel) d) (\<lambda>(n, d). decode_loop rounds fuel (nodes @ [n]) d)
      else Inr nodes)"

definition DecodeStream :: "Dictionary \<Rightarrow> bytes \<Rightarrow> dec_error + node list" where
  "DecodeStream dict stream =
     decode_loop (length stream) (length stream) [] (NewDecoder dict stream)"

text \<open>\<open>inflate body\<close> is \<open>zlib.NewReader\<close> and \<open>io.ReadAll\<close>: \<open>None\<close> when either fails.\<close>

definition streamFlagZlib :: byte where "streamFlagZlib = 2"

definition Unpack :: "(bytes \<Rightarrow> bytes option) \<Rightarrow> bytes \<Rightarrow> dec_error + bytes" where
  "Unpack inflate payload =
     (case payload of
        [] \<Rightarrow> Inl ErrTruncated
      | flag # body \<Rightarrow>
          if flag AND streamFlagZlib \<noteq> 0 then
            (case inflate body of None \<Rightarrow> Inl ErrUnsupportedData | Some out \<Rightarrow> Inr out)
          else if flag = 0 then Inr body
          else Inl ErrUnsupportedData)"

definition Decode :: "(bytes \<Rightarrow> bytes option) \<Rightarrow> Dictionary \<Rightarrow> bytes \<Rightarrow> dec_error + node" where
  "Decode inflate dict payload =
     and_then (Unpack inflate payload) (\<lambda>stream.
     and_then (ReadNode (readContent (length stream)) (NewDecoder dict stream)) (\<lambda>(n, d).
       if dec_index d \<noteq> length stream then Inl ErrTrailingData else Inr n))"

subsection \<open>Readers make progress and the fuel suffices\<close>

definition bytes_left :: "Decoder \<Rightarrow> nat" where
  "bytes_left d = length (dec_data d) - dec_index d"

text \<open>
  \<open>safe k n r\<close>: on at most \<open>n\<close> bytes the reader does not run out of fuel, and when
  it succeeds it has read at least \<open>k\<close> bytes and stays inside the stream.
\<close>

definition safe :: "nat \<Rightarrow> nat \<Rightarrow> 'a reader \<Rightarrow> bool" where
  "safe k n r \<longleftrightarrow>
     (\<forall>d. dec_index d \<le> length (dec_data d) \<and> bytes_left d \<le> n \<longrightarrow>
        r d \<noteq> Inl OutOfFuel \<and>
        (\<forall>a d'. r d = Inr (a, d') \<longrightarrow>
           dec_data d' = dec_data d \<and> dec_dict d' = dec_dict d \<and>
           dec_index d + k \<le> dec_index d' \<and> dec_index d' \<le> length (dec_data d)))"

lemma safeI:
  assumes "\<And>d. dec_index d \<le> length (dec_data d) \<Longrightarrow> bytes_left d \<le> n \<Longrightarrow> r d \<noteq> Inl OutOfFuel"
    and "\<And>d a d'. dec_index d \<le> length (dec_data d) \<Longrightarrow> bytes_left d \<le> n \<Longrightarrow> r d = Inr (a, d') \<Longrightarrow>
      dec_data d' = dec_data d \<and> dec_dict d' = dec_dict d \<and>
      dec_index d + k \<le> dec_index d' \<and> dec_index d' \<le> length (dec_data d)"
  shows "safe k n r"
  unfolding safe_def using assms by blast

lemma safe_fuelD:
  "safe k n r \<Longrightarrow> dec_index d \<le> length (dec_data d) \<Longrightarrow> bytes_left d \<le> n \<Longrightarrow> r d \<noteq> Inl OutOfFuel"
  unfolding safe_def by blast

lemma safe_stepD:
  "safe k n r \<Longrightarrow> dec_index d \<le> length (dec_data d) \<Longrightarrow> bytes_left d \<le> n \<Longrightarrow> r d = Inr (a, d') \<Longrightarrow>
     dec_data d' = dec_data d \<and> dec_dict d' = dec_dict d \<and>
     dec_index d + k \<le> dec_index d' \<and> dec_index d' \<le> length (dec_data d)"
  unfolding safe_def by blast

lemma bind_Inr: "r d = Inr (a, d') \<Longrightarrow> bind r q d = q a d'"
  by (simp add: bind_def)

lemma bind_Inl: "r d = Inl e \<Longrightarrow> bind r q d = Inl e"
  by (simp add: bind_def)

lemma bind_eq_Inr: "bind r q d = Inr x \<longleftrightarrow> (\<exists>a d'. r d = Inr (a, d') \<and> q a d' = Inr x)"
  by (cases "r d") (auto simp: bind_def)

lemma bind_eq_Inl: "bind r q d = Inl e \<longleftrightarrow> r d = Inl e \<or> (\<exists>a d'. r d = Inr (a, d') \<and> q a d' = Inl e)"
  by (cases "r d") (auto simp: bind_def)

lemma safe_bind:
  assumes r: "safe j n r" and k: "\<And>a. safe k (n - j) (q a)"
  shows "safe (j + k) n (bind r q)"
proof (rule safeI)
  fix d assume d: "dec_index d \<le> length (dec_data d)" "bytes_left d \<le> n"
  have mid: "dec_index d1 \<le> length (dec_data d1) \<and> bytes_left d1 \<le> n - j"
    if "r d = Inr (a, d1)" for a d1
    using safe_stepD [OF r d that] d by (auto simp: bytes_left_def)
  show "bind r q d \<noteq> Inl OutOfFuel"
    using safe_fuelD [OF r d] safe_fuelD [OF k] mid by (auto simp: bind_eq_Inl)
  fix b d' assume "bind r q d = Inr (b, d')"
  then obtain a d1 where 1: "r d = Inr (a, d1)" "q a d1 = Inr (b, d')"
    by (auto simp: bind_eq_Inr)
  with safe_stepD [OF r d 1(1)] safe_stepD [OF k _ _ 1(2)] mid [OF 1(1)]
  show "dec_data d' = dec_data d \<and> dec_dict d' = dec_dict d \<and>
      dec_index d + (j + k) \<le> dec_index d' \<and> dec_index d' \<le> length (dec_data d)"
    by auto
qed

lemma safe_weaken: "safe k n r \<Longrightarrow> k' \<le> k \<Longrightarrow> n' \<le> n \<Longrightarrow> safe k' n' r"
  unfolding safe_def by (meson add_le_mono le_refl order_trans)

lemma safe_bind0: "safe 0 n r \<Longrightarrow> (\<And>a. safe 0 n (q a)) \<Longrightarrow> safe 0 n (bind r q)"
  using safe_bind [of 0 n r 0 q] by simp

lemma safe_ret [simp]: "safe 0 n (ret a)"
  by (simp add: safe_def ret_def)

lemma safe_throw [simp]: "e \<noteq> OutOfFuel \<Longrightarrow> safe k n (throw e)"
  by (simp add: safe_def throw_def)

lemma safe_need [simp]: "safe 0 n (need m)"
  by (simp add: safe_def need_def)

lemma safe_readByte: "safe 1 n readByte"
  by (auto simp: safe_def readByte_def bind_def need_def and_then_def split: sum.splits if_splits)

lemma safe_readInt: "safe m n (readInt m)"
  by (auto simp: safe_def readInt_def bind_def need_def and_then_def split: sum.splits if_splits)

lemma safe_readRaw: "safe m n (readRaw m)"
  by (auto simp: safe_def readRaw_def bind_def need_def and_then_def split: sum.splits if_splits)

lemma safe_byte_bind: "(\<And>b. safe 0 (n - 1) (q b)) \<Longrightarrow> safe 1 n (bind readByte q)"
  using safe_bind [OF safe_readByte, of 0 n q] by simp

lemma unpack_bytes_fuel: "unpack_bytes tag bs \<noteq> Inl OutOfFuel"
  by (induction bs) (auto simp: unpackByte_def and_then_def split: sum.splits if_splits)

lemma safe_lift: "r \<noteq> Inl OutOfFuel \<Longrightarrow> safe 0 n (lift_result r)"
  by (auto simp: safe_def lift_result_def and_then_def split: sum.splits)

lemma safe0 [simp]: "safe 0 n readByte" "safe 0 n (readInt m)" "safe 0 n (readRaw m)"
  using safe_weaken [OF safe_readByte] safe_weaken [OF safe_readInt] safe_weaken [OF safe_readRaw]
  by (meson le_refl zero_le)+

lemma safe_listSize: "safe 0 n (listSize tag)"
  by (simp add: listSize_def safe0)

lemma safe_bytesOrString: "safe 0 n (bytesOrString m s)"
  by (auto simp: bytesOrString_def safe0 intro!: safe_bind0)

lemma safe_readPacked8: "safe 0 n (readPacked8 tag)"
  by (auto simp: readPacked8_def safe0 safe_lift unpack_bytes_fuel intro!: safe_bind0)

lemma safe_readStringLike: "(\<And>s. safe 0 n (rc s)) \<Longrightarrow> safe 0 n (readStringLike rc)"
  by (auto simp: readStringLike_def intro!: safe_bind0)

lemma safe_jid_readers:
  assumes "\<And>s. safe 0 n (rc s)"
  shows "safe 0 n (readJIDPair rc)" "safe 0 n (readADJID rc)" "safe 0 n (readFBJID rc)"
    "safe 0 n (readInteropJID rc)"
  using safe_readStringLike [OF assms]
  by (auto simp: readJIDPair_def readADJID_def readFBJID_def readInteropJID_def
      intro!: safe_bind0 split: val.split)

lemma safe_read_attrs: "(\<And>s. safe 0 n (rc s)) \<Longrightarrow> safe 0 n (read_attrs rc m attrs)"
  by (induction m arbitrary: attrs)
    (auto intro!: safe_bind0 safe_readStringLike split: val.split)

lemma safe_ReadNode:
  assumes "\<And>s. safe 0 (n - 1) (rc s)"
  shows "safe 1 n (ReadNode rc)"
  unfolding ReadNode_def
  by (rule safe_byte_bind)
    (auto intro!: safe_bind0 safe_listSize safe_readStringLike safe_read_attrs
      simp: assms [unfolded One_nat_def] split: val.split)

lemma safe_read_nodes:
  assumes "\<And>s. safe 0 n (rc s)"
  shows "safe 0 n (read_nodes rc m)"
proof -
  have "safe 0 n (ReadNode rc)"
    by (rule safe_weaken [OF safe_ReadNode [of n]]) (auto intro: safe_weaken [OF assms])
  then show ?thesis by (induction m) (auto intro!: safe_bind0)
qed

lemma safe_readList:
  assumes "\<And>s. safe 0 (n - 1) (rc s)"
  shows "safe 1 n (readList rc)"
  unfolding readList_def
  by (rule safe_byte_bind) (intro safe_bind0 safe_listSize safe_read_nodes assms)

lemma safe_token_or_fail: "safe 0 n (token_or_fail look)"
  by (auto simp: safe_def token_or_fail_def split: option.splits)

lemma safe_readTag20: "safe 0 n readTag20"
  by (auto simp: safe_def readTag20_def bind_def need_def and_then_def split: if_splits)

lemma safe_content_of_tag:
  assumes "\<And>s. safe 0 n (rc s)" "tag \<noteq> List8" "tag \<noteq> List16"
  shows "safe 0 n (content_of_tag rc asString tag)"
proof -
  have if_safe: "safe 0 n (if c then r else r')" if "safe 0 n r" "safe 0 n r'" for c and r r' :: "val reader"
    using that by simp
  have skip: "(if tag = List8 \<or> tag = List16 then r else r') = r'" for r r' :: "val reader"
    using assms(2,3) by simp
  show ?thesis
    unfolding content_of_tag_def skip
    by (intro if_safe safe_bind0 safe_jid_readers assms(1) safe_readPacked8 safe_bytesOrString
        safe_readTag20 safe_token_or_fail safe_ret safe0)
qed

text \<open>Un-reading the tag and reading the list again starts from the same decoder.\<close>

lemma content_list:
  assumes "dec_index d < length (dec_data d)" "dec_data d ! dec_index d \<in> {List8, List16}"
  shows "bind readByte (content_of_tag rc asString) d = bind (readList rc) (\<lambda>ns. ret (VNodes ns)) d"
proof -
  let ?tag = "dec_data d ! dec_index d" and ?d = "d\<lparr>dec_index := dec_index d + 1\<rparr>"
  have "content_of_tag rc asString ?tag ?d = bind (readList rc) (\<lambda>ns. ret (VNodes ns)) d"
    using assms(2) by (auto simp: content_of_tag_def tag_defs bind_def unread_def)
  then show ?thesis using assms(1) by (simp add: bind_def readByte_def need_def)
qed

lemma safe_readContent: "n < fuel \<Longrightarrow> safe 0 n (readContent fuel asString)"
proof (induction fuel arbitrary: n asString)
  case 0
  then show ?case by simp
next
  case (Suc fuel)
  let ?rc = "readContent fuel"
  have rc: "safe 0 (n - 1) (?rc s)" if "0 < n" for s using Suc.IH Suc.prems that by simp
  have list: "safe 1 n (bind (readList ?rc) (\<lambda>ns. ret (VNodes ns)))" if "0 < n"
    using safe_bind [OF safe_readList, of n ?rc 0 "\<lambda>ns. ret (VNodes ns)"] rc that by simp
  have other: "safe 1 n (bind readByte (\<lambda>tag.
      if tag \<in> {List8, List16} then throw ErrInvalidNode else content_of_tag ?rc asString tag))"
    if "0 < n"
    using rc that by (intro safe_byte_bind) (auto intro: safe_content_of_tag)
  have eq: "readContent (Suc fuel) asString d =
      (if dec_data d ! dec_index d \<in> {List8, List16} then bind (readList ?rc) (\<lambda>ns. ret (VNodes ns)) d
       else bind readByte (\<lambda>tag. if tag \<in> {List8, List16} then throw ErrInvalidNode
                                  else content_of_tag ?rc asString tag) d)"
    if "dec_index d < length (dec_data d)" for d
    using that content_list [OF that, of ?rc asString] by (auto simp: bind_def readByte_def need_def)
  have eof: "readContent (Suc fuel) asString d = Inl ErrTruncated"
    if "dec_index d = length (dec_data d)" for d
    using that by (simp add: bind_def readByte_def need_def)
  show ?case
  proof (rule safeI)
    fix d assume d: "dec_index d \<le> length (dec_data d)" "bytes_left d \<le> n"
    have step: "\<exists>r. safe 1 n r \<and> readContent (Suc fuel) asString d = r d"
    proof (cases "dec_index d < length (dec_data d)")
      case True
      then have "0 < n" using d by (auto simp: bytes_left_def)
      then show ?thesis using eq [OF True] list other by (metis (no_types, lifting))
    next
      case False
      then have "readContent (Suc fuel) asString d = throw ErrTruncated d"
        using eof [of d] d by (simp add: throw_def)
      then show ?thesis using safe_throw by blast
    qed
    then show "readContent (Suc fuel) asString d \<noteq> Inl OutOfFuel"
      using safe_fuelD d by metis
    fix a d' assume "readContent (Suc fuel) asString d = Inr (a, d')"
    with step d show "dec_data d' = dec_data d \<and> dec_dict d' = dec_dict d \<and>
        dec_index d + 0 \<le> dec_index d' \<and> dec_index d' \<le> length (dec_data d)"
      using safe_stepD [of 1 n _ d a d'] by (metis add_leD1 add_0_right)
  qed
qed

lemma safe_ReadNode_fuel: "n \<le> fuel \<Longrightarrow> safe 1 n (ReadNode (readContent fuel))"
proof (cases n)
  case 0
  have "bytes_left d \<le> 0 \<and> dec_index d \<le> length (dec_data d) \<Longrightarrow>
      ReadNode rc d = Inl ErrTruncated" for rc d
    by (simp add: ReadNode_def bind_def readByte_def need_def bytes_left_def)
  then show ?thesis using 0 by (auto simp: safe_def)
next
  case (Suc m)
  assume "n \<le> fuel"
  then show ?thesis using Suc by (intro safe_ReadNode safe_readContent) simp
qed

lemma decode_loop_fuel:
  "length (dec_data d) - dec_index d \<le> rounds \<Longrightarrow> bytes_left d \<le> fuel \<Longrightarrow>
   dec_index d \<le> length (dec_data d) \<Longrightarrow> decode_loop rounds fuel nodes d \<noteq> Inl OutOfFuel"
proof (induction rounds fuel nodes d rule: decode_loop.induct)
  case (2 rounds fuel nodes d)
  have s: "safe 1 (bytes_left d) (ReadNode (readContent fuel))"
    using 2 by (intro safe_ReadNode_fuel) simp
  show ?case
  proof (cases "ReadNode (readContent fuel) d")
    case (Inl e)
    then show ?thesis using safe_fuelD [OF s, of d] "2.prems" by auto
  next
    case (Inr p)
    obtain n d' where p: "p = (n, d')" by force
    have d': "dec_data d' = dec_data d" "dec_index d < dec_index d'" "dec_index d' \<le> length (dec_data d)"
      using safe_stepD [OF s, of d n d'] "2.prems" Inr p by auto
    show ?thesis
    proof (cases "dec_index d < length (dec_data d)")
      case True
      have "decode_loop rounds fuel (nodes @ [n]) d' \<noteq> Inl OutOfFuel"
        using d' "2.prems" by (intro "2.IH" [OF True]) (auto simp: Inr p bytes_left_def)
      then show ?thesis using True by (simp add: Inr p)
    qed simp
  qed
qed simp

subsection \<open>Property\<close>

text \<open>
  C30 (termination). Decoding always returns: on every payload and every
  stream the recursion of the readers ends within the fuel the model gives it, with
  a node or one of the code's own errors.
\<close>

theorem decode_total:
  "Decode inflate dict payload \<noteq> Inl OutOfFuel \<and> DecodeStream dict stream \<noteq> Inl OutOfFuel"
proof
  have "ReadNode (readContent (length s)) (NewDecoder dict s) \<noteq> Inl OutOfFuel" for s
    using safe_ReadNode_fuel [of "length s" "length s"]
    by (simp add: safe_def NewDecoder_def bytes_left_def)
  then show "Decode inflate dict payload \<noteq> Inl OutOfFuel"
    by (auto simp: Decode_def Unpack_def and_then_eq_Inl split: list.splits if_splits option.splits)
  show "DecodeStream dict stream \<noteq> Inl OutOfFuel"
    unfolding DecodeStream_def by (rule decode_loop_fuel) (simp_all add: NewDecoder_def bytes_left_def)
qed

end
