(* ===== verification/Codec.thy ===== *)
theory Codec
  imports Encoder Decoder
begin

text \<open>
  The node codec as a whole: what the encoder writes, the decoder reads back.
  \<open>emits\<close> says which bytes a writer appends, \<open>reads\<close> which value a reader makes of
  exactly those bytes whatever follows; the two are composed part by part, from
  the headers up to the node tree. \<open>norm\<close> is what a value becomes on the wire: the
  attributes in key order without the empty ones, numbers and booleans as their
  text, binary content that is valid UTF-8 as text, a JID as its tag can carry it.
\<close>

subsection \<open>Writers and readers\<close>

definition emits :: "Dictionary \<Rightarrow> (Encoder \<Rightarrow> Encoder) \<Rightarrow> bytes \<Rightarrow> bool" where
  "emits D w bs \<longleftrightarrow>
     (\<forall>e. enc_dict e = D \<and> enc_err e = None \<longrightarrow> w e = e\<lparr>enc_buf := enc_buf e @ bs\<rparr>)"

definition at_stream :: "Decoder \<Rightarrow> bytes \<Rightarrow> bool" where
  "at_stream d bs \<longleftrightarrow> dec_index d \<le> length (dec_data d) \<and> drop (dec_index d) (dec_data d) = bs"

definition advance :: "nat \<Rightarrow> Decoder \<Rightarrow> Decoder" where
  "advance n d = d\<lparr>dec_index := dec_index d + n\<rparr>"

definition reads :: "Dictionary \<Rightarrow> 'a reader \<Rightarrow> bytes \<Rightarrow> 'a \<Rightarrow> bool" where
  "reads D r bs a \<longleftrightarrow>
     (\<forall>d rest. dec_dict d = D \<and> at_stream d (bs @ rest) \<longrightarrow> r d = Inr (a, advance (length bs) d))"

lemma emits_push [simp]: "emits D (push bs) bs"
  by (simp add: emits_def push_def)

lemma emits_comp: "emits D w bs \<Longrightarrow> emits D v cs \<Longrightarrow> emits D (v \<circ> w) (bs @ cs)"
  by (simp add: emits_def)

lemma at_stream_advance:
  assumes "at_stream d (bs @ rest)"
  shows "at_stream (advance (length bs) d) rest"
proof -
  have "length (bs @ rest) = length (dec_data d) - dec_index d"
    using assms by (metis at_stream_def length_drop)
  moreover have "drop (length bs) (drop (dec_index d) (dec_data d)) = rest"
    using assms by (simp add: at_stream_def)
  ultimately show ?thesis using assms
    by (auto simp: at_stream_def advance_def add.commute)
qed

lemma advance_simps [simp]:
  "dec_dict (advance n d) = dec_dict d"
  "dec_data (advance n d) = dec_data d"
  "advance m (advance n d) = advance (n + m) d"
  "advance 0 d = d"
  by (simp_all add: advance_def add.assoc)

lemma reads_ret [simp]: "reads D (ret a) [] b \<longleftrightarrow> a = b"
proof
  assume "reads D (ret a) [] b"
  then have "ret a (NewDecoder D []) = Inr (b, NewDecoder D [])"
    unfolding reads_def by (fastforce simp: at_stream_def NewDecoder_def advance_def)
  then show "a = b" by (simp add: ret_def)
qed (simp add: reads_def ret_def)

lemma readsD:
  "reads D r bs a \<Longrightarrow> dec_dict d = D \<Longrightarrow> at_stream d (bs @ rest) \<Longrightarrow> r d = Inr (a, advance (length bs) d)"
  unfolding reads_def by blast

lemma reads_bind:
  assumes "reads D r bs a" "reads D (q a) cs b"
  shows "reads D (bind r q) (bs @ cs) b"
  unfolding reads_def
proof (intro allI impI)
  fix d rest assume d: "dec_dict d = D \<and> at_stream d ((bs @ cs) @ rest)"
  then have "r d = Inr (a, advance (length bs) d)"
    using assms(1) by (auto simp: reads_def)
  moreover have "q a (advance (length bs) d) = Inr (b, advance (length cs) (advance (length bs) d))"
    using d at_stream_advance [of d bs "cs @ rest"] by (intro readsD [OF assms(2)]) simp_all
  ultimately show "bind r q d = Inr (b, advance (length (bs @ cs)) d)"
    by (simp add: bind_Inr)
qed

lemma at_stream_take:
  assumes "at_stream d (bs @ rest)"
  shows "dec_index d + length bs \<le> length (dec_data d)"
    "take (length bs) (drop (dec_index d) (dec_data d)) = bs"
    "n < length bs \<Longrightarrow> dec_data d ! (dec_index d + n) = bs ! n"
proof -
  have l: "length (bs @ rest) = length (dec_data d) - dec_index d"
    using assms by (metis at_stream_def length_drop)
  then show "dec_index d + length bs \<le> length (dec_data d)"
    using assms by (auto simp: at_stream_def)
  show "take (length bs) (drop (dec_index d) (dec_data d)) = bs"
    using assms by (simp add: at_stream_def)
  show "dec_data d ! (dec_index d + n) = bs ! n" if "n < length bs"
    using assms that nth_drop [of "dec_index d" "dec_data d" n] by (simp add: at_stream_def nth_append)
qed

lemma reads_readRaw [simp]: "n = length bs \<Longrightarrow> reads D (readRaw n) bs bs"
  by (auto simp: reads_def readRaw_def bind_def need_def advance_def
      dest: at_stream_take(1) at_stream_take(2))

lemma reads_readInt [simp]: "n = length bs \<Longrightarrow> reads D (readInt n) bs (be_nat bs)"
  by (auto simp: reads_def readInt_def bind_def need_def advance_def
      dest: at_stream_take(1) at_stream_take(2))

lemma reads_readByte [simp]: "reads D readByte [b] b"
  unfolding reads_def
proof (intro allI impI)
  fix d rest assume "dec_dict d = D \<and> at_stream d ([b] @ rest)"
  then show "readByte d = Inr (b, advance (length [b]) d)"
    using at_stream_take(1) [of d "[b]" rest] at_stream_take(3) [of d "[b]" rest 0]
    by (simp add: readByte_def bind_def need_def advance_def)
qed

lemma reads_byte_bind: "reads D (q b) bs a \<Longrightarrow> reads D (bind readByte q) (b # bs) a"
  using reads_bind [OF reads_readByte] by fastforce

lemma reads_bind': "reads D r bs a \<Longrightarrow> reads D (q a) cs b \<Longrightarrow> xs = bs @ cs \<Longrightarrow> reads D (bind r q) xs b"
  by (simp add: reads_bind)

lemma reads_bind_last: "reads D r bs a \<Longrightarrow> q a = ret b \<Longrightarrow> reads D (bind r q) bs b"
  using reads_bind [of D r bs a q "[]" b] by simp

subsection \<open>Headers\<close>

lemma listSize_List [simp]:
  "listSize List8 = readInt 1" "listSize List16 = readInt 2" "listSize ListEmpty = ret 0"
  by (simp_all add: listSize_def tag_defs)

lemma emits_listStart:
  assumes "0 < sz" "sz < 65535"
  shows "\<exists>t hs. t \<in> {List8, List16} \<and> (t = List8 \<longrightarrow> sz < 256) \<and> 1 \<le> length hs \<and>
           emits D (writeListStart sz) (t # hs) \<and> reads D (listSize t) hs sz"
proof (cases "sz < 256")
  case True
  then have "reads D (listSize List8) [of_nat sz] sz"
    using reads_readInt [of 1 "[of_nat sz]" D] by (simp add: unat_byte_of_nat)
  then show ?thesis using True assms
    by (intro exI [of _ List8] exI [of _ "[of_nat sz]"]) (simp add: writeListStart_def)
next
  case False
  have "be_nat [of_nat (sz div 256), of_nat sz] = sz" using assms by (intro be_nat_u16) simp
  then have "reads D (listSize List16) [of_nat (sz div 256), of_nat sz] sz"
    using reads_readInt [of 2 "[of_nat (sz div 256), of_nat sz]" D] by simp
  then show ?thesis using False assms
    by (intro exI [of _ List16] exI [of _ "[of_nat (sz div 256), of_nat sz]"])
      (simp add: writeListStart_def tag_defs)
qed

subsection \<open>Blobs\<close>

lemma be_nat_u32:
  assumes "n < 2 ^ 32"
  shows "be_nat [of_nat (n div 2 ^ 24), of_nat (n div 2 ^ 16), of_nat (n div 256), of_nat n] = n"
proof -
  have "n div 2 ^ 24 < 256" using assms by (simp add: less_mult_imp_div_less)
  then have "unat (of_nat (n div 2 ^ 24) :: byte) = n div 2 ^ 24" by (simp add: unat_byte_of_nat)
  moreover have "n div 2 ^ 24 = n div 256 div 256 div 256" "n div 2 ^ 16 = n div 256 div 256"
    by (simp_all add: div_mult2_eq [symmetric])
  ultimately show ?thesis
    by (simp only: be_nat_simps unat_byte_of_nat) (simp add: mult.commute)
qed

lemma bit_15: "bit (15 :: int) j \<longleftrightarrow> j < 4"
proof -
  have "(15 :: int) = mask 4" by (simp add: mask_eq_exp_minus_1)
  then show ?thesis by (simp only: bit_mask_iff) auto
qed

lemma unat_tag20:
  assumes "n < 2 ^ 20"
  shows "unat (tag20 (of_nat (n div 2 ^ 16) AND 0x0F) (of_nat (n div 256)) (of_nat n)) = n"
proof -
  have "tag20 (of_nat (n div 2 ^ 16) AND 0x0F) (of_nat (n div 256)) (of_nat n) = of_nat n"
  proof (rule bit_word_eqI)
    fix k assume "k < LENGTH(32)"
    then have k: "k < 32" by simp
    have hi: "\<not> bit n k" if "20 \<le> k" for k
    proof -
      have "n < 2 ^ k" using assms that by (meson less_le_trans one_le_numeral power_increasing)
      then show ?thesis by (simp add: bit_iff_odd)
    qed
    have d: "n div 65536 = drop_bit 16 n" "n div 256 = drop_bit 8 n"
      by (simp_all add: drop_bit_eq_div)
    consider "k < 8" | "8 \<le> k" "k < 16" | "16 \<le> k" "k < 20" | "20 \<le> k" by linarith
    then show "bit (tag20 (of_nat (n div 2 ^ 16) AND 0x0F) (of_nat (n div 256)) (of_nat n)) k
        = bit (of_nat n :: u32) k"
      using k hi
      by cases (auto simp: tag20_def d bit_simps bit_15)
  qed
  then show ?thesis using assms by (simp add: unat_of_nat)
qed

lemma reads_readTag20:
  "reads D readTag20 [a, b, c] (unat (tag20 a b c))"
  unfolding reads_def
proof (intro allI impI)
  fix d rest assume "dec_dict d = D \<and> at_stream d ([a, b, c] @ rest)"
  then show "readTag20 d = Inr (unat (tag20 a b c), advance (length [a, b, c]) d)"
    using at_stream_take(1) [of d "[a, b, c]" rest] at_stream_take(3) [of d "[a, b, c]" rest 0]
      at_stream_take(3) [of d "[a, b, c]" rest 1] at_stream_take(3) [of d "[a, b, c]" rest 2]
    by (simp add: readTag20_def bind_def need_def advance_def)
qed

text \<open>The content a blob is read as.\<close>

definition blob_val :: "bool \<Rightarrow> bytes \<Rightarrow> val" where
  "blob_val asString raw =
     (if asString \<and> utf8_valid raw then VStr (string_of_bytes raw) else VBytes raw)"

lemma reads_bytesOrString: "n = length raw \<Longrightarrow> reads D (bytesOrString n s) raw (blob_val s raw)"
  unfolding bytesOrString_def by (rule reads_bind_last [of D _ raw raw]) (simp_all add: blob_val_def)

definition reads_content :: "Dictionary \<Rightarrow> bytes \<Rightarrow> (bool \<Rightarrow> val) \<Rightarrow> bool" where
  "reads_content D bs v \<longleftrightarrow>
     (\<forall>rc asString. reads D (bind readByte (content_of_tag rc asString)) bs (v asString))"

lemma blob_codec:
  assumes "length raw < 2 ^ 31 - 1"
  shows "\<exists>hs. emits D (writeBytesLen (length raw)) hs \<and> hs \<noteq> [] \<and>
           reads_content D (hs @ raw) (\<lambda>asString. blob_val asString raw)"
proof -
  let ?n = "length raw"
  consider (b8) "?n < 256" | (b20) "256 \<le> ?n" "?n < 2 ^ 20" | (b32) "2 ^ 20 \<le> ?n" by linarith
  then show ?thesis
  proof cases
    case b8
    have "reads D (bind readByte (content_of_tag rc s)) ([Binary8, of_nat ?n] @ raw) (blob_val s raw)"
      for rc s
    proof -
      have "reads D (readInt 1) [of_nat ?n] ?n"
        using b8 reads_readInt [of 1 "[of_nat ?n]" D] by (simp add: unat_byte_of_nat)
      then have "reads D (bind (readInt 1) (\<lambda>sz. bytesOrString sz s)) ([of_nat ?n] @ raw) (blob_val s raw)"
        by (rule reads_bind) (simp add: reads_bytesOrString)
      then show ?thesis
        using reads_byte_bind [of D "content_of_tag rc s" Binary8]
        by (simp add: content_of_tag_def tag_defs)
    qed
    then show ?thesis using b8
      by (intro exI [of _ "[Binary8, of_nat ?n]"]) (simp add: writeBytesLen_def reads_content_def)
  next
    case b20
    let ?hs = "[of_nat (?n div 2 ^ 16) AND 0x0F, of_nat (?n div 256), of_nat ?n] :: bytes"
    have "reads D (bind readByte (content_of_tag rc s)) ((Binary20 # ?hs) @ raw) (blob_val s raw)"
      for rc s
    proof -
      have "reads D (bind readTag20 (\<lambda>sz. bytesOrString sz s)) (?hs @ raw) (blob_val s raw)"
        using b20 by (intro reads_bind [OF reads_readTag20] reads_bytesOrString unat_tag20)
      then show ?thesis
        using reads_byte_bind [of D "content_of_tag rc s" Binary20]
        by (simp add: content_of_tag_def tag_defs)
    qed
    then show ?thesis using b20
      by (intro exI [of _ "Binary20 # ?hs"]) (simp add: writeBytesLen_def reads_content_def)
  next
    case b32
    let ?hs = "[of_nat (?n div 2 ^ 24), of_nat (?n div 2 ^ 16), of_nat (?n div 256), of_nat ?n] :: bytes"
    have "reads D (bind readByte (content_of_tag rc s)) ((Binary32 # ?hs) @ raw) (blob_val s raw)"
      for rc s
    proof -
      have "be_nat ?hs = ?n" using assms by (intro be_nat_u32) simp
      then have "reads D (readInt 4) ?hs ?n" using reads_readInt [of 4 ?hs D] by simp
      then have "reads D (bind (readInt 4) (\<lambda>sz. bytesOrString sz s)) (?hs @ raw) (blob_val s raw)"
        by (rule reads_bind) (simp add: reads_bytesOrString)
      then show ?thesis
        using reads_byte_bind [of D "content_of_tag rc s" Binary32]
        by (simp add: content_of_tag_def tag_defs)
    qed
    then show ?thesis using b32 assms
      by (intro exI [of _ "Binary32 # ?hs"]) (simp add: writeBytesLen_def reads_content_def)
  qed
qed

subsection \<open>Packed strings\<close>

lemma small_word_bit:
  fixes x :: "'a::len word"
  assumes "unat x < 2 ^ m" "m \<le> k"
  shows "\<not> bit x k"
proof -
  have "take_bit m x = x"
    using assms(1) by (simp add: word_unat_eq_iff unsigned_take_bit_eq take_bit_nat_eq_self)
  then show ?thesis using assms(2) by (metis bit_take_bit_iff not_less)
qed

lemma nibble_bit: "(x :: byte) < 16 \<Longrightarrow> bit x k \<Longrightarrow> k < 4"
  using small_word_bit [of x 4 k] by (cases "k < 4") (simp_all add: word_less_nat_alt)

lemma nibble_high: "(a :: byte) < 16 \<Longrightarrow> drop_bit 4 (push_bit 4 a) = a"
  "(b :: byte) < 16 \<Longrightarrow> drop_bit 4 b = 0"
  by (auto intro!: bit_word_eqI simp: bit_simps dest: nibble_bit)

lemma nibble_low: "(b :: byte) < 16 \<Longrightarrow> (push_bit 4 a OR b) AND 15 = b"
  by (auto intro!: bit_word_eqI simp: bit_simps bit_15 dest: nibble_bit)

definition packs :: "byte \<Rightarrow> (byte \<Rightarrow> byte) \<Rightarrow> byte \<Rightarrow> bool" where
  "packs tag pack c \<longleftrightarrow> pack c < 16 \<and> unpackByte tag (pack c) = Inr c"

lemma unpack_pack_pairs:
  assumes "list_all (packs tag pack) s" "unpackByte tag 0 = Inr z"
  shows "unpack_bytes tag (pack_pairs pack s) = Inr (s @ (if odd (length s) then [z] else []))"
  using assms(1)
proof (induction pack s rule: pack_pairs.induct)
  case (1 pack a b s)
  then show ?case by (simp add: packs_def nibble_high nibble_low)
next
  case (2 pack a)
  then show ?case using assms(2) nibble_low [of 0 "pack a"] by (simp add: packs_def nibble_high)
qed simp

lemma length_pack_pairs: "length (pack_pairs pack s) = (length s + 1) div 2"
  by (induction pack s rule: pack_pairs.induct) simp_all

lemma digit_sub: "0x30 \<le> c \<Longrightarrow> c \<le> 0x39 \<Longrightarrow> c - 0x30 < (10 :: byte) \<and> c - 0x30 < 16"
  by unat_arith

lemma packs_nibble: "nibble_char c \<Longrightarrow> packs Nibble8 packNibble c"
  using digit_sub [of c]
  by (auto simp: nibble_char_def packs_def packNibble_def unpackByte_def elim: order.strict_trans)

lemma hex_sub: "0x41 \<le> c \<Longrightarrow> c \<le> 0x46 \<Longrightarrow> 10 \<le> 10 + (c - 0x41) \<and> 10 + (c - 0x41) < (16 :: byte)"
  by unat_arith

lemma packs_hex: "hex_char c \<Longrightarrow> packs Hex8 packHex c"
  using digit_sub [of c] hex_sub [of c]
  by (auto simp: hex_char_def packs_def packHex_def unpackByte_def tag_defs not_less
      elim: order.strict_trans)

lemma packed_head:
  assumes "n \<le> 64"
  shows "unat ((of_nat n :: byte) AND 0x7F) = n" "(of_nat n :: byte) AND 0x80 = 0"
    "unat ((of_nat n OR 0x80 :: byte) AND 0x7F) = n" "(of_nat n OR 0x80 :: byte) AND 0x80 \<noteq> 0"
proof -
  let ?n = "of_nat n :: byte"
  have hi: "\<not> bit ?n k" if "7 \<le> k" for k
    using assms that by (intro small_word_bit [of ?n 7]) (simp_all add: unat_byte_of_nat)
  then have lo: "k < 7" if "bit ?n k" for k using that not_less by blast
  have m: "(0x7F :: byte) = mask 7" by (simp add: mask_eq_exp_minus_1)
  have "(0x80 :: byte) = push_bit 7 1" by (simp add: push_bit_eq_mult)
  then have b: "bit (0x80 :: byte) k \<longleftrightarrow> k = 7" for k
    by (simp only: bit_push_bit_iff bit_1_iff) auto
  have n: "unat ?n = n" using assms by (simp add: unat_byte_of_nat)
  have "?n AND 0x7F = ?n"
    unfolding m by (rule bit_word_eqI) (auto simp: bit_and_iff bit_mask_iff dest: lo)
  moreover have "(?n OR 0x80) AND 0x7F = ?n"
    unfolding m by (rule bit_word_eqI) (simp only: bit_and_iff bit_or_iff bit_mask_iff b, auto dest: lo)
  ultimately show "unat (?n AND 0x7F) = n" "unat ((?n OR 0x80) AND 0x7F) = n"
    using n by simp_all
  show "?n AND 0x80 = 0"
    by (rule bit_word_eqI) (simp only: bit_and_iff b, auto dest: lo)
  have "(?n OR 0x80) AND 0x80 = 0x80"
    by (rule bit_word_eqI) (auto simp: bit_and_iff bit_or_iff)
  then show "(?n OR 0x80) AND 0x80 \<noteq> 0" by simp
qed

lemma packed_codec:
  assumes s: "s \<noteq> []" "length s \<le> PackedMax" and p: "list_all (packs tag pack) s"
    and z: "unpackByte tag 0 = Inr z" and tag: "tag = Nibble8 \<or> tag = Hex8"
  shows "\<exists>bs. emits D (writePacked s tag pack) bs \<and> bs \<noteq> [] \<and>
           reads_content D bs (\<lambda>_. VStr (string_of_bytes s))"
proof -
  let ?n = "(length s + 1) div 2"
  let ?h = "if length s mod 2 \<noteq> 0 then of_nat ?n OR 0x80 else of_nat ?n :: byte"
  let ?bs = "[tag] @ [?h] @ pack_pairs pack s"
  have n: "?n \<le> 64" using s by (simp add: PackedMax_def)
  have e: "emits D (writePacked s tag pack) ?bs"
    unfolding writePacked_def Let_def
    using emits_comp [OF emits_push [of D "[tag]"] emits_comp [OF emits_push [of D "[?h]"]
          emits_push [of D "pack_pairs pack s"]]]
    by (simp only: comp_assoc)
  have raw: "reads D (readRaw (unat (?h AND 0x7F))) (pack_pairs pack s) (pack_pairs pack s)"
    using packed_head [OF n] by (intro reads_readRaw) (simp add: length_pack_pairs)
  have lift: "reads D (lift_result (unpack_bytes tag (pack_pairs pack s))) []
      (s @ (if odd (length s) then [z] else []))"
    by (simp add: unpack_pack_pairs [OF p z] lift_result_def reads_def)
  have "reads D (readPacked8 tag) (?h # pack_pairs pack s) (VStr (string_of_bytes s))"
    unfolding readPacked8_def
    by (rule reads_byte_bind, rule reads_bind' [OF raw], rule reads_bind' [OF lift])
      (use s n packed_head [OF n] in \<open>auto simp: odd_iff_mod_2_eq_one even_iff_mod_2_eq_zero\<close>)
  then have "reads D (content_of_tag rc a tag) (?h # pack_pairs pack s) (VStr (string_of_bytes s))"
    for rc a
    using tag by (auto simp: content_of_tag_def tag_defs)
  then have "reads_content D ?bs (\<lambda>_. VStr (string_of_bytes s))"
    by (simp add: reads_content_def reads_byte_bind)
  with e show ?thesis by blast
qed

subsection \<open>Strings\<close>

definition dict_ok :: "Dictionary \<Rightarrow> bool" where
  "dict_ok D \<longleftrightarrow> loaded D \<and> dict_tables (SingleByte D) (DoubleByte D) \<and>
     list_all (\<lambda>t. utf8_valid (bytes_of_string t)) (SingleByte D) \<and>
     list_all (list_all (\<lambda>t. utf8_valid (bytes_of_string t))) (DoubleByte D)"

definition norm_str :: "string \<Rightarrow> val" where
  "norm_str s = blob_val True (bytes_of_string s)"

lemma norm_str_valid [simp]: "utf8_valid (bytes_of_string s) \<Longrightarrow> norm_str s = VStr s"
  by (simp add: norm_str_def blob_val_def)

lemma content_single_tag:
  assumes "0 < unat b" "unat b < 236"
  shows "content_of_tag rc s b = token_or_fail (\<lambda>D. SingleToken D (uint b))"
proof -
  have "b \<noteq> of_nat n" if "n = 0 \<or> 236 \<le> n" "n < 256" for n
    using assms that by (auto simp: unat_byte_of_nat)
  from this [of 0] this [of 236] this [of 237] this [of 238] this [of 239] this [of 245] this [of 246]
    this [of 247] this [of 248] this [of 249] this [of 250] this [of 251] this [of 252] this [of 253]
    this [of 254] this [of 255]
  show ?thesis by (simp add: content_of_tag_def tag_defs)
qed

lemma content_double_tag:
  assumes "unat a < 4"
  shows "content_of_tag rc s (Dictionary0 + a)
           = bind readByte (\<lambda>i. token_or_fail (\<lambda>D. DoubleToken D (uint a) (uint i)))"
proof -
  have "a = 0 \<or> a = 1 \<or> a = 2 \<or> a = 3"
  proof -
    have "unat a = 0 \<or> unat a = 1 \<or> unat a = 2 \<or> unat a = 3" using assms by linarith
    then show ?thesis by (simp add: word_unat_eq_iff)
  qed
  then show ?thesis by (auto simp: content_of_tag_def tag_defs)
qed

lemma reads_token: "look D = Some s \<Longrightarrow> reads D (token_or_fail look) [] (VStr s)"
  by (simp add: reads_def token_or_fail_def)

lemma single_codec:
  assumes "dict_ok D" "singleIndex D s = Some b"
  shows "reads_content D [b] (\<lambda>_. VStr s) \<and> norm_str s = VStr s"
proof -
  have t: "0 < unat b" "unat b < 236" "SingleToken D (uint b) = Some s"
    using singleIndex_SingleToken [of D s b] assms by (auto simp: dict_ok_def)
  then have "unat b < length (SingleByte D)" "SingleByte D ! unat b = s"
    by (auto simp: SingleToken_uint split: if_splits)
  then have "utf8_valid (bytes_of_string s)"
    using assms(1) by (auto simp: dict_ok_def list_all_length)
  then show ?thesis
    using t by (simp add: reads_content_def content_single_tag reads_byte_bind reads_token)
qed

lemma double_codec:
  assumes "dict_ok D" "doubleIndex D s = Some (a, b)"
  shows "reads_content D [Dictionary0 + a, b] (\<lambda>_. VStr s) \<and> norm_str s = VStr s"
proof -
  have t: "unat a < 4" "DoubleToken D (uint a) (uint b) = Some s"
    using doubleIndex_DoubleToken [of D s a b] assms by (auto simp: dict_ok_def)
  then have "unat a < length (DoubleByte D)" "unat b < length (DoubleByte D ! unat a)"
    "DoubleByte D ! unat a ! unat b = s"
    by (auto simp: DoubleToken_uint split: if_splits)
  then have "utf8_valid (bytes_of_string s)"
    using assms(1) by (auto simp: dict_ok_def list_all_length)
  then show ?thesis
    using t by (simp add: reads_content_def content_double_tag reads_byte_bind reads_token)
qed

lemma ascii_packable:
  "isNibblePackable s \<Longrightarrow> utf8_valid s" "isHexPackable s \<Longrightarrow> utf8_valid s"
proof -
  have "c < 0x80" if "nibble_char c \<or> hex_char c" for c
    using that by (auto simp: nibble_char_def hex_char_def elim: order.strict_trans1)
  then show "isNibblePackable s \<Longrightarrow> utf8_valid s" "isHexPackable s \<Longrightarrow> utf8_valid s"
    by (auto intro!: utf8_valid_ascii simp: isNibblePackable_def isHexPackable_def list_all_iff
        split: if_splits)
qed

lemma packable_codec:
  assumes "isNibblePackable s \<and> tag = Nibble8 \<and> pack = packNibble
         \<or> isHexPackable s \<and> tag = Hex8 \<and> pack = packHex"
  shows "\<exists>bs. emits D (writePacked s tag pack) bs \<and> bs \<noteq> [] \<and>
           reads_content D bs (\<lambda>_. VStr (string_of_bytes s)) \<and> norm_str (string_of_bytes s) = VStr (string_of_bytes s)"
proof -
  have "s \<noteq> []" "length s \<le> PackedMax" "list_all (packs tag pack) s" "tag = Nibble8 \<or> tag = Hex8"
    "utf8_valid s"
    using assms packs_nibble packs_hex ascii_packable
    by (auto simp: isNibblePackable_def isHexPackable_def list_all_iff split: if_splits)
  moreover have "unpackByte tag 0 = Inr 0x30"
    using assms by (auto simp: unpackByte_def)
  ultimately show ?thesis using packed_codec by (metis bytes_of_string_of_bytes norm_str_valid)
qed

text \<open>A string is written in one of five forms; every form reads back as the string.\<close>

lemma string_codec:
  assumes "dict_ok D" "length s < 2 ^ 31 - 1"
  shows "\<exists>bs v. emits D (writeString s) bs \<and> bs \<noteq> [] \<and> reads_content D bs v \<and>
           v True = norm_str s \<and> (v False = VStr s \<or> v False = VBytes (bytes_of_string s))"
proof -
  let ?b = "bytes_of_string s"
  have form: "emits D w bs \<Longrightarrow> (\<And>e. enc_dict e = D \<Longrightarrow> writeString s e = w e) \<Longrightarrow> emits D (writeString s) bs"
    for w bs by (simp add: emits_def)
  note cases = writeString_def IndexOfSingle_def IndexOfDouble_def Let_def
  consider (single) i where "singleIndex D s = Some i"
    | (double) a b where "singleIndex D s = None" "doubleIndex D s = Some (a, b)"
    | (packed) tag pack where "singleIndex D s = None" "doubleIndex D s = None"
        "isNibblePackable ?b \<and> tag = Nibble8 \<and> pack = packNibble
         \<or> isHexPackable ?b \<and> tag = Hex8 \<and> pack = packHex"
        "\<And>e. enc_dict e = D \<Longrightarrow> writeString s e = writePacked ?b tag pack e"
    | (blob) "singleIndex D s = None" "doubleIndex D s = None" "\<not> isNibblePackable ?b" "\<not> isHexPackable ?b"
    by (cases "singleIndex D s"; cases "doubleIndex D s"; cases "isNibblePackable ?b"; cases "isHexPackable ?b")
      (auto simp: cases)
  then show ?thesis
  proof cases
    case single
    have "emits D (writeString s) [i]" by (rule form [OF emits_push]) (simp add: cases single)
    then show ?thesis using single_codec [OF assms(1) single] by (metis list.distinct(1))
  next
    case double
    have "emits D (writeString s) [Dictionary0 + a, b]"
      by (rule form [OF emits_push]) (simp add: cases double)
    then show ?thesis using double_codec [OF assms(1) double(2)] by (metis list.distinct(1))
  next
    case packed
    obtain bs where bs: "emits D (writePacked ?b tag pack) bs" "bs \<noteq> []"
      "reads_content D bs (\<lambda>_. VStr s)" "norm_str s = VStr s"
      using packable_codec [OF packed(3), of D] by auto
    have "emits D (writeString s) bs" by (rule form [OF bs(1)]) (rule packed(4))
    then show ?thesis using bs by metis
  next
    case blob
    obtain hs where hs: "emits D (writeBytesLen (length ?b)) hs" "hs \<noteq> []"
      "reads_content D (hs @ ?b) (\<lambda>a. blob_val a ?b)"
      using blob_codec [of ?b D] assms(2) by auto
    have "emits D (writeString s) (hs @ ?b)"
      by (rule form [OF emits_comp [OF hs(1) emits_push]]) (simp add: cases blob)
    then show ?thesis
      using hs by (intro exI [of _ "hs @ ?b"] exI [of _ "\<lambda>a. blob_val a ?b"])
        (simp add: norm_str_def blob_val_def)
  qed
qed

lemma reads_contentD: "reads_content D bs v \<Longrightarrow> 0 < f \<Longrightarrow> reads D (readContent f a) bs (v a)"
  by (cases f) (simp_all add: reads_content_def)

text \<open>The form the proofs below use: as a key or a tag the string itself, as content its norm.\<close>

definition str_bytes :: "Dictionary \<Rightarrow> string \<Rightarrow> bytes \<Rightarrow> bool" where
  "str_bytes D s bs \<longleftrightarrow> emits D (writeString s) bs \<and> bs \<noteq> [] \<and>
     (\<forall>f. 0 < f \<longrightarrow> reads D (readStringLike (readContent f)) bs (VStr s) \<and>
                     reads D (readContent f True) bs (norm_str s))"

lemma str_bytes_ex: "dict_ok D \<Longrightarrow> length s < 2 ^ 31 - 1 \<Longrightarrow> \<exists>bs. str_bytes D s bs"
proof -
  assume "dict_ok D" "length s < 2 ^ 31 - 1"
  then obtain bs v where bs: "emits D (writeString s) bs" "bs \<noteq> []" "reads_content D bs v"
    "v True = norm_str s" "v False = VStr s \<or> v False = VBytes (bytes_of_string s)"
    using string_codec by blast
  have "reads D (readStringLike (readContent f)) bs (VStr s)" if "0 < f" for f
    unfolding readStringLike_def
    by (rule reads_bind_last [OF reads_contentD [OF bs(3) that]]) (use bs(5) in auto)
  then show ?thesis using bs reads_contentD [OF bs(3), of _ True] by (auto simp: str_bytes_def)
qed

subsection \<open>JIDs\<close>

text \<open>What the tag of a JID can carry, and what is left of the address.\<close>

definition jid_wire :: "JID \<Rightarrow> bool" where
  "jid_wire j \<longleftrightarrow> length (User j) < 2 ^ 31 - 1 \<and> length (Server j) < 2 ^ 31 - 1 \<and> Server j \<noteq> ''''"

definition norm_jid :: "JID \<Rightarrow> JID" where
  "norm_jid j =
     (if isADJIDEncodable j then NewADJID (User j) (ActualAgent j) (ucast (Device j))
      else if Server j = ServerMSGram then
        empty_jid\<lparr>User := User j, Device := Device j, Server := Server j\<rparr>
      else if Server j = ServerInterop then
        empty_jid\<lparr>User := User j, Device := Device j, Integrator := Integrator j, Server := Server j\<rparr>
      else NewJID (User j) (Server j))"

lemma ucast_low_byte: "(ucast ((d :: u16) AND 0xFF) :: byte) = ucast d"
proof -
  have m: "(0xFF :: u16) = mask 8" by (simp add: mask_eq_exp_minus_1)
  show ?thesis
    unfolding m by (intro bit_word_eqI) (simp only: bit_ucast_iff bit_and_iff bit_mask_iff, auto)
qed

lemma reads_u16: "reads D (readInt 2) [ucast (drop_bit 8 (d :: u16)), ucast d] (unat d)"
proof -
  have "unat d < 65536" using unsigned_less [of d, where ?'a = nat] by simp
  then have "be_nat [ucast (drop_bit 8 d), ucast d] = unat d"
    by (simp add: unat_ucast_byte drop_bit_eq_div unat_div_distrib mult.commute)
  then show ?thesis using reads_readInt [of 2 "[ucast (drop_bit 8 d), ucast d]" D] by simp
qed

text \<open>
  \<open>val_bytes D w bs v\<close>: the writer appends \<open>bs\<close>, and as content they read as \<open>v\<close>
  with any fuel from their length on.
\<close>

definition val_bytes :: "Dictionary \<Rightarrow> (Encoder \<Rightarrow> Encoder) \<Rightarrow> bytes \<Rightarrow> val \<Rightarrow> bool" where
  "val_bytes D w bs v \<longleftrightarrow> emits D w bs \<and> bs \<noteq> [] \<and>
     (\<forall>f. length bs \<le> f \<longrightarrow> reads D (readContent f True) bs v)"

lemma val_bytes_tag:
  assumes "emits D w (t # bs)"
    and "\<And>g. length bs \<le> g \<Longrightarrow> reads D (content_of_tag (readContent g) True t) bs v"
  shows "val_bytes D w (t # bs) v"
  unfolding val_bytes_def
proof (intro conjI allI impI)
  fix f assume "length (t # bs) \<le> f"
  then obtain g where "f = Suc g" "length bs \<le> g" by (cases f) auto
  then show "reads D (readContent f True) (t # bs) v" using assms(2) by (simp add: reads_byte_bind)
qed (use assms(1) in auto)

lemma val_bytes_content: "emits D w bs \<Longrightarrow> bs \<noteq> [] \<Longrightarrow> reads_content D bs v \<Longrightarrow> val_bytes D w bs (v True)"
  unfolding val_bytes_def by (auto intro!: reads_contentD simp: neq_Nil_conv)

lemma str_bytes_emits: "str_bytes D s bs \<Longrightarrow> emits D (writeString s) bs"
  by (simp add: str_bytes_def)

lemma str_bytes_reads:
  "str_bytes D s bs \<Longrightarrow> 0 < f \<Longrightarrow> reads D (readStringLike (readContent f)) bs (VStr s)"
  by (simp add: str_bytes_def)

lemma str_bytes_pos: "str_bytes D s bs \<Longrightarrow> 0 < length bs"
  by (simp add: str_bytes_def)

lemma ad_codec:
  assumes j: "isADJIDEncodable j" and u: "str_bytes D (User j) us"
  shows "val_bytes D (writeJID j) (ADJID # ActualAgent j # ucast (Device j AND 0xFF) # us) (VJID (norm_jid j))"
proof (rule val_bytes_tag)
  show "emits D (writeJID j) (ADJID # ActualAgent j # ucast (Device j AND 0xFF) # us)"
    using emits_comp [OF emits_push str_bytes_emits [OF u],
        of "[ADJID, ActualAgent j, ucast (Device j AND 0xFF)]"] j
    by (simp add: writeJID_def)
  fix g assume "length (ActualAgent j # ucast (Device j AND 0xFF) # us) \<le> g"
  then have "0 < g" by simp
  then have "reads D (readADJID (readContent g)) (ActualAgent j # ucast (Device j AND 0xFF) # us)
      (VJID (norm_jid j))"
    unfolding readADJID_def
    by (intro reads_byte_bind reads_bind_last [OF str_bytes_reads [OF u]])
      (simp_all add: norm_jid_def j string_or_empty_def ucast_low_byte)
  then show "reads D (content_of_tag (readContent g) True ADJID)
      (ActualAgent j # ucast (Device j AND 0xFF) # us) (VJID (norm_jid j))"
    by (simp add: content_of_tag_def tag_defs)
qed

lemma fb_codec:
  assumes j: "\<not> isADJIDEncodable j" "Server j = ServerMSGram"
    and u: "str_bytes D (User j) us" and s: "str_bytes D (Server j) ss"
  shows "val_bytes D (writeJID j)
    (FBJID # us @ [ucast (drop_bit 8 (Device j)), ucast (Device j)] @ ss) (VJID (norm_jid j))"
proof (rule val_bytes_tag)
  let ?dev = "[ucast (drop_bit 8 (Device j)), ucast (Device j)] :: bytes"
  show "emits D (writeJID j) (FBJID # us @ ?dev @ ss)"
    using emits_comp [OF emits_push emits_comp [OF str_bytes_emits [OF u] emits_comp
        [OF emits_push str_bytes_emits [OF s]]], of ?dev "[FBJID]"] j
    by (simp add: writeJID_def comp_assoc)
  fix g assume "length (us @ ?dev @ ss) \<le> g"
  then have "0 < g" by simp
  then have "reads D (readFBJID (readContent g)) (us @ ?dev @ ss) (VJID (norm_jid j))"
    unfolding readFBJID_def
    by (intro reads_bind [OF str_bytes_reads [OF u]] reads_bind [OF reads_u16]
        reads_bind_last [OF str_bytes_reads [OF s]])
      (simp_all add: norm_jid_def j toStringOrBytes_def)
  then show "reads D (content_of_tag (readContent g) True FBJID) (us @ ?dev @ ss) (VJID (norm_jid j))"
    by (simp add: content_of_tag_def tag_defs)
qed

lemma interop_codec:
  assumes j: "\<not> isADJIDEncodable j" "Server j \<noteq> ServerMSGram" "Server j = ServerInterop"
    and u: "str_bytes D (User j) us" and s: "str_bytes D (Server j) ss"
  shows "val_bytes D (writeJID j)
    (InteropJID # us @ [ucast (drop_bit 8 (Device j)), ucast (Device j)]
       @ [ucast (drop_bit 8 (Integrator j)), ucast (Integrator j)] @ ss) (VJID (norm_jid j))"
proof (rule val_bytes_tag)
  let ?dev = "[ucast (drop_bit 8 (Device j)), ucast (Device j)] :: bytes"
  let ?int = "[ucast (drop_bit 8 (Integrator j)), ucast (Integrator j)] :: bytes"
  show "emits D (writeJID j) (InteropJID # us @ ?dev @ ?int @ ss)"
    using emits_comp [OF emits_push emits_comp [OF str_bytes_emits [OF u] emits_comp
        [OF emits_push emits_comp [OF emits_push str_bytes_emits [OF s]]]], of ?int ?dev "[InteropJID]"] j
    by (simp add: writeJID_def comp_assoc)
  fix g assume "length (us @ ?dev @ ?int @ ss) \<le> g"
  then have "0 < g" by simp
  then have "reads D (readInteropJID (readContent g)) (us @ ?dev @ ?int @ ss) (VJID (norm_jid j))"
    unfolding readInteropJID_def
    by (intro reads_bind [OF str_bytes_reads [OF u]] reads_bind [OF reads_u16]
        reads_bind_last [OF str_bytes_reads [OF s]])
      (use j in \<open>simp_all add: norm_jid_def toStringOrBytes_def\<close>)
  then show "reads D (content_of_tag (readContent g) True InteropJID) (us @ ?dev @ ?int @ ss) (VJID (norm_jid j))"
    by (simp add: content_of_tag_def tag_defs)
qed

lemma reads_empty_string: "0 < g \<Longrightarrow> reads D (readStringLike (readContent g)) [ListEmpty] VNil"
proof -
  assume "0 < g"
  then have "reads D (readContent g False) [ListEmpty] VNil"
    by (cases g) (auto intro!: reads_byte_bind simp: content_of_tag_def)
  then show ?thesis unfolding readStringLike_def by (rule reads_bind_last) simp
qed

lemma pair_codec:
  assumes j: "\<not> isADJIDEncodable j" "Server j \<noteq> ServerMSGram" "Server j \<noteq> ServerInterop" "Server j \<noteq> ''''"
    and u: "str_bytes D (User j) us" and s: "str_bytes D (Server j) ss"
  shows "val_bytes D (writeJID j) (JIDPair # (if User j = '''' then [ListEmpty] else us) @ ss) (VJID (norm_jid j))"
proof (rule val_bytes_tag)
  let ?us = "if User j = '''' then [ListEmpty] else us"
  have "emits D (if User j = '''' then push [ListEmpty] else writeString (User j)) ?us"
    using str_bytes_emits [OF u] by simp
  from emits_comp [OF emits_push emits_comp [OF this str_bytes_emits [OF s]], of "[JIDPair]"] j
  show "emits D (writeJID j) (JIDPair # ?us @ ss)"
    by (simp add: writeJID_def comp_assoc)
  fix g assume "length (?us @ ss) \<le> g"
  then have g: "0 < g" using str_bytes_pos [OF s] by (cases ss) simp_all
  obtain x where x: "reads D (readStringLike (readContent g)) ?us x" "string_or_empty x = User j"
    using reads_empty_string [OF g, of D] str_bytes_reads [OF u g]
    by (cases "User j = ''''") (auto simp: string_or_empty_def)
  have "reads D (readJIDPair (readContent g)) (?us @ ss) (VJID (norm_jid j))"
    unfolding readJIDPair_def
    by (intro reads_bind [OF x(1)] reads_bind_last [OF str_bytes_reads [OF s g]])
      (simp add: norm_jid_def j x(2))
  then show "reads D (content_of_tag (readContent g) True JIDPair) (?us @ ss) (VJID (norm_jid j))"
    by (simp add: content_of_tag_def tag_defs)
qed

lemma jid_codec: "dict_ok D \<Longrightarrow> jid_wire j \<Longrightarrow> \<exists>bs. val_bytes D (writeJID j) bs (VJID (norm_jid j))"
  using str_bytes_ex [of D "User j"] str_bytes_ex [of D "Server j"]
    ad_codec fb_codec interop_codec pair_codec
  unfolding jid_wire_def by metis

subsection \<open>Values and nodes\<close>

text \<open>
  The values and trees the wire format carries: strings and blobs below the size
  limit, JIDs with a server, lists and nodes whose header fits sixteen bits, no
  single node as a value (its header would be read as a list) and no value of an
  unsupported type. A node with the tag \<open>0\<close> is the null node whatever it holds.
\<close>

function (sequential) wire_node :: "node \<Rightarrow> bool" and wire_val :: "val \<Rightarrow> bool" where
  "wire_node n \<longleftrightarrow> Tag n = ''0'' \<or>
     length (Tag n) < 2 ^ 31 - 1 \<and> length (countableAttrs n) < 32766 \<and>
     distinct (map fst (Attrs n)) \<and>
     (\<forall>kv \<in> set (countableAttrs n). length (fst kv) < 2 ^ 31 - 1 \<and> wire_val (snd kv)) \<and>
     wire_val (Content n)"
| "wire_val (VStr s) \<longleftrightarrow> length s < 2 ^ 31 - 1"
| "wire_val (VBytes b) \<longleftrightarrow> length b < 2 ^ 31 - 1"
| "wire_val (VJID j) \<longleftrightarrow> jid_wire j"
| "wire_val (VNode n) \<longleftrightarrow> False"
| "wire_val (VNodes ns) \<longleftrightarrow> length ns < 65535 \<and> (\<forall>n \<in> set ns. wire_node n)"
| "wire_val (VOther s) \<longleftrightarrow> False"
| "wire_val v \<longleftrightarrow> True"
  by pat_completeness auto
termination
  by (relation "measure (\<lambda>x. case x of Inl n \<Rightarrow> size n | Inr v \<Rightarrow> size v)")
    (simp_all only: wf_measure in_measure sum.case Content_size countableAttrs_size VNodes_size)

text \<open>What the peer decodes.\<close>

function (sequential) norm_node :: "node \<Rightarrow> node" and norm_val :: "val \<Rightarrow> val" where
  "norm_node n =
     (if Tag n = ''0'' then Node ''0'' [] VNil
      else Node (Tag n) (map (\<lambda>kv. (fst kv, norm_val (snd kv))) (countableAttrs n)) (norm_val (Content n)))"
| "norm_val VNil = VNil"
| "norm_val (VStr s) = norm_str s"
| "norm_val (VBytes b) = blob_val True b"
| "norm_val (VJID j) = VJID (norm_jid j)"
| "norm_val (VBool b) = VStr (FormatBool b)"
| "norm_val (VInt i) = VStr (int_to_dec (sint i))"
| "norm_val (VInt32 i) = VStr (int_to_dec (sint i))"
| "norm_val (VInt64 i) = VStr (int_to_dec (sint i))"
| "norm_val (VUint i) = VStr (nat_to_dec (unat i))"
| "norm_val (VUint32 i) = VStr (nat_to_dec (unat i))"
| "norm_val (VUint64 i) = VStr (nat_to_dec (unat i))"
| "norm_val (VNodes ns) = (if ns = [] then VNil else VNodes (map norm_node ns))"
| "norm_val v = v"
  by pat_completeness auto
termination
  by (relation "measure (\<lambda>x. case x of Inl n \<Rightarrow> size n | Inr v \<Rightarrow> size v)")
    (simp_all only: wf_measure in_measure sum.case Content_size countableAttrs_size VNodes_size)

declare wire_node.simps [simp del] norm_node.simps [simp del]

definition node_bytes :: "Dictionary \<Rightarrow> node \<Rightarrow> bytes \<Rightarrow> bool" where
  "node_bytes D n bs \<longleftrightarrow> emits D (WriteNode n) bs \<and> bs \<noteq> [] \<and>
     (\<forall>f. length bs \<le> f \<longrightarrow> reads D (ReadNode (readContent f)) bs (norm_node n))"

lemma str_val_bytes: "str_bytes D s bs \<Longrightarrow> val_bytes D (writeString s) bs (norm_str s)"
  unfolding str_bytes_def val_bytes_def by (metis length_greater_0_conv order.strict_trans2)

lemma nat_to_dec_ascii: "c \<in> set (nat_to_dec n) \<Longrightarrow> byte_of_char c < 0x80"
  using nat_to_dec_digits [of c n] by (simp add: word_less_nat_alt unat_byte_of_char)

lemma utf8_nat: "utf8_valid (bytes_of_string (nat_to_dec n))"
  by (rule utf8_valid_ascii) (auto simp: list_all_iff bytes_of_string_def nat_to_dec_ascii)

lemma utf8_int: "utf8_valid (bytes_of_string (int_to_dec i))"
proof -
  have "byte_of_char (CHR ''-'') < 0x80" by (simp add: byte_of_char_def)
  then show ?thesis by (simp add: int_to_dec_def utf8_nat)
qed

lemma length_nat_to_dec: "n < 10 ^ k \<Longrightarrow> 0 < k \<Longrightarrow> length (nat_to_dec n) \<le> k"
proof (induction k arbitrary: n)
  case (Suc k)
  show ?case
  proof (cases "n < 10")
    case True
    then show ?thesis by (simp add: nat_to_dec.simps)
  next
    case False
    then have "n div 10 < 10 ^ k" "0 < k" using Suc.prems by (auto simp: less_mult_imp_div_less mult.commute intro: gr0I)
    then show ?thesis using Suc.IH [of "n div 10"] False by (simp add: nat_to_dec.simps [of n])
  qed
qed simp

lemma text_bytes:
  assumes "dict_ok D" "length s < 2 ^ 31 - 1" "utf8_valid (bytes_of_string s)"
  shows "\<exists>bs. val_bytes D (writeString s) bs (VStr s)"
  using str_bytes_ex [OF assms(1,2)] str_val_bytes assms(3) by fastforce

lemma length_word_dec:
  fixes i :: "'a::len word"
  assumes "LENGTH('a) \<le> 64"
  shows "length (nat_to_dec (unat i)) < 2 ^ 31 - 1" "length (int_to_dec (sint i)) < 2 ^ 31 - 1"
proof -
  have p: "(2 :: nat) ^ LENGTH('a) \<le> 2 ^ 64" using assms by (rule power_increasing) simp
  have "unat i < 2 ^ LENGTH('a)" by (rule unsigned_less)
  also note p
  also have "(2 :: nat) ^ 64 \<le> 10 ^ 20" by simp
  finally have "unat i < 10 ^ 20" .
  then show "length (nat_to_dec (unat i)) < 2 ^ 31 - 1" using length_nat_to_dec [of "unat i" 20] by simp
  have "\<bar>sint i\<bar> \<le> 2 ^ (LENGTH('a) - 1)"
    using sint_greater_eq [of i] sint_less [of i] by simp
  also have "\<dots> \<le> (2 :: int) ^ 63" using assms by (intro power_increasing) auto
  finally have "nat \<bar>sint i\<bar> < 10 ^ 20" by (simp add: nat_less_iff)
  then have "length (nat_to_dec (nat \<bar>sint i\<bar>)) \<le> 20" by (rule length_nat_to_dec) simp
  then show "length (int_to_dec (sint i)) < 2 ^ 31 - 1" by (auto simp: int_to_dec_def abs_if split: if_splits)
qed

text \<open>Attribute lists.\<close>

lemma attrs_codec:
  assumes D: "dict_ok D"
    and kvs: "\<forall>kv \<in> set kvs. length (fst kv) < 2 ^ 31 - 1 \<and> (\<exists>bs. val_bytes D (write_val (snd kv)) bs (norm_val (snd kv)))"
    and "distinct (map fst kvs)"
  shows "\<exists>bs. emits D (fold (\<lambda>kv e. write_val (snd kv) (writeString (fst kv) e)) kvs) bs \<and>
    (\<forall>f acc. length bs \<le> f \<and> fst ` set acc \<inter> fst ` set kvs = {} \<longrightarrow>
       reads D (read_attrs (readContent f) (length kvs) acc) bs
         (acc @ map (\<lambda>kv. (fst kv, norm_val (snd kv))) kvs))"
  using assms(2,3)
proof (induction kvs)
  case Nil
  then show ?case by (intro exI [of _ "[]"]) (simp add: emits_def)
next
  case (Cons kv kvs)
  obtain k v where kv: "kv = (k, v)" by force
  obtain ks where ks: "str_bytes D k ks" using str_bytes_ex [OF D, of k] Cons.prems kv by auto
  obtain vs where vs: "val_bytes D (write_val v) vs (norm_val v)" using Cons.prems kv by auto
  obtain bs where e: "emits D (fold (\<lambda>kv e. write_val (snd kv) (writeString (fst kv) e)) kvs) bs"
    and r: "\<And>f acc. length bs \<le> f \<Longrightarrow> fst ` set acc \<inter> fst ` set kvs = {} \<Longrightarrow>
       reads D (read_attrs (readContent f) (length kvs) acc) bs
         (acc @ map (\<lambda>kv. (fst kv, norm_val (snd kv))) kvs)"
    using Cons.IH Cons.prems by auto
  have "emits D (fold (\<lambda>kv e. write_val (snd kv) (writeString (fst kv) e)) (kv # kvs)) ((ks @ vs) @ bs)"
    using emits_comp [OF emits_comp [OF str_bytes_emits [OF ks]] e] vs
    by (simp add: kv val_bytes_def comp_def)
  moreover have "reads D (read_attrs (readContent f) (length (kv # kvs)) acc) ((ks @ vs) @ bs)
      (acc @ map (\<lambda>kv. (fst kv, norm_val (snd kv))) (kv # kvs))"
    if f: "length ((ks @ vs) @ bs) \<le> f" and acc: "fst ` set acc \<inter> fst ` set (kv # kvs) = {}" for f acc
  proof -
    have "0 < f" using f str_bytes_pos [OF ks] by (cases ks) auto
    moreover have "reads D (readContent f True) vs (norm_val v)" using vs f by (simp add: val_bytes_def)
    moreover have "AList.update k (norm_val v) acc = acc @ [(k, norm_val v)]"
      using acc kv by (intro update_fresh) auto
    moreover have "reads D (read_attrs (readContent f) (length kvs) (acc @ [(k, norm_val v)])) bs
        ((acc @ [(k, norm_val v)]) @ map (\<lambda>kv. (fst kv, norm_val (snd kv))) kvs)"
      using acc kv f Cons.prems(2) by (intro r) auto
    ultimately show ?thesis
      by (simp add: kv) (intro reads_bind [OF str_bytes_reads [OF ks]], auto intro!: reads_bind)
  qed
  ultimately show ?case by blast
qed

lemma node_header:
  assumes "0 < sz" "sz < 65535"
    and t: "str_bytes D tag ts"
    and attrs: "\<And>f. length as \<le> f \<Longrightarrow> reads D (read_attrs (readContent f) ((sz - 1) div 2) []) as attrs"
    and content: "\<And>f. length cs \<le> f \<Longrightarrow>
      reads D (if sz mod 2 = 0 then bind (readContent f True) (\<lambda>content. ret (Node tag attrs content))
               else ret (Node tag attrs VNil)) cs n"
    and hs: "hd hs \<in> {List8, List16}" "hs \<noteq> []" "reads D (listSize (hd hs)) (tl hs) sz"
    and f: "length (hs @ ts @ as @ cs) \<le> f"
  shows "reads D (ReadNode (readContent f)) (hs @ ts @ as @ cs) n"
proof -
  obtain h hs' where h: "hs = h # hs'" using hs(2) by (cases hs) auto
  have f0: "0 < f" using f h by simp
  have "reads D (bind (listSize h) (\<lambda>sz.
         if h = List8 \<and> sz = 0 then ret (Node ''0'' [] VNil)
         else if sz = 0 then throw ErrInvalidNode
         else bind (readStringLike (readContent f)) (\<lambda>rawTag.
           case rawTag of
             VStr tagStr \<Rightarrow>
               bind (read_attrs (readContent f) ((sz - 1) div 2) []) (\<lambda>attrs.
                 if sz mod 2 = 0 then bind (readContent f True) (\<lambda>content. ret (Node tagStr attrs content))
                 else ret (Node tagStr attrs VNil))
           | _ \<Rightarrow> throw ErrInvalidNode))) (hs' @ ts @ as @ cs) n"
  proof (rule reads_bind)
    show "reads D (listSize h) hs' sz" using hs h by simp
    have "reads D (bind (read_attrs (readContent f) ((sz - 1) div 2) []) (\<lambda>attrs.
        if sz mod 2 = 0 then bind (readContent f True) (\<lambda>content. ret (Node tag attrs content))
        else ret (Node tag attrs VNil))) (as @ cs) n"
      using f content [of f] by (intro reads_bind [OF attrs [of f]]) simp_all
    then show "reads D (if h = List8 \<and> sz = 0 then ret (Node ''0'' [] VNil)
         else if sz = 0 then throw ErrInvalidNode
         else bind (readStringLike (readContent f)) (\<lambda>rawTag.
           case rawTag of
             VStr tagStr \<Rightarrow>
               bind (read_attrs (readContent f) ((sz - 1) div 2) []) (\<lambda>attrs.
                 if sz mod 2 = 0 then bind (readContent f True) (\<lambda>content. ret (Node tagStr attrs content))
                 else ret (Node tagStr attrs VNil))
           | _ \<Rightarrow> throw ErrInvalidNode)) (ts @ as @ cs) n"
      using assms(1) by (simp, intro reads_bind [OF str_bytes_reads [OF t f0]]) simp
  qed
  moreover have "h \<noteq> ListEmpty" using hs(1) h by (auto simp: tag_defs)
  ultimately show ?thesis
    unfolding ReadNode_def by (simp add: h reads_byte_bind)
qed

lemma countableAttrs_distinct: "distinct (map fst (Attrs n)) \<Longrightarrow> distinct (map fst (countableAttrs n))"
proof -
  assume "distinct (map fst (Attrs n))"
  then have "distinct (map fst (filter (\<lambda>(k, v). countable_val v) (Attrs n)))"
    by (rule distinct_map_filter)
  then show ?thesis
    unfolding countableAttrs_def
    by (metis (no_types, lifting) distinct_map distinct_sort set_sort)
qed

lemma node_codec_tag0: "Tag n = ''0'' \<Longrightarrow> node_bytes D n [List8, ListEmpty]"
proof -
  assume t: "Tag n = ''0''"
  have "emits D (WriteNode n) [List8, ListEmpty]"
    using t by (simp add: emits_def WriteNode.simps push_def)
  moreover have "reads D (ReadNode rc) [List8, ListEmpty] (Node ''0'' [] VNil)" for rc
  proof -
    have "reads D (listSize List8) [ListEmpty] 0"
      using reads_readInt [of 1 "[ListEmpty]" D] by (simp add: ListEmpty_def)
    then show ?thesis unfolding ReadNode_def
      by (intro reads_byte_bind) (simp add: tag_defs(1,9), rule reads_bind_last, auto simp: tag_defs)
  qed
  ultimately show ?thesis using t by (simp add: node_bytes_def norm_node.simps)
qed

lemma node_codec:
  assumes D: "dict_ok D" and n: "wire_node n" "Tag n \<noteq> ''0''"
    and attrs: "\<forall>kv \<in> set (countableAttrs n). \<exists>bs. val_bytes D (write_val (snd kv)) bs (norm_val (snd kv))"
    and content: "\<exists>bs. val_bytes D (write_val (Content n)) bs (norm_val (Content n))"
  shows "\<exists>bs. node_bytes D n bs"
proof -
  let ?kvs = "countableAttrs n" and ?has = "if Content n \<noteq> VNil then 1 else 0 :: nat"
  let ?sz = "2 * length ?kvs + 1 + ?has"
  have w: "length (Tag n) < 2 ^ 31 - 1" "?sz < 65535" "distinct (map fst ?kvs)"
    "\<forall>kv \<in> set ?kvs. length (fst kv) < 2 ^ 31 - 1"
    using n countableAttrs_distinct by (auto simp: wire_node.simps)
  obtain h hs where h: "h \<in> {List8, List16}" "emits D (writeListStart ?sz) (h # hs)" "reads D (listSize h) hs ?sz"
    using emits_listStart [of ?sz D] w(2) by auto
  obtain ts where ts: "str_bytes D (Tag n) ts" using str_bytes_ex [OF D w(1)] by blast
  have "\<forall>kv \<in> set ?kvs. length (fst kv) < 2 ^ 31 - 1 \<and> (\<exists>bs. val_bytes D (write_val (snd kv)) bs (norm_val (snd kv)))"
    using attrs w(4) by blast
  from attrs_codec [OF D this w(3)] obtain as where
    ae: "emits D (fold (\<lambda>kv e. write_val (snd kv) (writeString (fst kv) e)) ?kvs) as" and
    ar: "\<forall>f acc. length as \<le> f \<and> fst ` set acc \<inter> fst ` set ?kvs = {} \<longrightarrow>
       reads D (read_attrs (readContent f) (length ?kvs) acc) as
         (acc @ map (\<lambda>kv. (fst kv, norm_val (snd kv))) ?kvs)" by blast
  obtain cs where cs: "emits D (if ?has = 1 then write_val (Content n) else (\<lambda>e. e)) cs"
    "\<And>f. length cs \<le> f \<Longrightarrow> reads D
       (if ?sz mod 2 = 0 then bind (readContent f True) (\<lambda>content. ret (Node (Tag n) as' content))
        else ret (Node (Tag n) as' VNil)) cs (Node (Tag n) as' (norm_val (Content n)))" for as'
  proof (cases "Content n = VNil")
    case True
    then show thesis using that [of "[]"] by (simp add: emits_def)
  next
    case False
    obtain bs where "val_bytes D (write_val (Content n)) bs (norm_val (Content n))" using content by blast
    then show thesis using that [of bs] False
      by (auto simp: val_bytes_def intro: reads_bind_last)
  qed
  let ?bs = "(h # hs) @ ts @ as @ cs"
  have "emits D ((if ?has = 1 then write_val (Content n) else (\<lambda>e. e))
      \<circ> (fold (\<lambda>kv e. write_val (snd kv) (writeString (fst kv) e)) ?kvs
      \<circ> (writeString (Tag n) \<circ> writeListStart ?sz))) ?bs"
    using emits_comp [OF emits_comp [OF emits_comp [OF h(2) str_bytes_emits [OF ts]] ae] cs(1)] by simp
  then have "emits D (WriteNode n) ?bs"
    using n(2) by (cases "Content n = VNil") (simp_all add: emits_def WriteNode.simps Let_def)
  moreover have "reads D (ReadNode (readContent f)) ?bs (norm_node n)" if "length ?bs \<le> f" for f
  proof (rule node_header [OF _ w(2) ts])
    let ?as = "map (\<lambda>kv. (fst kv, norm_val (snd kv))) ?kvs"
    have half: "(?sz - 1) div 2 = length ?kvs" by simp
    show "reads D (read_attrs (readContent f) ((?sz - 1) div 2) []) as ?as" if "length as \<le> f" for f
      unfolding half using that ar [rule_format, of f "[]"] by simp
    have "norm_node n = Node (Tag n) ?as (norm_val (Content n))"
      using n(2) by (simp add: norm_node.simps [of n])
    then show "reads D (if ?sz mod 2 = 0
        then bind (readContent f True) (\<lambda>content. ret (Node (Tag n) ?as content))
        else ret (Node (Tag n) ?as VNil)) cs (norm_node n)" if "length cs \<le> f" for f
      using cs(2) [OF that, of ?as] by simp
  qed (use h that in simp_all)
  ultimately show ?thesis by (auto simp: node_bytes_def)
qed

text \<open>Lists of nodes, as content.\<close>

lemma nodes_codec:
  "\<forall>n \<in> set ns. \<exists>bs. node_bytes D n bs \<Longrightarrow>
   \<exists>bs. emits D (fold (\<lambda>child e. WriteNode child e) ns) bs \<and>
     (\<forall>f. length bs \<le> f \<longrightarrow> reads D (read_nodes (readContent f) (length ns)) bs (map norm_node ns))"
proof (induction ns)
  case Nil
  then show ?case by (intro exI [of _ "[]"]) (simp add: emits_def)
next
  case (Cons n ns)
  obtain bs where bs: "node_bytes D n bs" using Cons.prems by auto
  obtain cs where cs: "emits D (fold (\<lambda>child e. WriteNode child e) ns) cs"
    "\<And>f. length cs \<le> f \<Longrightarrow> reads D (read_nodes (readContent f) (length ns)) cs (map norm_node ns)"
    using Cons by auto
  have "emits D (fold (\<lambda>child e. WriteNode child e) (n # ns)) (bs @ cs)"
    using emits_comp [OF _ cs(1)] bs by (simp add: node_bytes_def)
  moreover have "reads D (read_nodes (readContent f) (length (n # ns))) (bs @ cs) (map norm_node (n # ns))"
    if "length (bs @ cs) \<le> f" for f
  proof -
    have "reads D (ReadNode (readContent f)) bs (norm_node n)" using bs that by (simp add: node_bytes_def)
    moreover have "reads D (bind (read_nodes (readContent f) (length ns)) (\<lambda>xs. ret (norm_node n # xs))) cs
        (norm_node n # map norm_node ns)"
      using cs(2) [of f] that by (intro reads_bind_last) auto
    ultimately show ?thesis by (simp add: reads_bind)
  qed
  ultimately show ?case by blast
qed

lemma reads_list_content:
  assumes "reads D (readList rc) (t # bs) ns" "t \<in> {List8, List16}"
  shows "reads D (bind readByte (content_of_tag rc a)) (t # bs) (VNodes ns)"
  unfolding reads_def
proof (intro allI impI)
  fix d rest assume d: "dec_dict d = D \<and> at_stream d ((t # bs) @ rest)"
  then have "dec_index d < length (dec_data d)" "dec_data d ! dec_index d = t"
    using at_stream_take(1) [of d "t # bs" rest] at_stream_take(3) [of d "t # bs" rest 0] by auto
  then have "bind readByte (content_of_tag rc a) d = bind (readList rc) (\<lambda>ns. ret (VNodes ns)) d"
    using content_list [of d rc a] assms(2) by simp
  moreover have "reads D (bind (readList rc) (\<lambda>ns. ret (VNodes ns))) (t # bs) (VNodes ns)"
    using assms(1) by (rule reads_bind_last) simp
  ultimately show "bind readByte (content_of_tag rc a) d = Inr (VNodes ns, advance (length (t # bs)) d)"
    using d readsD [of D "bind (readList rc) (\<lambda>ns. ret (VNodes ns))" "t # bs"] by metis
qed

lemma VNodes_codec:
  assumes "length ns < 65535" "ns \<noteq> []" "\<forall>n \<in> set ns. \<exists>bs. node_bytes D n bs"
  shows "\<exists>bs. val_bytes D (write_val (VNodes ns)) bs (VNodes (map norm_node ns))"
proof -
  obtain t hs where h: "t \<in> {List8, List16}" "emits D (writeListStart (length ns)) (t # hs)"
    "reads D (listSize t) hs (length ns)"
    using emits_listStart [of "length ns" D] assms(1,2) by auto
  obtain cs where cs: "emits D (fold (\<lambda>child e. WriteNode child e) ns) cs"
    "\<And>f. length cs \<le> f \<Longrightarrow> reads D (read_nodes (readContent f) (length ns)) cs (map norm_node ns)"
    using nodes_codec [OF assms(3)] by auto
  have "emits D (write_val (VNodes ns)) (t # hs @ cs)"
    using emits_comp [OF h(2) cs(1)] by (simp add: emits_def)
  moreover have "reads D (readContent f True) (t # hs @ cs) (VNodes (map norm_node ns))"
    if "length (t # hs @ cs) \<le> f" for f
  proof -
    obtain g where g: "f = Suc g" "length cs \<le> g" using \<open>length (t # hs @ cs) \<le> f\<close> by (cases f) auto
    have "reads D (readList (readContent g)) (t # hs @ cs) (map norm_node ns)"
      unfolding readList_def by (intro reads_byte_bind reads_bind [OF h(3)] cs(2) [OF g(2)])
    then show ?thesis using reads_list_content h(1) by (simp add: g(1))
  qed
  ultimately show ?thesis by (auto simp: val_bytes_def)
qed

lemma bytes_codec: "length b < 2 ^ 31 - 1 \<Longrightarrow> \<exists>bs. val_bytes D (writeBytes b) bs (blob_val True b)"
proof -
  assume "length b < 2 ^ 31 - 1"
  then obtain hs where "emits D (writeBytesLen (length b)) hs" "hs \<noteq> []"
    "reads_content D (hs @ b) (\<lambda>asString. blob_val asString b)"
    using blob_codec by blast
  then show ?thesis
    using val_bytes_content [of D "writeBytes b" "hs @ b"] emits_comp [OF _ emits_push]
    by (auto simp: writeBytes_def)
qed

lemma nil_codec: "val_bytes D (push [ListEmpty]) [ListEmpty] VNil"
  by (rule val_bytes_tag) (simp_all add: content_of_tag_def)

lemma write_val_leaf [simp]:
  "write_val VNil = push [ListEmpty]"
  "write_val (VStr s) = writeString s"
  "write_val (VBytes b) = writeBytes b"
  "write_val (VJID j) = writeJID j"
  "write_val (VBool t) = writeString (FormatBool t)"
  "write_val (VInt i) = writeString (int_to_dec (sint i))"
  "write_val (VInt32 k) = writeString (int_to_dec (sint k))"
  "write_val (VInt64 i) = writeString (int_to_dec (sint i))"
  "write_val (VUint i) = writeString (nat_to_dec (unat i))"
  "write_val (VUint32 k) = writeString (nat_to_dec (unat k))"
  "write_val (VUint64 i) = writeString (nat_to_dec (unat i))"
  by (simp_all add: fun_eq_iff)

lemma number_codec:
  fixes i :: "'a::len word"
  assumes "dict_ok D" "LENGTH('a) \<le> 64"
  shows "\<exists>bs. val_bytes D (writeString (nat_to_dec (unat i))) bs (VStr (nat_to_dec (unat i)))"
    and "\<exists>bs. val_bytes D (writeString (int_to_dec (sint i))) bs (VStr (int_to_dec (sint i)))"
  by (rule text_bytes [OF assms(1) length_word_dec(1) [OF assms(2)] utf8_nat],
      rule text_bytes [OF assms(1) length_word_dec(2) [OF assms(2)] utf8_int])

lemma bool_codec:
  assumes "dict_ok D"
  shows "\<exists>bs. val_bytes D (writeString (FormatBool t)) bs (VStr (FormatBool t))"
  by (rule text_bytes [OF assms]) (simp_all add: FormatBool_def byte_of_char_def)

lemma tree_codec:
  assumes D: "dict_ok D"
  shows "wire_node n \<Longrightarrow> \<exists>bs. node_bytes D n bs"
    and "wire_val v \<Longrightarrow> \<exists>bs. val_bytes D (write_val v) bs (norm_val v)"
proof (induction n and v rule: wire_node_wire_val.induct)
  case (1 n)
  show ?case
  proof (cases "Tag n = ''0''")
    case True
    then show ?thesis using node_codec_tag0 by blast
  next
    case False
    then show ?thesis
      using 1 by (intro node_codec [OF D]) (auto simp: wire_node.simps [of n])
  qed
next
  case (2 s)
  then show ?case using str_bytes_ex [OF D] str_val_bytes by fastforce
next
  case (3 b)
  then show ?case using bytes_codec by simp
next
  case (4 j)
  then show ?case using jid_codec [OF D] by simp
next
  case (6 ns)
  show ?case
  proof (cases "ns = []")
    case True
    have "write_val (VNodes []) = push [ListEmpty]" by (simp add: fun_eq_iff writeListStart_def)
    then show ?thesis using nil_codec True by auto
  next
    case False
    then have "\<exists>bs. val_bytes D (write_val (VNodes ns)) bs (VNodes (map norm_node ns))"
      using 6 by (intro VNodes_codec) auto
    then show ?thesis using False by (simp only: norm_val.simps if_False)
  qed
qed (auto intro: nil_codec bool_codec [OF D] number_codec [OF D])

lemma Decode_MarshalDict:
  assumes "dict_ok D" "wire_node n"
  shows "\<exists>stream. Encode n D = Inr stream \<and> MarshalDict n D = streamFlagRaw # stream \<and>
           Decode inflate D (MarshalDict n D) = Inr (norm_node n)"
proof -
  obtain bs where bs: "node_bytes D n bs" using tree_codec(1) [OF assms] by blast
  then have "WriteNode n (NewEncoder D) = (NewEncoder D)\<lparr>enc_buf := bs\<rparr>"
    by (simp add: node_bytes_def emits_def NewEncoder_def)
  then have enc: "Encode n D = Inr bs" by (simp add: Encode_def NewEncoder_def)
  have "reads D (ReadNode (readContent (length bs))) bs (norm_node n)"
    using bs by (simp add: node_bytes_def)
  from readsD [OF this, of "NewDecoder D bs" "[]"]
  have "ReadNode (readContent (length bs)) (NewDecoder D bs) = Inr (norm_node n, advance (length bs) (NewDecoder D bs))"
    by (simp add: NewDecoder_def at_stream_def)
  then show ?thesis
    by (simp add: enc MarshalDict_def Decode_def Unpack_def streamFlagRaw_def advance_def NewDecoder_def)
qed

subsection \<open>Properties\<close>

text \<open>
  C6 (round trip). Every node tree the wire format carries is encoded without
  an error, and the peer with the same dictionary decodes the marshalled payload
  to the normal form of the tree: same tags, children in order, the non-empty
  attributes sorted by key, values as text where the format has only text.
\<close>

theorem node_codec_roundtrip:
  assumes "dict_ok D" "wire_node n"
  shows "\<exists>stream. Encode n D = Inr stream \<and> MarshalDict n D = streamFlagRaw # stream \<and>
           Decode inflate D (MarshalDict n D) = Inr (norm_node n)"
  by (rule Decode_MarshalDict [OF assms])

definition sample_dict :: Dictionary where
  "sample_dict = \<lparr>Version = 3, SingleByte = ['''', ''iq'', ''to''], DoubleByte = [[''media'']],
     singleIndex = index_singles ['''', ''iq'', ''to''], doubleIndex = index_doubles [[''media'']]\<rparr>"

lemma sample_dict_ok: "dict_ok sample_dict"
  by (simp add: dict_ok_def sample_dict_def loaded_def SingleByteMax_def dict_tables_def byte_of_char_def)

lemma node_codec_roundtrip_witness:
  "Decode (\<lambda>_. None) sample_dict (MarshalDict
      (Node ''iq'' [(''to'', VJID (NewJID '''' ServerUser)), (''id'', VInt 7), (''x'', VNil)]
         (VNodes [Node ''media'' [] (VBytes [255, 0])])) sample_dict)
   = Inr (Node ''iq'' [(''id'', VStr ''7''), (''to'', VJID (NewJID '''' ServerUser))]
         (VNodes [Node ''media'' [] (VBytes [255, 0])]))"
proof -
  let ?n = "Node ''iq'' [(''to'', VJID (NewJID '''' ServerUser)), (''id'', VInt 7), (''x'', VNil)]
         (VNodes [Node ''media'' [] (VBytes [255, 0])])"
  have j: "jid_wire (NewJID '''' ServerUser)" "norm_jid (NewJID '''' ServerUser) = NewJID '''' ServerUser"
    by (simp_all add: jid_wire_def norm_jid_def NewJID_def empty_jid_def server_defs isADJIDEncodable_def)
  have c: "countableAttrs ?n = [(''id'', VInt 7), (''to'', VJID (NewJID '''' ServerUser))]"
    "countableAttrs (Node ''media'' [] (VBytes [255, 0])) = []"
    by (simp_all add: countableAttrs_def countable_val_def)
  have "wire_node ?n"
    by (simp add: wire_node.simps c j)
  from node_codec_roundtrip [OF sample_dict_ok this, of "\<lambda>_. None"]
  have "Decode (\<lambda>_. None) sample_dict (MarshalDict ?n sample_dict) = Inr (norm_node ?n)" by blast
  also have "norm_node ?n = Node ''iq'' [(''id'', VStr ''7''), (''to'', VJID (NewJID '''' ServerUser))]
         (VNodes [Node ''media'' [] (VBytes [255, 0])])"
    by (simp add: norm_node.simps c j blob_val_def in_range_def int_to_dec_def nat_to_dec.simps char_of_def bit_0)
  finally show ?thesis .
qed

text \<open>
  The stream is deterministic: two nodes whose attribute maps
  hold the same entries, in whatever order the map is iterated, encode to the
  same bytes.
\<close>

theorem encode_attr_order:
  assumes "distinct (map fst as)" "distinct (map fst bs)" "set as = set bs"
  shows "MarshalDict (Node t as c) D = MarshalDict (Node t bs c) D \<and>
         Encode (Node t as c) D = Encode (Node t bs c) D"
proof -
  let ?f = "filter (\<lambda>(k, v). countable_val v)"
  have d: "distinct (map fst (countableAttrs (Node t as c)))" "distinct (map fst (countableAttrs (Node t bs c)))"
    using assms by (simp_all add: countableAttrs_distinct)
  moreover have "inj_on fst (set (countableAttrs (Node t as c)) \<union> set (countableAttrs (Node t bs c)))"
    using assms d by (auto simp: countableAttrs_def distinct_map)
  ultimately have "countableAttrs (Node t as c) = countableAttrs (Node t bs c)"
    by (intro map_sorted_distinct_set_unique [of fst]) (auto simp: countableAttrs_def assms(3))
  then have "WriteNode (Node t as c) e = WriteNode (Node t bs c) e" for e
    by (simp add: WriteNode.simps)
  then show ?thesis by (simp add: Encode_def MarshalDict_def)
qed

lemma encode_attr_order_witness:
  "Encode (Node ''iq'' [(''to'', VStr ''a''), (''id'', VStr ''b'')] VNil) sample_dict
     = Encode (Node ''iq'' [(''id'', VStr ''b''), (''to'', VStr ''a'')] VNil) sample_dict"
  by (rule encode_attr_order [THEN conjunct2]) auto

end
