(* ===== verification/Decoded.thy ===== *)
theory Decoded
  imports Codec
begin

text \<open>
  What the decoder can return, for any input: which Go types occur in the tree, that
  an attribute map has one entry per key, and how large the tree is against the bytes
  it came from.
\<close>

subsection \<open>Types and sizes\<close>

lemma Attrs_size: "kv \<in> set (Attrs n) \<Longrightarrow> size (snd kv) < size n"
proof (cases n)
  case (Node tag attrs content)
  assume "kv \<in> set (Attrs n)"
  then have "size (snd kv) \<le> size_list (size_prod (\<lambda>_. 0) size) attrs"
    by (intro size_list_estimation' [of kv]) (auto simp: Node size_prod_simp)
  then show ?thesis by (simp add: Node)
qed

text \<open>The dynamic types of decoded values: nil, strings, byte slices, JIDs and lists of nodes.\<close>

function (sequential) typed_node :: "node \<Rightarrow> bool" and typed_val :: "val \<Rightarrow> bool" where
  "typed_node n \<longleftrightarrow> distinct (map fst (Attrs n)) \<and> (\<forall>kv \<in> set (Attrs n). typed_val (snd kv)) \<and> typed_val (Content n)"
| "typed_val VNil \<longleftrightarrow> True"
| "typed_val (VStr s) \<longleftrightarrow> True"
| "typed_val (VBytes b) \<longleftrightarrow> True"
| "typed_val (VJID j) \<longleftrightarrow> True"
| "typed_val (VNodes ns) \<longleftrightarrow> (\<forall>n \<in> set ns. typed_node n)"
| "typed_val v \<longleftrightarrow> False"
  by pat_completeness auto
termination
  by (relation "measure (\<lambda>x. case x of Inl n \<Rightarrow> size n | Inr v \<Rightarrow> size v)")
    (simp_all only: wf_measure in_measure sum.case Content_size Attrs_size VNodes_size)

function (sequential) count_node :: "node \<Rightarrow> nat" and count_val :: "val \<Rightarrow> nat" where
  "count_node n = Suc (sum_list (map (\<lambda>kv. count_val (snd kv)) (Attrs n)) + count_val (Content n))"
| "count_val (VNode n) = count_node n"
| "count_val (VNodes ns) = sum_list (map count_node ns)"
| "count_val v = 0"
  by pat_completeness auto
termination
  by (relation "measure (\<lambda>x. case x of Inl n \<Rightarrow> size n | Inr v \<Rightarrow> size v)")
    (simp_all only: wf_measure in_measure sum.case Content_size Attrs_size VNodes_size, simp_all)

declare typed_node.simps [simp del] count_node.simps [simp del]

definition attrs_count :: "(string \<times> val) list \<Rightarrow> nat" where
  "attrs_count attrs = sum_list (map (\<lambda>kv. count_val (snd kv)) attrs)"

lemma attrs_count_update: "attrs_count (AList.update k v attrs) \<le> attrs_count attrs + count_val v"
  by (induction attrs) (auto simp: attrs_count_def)

definition attrs_typed :: "(string \<times> val) list \<Rightarrow> bool" where
  "attrs_typed attrs \<longleftrightarrow> distinct (map fst attrs) \<and> (\<forall>kv \<in> set attrs. typed_val (snd kv))"

lemma attrs_typed_update: "attrs_typed attrs \<Longrightarrow> typed_val v \<Longrightarrow> attrs_typed (AList.update k v attrs)"
proof -
  assume a: "attrs_typed attrs" "typed_val v"
  have "set (AList.update k v attrs) \<subseteq> insert (k, v) (set attrs)" by (induction attrs) auto
  then show ?thesis using a distinct_update [of attrs k v] by (auto simp: attrs_typed_def)
qed

subsection \<open>What a reader gives\<close>

text \<open>\<open>gives P r\<close>: the reader moves forward, and \<open>P\<close> holds of its value and the bytes it read.\<close>

definition gives :: "('a \<Rightarrow> nat \<Rightarrow> bool) \<Rightarrow> 'a reader \<Rightarrow> bool" where
  "gives P r \<longleftrightarrow> (\<forall>d a d'. r d = Inr (a, d') \<longrightarrow> dec_index d \<le> dec_index d' \<and> P a (dec_index d' - dec_index d))"

lemma gives_bind:
  assumes "gives P r" "\<And>a m. P a m \<Longrightarrow> gives (\<lambda>b k. Q b (m + k)) (q a)"
  shows "gives Q (bind r q)"
  unfolding gives_def
proof (intro allI impI)
  fix d b d' assume "bind r q d = Inr (b, d')"
  then obtain a e where e: "r d = Inr (a, e)" "q a e = Inr (b, d')" by (auto simp: bind_eq_Inr)
  have 1: "dec_index d \<le> dec_index e" "P a (dec_index e - dec_index d)" using assms(1) e(1) by (auto simp: gives_def)
  have "dec_index e \<le> dec_index d' \<and> Q b ((dec_index e - dec_index d) + (dec_index d' - dec_index e))"
    using assms(2) [OF 1(2)] e(2) unfolding gives_def by blast
  moreover have "dec_index e \<le> dec_index d' \<Longrightarrow> (dec_index e - dec_index d) + (dec_index d' - dec_index e) = dec_index d' - dec_index d" using 1(1) by simp
  ultimately show "dec_index d \<le> dec_index d' \<and> Q b (dec_index d' - dec_index d)" using 1(1) by auto
qed

lemma gives_mono: "gives P r \<Longrightarrow> (\<And>a k. P a k \<Longrightarrow> Q a k) \<Longrightarrow> gives Q r"
  unfolding gives_def by blast

lemma gives_ret: "P a 0 \<Longrightarrow> gives P (ret a)"
  by (simp add: gives_def ret_def)

lemma gives_throw [simp]: "gives P (throw e)"
  by (simp add: gives_def throw_def)

lemma gives_readByte: "gives (\<lambda>_ k. k = 1) readByte"
  by (auto simp: gives_def readByte_def need_def bind_def and_then_def split: if_splits)

abbreviation reads_on :: "'a reader \<Rightarrow> bool" where
  "reads_on r \<equiv> gives (\<lambda>_ _. True) r"

lemma reads_on_simple [simp]: "reads_on readByte" "reads_on (readInt n)" "reads_on (readRaw n)" "reads_on readTag20" "reads_on (listSize tag)"
  "reads_on (lift_result r)" "reads_on (ret a)" "reads_on (token_or_fail f)"
  by (auto simp: gives_def readByte_def readInt_def readRaw_def readTag20_def listSize_def ret_def throw_def need_def bind_def and_then_def lift_result_def
      token_or_fail_def split: if_splits sum.splits option.splits)

definition fits_val :: "val \<Rightarrow> nat \<Rightarrow> bool" where
  "fits_val v k \<longleftrightarrow> typed_val v \<and> count_val v \<le> k"

definition fits_node :: "node \<Rightarrow> nat \<Rightarrow> bool" where
  "fits_node n k \<longleftrightarrow> typed_node n \<and> count_node n \<le> k"

text \<open>A reader of leaves: values that hold no node.\<close>

definition leaf :: "val \<Rightarrow> bool" where
  "leaf v \<longleftrightarrow> v = VNil \<or> (\<exists>s. v = VStr s) \<or> (\<exists>b. v = VBytes b) \<or> (\<exists>j. v = VJID j)"

lemma leaf_fits: "leaf v \<Longrightarrow> fits_val v k"
  by (auto simp: leaf_def fits_val_def)

lemma leaf_intros [simp]: "leaf VNil" "leaf (VStr s)" "leaf (VBytes b)" "leaf (VJID j)"
  by (simp_all add: leaf_def)

subsection \<open>The readers\<close>

lemma gives_leaf: "gives (\<lambda>v _. leaf v) r \<Longrightarrow> gives fits_val r"
  by (erule gives_mono) (rule leaf_fits)

lemma reads_on_bind: "reads_on r \<Longrightarrow> (\<And>a. gives (\<lambda>b _. P b) (q a)) \<Longrightarrow> gives (\<lambda>b _. P b) (bind r q)"
  by (rule gives_bind)

lemma leaf_readers:
  "gives (\<lambda>v _. leaf v) (bytesOrString n b)" "gives (\<lambda>v _. leaf v) (token_or_fail f)" "gives (\<lambda>v _. leaf v) (readPacked8 tag)"
proof -
  show "gives (\<lambda>v _. leaf v) (bytesOrString n b)"
    unfolding bytesOrString_def by (intro reads_on_bind) (auto intro: gives_ret)
  show "gives (\<lambda>v _. leaf v) (token_or_fail f)"
    by (auto simp: gives_def token_or_fail_def split: option.splits)
  show "gives (\<lambda>v _. leaf v) (readPacked8 tag)"
    unfolding readPacked8_def by (intro reads_on_bind) (auto intro: gives_ret)
qed

lemma reads_on_string: "(\<And>b. reads_on (rc b)) \<Longrightarrow> reads_on (readStringLike rc)"
  unfolding readStringLike_def by (intro reads_on_bind) simp_all

lemma leaf_jids:
  assumes "\<And>b. reads_on (rc b)"
  shows "gives (\<lambda>v _. leaf v) (readFBJID rc)" "gives (\<lambda>v _. leaf v) (readInteropJID rc)" "gives (\<lambda>v _. leaf v) (readJIDPair rc)" "gives (\<lambda>v _. leaf v) (readADJID rc)"
proof -
  note s = reads_on_string [OF assms]
  show "gives (\<lambda>v _. leaf v) (readFBJID rc)" "gives (\<lambda>v _. leaf v) (readInteropJID rc)" "gives (\<lambda>v _. leaf v) (readADJID rc)"
    unfolding readFBJID_def readInteropJID_def readADJID_def by (intro reads_on_bind s gives_ret reads_on_simple leaf_intros)+
  show "gives (\<lambda>v _. leaf v) (readJIDPair rc)"
    unfolding readJIDPair_def by (intro reads_on_bind s) (auto intro: gives_ret split: val.split)
qed

lemma gives_attrs:
  assumes "\<And>b. gives fits_val (rc b)" "attrs_typed attrs" "attrs_count attrs \<le> m"
  shows "gives (\<lambda>as k. attrs_typed as \<and> attrs_count as \<le> m + k) (read_attrs rc n attrs)"
  using assms(2,3)
proof (induction n arbitrary: attrs m)
  case 0
  then show ?case by (auto intro: gives_ret)
next
  case (Suc n)
  have "gives (\<lambda>as k. attrs_typed as \<and> attrs_count as \<le> m + (j + k)) (bind (rc True) (\<lambda>v. read_attrs rc n (AList.update key v attrs)))" for j key
  proof (rule gives_bind [OF assms(1)])
    fix v i assume "fits_val v i"
    then have "attrs_typed (AList.update key v attrs)" "attrs_count (AList.update key v attrs) \<le> m + i"
      using Suc.prems attrs_typed_update attrs_count_update [of key v attrs] by (auto simp: fits_val_def)
    from Suc.IH [OF this] show "gives (\<lambda>as k. attrs_typed as \<and> attrs_count as \<le> m + (j + (i + k))) (read_attrs rc n (AList.update key v attrs))"
      by (rule gives_mono) auto
  qed
  moreover have "reads_on (readStringLike rc)" by (intro reads_on_string gives_mono [OF assms(1)]) simp
  ultimately show ?case by (auto intro!: gives_bind [of "\<lambda>_ _. True"] split: val.split)
qed

lemma gives_node:
  assumes "\<And>b. gives fits_val (rc b)"
  shows "gives fits_node (ReadNode rc)"
proof -
  have str: "reads_on (readStringLike rc)" by (intro reads_on_string gives_mono [OF assms]) simp
  have content: "gives (\<lambda>n k. fits_node n (Suc (m + k))) (bind (rc True) (\<lambda>content. ret (Node tag as content)))"
    if "attrs_typed as" "attrs_count as \<le> m" for as tag m
    using that by (intro gives_bind [OF assms] gives_ret)
      (auto simp: fits_node_def fits_val_def typed_node.simps count_node.simps attrs_typed_def attrs_count_def)
  have "gives (\<lambda>n k. fits_node n (Suc k)) (bind (read_attrs rc sz []) (\<lambda>attrs.
      if b then bind (rc True) (\<lambda>content. ret (Node tag attrs content)) else ret (Node tag attrs VNil)))" for sz b tag
    using content by (intro gives_bind [OF gives_attrs [OF assms, of "[]" 0]])
      (auto simp: fits_node_def typed_node.simps count_node.simps attrs_typed_def attrs_count_def intro!: gives_ret)
  then have body: "gives (\<lambda>n k. fits_node n (1 + (i + (j + k)))) (bind (read_attrs rc sz []) (\<lambda>attrs.
      if b then bind (rc True) (\<lambda>content. ret (Node tag attrs content)) else ret (Node tag attrs VNil)))" for sz b tag i j
    by (rule gives_mono) (auto simp: fits_node_def)
  have null: "fits_node (Node ''0'' [] VNil) (1 + k)" for k by (simp add: fits_node_def typed_node.simps count_node.simps)
  have "gives (\<lambda>n k. fits_node n (1 + (i + k))) (bind (readStringLike rc) (\<lambda>rawTag. case rawTag of
      VStr tag \<Rightarrow> bind (read_attrs rc sz []) (\<lambda>attrs. if b then bind (rc True) (\<lambda>content. ret (Node tag attrs content)) else ret (Node tag attrs VNil))
    | _ \<Rightarrow> throw ErrInvalidNode))" for sz b i
    by (rule gives_bind [OF str]) (use body in \<open>simp split: val.split\<close>)
  then have "gives (\<lambda>n k. fits_node n (1 + k)) (bind (listSize tag) (\<lambda>sz. if tag = List8 \<and> sz = 0 then ret (Node ''0'' [] VNil)
      else if sz = 0 then throw ErrInvalidNode else bind (readStringLike rc) (\<lambda>rawTag. case rawTag of
        VStr tag \<Rightarrow> bind (read_attrs rc ((sz - 1) div 2) []) (\<lambda>attrs. if sz mod 2 = 0 then bind (rc True) (\<lambda>content. ret (Node tag attrs content))
          else ret (Node tag attrs VNil))
      | _ \<Rightarrow> throw ErrInvalidNode)))" for tag
    by (intro gives_bind [of "\<lambda>_ _. True", OF reads_on_simple(5)]) (use null in \<open>auto intro!: gives_ret\<close>)
  then show ?thesis unfolding ReadNode_def by (intro gives_bind [OF gives_readByte]) simp
qed

lemma gives_list:
  assumes "\<And>b. gives fits_val (rc b)"
  shows "gives (\<lambda>ns k. fits_val (VNodes ns) k) (readList rc)"
proof -
  have "gives (\<lambda>ns k. fits_val (VNodes ns) k) (read_nodes rc n)" for n
  proof (induction n)
    case (Suc n)
    have "gives (\<lambda>ns k. fits_val (VNodes ns) (m + k)) (bind (read_nodes rc n) (\<lambda>xs. ret (x # xs)))" if "fits_node x m" for x m
      using that by (intro gives_bind [OF Suc] gives_ret) (auto simp: fits_val_def fits_node_def)
    then show ?case by (auto intro: gives_bind [OF gives_node [OF assms]])
  qed (auto intro!: gives_ret simp: fits_val_def)
  then have "gives (\<lambda>ns k. fits_val (VNodes ns) (m + (i + k))) (read_nodes rc n)" for n m i
    by (rule gives_mono) (auto simp: fits_val_def)
  then show ?thesis unfolding readList_def
    by (intro gives_bind [of "\<lambda>_ _. True", OF reads_on_simple(1)] gives_bind [of "\<lambda>_ _. True", OF reads_on_simple(5)])
qed

text \<open>A list tag is put back: the reader of the list starts at it.\<close>

lemma gives_list_tag:
  assumes "gives P r"
  shows "gives P (\<lambda>d. bind readByte (\<lambda>_. bind unread (\<lambda>_. r)) d)"
proof -
  have "bind readByte (\<lambda>_. bind unread (\<lambda>_. r)) d = Inr x \<Longrightarrow> r d = Inr x" for d x
    by (auto simp: bind_eq_Inr readByte_def need_def unread_def split: if_splits)
  then show ?thesis using assms unfolding gives_def by blast
qed

lemma gives_content: "gives fits_val (readContent f b)"
proof (induction f arbitrary: b)
  case (Suc f)
  have on: "reads_on (readContent f b)" for b by (rule gives_mono [OF Suc]) simp
  have plain: "gives fits_val (content_of_tag (readContent f) b tag)" if "tag \<noteq> List8" "tag \<noteq> List16" for tag
  proof -
    have "gives fits_val (bind r (\<lambda>n. bytesOrString n b))" if "reads_on r" for r :: "nat reader"
      by (intro gives_leaf reads_on_bind [OF that] leaf_readers)
    moreover have "gives fits_val (bind readByte (\<lambda>i. token_or_fail (g i)))" for g
      by (intro gives_leaf reads_on_bind reads_on_simple leaf_readers)
    moreover have "gives fits_val (ret VNil)" by (simp add: gives_ret fits_val_def)
    ultimately show ?thesis using that leaf_readers(2,3) [THEN gives_leaf] leaf_jids [OF on, THEN gives_leaf]
      by (simp only: content_of_tag_def reads_on_simple if_False simp_thms split: if_split)
  qed
  have lists: "gives fits_val (bind readByte (\<lambda>_. content_of_tag (readContent f) b tag))" if "tag = List8 \<or> tag = List16" for tag
  proof -
    have "gives fits_val (bind (readList (readContent f)) (\<lambda>ns. ret (VNodes ns)))"
      by (intro gives_bind [OF gives_list [OF Suc]] gives_ret) simp
    from gives_list_tag [OF this] show ?thesis using that by (auto simp: content_of_tag_def tag_defs)
  qed
  show ?case unfolding gives_def
  proof (intro allI impI)
    fix d v d' assume r: "readContent (Suc f) b d = Inr (v, d')"
    then obtain tag e where e: "readByte d = Inr (tag, e)" "content_of_tag (readContent f) b tag e = Inr (v, d')" by (auto simp: bind_eq_Inr)
    show "dec_index d \<le> dec_index d' \<and> fits_val v (dec_index d' - dec_index d)"
    proof (cases "tag = List8 \<or> tag = List16")
      case True
      then show ?thesis using lists [OF True] e unfolding gives_def by (auto simp: bind_eq_Inr)
    next
      case False
      have "gives fits_val (bind readByte (\<lambda>_. content_of_tag (readContent f) b tag))"
        using plain [of tag] False by (intro gives_bind [OF gives_readByte] gives_mono [OF plain]) (auto simp: fits_val_def)
      then show ?thesis using e unfolding gives_def by (auto simp: bind_eq_Inr)
    qed
  qed
qed simp

lemma gives_tree: "gives fits_node (ReadNode (readContent f))"
  by (rule gives_node) (rule gives_content)

lemma decode_loop_fits:
  assumes "list_all typed_node ns" "sum_list (map count_node ns) \<le> dec_index d" "dec_index d \<le> length (dec_data d)"
    "decode_loop rounds f ns d = Inr out" "length (dec_data d) \<le> f"
  shows "list_all typed_node out \<and> sum_list (map count_node out) \<le> length (dec_data d)"
  using assms
proof (induction rounds f ns d rule: decode_loop.induct)
  case (2 rounds f ns d)
  show ?case
  proof (cases "dec_index d < length (dec_data d)")
    case True
    then obtain n e where e: "ReadNode (readContent f) d = Inr (n, e)" "decode_loop rounds f (ns @ [n]) e = Inr out"
      using "2.prems"(4) by (auto simp: and_then_eq_Inr)
    have "dec_index d \<le> dec_index e" "fits_node n (dec_index e - dec_index d)"
      using gives_tree [of f] e(1) unfolding gives_def by blast+
    moreover have "dec_data e = dec_data d" "dec_index e \<le> length (dec_data e)"
      using safe_stepD [OF safe_ReadNode_fuel [of "bytes_left d" f] _ _ e(1)] "2.prems"(3,5) by (auto simp: bytes_left_def)
    ultimately show ?thesis using "2.IH" [OF True _ _ _ e(2)] "2.prems" by (auto simp: fits_node_def)
  qed (use 2 in simp)
qed (auto split: if_splits)

subsection \<open>Property\<close>


end
