(* ===== verification/Pb.thy ===== *)
theory Pb
  imports Prelude
begin

text \<open>
  The protobuf wire format of \<^verbatim>\<open>protocol/pb/pb.go\<close>: varints, fields, the
  message builder and the parser. A message is the ordered list of its fields.
  \<open>Build\<close> and \<open>Parse\<close> are inverse on the fields the format can carry; the
  zigzag maps are inverse on every value. \<open>Uvarint\<close> is \<^verbatim>\<open>encoding/binary\<close>'s.
\<close>

subsection \<open>Wire types, fields, messages\<close>

definition VarintType :: u32 where "VarintType = 0"
definition Fixed64 :: u32 where "Fixed64 = 1"
definition BytesType :: u32 where "BytesType = 2"
definition Fixed32 :: u32 where "Fixed32 = 5"

lemmas wire_types = VarintType_def Fixed64_def BytesType_def Fixed32_def

text \<open>Every error wraps \<open>ErrMalformed\<close>; the constructors keep the messages apart.\<close>

datatype pb_error =
    BadFieldKey
  | BadVarint u32
  | BadLength u32
  | TruncatedBytes u32
  | TruncatedFixed32 u32
  | TruncatedFixed64 u32
  | UnsupportedWireType u32

record field =
  Num :: u32
  Type :: u32
  V :: u64
  B :: bytes
  F32 :: u32
  F64 :: u64

type_synonym message = "field list"

definition zero_field :: field where
  "zero_field = \<lparr>Num = 0, Type = 0, V = 0, B = [], F32 = 0, F64 = 0\<rparr>"

subsection \<open>Varints\<close>

function AppendVarint :: "bytes \<Rightarrow> u64 \<Rightarrow> bytes" where
  "AppendVarint dst v =
     (if 0x80 \<le> v then AppendVarint (dst @ [ucast v OR 0x80]) (drop_bit 7 v)
      else dst @ [ucast v])"
  by pat_completeness auto
termination
proof (relation "measure (\<lambda>(dst, v). unat v)")
  fix dst :: bytes and v :: u64
  assume "0x80 \<le> v"
  then have "128 \<le> unat v" by (simp add: word_le_nat_alt)
  then show "((dst @ [ucast v OR 0x80], drop_bit 7 v), dst, v) \<in> measure (\<lambda>(dst, v). unat v)"
    by (simp add: drop_bit_eq_div unat_div_distrib)
qed simp

declare AppendVarint.simps [simp del]

text \<open>
  The loop of \<open>binary.Uvarint\<close>: index \<open>i\<close>, accumulator \<open>x\<close>, shift \<open>s\<close>. The second
  result is the number of bytes read; zero or a negative number is failure.
\<close>

fun uvarint_loop :: "nat \<Rightarrow> u64 \<Rightarrow> nat \<Rightarrow> bytes \<Rightarrow> u64 \<times> int" where
  "uvarint_loop i x s [] = (0, 0)"
| "uvarint_loop i x s (b # bs) =
     (if i = 10 then (0, - (int i + 1))
      else if b < 0x80 then
        (if i = 9 \<and> b > 1 then (0, - (int i + 1))
         else (x OR push_bit s (ucast b), int i + 1))
      else uvarint_loop (i + 1) (x OR push_bit s (ucast (b AND 0x7F))) (s + 7) bs)"

definition Uvarint :: "bytes \<Rightarrow> u64 \<times> int" where
  "Uvarint bs = uvarint_loop 0 0 0 bs"

definition ReadVarint :: "bytes \<Rightarrow> u64 \<times> int" where
  "ReadVarint src = Uvarint src"

subsection \<open>Zigzag\<close>

definition ZigEncode :: "u64 \<Rightarrow> u64" where
  "ZigEncode v = push_bit 1 v XOR signed_drop_bit 63 v"

definition ZigDecode :: "u64 \<Rightarrow> u64" where
  "ZigDecode v = drop_bit 1 v XOR (- (v AND 1))"

definition ZigEncode32 :: "u32 \<Rightarrow> u32" where
  "ZigEncode32 v = push_bit 1 v XOR signed_drop_bit 31 v"

definition ZigDecode32 :: "u32 \<Rightarrow> u32" where
  "ZigDecode32 v = drop_bit 1 v XOR (- (v AND 1))"

subsection \<open>Building\<close>

text \<open>A builder is its list of fields; signed Go integers are their words.\<close>

type_synonym builder = "field list"

definition NewBuilder :: builder where
  "NewBuilder = []"

definition add_field :: "field \<Rightarrow> builder \<Rightarrow> builder" where
  "add_field f b = b @ [f]"

definition addVarint :: "u32 \<Rightarrow> u64 \<Rightarrow> builder \<Rightarrow> builder" where
  "addVarint num v = add_field (zero_field\<lparr>Num := num, Type := VarintType, V := v\<rparr>)"

definition addInt :: "u32 \<Rightarrow> u64 \<Rightarrow> builder \<Rightarrow> builder" where
  "addInt num v = addVarint num v"

definition addUint :: "u32 \<Rightarrow> u64 \<Rightarrow> builder \<Rightarrow> builder" where
  "addUint num v = addVarint num v"

definition addBool :: "u32 \<Rightarrow> bool \<Rightarrow> builder \<Rightarrow> builder" where
  "addBool num v = (if v then addVarint num 1 else addVarint num 0)"

definition addEnum :: "u32 \<Rightarrow> u32 \<Rightarrow> builder \<Rightarrow> builder" where
  "addEnum num v = add_field (zero_field\<lparr>Num := num, Type := VarintType, V := scast v\<rparr>)"

definition addSint32 :: "u32 \<Rightarrow> u32 \<Rightarrow> builder \<Rightarrow> builder" where
  "addSint32 num v =
     add_field (zero_field\<lparr>Num := num, Type := VarintType, V := ucast (ZigEncode32 v)\<rparr>)"

definition addSint64 :: "u32 \<Rightarrow> u64 \<Rightarrow> builder \<Rightarrow> builder" where
  "addSint64 num v = add_field (zero_field\<lparr>Num := num, Type := VarintType, V := ZigEncode v\<rparr>)"

definition addBytes :: "u32 \<Rightarrow> bytes \<Rightarrow> builder \<Rightarrow> builder" where
  "addBytes num data = add_field (zero_field\<lparr>Num := num, Type := BytesType, B := data\<rparr>)"

definition addString :: "u32 \<Rightarrow> string \<Rightarrow> builder \<Rightarrow> builder" where
  "addString num s = addBytes num (bytes_of_string s)"

definition addFixed32 :: "u32 \<Rightarrow> u32 \<Rightarrow> builder \<Rightarrow> builder" where
  "addFixed32 num v = add_field (zero_field\<lparr>Num := num, Type := Fixed32, F32 := v\<rparr>)"

definition addFixed64 :: "u32 \<Rightarrow> u64 \<Rightarrow> builder \<Rightarrow> builder" where
  "addFixed64 num v = add_field (zero_field\<lparr>Num := num, Type := Fixed64, F64 := v\<rparr>)"

definition AppendTo :: "field \<Rightarrow> bytes \<Rightarrow> bytes" where
  "AppendTo f dst =
     (let key = push_bit 3 (Num f) OR Type f;
          dst = AppendVarint dst (ucast key)
      in if Type f = VarintType then AppendVarint dst (V f)
         else if Type f = BytesType then AppendVarint dst (of_nat (length (B f))) @ B f
         else if Type f = Fixed32 then dst @ le_bytes 4 (unat (F32 f))
         else if Type f = Fixed64 then dst @ le_bytes 8 (unat (F64 f))
         else dst)"

definition Build :: "builder \<Rightarrow> bytes" where
  "Build b = foldl (\<lambda>out f. AppendTo f out) [] b"

definition addMsg :: "u32 \<Rightarrow> builder \<Rightarrow> builder \<Rightarrow> builder" where
  "addMsg num m = addBytes num (Build m)"

subsection \<open>Parsing\<close>

text \<open>The \<open>switch f.Type\<close> of the loop: the field completed and the input left.\<close>

definition parse_payload :: "field \<Rightarrow> bytes \<Rightarrow> pb_error + (field \<times> bytes)" where
  "parse_payload f data =
     (if Type f = VarintType then
        (case Uvarint data of (v, n) \<Rightarrow>
           if n \<le> 0 then Inl (BadVarint (Num f))
           else Inr (f\<lparr>V := v\<rparr>, drop (nat n) data))
      else if Type f = BytesType then
        (case Uvarint data of (l, n) \<Rightarrow>
           if n \<le> 0 then Inl (BadLength (Num f))
           else let data = drop (nat n) data
                in if length data < unat l then Inl (TruncatedBytes (Num f))
                   else Inr (f\<lparr>B := take (unat l) data\<rparr>, drop (unat l) data))
      else if Type f = Fixed32 then
        (if length data < 4 then Inl (TruncatedFixed32 (Num f))
         else Inr (f\<lparr>F32 := of_nat (le_nat (take 4 data))\<rparr>, drop 4 data))
      else if Type f = Fixed64 then
        (if length data < 8 then Inl (TruncatedFixed64 (Num f))
         else Inr (f\<lparr>F64 := of_nat (le_nat (take 8 data))\<rparr>, drop 8 data))
      else Inl (UnsupportedWireType (Type f)))"

lemma parse_payload_length: "parse_payload f data = Inr (g, rest) \<Longrightarrow> length rest \<le> length data"
  by (auto simp: parse_payload_def Let_def split: if_splits prod.splits)

lemma parse_payload_shorter:
  assumes "parse_payload f (drop (nat n) data) = Inr (g, rest)" "data \<noteq> []" "\<not> n \<le> 0"
  shows "length rest < length data"
proof -
  have "length rest \<le> length data - nat n"
    using parse_payload_length [OF assms(1)] by simp
  moreover have "0 < length data" "0 < nat n" using assms(2,3) by auto
  ultimately show ?thesis by linarith
qed

function parse_loop :: "message \<Rightarrow> bytes \<Rightarrow> pb_error + message" where
  "parse_loop msg data =
     (if data = [] then Inr msg
      else case Uvarint data of (key, n) \<Rightarrow>
        if n \<le> 0 then Inl BadFieldKey
        else case parse_payload
                    (zero_field\<lparr>Num := ucast (drop_bit 3 key), Type := ucast (key AND 7)\<rparr>)
                    (drop (nat n) data) of
               Inl e \<Rightarrow> Inl e
             | Inr (f, rest) \<Rightarrow> parse_loop (msg @ [f]) rest)"
  by pat_completeness auto
termination
  by (relation "measure (\<lambda>(msg, data). length data)") (auto dest: parse_payload_shorter)

declare parse_loop.simps [simp del]

definition Parse :: "bytes \<Rightarrow> pb_error + message" where
  "Parse data = parse_loop [] data"

subsection \<open>Accessors\<close>

text \<open>\<open>(value, ok)\<close> results are options. \<open>GetInt\<close> reinterprets the word as signed.\<close>

definition Get :: "message \<Rightarrow> u32 \<Rightarrow> field option" where
  "Get m num = find (\<lambda>f. Num f = num) m"

definition GetUint :: "message \<Rightarrow> u32 \<Rightarrow> u64 option" where
  "GetUint m num =
     (case Get m num of None \<Rightarrow> None
      | Some f \<Rightarrow> if Type f \<noteq> VarintType then None else Some (V f))"

definition GetInt :: "message \<Rightarrow> u32 \<Rightarrow> int option" where
  "GetInt m num =
     (case Get m num of None \<Rightarrow> None
      | Some f \<Rightarrow> if Type f \<noteq> VarintType then None else Some (sint (V f)))"

definition GetSint64 :: "message \<Rightarrow> u32 \<Rightarrow> u64 option" where
  "GetSint64 m num = map_option ZigDecode (GetUint m num)"

definition GetBool :: "message \<Rightarrow> u32 \<Rightarrow> bool option" where
  "GetBool m num = map_option (\<lambda>v. v \<noteq> 0) (GetUint m num)"

definition GetBytes :: "message \<Rightarrow> u32 \<Rightarrow> bytes option" where
  "GetBytes m num =
     (case Get m num of None \<Rightarrow> None
      | Some f \<Rightarrow> if Type f \<noteq> BytesType then None else Some (B f))"

definition GetString :: "message \<Rightarrow> u32 \<Rightarrow> string option" where
  "GetString m num = map_option string_of_bytes (GetBytes m num)"

definition GetMsg :: "message \<Rightarrow> u32 \<Rightarrow> message option" where
  "GetMsg m num =
     (case Get m num of None \<Rightarrow> None
      | Some f \<Rightarrow> if Type f \<noteq> BytesType then None
                  else case Parse (B f) of Inl e \<Rightarrow> None | Inr nested \<Rightarrow> Some nested)"

text \<open>
  The fields \<open>Build\<close> and \<open>Parse\<close> agree on: the key \<open>Num << 3 | Type\<close> does not
  overflow 32 bits, the wire type is supported, and only the payload the type
  selects is set.
\<close>

definition field_ok :: "field \<Rightarrow> bool" where
  "field_ok f \<longleftrightarrow> unat (Num f) < 2 ^ 29 \<and> length (B f) < 2 ^ 64 \<and>
     (Type f = VarintType \<and> B f = [] \<and> F32 f = 0 \<and> F64 f = 0 \<or>
      Type f = BytesType \<and> V f = 0 \<and> F32 f = 0 \<and> F64 f = 0 \<or>
      Type f = Fixed32 \<and> V f = 0 \<and> B f = [] \<and> F64 f = 0 \<or>
      Type f = Fixed64 \<and> V f = 0 \<and> B f = [] \<and> F32 f = 0)"

subsection \<open>Varints round-trip\<close>

lemma AppendVarint_prefix: "AppendVarint (a @ dst) v = a @ AppendVarint dst v"
proof (induction dst v rule: AppendVarint.induct)
  case (1 dst v)
  then show ?case
    by (simp add: AppendVarint.simps [of "a @ dst" v] AppendVarint.simps [of dst v])
qed

lemma AppendVarint_append: "AppendVarint dst v = dst @ AppendVarint [] v"
  using AppendVarint_prefix [of dst "[]" v] by simp

lemma AppendVarint_small: "v < 0x80 \<Longrightarrow> AppendVarint [] v = [ucast v]"
  by (subst AppendVarint.simps) (simp only: not_le [symmetric] if_False, simp)

lemma AppendVarint_large:
  "0x80 \<le> v \<Longrightarrow> AppendVarint [] v = (ucast v OR 0x80) # AppendVarint [] (drop_bit 7 v)"
  by (simp add: AppendVarint.simps [of "[]" v] AppendVarint_append [of "[ucast v OR 128]"])

lemma continuation_byte:
  "\<not> (ucast (v :: u64) OR 0x80 :: byte) < 0x80"
  "ucast ((ucast v OR 0x80 :: byte) AND 0x7F) = take_bit 7 v"
proof -
  show "\<not> (ucast (v :: u64) OR 0x80 :: byte) < 0x80"
    using le_word_or1 [of "0x80 :: byte" "ucast v"] by simp
  have "(ucast v OR 0x80 :: byte) AND 0x7F = ucast v AND 0x7F"
    by (simp add: word_ao_dist)
  also have "\<dots> = ucast v AND mask 7" by (simp add: mask_eq_exp_minus_1)
  finally show "ucast ((ucast v OR 0x80 :: byte) AND 0x7F) = take_bit 7 v"
    by (simp only:) (rule bit_word_eqI, auto simp: bit_simps)
qed

lemma push_bit_take_drop:
  "push_bit s (take_bit 7 (v :: u64)) OR push_bit (s + 7) (drop_bit 7 v) = push_bit s v"
proof (rule bit_word_eqI)
  fix n
  assume "n < LENGTH(64)"
  moreover have "7 + (n - (s + 7)) = n - s" if "\<not> n - s < 7" using that by simp
  ultimately show "bit (push_bit s (take_bit 7 v) OR push_bit (s + 7) (drop_bit 7 v)) n
      = bit (push_bit s v) n"
    by (cases "n - s < 7") (auto simp: bit_simps)
qed

lemma uvarint_loop_AppendVarint:
  assumes "i \<le> 9" "unat v < 2 ^ (64 - 7 * i)"
  shows "uvarint_loop i x (7 * i) (AppendVarint [] v @ rest)
           = (x OR push_bit (7 * i) v, int i + int (length (AppendVarint [] v)))"
  using assms
proof (induction "unat v" arbitrary: v i x rule: less_induct)
  case less
  show ?case
  proof (cases "v < 0x80")
    case True
    have "unat v < 2" if "i = 9" using that less.prems(2) by simp
    then have "\<not> (i = 9 \<and> (ucast v :: byte) > 1)"
      using True by (auto simp: word_less_nat_alt unat_ucast_byte)
    moreover have "(ucast v :: byte) < 0x80" and "ucast (ucast v :: byte) = v"
      using True
      by (simp_all add: word_less_nat_alt unat_ucast_byte word_unat_eq_iff unsigned_ucast_eq
          take_bit_eq_mod unat_mod_distrib)
    ultimately show ?thesis using True less.prems(1) by (simp add: AppendVarint_small)
  next
    case False
    then have v128: "128 \<le> unat v" by (simp add: word_le_nat_alt not_less)
    have i8: "i \<le> 8"
    proof (rule ccontr)
      assume "\<not> i \<le> 8"
      with less.prems have "i = 9" by simp
      with less.prems(2) v128 show False by simp
    qed
    have d: "unat (drop_bit 7 v) = unat v div 128" by (simp add: drop_bit_eq_div unat_div_distrib)
    have "unat v div 128 < 2 ^ (64 - 7 * Suc i)"
    proof -
      have "(64::nat) - 7 * i = 7 + (64 - 7 * Suc i)" using i8 by simp
      then have "(2::nat) ^ (64 - 7 * i) = 2 ^ 7 * 2 ^ (64 - 7 * Suc i)"
        by (simp only: power_add)
      then have "unat v < 2 ^ (64 - 7 * Suc i) * 128" using less.prems(2) by simp
      then show ?thesis by (rule less_mult_imp_div_less)
    qed
    moreover have "unat (drop_bit 7 v) < unat v" using v128 d by simp
    ultimately have IH: "uvarint_loop (Suc i) y (7 * Suc i) (AppendVarint [] (drop_bit 7 v) @ rest)
        = (y OR push_bit (7 * Suc i) (drop_bit 7 v),
           int (Suc i) + int (length (AppendVarint [] (drop_bit 7 v))))" for y
      using less.hyps [of "drop_bit 7 v" "Suc i" y] i8 d by simp
    have large: "AppendVarint [] v = (ucast v OR 0x80) # AppendVarint [] (drop_bit 7 v)"
      using False by (intro AppendVarint_large) simp
    have shift: "7 * Suc i = 7 * i + 7" by simp
    have "uvarint_loop i x (7 * i) (AppendVarint [] v @ rest) =
        uvarint_loop (Suc i) (x OR push_bit (7 * i) (take_bit 7 v)) (7 * Suc i)
          (AppendVarint [] (drop_bit 7 v) @ rest)"
      using i8 continuation_byte [of v] unfolding shift large by simp
    also have "\<dots> = (x OR push_bit (7 * i) v, int i + int (length (AppendVarint [] v)))"
      using push_bit_take_drop [of "7 * i" v] 
      unfolding shift IH [unfolded shift] large by (simp add: or.assoc)
    finally show ?thesis .
  qed
qed

lemma Uvarint_AppendVarint [simp]:
  "Uvarint (AppendVarint [] v @ rest) = (v, int (length (AppendVarint [] v)))"
  using uvarint_loop_AppendVarint [of 0 v 0 rest] unsigned_less [of v, where ?'a = nat]
  by (simp add: Uvarint_def)

lemma AppendVarint_nonempty [simp]: "AppendVarint [] v \<noteq> []"
  by (subst AppendVarint.simps) (simp add: AppendVarint_append [of "[_]"])

subsection \<open>Fields round-trip\<close>

lemma key_parts:
  assumes "unat (num :: u32) < 2 ^ 29" "t \<in> {VarintType, BytesType, Fixed32, Fixed64}"
  shows "ucast (drop_bit 3 (ucast (push_bit 3 num OR t) :: u64)) = num"
    and "ucast ((ucast (push_bit 3 num OR t) :: u64) AND 7) = t"
proof -
  have t3: "take_bit 3 t = t" using assms(2) by (auto simp: wire_types)
  have n29: "take_bit 29 num = num"
    using assms(1) by (simp add: word_unat_eq_iff unsigned_take_bit_eq take_bit_nat_eq_self)
  have tb: "\<not> bit t n" if "3 \<le> n" for n
    using that t3 by (metis bit_take_bit_iff not_le)
  have nb: "\<not> bit num n" if "29 \<le> n" for n
    using that n29 by (metis bit_take_bit_iff not_le)
  have bound: "bit num n \<Longrightarrow> n < 29" for n using nb [of n] by (meson not_le)
  have tbound: "bit t n \<Longrightarrow> n < 3" for n using tb [of n] by (meson not_le)
  show "ucast (drop_bit 3 (ucast (push_bit 3 num OR t) :: u64)) = num"
    by (rule bit_word_eqI) (auto simp: bit_simps tb dest: bound)
  have m: "7 = (mask 3 :: u64)" by (simp add: mask_eq_exp_minus_1)
  show "ucast ((ucast (push_bit 3 num OR t) :: u64) AND 7) = t"
    unfolding m by (rule bit_word_eqI) (auto simp: bit_simps dest: tbound)
qed

lemma AppendTo_append: "AppendTo f dst = dst @ AppendTo f []"
  by (simp add: AppendTo_def Let_def AppendVarint_append [of "_ @ _"] AppendVarint_append [of dst]
      AppendVarint_append [of "AppendVarint _ _"])

lemma Build_fold: "foldl (\<lambda>out f. AppendTo f out) dst fs = dst @ Build fs"
proof (induction fs arbitrary: dst)
  case Nil
  then show ?case by (simp add: Build_def)
next
  case (Cons f fs)
  have "foldl (\<lambda>out f. AppendTo f out) (AppendTo f []) fs = AppendTo f [] @ Build fs"
    by (rule Cons.IH)
  then show ?case
    using Cons.IH [of "AppendTo f dst"] AppendTo_append [of f dst] by (simp add: Build_def)
qed

lemma Build_simps [simp]:
  "Build [] = []"
  "Build (f # fs) = AppendTo f [] @ Build fs"
  by (simp_all add: Build_def Build_fold [of "AppendTo f []", unfolded Build_def])

lemma Build_append [simp]: "Build (fs @ gs) = Build fs @ Build gs"
  by (induction fs) auto

text \<open>The payload of an ok field, and reading it back.\<close>

definition payload :: "field \<Rightarrow> bytes" where
  "payload f =
     (if Type f = VarintType then AppendVarint [] (V f)
      else if Type f = BytesType then AppendVarint [] (of_nat (length (B f))) @ B f
      else if Type f = Fixed32 then le_bytes 4 (unat (F32 f))
      else if Type f = Fixed64 then le_bytes 8 (unat (F64 f))
      else [])"

lemma AppendTo_payload:
  "AppendTo f [] = AppendVarint [] (ucast (push_bit 3 (Num f) OR Type f)) @ payload f"
  by (simp add: AppendTo_def payload_def Let_def AppendVarint_append [of "AppendVarint _ _"])

lemma parse_payload_payload:
  assumes "field_ok f"
  shows "parse_payload (zero_field\<lparr>Num := Num f, Type := Type f\<rparr>) (payload f @ rest) = Inr (f, rest)"
proof -
  have l: "unat (of_nat (length (B f)) :: u64) = length (B f)"
    using assms by (simp add: field_ok_def unat_of_nat)
  have "unat (F32 f) < 256 ^ 4" "unat (F64 f) < 256 ^ 8"
    using unsigned_less [of "F32 f", where ?'a = nat] unsigned_less [of "F64 f", where ?'a = nat]
    by simp_all
  then show ?thesis
    using assms l
    by (auto simp: field_ok_def parse_payload_def payload_def zero_field_def wire_types Let_def)
qed

lemma parse_loop_AppendTo:
  assumes "field_ok f"
  shows "parse_loop msg (AppendTo f [] @ rest) = parse_loop (msg @ [f]) rest"
proof -
  let ?key = "ucast (push_bit 3 (Num f) OR Type f) :: u64"
  have t: "Type f \<in> {VarintType, BytesType, Fixed32, Fixed64}" and n: "unat (Num f) < 2 ^ 29"
    using assms by (auto simp: field_ok_def)
  have d: "AppendTo f [] @ rest = AppendVarint [] ?key @ payload f @ rest"
    by (simp add: AppendTo_payload)
  have "parse_loop msg (AppendVarint [] ?key @ payload f @ rest) = parse_loop (msg @ [f]) rest"
    by (subst parse_loop.simps)
      (simp add: key_parts [OF n t] parse_payload_payload [OF assms])
  then show ?thesis by (simp only: d)
qed

lemma parse_loop_Build: "list_all field_ok fs \<Longrightarrow> parse_loop msg (Build fs) = Inr (msg @ fs)"
proof (induction fs arbitrary: msg)
  case Nil
  then show ?case by (simp add: parse_loop.simps)
next
  case (Cons f fs)
  then show ?case by (simp add: parse_loop_AppendTo)
qed

lemma Parse_Build [simp]: "list_all field_ok fs \<Longrightarrow> Parse (Build fs) = Inr fs"
  by (simp add: Parse_def parse_loop_Build)

subsection \<open>Zigzag\<close>

lemma bit_minus_one_and: "bit (- (v AND 1) :: 'a::len word) n \<longleftrightarrow> n < LENGTH('a) \<and> bit v 0"
proof -
  have "v AND 1 = (if bit v 0 then 1 else 0)"
    by (simp add: and_one_eq bit_0 mod_2_eq_odd)
  then show ?thesis by (cases "bit v 0") simp_all
qed

lemma bit_signed_drop_bit_top:
  "bit (signed_drop_bit (LENGTH('a) - Suc 0) (v :: 'a::len word)) n
     \<longleftrightarrow> n < LENGTH('a) \<and> bit v (LENGTH('a) - Suc 0)"
  by (cases n) (auto simp: bit_simps dest: bit_imp_le_length)

lemma zigzag_word:
  fixes v :: "'a::len word"
  assumes w: "2 \<le> LENGTH('a)"
  defines "z \<equiv> push_bit 1 v XOR signed_drop_bit (LENGTH('a) - Suc 0) v"
  shows "drop_bit 1 z XOR (- (z AND 1)) = v"
proof (rule bit_word_eqI)
  fix n
  assume n: "n < LENGTH('a)"
  have z: "bit z k \<longleftrightarrow> k < LENGTH('a) \<and> ((0 < k \<and> bit v (k - 1)) \<noteq> bit v (LENGTH('a) - Suc 0))" for k
    unfolding z_def bit_xor_iff bit_push_bit_iff bit_signed_drop_bit_top possible_bit_word
    using w by (auto dest: bit_imp_le_length)
  have "bit z 0 \<longleftrightarrow> bit v (LENGTH('a) - Suc 0)" using w by (simp add: z)
  moreover have "bit (drop_bit 1 z) n \<longleftrightarrow>
      Suc n < LENGTH('a) \<and> (bit v n \<noteq> bit v (LENGTH('a) - Suc 0))"
    by (simp add: bit_drop_bit_eq z)
  moreover have "Suc n < LENGTH('a) \<or> n = LENGTH('a) - Suc 0" using n by linarith
  ultimately show "bit (drop_bit 1 z XOR (- (z AND 1))) n = bit v n"
    using n by (auto simp: bit_xor_iff bit_minus_one_and)
qed

lemma ZigDecode_ZigEncode [simp]: "ZigDecode (ZigEncode v) = v"
  using zigzag_word [of v] by (simp add: ZigDecode_def ZigEncode_def)

lemma ZigDecode32_ZigEncode32 [simp]: "ZigDecode32 (ZigEncode32 v) = v"
  using zigzag_word [of v] by (simp add: ZigDecode32_def ZigEncode32_def)

subsection \<open>What the parser accepts\<close>

text \<open>Every field the parser returns is one the builder can carry, its number permitting.\<close>

lemma parse_payload_ok:
  assumes p: "parse_payload (zero_field\<lparr>Num := num, Type := t\<rparr>) data = Inr (f, rest)"
    and num: "unat num < 2 ^ 29"
  shows "field_ok f"
proof -
  have len: "length (take (unat l) bs) < 2 ^ 64" for l :: u64 and bs :: bytes
    using unsigned_less [of l, where ?'a = nat] by (simp add: min_def)
  note parts = parse_payload_def zero_field_def wire_types Let_def
  consider (varint) "t = VarintType" | (bytes) "t = BytesType" | (f32) "t = Fixed32"
    | (f64) "t = Fixed64" | (other) "t \<notin> {VarintType, BytesType, Fixed32, Fixed64}" by blast
  then show ?thesis
  proof cases
    case varint
    with p obtain v where "f = zero_field\<lparr>Num := num, Type := t, V := v\<rparr>"
      by (auto simp: parts split: if_splits prod.splits)
    with varint num show ?thesis by (simp add: field_ok_def zero_field_def)
  next
    case bytes
    with p obtain l :: u64 and bs where
      "f = zero_field\<lparr>Num := num, Type := t, B := take (unat l) bs\<rparr>"
      by (auto simp: parts split: if_splits prod.splits)
    with bytes num len [of l bs] show ?thesis by (simp add: field_ok_def zero_field_def)
  next
    case f32
    with p obtain v where "f = zero_field\<lparr>Num := num, Type := t, F32 := v\<rparr>"
      by (auto simp: parts split: if_splits)
    with f32 num show ?thesis by (simp add: field_ok_def zero_field_def)
  next
    case f64
    with p obtain v where "f = zero_field\<lparr>Num := num, Type := t, F64 := v\<rparr>"
      by (auto simp: parts split: if_splits)
    with f64 num show ?thesis by (simp add: field_ok_def zero_field_def)
  next
    case other
    with p show ?thesis by (auto simp: parts)
  qed
qed

lemma parse_payload_num: "parse_payload f data = Inr (g, rest) \<Longrightarrow> Num g = Num f"
  by (auto simp: parse_payload_def Let_def split: if_splits prod.splits)

lemma parse_loop_ok:
  "parse_loop msg data = Inr m \<Longrightarrow>
     \<exists>fs. m = msg @ fs \<and> (\<forall>f \<in> set fs. unat (Num f) < 2 ^ 29 \<longrightarrow> field_ok f)"
proof (induction msg data rule: parse_loop.induct)
  case (1 msg data)
  show ?case
  proof (cases "data = []")
    case True
    with "1.prems" show ?thesis by (simp add: parse_loop.simps)
  next
    case False
    obtain key n where u: "Uvarint data = (key, n)" by force
    let ?f = "zero_field\<lparr>Num := ucast (drop_bit 3 key), Type := ucast (key AND 7)\<rparr>"
    from "1.prems" False u obtain f rest where n: "\<not> n \<le> 0"
      and p: "parse_payload ?f (drop (nat n) data) = Inr (f, rest)"
      and r: "parse_loop (msg @ [f]) rest = Inr m"
      by (subst (asm) parse_loop.simps) (auto split: if_splits sum.splits)
    have "unat (Num f) < 2 ^ 29 \<longrightarrow> field_ok f"
      using parse_payload_ok [OF p] parse_payload_num [OF p] by simp
    moreover obtain fs where "m = (msg @ [f]) @ fs" "\<forall>f \<in> set fs. unat (Num f) < 2 ^ 29 \<longrightarrow> field_ok f"
      using "1.IH" [OF False u [symmetric] n p refl r] by blast
    ultimately show ?thesis by (intro exI [of _ "f # fs"]) simp
  qed
qed

lemma Parse_ok: "Parse data = Inr m \<Longrightarrow> f \<in> set m \<Longrightarrow> unat (Num f) < 2 ^ 29 \<Longrightarrow> field_ok f"
  using parse_loop_ok [of "[]" data m] by (auto simp: Parse_def)

subsection \<open>Builders\<close>

lemmas builder_defs = add_field_def addVarint_def addInt_def addUint_def addBool_def addEnum_def
  addSint32_def addSint64_def addBytes_def addString_def addFixed32_def addFixed64_def addMsg_def
  NewBuilder_def

lemma field_ok_varint [simp]:
  "field_ok (zero_field\<lparr>Num := num, Type := VarintType, V := v\<rparr>) \<longleftrightarrow> unat num < 2 ^ 29"
  by (simp add: field_ok_def zero_field_def wire_types)

lemma field_ok_bytes [simp]:
  "field_ok (zero_field\<lparr>Num := num, Type := BytesType, B := data\<rparr>)
     \<longleftrightarrow> unat num < 2 ^ 29 \<and> length data < 2 ^ 64"
  by (auto simp: field_ok_def zero_field_def wire_types)

lemma Get_simps [simp]:
  "Get [] num = None"
  "Get (f # fs) num = (if Num f = num then Some f else Get fs num)"
  by (simp_all add: Get_def)

lemmas getter_defs = GetUint_def GetInt_def GetSint64_def GetBool_def GetBytes_def GetString_def

subsection \<open>Properties\<close>

text \<open>
  Building a message and parsing the bytes gives the fields
  back, in order, for every list of fields the format can carry.
\<close>

theorem pb_roundtrip: "list_all field_ok fs \<Longrightarrow> Parse (Build fs) = Inr fs"
  by (rule Parse_Build)

lemma pb_roundtrip_witness:
  "Parse (Build (addBytes 3 [1, 2] (addUint 1 300 NewBuilder)))
     = Inr (addBytes 3 [1, 2] (addUint 1 300 NewBuilder))"
  by (rule pb_roundtrip) (simp add: builder_defs)

text \<open>
  A message the parser accepted survives a rebuild: parsing
  the rebuilt bytes gives the same fields, however the peer encoded them (a
  varint with redundant continuation bytes included), as long as the field
  numbers are ones protobuf allows.
\<close>

theorem pb_reencode:
  assumes "Parse data = Inr m" "\<forall>f \<in> set m. unat (Num f) < 2 ^ 29"
  shows "Parse (Build m) = Inr m"
  unfolding list_all_iff [symmetric]
  using Parse_ok [OF assms(1)] assms(2) by (intro Parse_Build) (simp only: list_all_iff, blast)

lemma pb_reencode_witness:
  "\<exists>m. Parse [0x08, 0x96, 0x80, 0x00] = Inr m \<and> Parse (Build m) = Inr m \<and> Build m \<noteq> [0x08, 0x96, 0x80, 0x00]"
proof -
  let ?m = "[\<lparr>Num = 1, Type = 0, V = 22, B = [], F32 = 0, F64 = 0\<rparr>]"
  have p: "Parse [0x08, 0x96, 0x80, 0x00] = Inr ?m"
    by (simp add: Parse_def parse_loop.simps Uvarint_def parse_payload_def zero_field_def wire_types)
  moreover have "Parse (Build ?m) = Inr ?m" using p by (rule pb_reencode) simp
  moreover have "Build ?m \<noteq> [0x08, 0x96, 0x80, 0x00]"
    by (simp add: AppendTo_payload payload_def wire_types AppendVarint.simps)
  ultimately show ?thesis by blast
qed

end
