(* ===== verification/Wapb.thy ===== *)
theory Wapb
  imports Pb
begin

text \<open>
  The handshake messages of \<^verbatim>\<open>internal/wapb/wapb.go\<close>: the three hello
  messages and the envelope that carries each of them in its own field. A nil
  \<open>[]byte\<close> and an empty one are the same list; a nil \<open>pb.Message\<close>, the result
  of a missing envelope field, is the empty message.
\<close>

definition HSFieldClientHello :: u32 where "HSFieldClientHello = 1"
definition HSFieldServerHello :: u32 where "HSFieldServerHello = 2"
definition HSFieldClientFinish :: u32 where "HSFieldClientFinish = 3"
definition HFLEphemeral :: u32 where "HFLEphemeral = 1"
definition HFLStatic :: u32 where "HFLStatic = 2"
definition HFLPayload :: u32 where "HFLPayload = 3"

lemmas wapb_fields = HSFieldClientHello_def HSFieldServerHello_def HSFieldClientFinish_def
  HFLEphemeral_def HFLStatic_def HFLPayload_def

record ClientHello =
  ch_Ephemeral :: bytes
  ch_Payload :: bytes

record ServerHello =
  sh_Ephemeral :: bytes
  sh_Static :: bytes
  sh_Payload :: bytes

record ClientFinish =
  cf_Static :: bytes
  cf_Payload :: bytes

definition ClientHello_fields :: "ClientHello \<Rightarrow> builder" where
  "ClientHello_fields c =
     (let b = addBytes HFLEphemeral (ch_Ephemeral c) NewBuilder
      in if length (ch_Payload c) > 0 then addBytes HFLPayload (ch_Payload c) b else b)"

definition ClientHello_Build :: "ClientHello \<Rightarrow> bytes" where
  "ClientHello_Build c = Build (ClientHello_fields c)"

text \<open>A field the message does not have, or has with another wire type, stays empty.\<close>

definition bytes_or_empty :: "message \<Rightarrow> u32 \<Rightarrow> bytes" where
  "bytes_or_empty m num = (case GetBytes m num of Some e \<Rightarrow> e | None \<Rightarrow> [])"

definition ParseClientHello :: "message \<Rightarrow> ClientHello" where
  "ParseClientHello m =
     \<lparr>ch_Ephemeral = bytes_or_empty m HFLEphemeral, ch_Payload = bytes_or_empty m HFLPayload\<rparr>"

definition ServerHello_fields :: "ServerHello \<Rightarrow> builder" where
  "ServerHello_fields c =
     (let b = addBytes HFLEphemeral (sh_Ephemeral c) NewBuilder;
          b = (if length (sh_Static c) > 0 then addBytes HFLStatic (sh_Static c) b else b)
      in if length (sh_Payload c) > 0 then addBytes HFLPayload (sh_Payload c) b else b)"

definition ServerHello_Build :: "ServerHello \<Rightarrow> bytes" where
  "ServerHello_Build c = Build (ServerHello_fields c)"

definition ParseServerHello :: "message \<Rightarrow> ServerHello" where
  "ParseServerHello m =
     \<lparr>sh_Ephemeral = bytes_or_empty m HFLEphemeral, sh_Static = bytes_or_empty m HFLStatic,
      sh_Payload = bytes_or_empty m HFLPayload\<rparr>"

definition ClientFinish_fields :: "ClientFinish \<Rightarrow> builder" where
  "ClientFinish_fields c =
     addBytes HFLPayload (cf_Payload c) (addBytes HFLEphemeral (cf_Static c) NewBuilder)"

definition ClientFinish_Build :: "ClientFinish \<Rightarrow> bytes" where
  "ClientFinish_Build c = Build (ClientFinish_fields c)"

definition ParseClientFinish :: "message \<Rightarrow> ClientFinish" where
  "ParseClientFinish m =
     \<lparr>cf_Static = bytes_or_empty m HFLEphemeral, cf_Payload = bytes_or_empty m HFLPayload\<rparr>"

definition WrapTop :: "u32 \<Rightarrow> bytes \<Rightarrow> bytes" where
  "WrapTop fieldNum inner = Build (addBytes fieldNum inner NewBuilder)"

definition UnwrapTop :: "bytes \<Rightarrow> u32 \<Rightarrow> pb_error + message" where
  "UnwrapTop data fieldNum =
     and_then (Parse data) (\<lambda>msg.
       case GetBytes msg fieldNum of None \<Rightarrow> Inr [] | Some inner \<Rightarrow> Parse inner)"

subsection \<open>Lemmas\<close>

lemma GetBytes_addBytes:
  "GetBytes (addBytes num data m) num' =
     (case Get m num' of
        None \<Rightarrow> if num = num' then Some data else None
      | Some f \<Rightarrow> if Type f \<noteq> BytesType then None else Some (B f))"
  by (induction m) (auto simp: GetBytes_def builder_defs zero_field_def)

lemma bytes_or_empty_simps [simp]:
  "bytes_or_empty [] num' = []"
  "bytes_or_empty (zero_field\<lparr>Num := num, Type := BytesType, B := data\<rparr> # m) num' =
     (if num = num' then data else bytes_or_empty m num')"
  by (simp_all add: bytes_or_empty_def GetBytes_def zero_field_def)

lemma Parse_WrapTop:
  assumes "unat num < 2 ^ 29" "length inner < 2 ^ 64"
  shows "Parse (WrapTop num inner) = Inr [zero_field\<lparr>Num := num, Type := BytesType, B := inner\<rparr>]"
  using Parse_Build [of "[zero_field\<lparr>Num := num, Type := BytesType, B := inner\<rparr>]"] assms
  by (simp add: WrapTop_def builder_defs)

lemma UnwrapTop_WrapTop:
  assumes "unat num < 2 ^ 29" "length (Build fs) < 2 ^ 64" "list_all field_ok fs"
  shows "UnwrapTop (WrapTop num (Build fs)) num = Inr fs"
  using assms by (simp add: UnwrapTop_def Parse_WrapTop GetBytes_def zero_field_def)

lemma UnwrapTop_other:
  assumes "unat num < 2 ^ 29" "length inner < 2 ^ 64" "num \<noteq> num'"
  shows "UnwrapTop (WrapTop num inner) num' = Inr []"
  using assms by (simp add: UnwrapTop_def Parse_WrapTop GetBytes_def zero_field_def)

text \<open>A length-prefixed field adds at most fifteen bytes to its payload.\<close>

lemma AppendVarint_length_bound: "v < 2 ^ (7 * k) \<Longrightarrow> 0 < k \<Longrightarrow> length (AppendVarint [] (of_nat v)) \<le> k"
proof (induction k arbitrary: v)
  case 0
  then show ?case by simp
next
  case (Suc k)
  let ?v = "of_nat v :: u64"
  show ?case
  proof (cases "0x80 \<le> ?v")
    case False
    then show ?thesis by (simp add: AppendVarint.simps)
  next
    case True
    have d: "drop_bit 7 ?v = of_nat (unat ?v div 128)"
      by (simp add: drop_bit_eq_div word_unat_eq_iff unat_div_distrib unat_of_nat
          less_imp_diff_less mod_less)
    have "128 \<le> unat ?v" using True by (simp add: word_le_nat_alt)
    moreover have le: "unat ?v \<le> v" by (simp add: unat_of_nat take_bit_nat_eq_self_iff)
    ultimately have "0 < k" using Suc.prems(1) by (cases k) auto
    moreover have "unat ?v div 128 < 2 ^ (7 * k)"
      using le Suc.prems(1) by (simp add: less_mult_imp_div_less power_add mult.commute)
    ultimately have "length (AppendVarint [] (drop_bit 7 ?v)) \<le> k"
      unfolding d by (intro Suc.IH)
    then show ?thesis
      using True AppendVarint_prefix [of "[ucast ?v OR 0x80]" "[]" "drop_bit 7 ?v"]
      by (subst AppendVarint.simps) simp
  qed
qed

lemma AppendVarint_length: "length (AppendVarint [] v) \<le> 10"
proof -
  have "unat v < 2 ^ (7 * 10)"
    using unsigned_less [of v, where ?'a = nat] by simp
  then show ?thesis using AppendVarint_length_bound [of "unat v" 10] by simp
qed

lemma bytes_field_length:
  "length (AppendTo (zero_field\<lparr>Num := num, Type := BytesType, B := data\<rparr>) []) \<le> length data + 20"
  using AppendVarint_length [of "ucast (push_bit 3 num OR BytesType)"]
    AppendVarint_length [of "of_nat (length data)"]
  by (simp add: AppendTo_payload payload_def zero_field_def wire_types)

lemmas hello_defs = ClientHello_fields_def ServerHello_fields_def ClientFinish_fields_def
  ClientHello_Build_def ServerHello_Build_def ClientFinish_Build_def
  ParseClientHello_def ParseServerHello_def ParseClientFinish_def
  builder_defs

lemma hello_fields_small:
  "length (ch_Ephemeral c) + length (ch_Payload c) < 2 ^ 63 \<Longrightarrow>
     length (ClientHello_Build c) < 2 ^ 64 \<and> list_all field_ok (ClientHello_fields c)"
  "length (sh_Ephemeral h) + length (sh_Static h) + length (sh_Payload h) < 2 ^ 63 \<Longrightarrow>
     length (ServerHello_Build h) < 2 ^ 64 \<and> list_all field_ok (ServerHello_fields h)"
  "length (cf_Static g) + length (cf_Payload g) < 2 ^ 63 \<Longrightarrow>
     length (ClientFinish_Build g) < 2 ^ 64 \<and> list_all field_ok (ClientFinish_fields g)"
  using bytes_field_length [of "ch_Ephemeral c" 1] bytes_field_length [of "ch_Payload c" 3]
    bytes_field_length [of "sh_Ephemeral h" 1] bytes_field_length [of "sh_Static h" 2]
    bytes_field_length [of "sh_Payload h" 3] bytes_field_length [of "cf_Static g" 1]
    bytes_field_length [of "cf_Payload g" 3]
  by (auto simp: hello_defs Let_def wapb_fields)

lemma hello_parse [simp]:
  "ParseClientHello (ClientHello_fields c) = c"
  "ParseServerHello (ServerHello_fields h) = h"
  "ParseClientFinish (ClientFinish_fields g) = g"
  by (simp_all add: hello_defs Let_def wapb_fields)

subsection \<open>Property\<close>

text \<open>
  Each handshake message wrapped in its envelope field and
  unwrapped by the peer is the message that was sent; the envelope read at a
  different field gives the empty message, never another hello.
\<close>

theorem handshake_messages_roundtrip:
  assumes "length (ch_Ephemeral c) + length (ch_Payload c) < 2 ^ 63"
    and "length (sh_Ephemeral h) + length (sh_Static h) + length (sh_Payload h) < 2 ^ 63"
    and "length (cf_Static g) + length (cf_Payload g) < 2 ^ 63"
  shows "and_then (UnwrapTop (WrapTop HSFieldClientHello (ClientHello_Build c)) HSFieldClientHello)
           (Inr \<circ> ParseClientHello) = Inr c \<and>
         and_then (UnwrapTop (WrapTop HSFieldServerHello (ServerHello_Build h)) HSFieldServerHello)
           (Inr \<circ> ParseServerHello) = Inr h \<and>
         and_then (UnwrapTop (WrapTop HSFieldClientFinish (ClientFinish_Build g)) HSFieldClientFinish)
           (Inr \<circ> ParseClientFinish) = Inr g \<and>
         UnwrapTop (WrapTop HSFieldClientHello (ClientHello_Build c)) HSFieldServerHello = Inr []"
  using assms hello_fields_small
  by (simp add: UnwrapTop_WrapTop UnwrapTop_other wapb_fields
      ClientHello_Build_def ServerHello_Build_def ClientFinish_Build_def)

lemma handshake_messages_roundtrip_witness:
  "and_then (UnwrapTop (WrapTop HSFieldServerHello
      (ServerHello_Build \<lparr>sh_Ephemeral = [1, 2], sh_Static = [], sh_Payload = [3]\<rparr>)) HSFieldServerHello)
      (Inr \<circ> ParseServerHello) = Inr \<lparr>sh_Ephemeral = [1, 2], sh_Static = [], sh_Payload = [3]\<rparr>"
  using handshake_messages_roundtrip
    [of "\<lparr>ch_Ephemeral = [1], ch_Payload = [2]\<rparr>"
        "\<lparr>sh_Ephemeral = [1, 2], sh_Static = [], sh_Payload = [3]\<rparr>"
        "\<lparr>cf_Static = [], cf_Payload = [9]\<rparr>"]
  by simp

end
