(* ===== verification/Gotime.thy ===== *)
theory Gotime
  imports Prelude
begin

text \<open>
  What the program uses of the \<open>time\<close> package. A \<open>time.Time\<close> is its signed count
  of internal seconds since year 1, 64 bits wide, with its nanoseconds;
  \<open>time.Unix\<close> shifts the epoch with the machine's wrap-around. Monotonic readings
  are left out: no modelled comparison has them on both sides.
\<close>

record Time =
  t_sec :: u64
  t_nsec :: nat

definition unixToInternal :: u64 where "unixToInternal = 62135596800"

definition time_Unix :: "u64 \<Rightarrow> Time" where
  "time_Unix s = \<lparr>t_sec = s + unixToInternal, t_nsec = 0\<rparr>"

definition Unix_of :: "Time \<Rightarrow> u64" where
  "Unix_of t = t_sec t - unixToInternal"

definition time_Before :: "Time \<Rightarrow> Time \<Rightarrow> bool" where
  "time_Before t u \<longleftrightarrow> sint (t_sec t) < sint (t_sec u) \<or> t_sec t = t_sec u \<and> t_nsec t < t_nsec u"

definition time_After :: "Time \<Rightarrow> Time \<Rightarrow> bool" where
  "time_After t u \<longleftrightarrow> sint (t_sec t) > sint (t_sec u) \<or> t_sec t = t_sec u \<and> t_nsec t > t_nsec u"

definition IsZero :: "Time \<Rightarrow> bool" where
  "IsZero t \<longleftrightarrow> t_sec t = 0 \<and> t_nsec t = 0"

end
