(* ===== verification/Wacert.thy ===== *)
theory Wacert
  imports Wapb Gotime
begin

text \<open>
  Noise certificate chains, \<^verbatim>\<open>security/wacert/wacert.go\<close>. Ed25519 verification
  is a parameter (key, message, signature).
\<close>

subsection \<open>Certificates\<close>

type_synonym ed25519 = "bytes \<Rightarrow> bytes \<Rightarrow> bytes \<Rightarrow> bool"

definition RootPubKey :: bytes where
  "RootPubKey =
    [0x14, 0x23, 0x75, 0x57, 0x4d, 0x0a, 0x58, 0x71,
     0x66, 0xaa, 0xe7, 0x1e, 0xbe, 0x51, 0x64, 0x37,
     0xc4, 0xa2, 0x8b, 0x73, 0xe3, 0x69, 0x5c, 0x6c,
     0xe1, 0xf7, 0xf9, 0x54, 0x5d, 0xa8, 0xee, 0x6b]"

definition RootSerial :: u32 where "RootSerial = 0"

datatype cert_role = Intermediate | Leaf

datatype cert_error = MalformedChain | MalformedPb pb_error | MalformedKey nat | BadTrustAnchor
  | BadSig cert_role | NotYetValid Time | ExpiredAt Time | KeyMismatch
  | UnexpectedIssuer u32 | IssuerMismatch u32 u32 | CertError cert_role cert_error

record cert =
  ce_Details :: bytes
  ce_Signature :: bytes

record details =
  de_Serial :: u32
  de_IssuerSerial :: u32
  de_Key :: bytes
  de_NotBefore :: u64
  de_NotAfter :: u64

definition wrap_err :: "('e \<Rightarrow> 'f) \<Rightarrow> 'e + 'a \<Rightarrow> 'f + 'a" where
  "wrap_err f r = (case r of Inl e \<Rightarrow> Inl (f e) | Inr a \<Rightarrow> Inr a)"

definition uint_or_zero :: "message \<Rightarrow> u32 \<Rightarrow> u64" where
  "uint_or_zero m num = (case GetUint m num of Some v \<Rightarrow> v | None \<Rightarrow> 0)"

definition parseCert :: "bytes \<Rightarrow> cert_error + cert" where
  "parseCert b =
     and_then (wrap_err MalformedPb (Parse b)) (\<lambda>m.
       let c = \<lparr>ce_Details = bytes_or_empty m 1, ce_Signature = bytes_or_empty m 2\<rparr>
       in if length (ce_Details c) = 0 \<or> length (ce_Signature c) \<noteq> 64 then Inl MalformedChain else Inr c)"

definition parseDetails :: "bytes \<Rightarrow> cert_error + details" where
  "parseDetails raw =
     and_then (wrap_err MalformedPb (Parse raw)) (\<lambda>m.
       let d = \<lparr>de_Serial = ucast (uint_or_zero m 1), de_IssuerSerial = ucast (uint_or_zero m 2),
                de_Key = bytes_or_empty m 3, de_NotBefore = uint_or_zero m 4, de_NotAfter = uint_or_zero m 5\<rparr>
       in if length (de_Key d) \<noteq> 32 then Inl (MalformedKey (length (de_Key d))) else Inr d)"

definition checkValidity :: "details \<Rightarrow> Time \<Rightarrow> cert_error + unit" where
  "checkValidity d now =
     (let nb = time_Unix (de_NotBefore d); na = time_Unix (de_NotAfter d)
      in if time_Before now nb then Inl (NotYetValid nb)
         else if time_After now na then Inl (ExpiredAt na) else Inr ())"

definition Verify :: "ed25519 \<Rightarrow> bytes \<Rightarrow> bytes \<Rightarrow> bytes \<Rightarrow> Time \<Rightarrow> cert_error + unit" where
  "Verify ed certChain serverStatic rootPubKey now =
     and_then (wrap_err MalformedPb (Parse certChain)) (\<lambda>msg.
     case GetBytes msg 2 of None \<Rightarrow> Inl MalformedChain | Some interRaw \<Rightarrow>
     case GetBytes msg 1 of None \<Rightarrow> Inl MalformedChain | Some leafRaw \<Rightarrow>
     and_then (wrap_err (CertError Intermediate) (parseCert interRaw)) (\<lambda>inter.
     and_then (wrap_err (CertError Leaf) (parseCert leafRaw)) (\<lambda>leaf.
     if length rootPubKey \<noteq> 32 then Inl BadTrustAnchor
     else if \<not> ed rootPubKey (ce_Details inter) (ce_Signature inter) then Inl (BadSig Intermediate)
     else
     and_then (wrap_err (CertError Intermediate) (parseDetails (ce_Details inter))) (\<lambda>interD.
     if de_IssuerSerial interD \<noteq> RootSerial then Inl (UnexpectedIssuer (de_IssuerSerial interD))
     else
     and_then (wrap_err (CertError Intermediate) (checkValidity interD now)) (\<lambda>_.
     if \<not> ed (de_Key interD) (ce_Details leaf) (ce_Signature leaf) then Inl (BadSig Leaf)
     else
     and_then (wrap_err (CertError Leaf) (parseDetails (ce_Details leaf))) (\<lambda>leafD.
     if de_IssuerSerial leafD \<noteq> de_Serial interD
     then Inl (IssuerMismatch (de_IssuerSerial leafD) (de_Serial interD))
     else
     and_then (wrap_err (CertError Leaf) (checkValidity leafD now)) (\<lambda>_.
     if de_Key leafD \<noteq> serverStatic then Inl KeyMismatch else Inr ())))))))"

definition BuildChain :: "bytes \<Rightarrow> bytes \<Rightarrow> bytes \<Rightarrow> bytes \<Rightarrow> bytes" where
  "BuildChain leafDetails leafSig interDetails interSig =
     (let leaf = Build (addBytes 2 leafSig (addBytes 1 leafDetails NewBuilder));
          inter = Build (addBytes 2 interSig (addBytes 1 interDetails NewBuilder))
      in Build (addBytes 2 inter (addBytes 1 leaf NewBuilder)))"

definition details_fields :: "u32 \<Rightarrow> u32 \<Rightarrow> bytes \<Rightarrow> Time \<Rightarrow> Time \<Rightarrow> builder" where
  "details_fields serial issuerSerial key notBefore notAfter =
     addUint 5 (Unix_of notAfter) (addUint 4 (Unix_of notBefore) (addBytes 3 key
       (addUint 2 (ucast issuerSerial) (addUint 1 (ucast serial) NewBuilder))))"

definition BuildDetails :: "u32 \<Rightarrow> u32 \<Rightarrow> bytes \<Rightarrow> Time \<Rightarrow> Time \<Rightarrow> bytes" where
  "BuildDetails serial issuerSerial key notBefore notAfter =
     Build (details_fields serial issuerSerial key notBefore notAfter)"

subsection \<open>The chain of trust\<close>

text \<open>A certificate valid at a time, and the relation \<open>Verify\<close> decides.\<close>

definition valid_at :: "Time \<Rightarrow> details \<Rightarrow> bool" where
  "valid_at now d \<longleftrightarrow> sint (de_NotBefore d + unixToInternal) \<le> sint (t_sec now) \<and>
     (sint (t_sec now) < sint (de_NotAfter d + unixToInternal) \<or>
      t_sec now = de_NotAfter d + unixToInternal \<and> t_nsec now = 0)"

definition issued :: "ed25519 \<Rightarrow> bytes \<Rightarrow> u32 \<Rightarrow> Time \<Rightarrow> bytes \<Rightarrow> details \<Rightarrow> bool" where
  "issued ed key serial now raw d \<longleftrightarrow>
     (\<exists>c. parseCert raw = Inr c \<and> ed key (ce_Details c) (ce_Signature c) \<and> parseDetails (ce_Details c) = Inr d) \<and>
     de_IssuerSerial d = serial \<and> valid_at now d"

lemma checkValidity_valid: "checkValidity d now = Inr () \<longleftrightarrow> valid_at now d"
  by (auto simp: checkValidity_def valid_at_def time_Before_def time_After_def time_Unix_def Let_def
      signed_word_eqI not_less le_less)

lemma wrap_err_simps [simp]:
  "wrap_err f (Inl e) = Inl (f e)" "wrap_err f (Inr a) = Inr a"
  "wrap_err f r = Inr a \<longleftrightarrow> r = Inr a"
  by (auto simp: wrap_err_def split: sum.splits)

lemma Verify_iff:
  "Verify ed chain static root now = Inr () \<longleftrightarrow> length root = 32 \<and>
    (\<exists>msg interRaw leafRaw interD leafD. Parse chain = Inr msg \<and> GetBytes msg 2 = Some interRaw \<and>
       GetBytes msg 1 = Some leafRaw \<and> issued ed root RootSerial now interRaw interD \<and>
       issued ed (de_Key interD) (de_Serial interD) now leafRaw leafD \<and> de_Key leafD = static)"
proof -
  have opt: "(case x of None \<Rightarrow> Inl e | Some y \<Rightarrow> f y) = Inr () \<longleftrightarrow> (\<exists>y. x = Some y \<and> f y = Inr ())"
    for x :: "bytes option" and f and e :: cert_error by (cases x) auto
  have ite: "(if b then Inl e else r) = Inr () \<longleftrightarrow> \<not> b \<and> r = Inr ()" for b and e :: cert_error and r
    by auto
  show ?thesis
    unfolding Verify_def and_then_eq_Inr opt ite wrap_err_simps issued_def checkValidity_valid
    by (auto simp: checkValidity_valid)
qed

lemma GetBytes_simps [simp]:
  "GetBytes [] n = None"
  "GetBytes (zero_field\<lparr>Num := num, Type := BytesType, B := data\<rparr> # m) n = (if num = n then Some data else GetBytes m n)"
  "GetBytes (zero_field\<lparr>Num := num, Type := VarintType, V := v\<rparr> # m) n = (if num = n then None else GetBytes m n)"
  by (simp_all add: GetBytes_def zero_field_def wire_types)

lemma uint_or_zero_simps [simp]:
  "uint_or_zero (zero_field\<lparr>Num := num, Type := VarintType, V := v\<rparr> # m) n = (if num = n then v else uint_or_zero m n)"
  "uint_or_zero (zero_field\<lparr>Num := num, Type := BytesType, B := b\<rparr> # m) n = (if num = n then 0 else uint_or_zero m n)"
  by (simp_all add: uint_or_zero_def GetUint_def zero_field_def wire_types)

lemma bytes_or_empty_varint [simp]:
  "bytes_or_empty (zero_field\<lparr>Num := num, Type := VarintType, V := v\<rparr> # m) n = (if num = n then [] else bytes_or_empty m n)"
  by (simp add: bytes_or_empty_def)

lemma ucast_u32_u64 [simp]: "ucast (ucast (x :: u32) :: u64) = x"
  by (rule bit_word_eqI) (simp add: bit_simps)

lemma parseDetails_Build:
  assumes "length key < 2 ^ 60"
  shows "parseDetails (BuildDetails serial issuer key nb na) =
    (if length key = 32
     then Inr \<lparr>de_Serial = serial, de_IssuerSerial = issuer, de_Key = key, de_NotBefore = Unix_of nb, de_NotAfter = Unix_of na\<rparr>
     else Inl (MalformedKey (length key)))"
proof -
  have "Parse (BuildDetails serial issuer key nb na) = Inr (details_fields serial issuer key nb na)"
    using assms unfolding BuildDetails_def by (intro Parse_Build) (simp add: details_fields_def builder_defs)
  then show ?thesis by (simp add: parseDetails_def details_fields_def builder_defs Let_def)
qed

lemma two_fields_length:
  "length (Build (addBytes 2 b (addBytes 1 a NewBuilder))) \<le> length a + length b + 40"
  using bytes_field_length [of a 1] bytes_field_length [of b 2] by (simp add: builder_defs)

lemma Parse_two_fields:
  "length a < 2 ^ 63 \<Longrightarrow> length b < 2 ^ 63 \<Longrightarrow>
   Parse (Build (addBytes 2 b (addBytes 1 a NewBuilder))) = Inr (addBytes 2 b (addBytes 1 a NewBuilder))"
  by (intro Parse_Build) (simp add: builder_defs)

lemma parseCert_Build:
  assumes "length a < 2 ^ 63" "length b < 2 ^ 63"
  shows "parseCert (Build (addBytes 2 b (addBytes 1 a NewBuilder)))
    = (if a = [] \<or> length b \<noteq> 64 then Inl MalformedChain else Inr \<lparr>ce_Details = a, ce_Signature = b\<rparr>)"
  using Parse_two_fields [OF assms] by (simp add: parseCert_def builder_defs Let_def)

lemma Parse_BuildChain:
  assumes "length ld < 2 ^ 61" "length ls < 2 ^ 61" "length ik < 2 ^ 61" "length is < 2 ^ 61"
  shows "Parse (BuildChain ld ls ik is) = Inr (addBytes 2 (Build (addBytes 2 is (addBytes 1 ik NewBuilder)))
     (addBytes 1 (Build (addBytes 2 ls (addBytes 1 ld NewBuilder))) NewBuilder))"
  unfolding BuildChain_def Let_def
  using two_fields_length [of ls ld] two_fields_length [of "is" ik] assms by (intro Parse_two_fields) simp_all

lemma varint_field_length:
  "length (AppendTo (zero_field\<lparr>Num := num, Type := VarintType, V := v\<rparr>) []) \<le> 20"
  using AppendVarint_length [of "ucast (push_bit 3 num OR VarintType)"] AppendVarint_length [of v]
  by (simp add: AppendTo_payload payload_def zero_field_def wire_types)

lemma BuildDetails_length: "length (BuildDetails serial issuer key nb na) \<le> length key + 100"
  using varint_field_length [of "ucast serial" 1] varint_field_length [of "ucast issuer" 2] bytes_field_length [of key 3]
    varint_field_length [of "Unix_of nb" 4] varint_field_length [of "Unix_of na" 5]
  by (simp add: BuildDetails_def details_fields_def builder_defs)

lemma BuildDetails_nonempty: "length key < 2 ^ 60 \<Longrightarrow> BuildDetails serial issuer key nb na \<noteq> []"
proof
  assume key: "length key < 2 ^ 60" and "BuildDetails serial issuer key nb na = []"
  then have "Parse (Build (details_fields serial issuer key nb na)) = Parse (Build [])" by (simp add: BuildDetails_def)
  moreover have "Parse (Build (details_fields serial issuer key nb na)) = Inr (details_fields serial issuer key nb na)"
    using key by (intro Parse_Build) (simp add: details_fields_def builder_defs)
  ultimately show False using Parse_Build [of "[]"] by (simp add: details_fields_def builder_defs)
qed

lemma issued_Build:
  assumes "length key < 2 ^ 60" "length sig < 2 ^ 61"
  shows "issued ed issuer n now (Build (addBytes 2 sig (addBytes 1 (BuildDetails serial i key nb na) NewBuilder))) d \<longleftrightarrow>
    length sig = 64 \<and> length key = 32 \<and> ed issuer (BuildDetails serial i key nb na) sig \<and> i = n \<and> valid_at now d \<and>
    d = \<lparr>de_Serial = serial, de_IssuerSerial = i, de_Key = key, de_NotBefore = Unix_of nb, de_NotAfter = Unix_of na\<rparr>"
  using assms BuildDetails_length [of serial i key nb na] BuildDetails_nonempty [OF assms(1)]
  by (auto simp: issued_def parseCert_Build parseDetails_Build)

lemma Verify_built:
  assumes "length lk < 2 ^ 60" "length ik < 2 ^ 60" "length lsig < 2 ^ 61" "length isig < 2 ^ 61"
  shows "Verify ed (BuildChain (BuildDetails ls li lk lnb lna) lsig (BuildDetails is' ii ik inb ina) isig) static root now = Inr ()
    \<longleftrightarrow> length root = 32 \<and> length isig = 64 \<and> length lsig = 64 \<and> length ik = 32 \<and> length lk = 32 \<and>
      ed root (BuildDetails is' ii ik inb ina) isig \<and> ed ik (BuildDetails ls li lk lnb lna) lsig \<and>
      ii = RootSerial \<and> li = is' \<and> lk = static \<and>
      valid_at now \<lparr>de_Serial = is', de_IssuerSerial = ii, de_Key = ik, de_NotBefore = Unix_of inb, de_NotAfter = Unix_of ina\<rparr> \<and>
      valid_at now \<lparr>de_Serial = ls, de_IssuerSerial = li, de_Key = lk, de_NotBefore = Unix_of lnb, de_NotAfter = Unix_of lna\<rparr>"
proof -
  have "length (BuildDetails ls li lk lnb lna) < 2 ^ 61" "length (BuildDetails is' ii ik inb ina) < 2 ^ 61"
    using assms BuildDetails_length [of ls li lk lnb lna] BuildDetails_length [of is' ii ik inb ina] by simp_all
  note p = Parse_BuildChain [OF this(1) assms(3) this(2) assms(4)]
  have g: "GetBytes (addBytes 2 x (addBytes 1 y NewBuilder)) 2 = Some x"
    "GetBytes (addBytes 2 x (addBytes 1 y NewBuilder)) 1 = Some y" for x y by (simp_all add: builder_defs)
  show ?thesis unfolding Verify_iff p using g by (auto simp: issued_Build [OF assms(1,3)] issued_Build [OF assms(2,4)])
qed

subsection \<open>Properties\<close>

text \<open>
  C21 (safety). \<open>Verify\<close> accepts a chain exactly when trust reaches the server's
  static key: the anchor signed the details the intermediate carries, under the
  root's serial; the intermediate's key signed the leaf's details, under its
  serial; both are valid at the given time, and the leaf's key is the static key.
\<close>

theorem wacert_verify_sound:
  "Verify ed chain static root now = Inr () \<longleftrightarrow> length root = 32 \<and>
    (\<exists>msg interRaw leafRaw interD leafD. Parse chain = Inr msg \<and> GetBytes msg 2 = Some interRaw \<and>
       GetBytes msg 1 = Some leafRaw \<and> issued ed root RootSerial now interRaw interD \<and>
       issued ed (de_Key interD) (de_Serial interD) now leafRaw leafD \<and> de_Key leafD = static)"
  by (rule Verify_iff)

text \<open>
  A chain put together with \<open>BuildDetails\<close> and \<open>BuildChain\<close> is
  accepted exactly when the signatures, their lengths, the key lengths, the
  serials, the validity and the leaf key are right: the wire format hides none of
  these conditions and adds none.
\<close>

theorem wacert_built_chain:
  assumes "length lk < 2 ^ 60" "length ik < 2 ^ 60" "length lsig < 2 ^ 61" "length isig < 2 ^ 61"
  shows "Verify ed (BuildChain (BuildDetails ls li lk lnb lna) lsig (BuildDetails is' ii ik inb ina) isig) static root now = Inr ()
    \<longleftrightarrow> length root = 32 \<and> length isig = 64 \<and> length lsig = 64 \<and> length ik = 32 \<and> length lk = 32 \<and>
      ed root (BuildDetails is' ii ik inb ina) isig \<and> ed ik (BuildDetails ls li lk lnb lna) lsig \<and>
      ii = RootSerial \<and> li = is' \<and> lk = static \<and>
      valid_at now \<lparr>de_Serial = is', de_IssuerSerial = ii, de_Key = ik, de_NotBefore = Unix_of inb, de_NotAfter = Unix_of ina\<rparr> \<and>
      valid_at now \<lparr>de_Serial = ls, de_IssuerSerial = li, de_Key = lk, de_NotBefore = Unix_of lnb, de_NotAfter = Unix_of lna\<rparr>"
  by (rule Verify_built [OF assms])

definition toy_ed25519 :: ed25519 where
  "toy_ed25519 key msg sig \<longleftrightarrow> take 1 key = take 1 sig"

lemma wacert_built_chain_witness:
  "Verify toy_ed25519 (BuildChain (BuildDetails 6 5 (replicate 32 8) (time_Unix 100) (time_Unix 200)) (replicate 64 7)
      (BuildDetails 5 0 (replicate 32 7) (time_Unix 50) (time_Unix 300)) (replicate 64 20))
     (replicate 32 8) RootPubKey (time_Unix 150) = Inr ()"
  by (subst wacert_built_chain)
    (simp_all add: RootPubKey_def RootSerial_def toy_ed25519_def valid_at_def time_Unix_def Unix_of_def unixToInternal_def)

end
