(* ===== verification/StateMachine.thy ===== *)
theory StateMachine
  imports Prelude
begin

text \<open>
  The connection lifecycle of \<^verbatim>\<open>statemachine/statemachine.go\<close>: the states and the
  transition table, the machine with its bounded history and its watchers, and
  every operation on it. A channel is an entry of a store, a capacity and the
  values not yet received; a watcher holds the channel's address, as the code
  compares channels by identity. \<open>time.Now\<close> is an argument.

  The machine is stepped by its public operations and by receives on the
  watchers' channels; the invariant holds in every reachable machine.
\<close>

subsection \<open>States and the table\<close>

datatype State = Stopped | Starting | Connecting | Authenticating | Syncing | Online | Degraded
  | Reconnecting | Error | Stopping

definition state_name :: "State \<Rightarrow> string" where
  "state_name s =
     (case s of
        Stopped \<Rightarrow> ''STOPPED'' | Starting \<Rightarrow> ''STARTING'' | Connecting \<Rightarrow> ''CONNECTING''
      | Authenticating \<Rightarrow> ''AUTHENTICATING'' | Syncing \<Rightarrow> ''SYNCING'' | Online \<Rightarrow> ''ONLINE''
      | Degraded \<Rightarrow> ''DEGRADED'' | Reconnecting \<Rightarrow> ''RECONNECTING'' | Error \<Rightarrow> ''ERROR''
      | Stopping \<Rightarrow> ''STOPPING'')"

definition table :: "State \<Rightarrow> State list" where
  "table s =
     (case s of
        Stopped \<Rightarrow> [Starting, Stopping]
      | Starting \<Rightarrow> [Connecting, Stopping, Error]
      | Connecting \<Rightarrow> [Authenticating, Reconnecting, Stopping, Error]
      | Authenticating \<Rightarrow> [Syncing, Online, Reconnecting, Stopping, Error]
      | Syncing \<Rightarrow> [Online, Degraded, Reconnecting, Stopping, Error]
      | Online \<Rightarrow> [Degraded, Reconnecting, Syncing, Stopping, Error]
      | Degraded \<Rightarrow> [Online, Reconnecting, Syncing, Stopping, Error]
      | Reconnecting \<Rightarrow> [Connecting, Authenticating, Stopping, Error]
      | Error \<Rightarrow> [Reconnecting, Starting, Stopping, Stopped]
      | Stopping \<Rightarrow> [Stopped])"

record Transition =
  tr_From :: State
  tr_To :: State
  tr_Reason :: string
  tr_At :: int

definition Transition_String :: "Transition \<Rightarrow> string" where
  "Transition_String t =
     state_name (tr_From t) @ ''->'' @ state_name (tr_To t) @ ''('' @ tr_Reason t @ '')''"

datatype ErrTransition = ErrTransition (et_From: State) (et_To: State)

subsection \<open>The machine\<close>

record chan =
  ch_cap :: nat
  ch_queue :: "Transition list"

record Machine =
  m_state :: State
  m_history :: "Transition list"
  m_maxHist :: nat
  m_watchers :: "nat list"
  m_chans :: "nat \<rightharpoonup> chan"
  m_next :: nat

definition NewMachine :: Machine where
  "NewMachine = \<lparr>m_state = Stopped, m_history = [], m_maxHist = 64, m_watchers = [],
                 m_chans = Map.empty, m_next = 0\<rparr>"

definition canLocked :: "State \<Rightarrow> Machine \<Rightarrow> bool" where
  "canLocked dest m = (if dest = m_state m then True else dest \<in> set (table (m_state m)))"

definition Can :: "State \<Rightarrow> Machine \<Rightarrow> bool" where
  "Can dest m = canLocked dest m"

definition applyLocked :: "int \<Rightarrow> State \<Rightarrow> string \<Rightarrow> bool \<Rightarrow> Machine \<Rightarrow> Machine \<times> Transition option" where
  "applyLocked now dest reason forced m =
     (if m_state m = dest then (m, None)
      else
        let tr = \<lparr>tr_From = m_state m, tr_To = dest, tr_Reason = (if forced then ''!'' @ reason else reason),
                  tr_At = now\<rparr>;
            h = m_history m @ [tr];
            h = (if length h > m_maxHist m then drop (length h - m_maxHist m) h else h)
        in (m\<lparr>m_state := dest, m_history := h\<rparr>, Some tr))"

text \<open>A send that would block is dropped.\<close>

definition chan_send :: "Transition \<Rightarrow> nat \<Rightarrow> (nat \<rightharpoonup> chan) \<Rightarrow> nat \<rightharpoonup> chan" where
  "chan_send tr w cs =
     (case cs w of
        Some c \<Rightarrow> if length (ch_queue c) < ch_cap c then cs(w \<mapsto> c\<lparr>ch_queue := ch_queue c @ [tr]\<rparr>) else cs
      | None \<Rightarrow> cs)"

definition notifyWatchers :: "nat list \<Rightarrow> Transition \<Rightarrow> (nat \<rightharpoonup> chan) \<Rightarrow> nat \<rightharpoonup> chan" where
  "notifyWatchers ws tr cs = fold (chan_send tr) ws cs"

definition notify :: "Machine \<times> Transition option \<Rightarrow> Machine" where
  "notify r = (case r of (m, None) \<Rightarrow> m
     | (m, Some tr) \<Rightarrow> m\<lparr>m_chans := notifyWatchers (m_watchers m) tr (m_chans m)\<rparr>)"

definition Move :: "int \<Rightarrow> State \<Rightarrow> string \<Rightarrow> Machine \<Rightarrow> Machine \<times> ErrTransition option" where
  "Move now dest reason m =
     (if \<not> canLocked dest m then (m, Some (ErrTransition (m_state m) dest))
      else (notify (applyLocked now dest reason False m), None))"

definition Force :: "int \<Rightarrow> State \<Rightarrow> string \<Rightarrow> Machine \<Rightarrow> Machine" where
  "Force now dest reason m = notify (applyLocked now dest reason True m)"

text \<open>\<open>Watch\<close> also returns the watcher, here the address of its channel.\<close>

definition Watch :: "int \<Rightarrow> Machine \<Rightarrow> Machine \<times> nat" where
  "Watch buffer m =
     (let buffer = (if buffer < 1 then 1 else nat buffer); ch = m_next m
      in (m\<lparr>m_chans := (m_chans m)(ch \<mapsto> \<lparr>ch_cap = buffer, ch_queue = []\<rparr>),
            m_watchers := m_watchers m @ [ch], m_next := ch + 1\<rparr>, ch))"

definition Watcher_Stop :: "nat \<Rightarrow> Machine \<Rightarrow> Machine" where
  "Watcher_Stop ch m = m\<lparr>m_watchers := remove1 ch (m_watchers m)\<rparr>"

text \<open>A receive on the channel \<open>C\<close> returns: what the consumer takes, or nothing to take.\<close>

definition chan_recv :: "nat \<Rightarrow> Machine \<Rightarrow> Machine \<times> Transition option" where
  "chan_recv ch m =
     (case m_chans m ch of
        None \<Rightarrow> (m, None)
      | Some c \<Rightarrow>
          (case ch_queue c of
             [] \<Rightarrow> (m, None)
           | t # q \<Rightarrow> (m\<lparr>m_chans := (m_chans m)(ch \<mapsto> c\<lparr>ch_queue := q\<rparr>)\<rparr>, Some t)))"

definition History :: "Machine \<Rightarrow> Transition list" where
  "History m = m_history m"

definition Active :: "State \<Rightarrow> bool" where
  "Active s = (s \<in> {Connecting, Authenticating, Syncing, Online, Degraded, Reconnecting})"

subsection \<open>Reachable machines\<close>

inductive sm_step :: "Machine \<Rightarrow> Machine \<Rightarrow> bool" where
  step_Move: "sm_step m (fst (Move now dest reason m))"
| step_Force: "sm_step m (Force now dest reason m)"
| step_Watch: "sm_step m (fst (Watch buffer m))"
| step_Stop: "sm_step m (Watcher_Stop ch m)"
| step_recv: "sm_step m (fst (chan_recv ch m))"

inductive_cases sm_stepE: "sm_step m m'"

inductive sm_reachable :: "Machine \<Rightarrow> bool" where
  reach_new: "sm_reachable NewMachine"
| reach_step: "sm_reachable m \<Longrightarrow> sm_step m m' \<Longrightarrow> sm_reachable m'"

subsection \<open>Invariant\<close>

definition tr_legal :: "Transition \<Rightarrow> bool" where
  "tr_legal t \<longleftrightarrow> tr_From t \<noteq> tr_To t \<and>
     (tr_To t \<in> set (table (tr_From t)) \<or> take 1 (tr_Reason t) = ''!'')"

text \<open>Each transition starts where the one before it ended.\<close>

fun chained :: "Transition list \<Rightarrow> bool" where
  "chained (t # u # ts) \<longleftrightarrow> tr_To t = tr_From u \<and> chained (u # ts)"
| "chained _ \<longleftrightarrow> True"

definition hist_ok :: "Machine \<Rightarrow> bool" where
  "hist_ok m \<longleftrightarrow> length (m_history m) \<le> m_maxHist m \<and> list_all tr_legal (m_history m) \<and>
     chained (m_history m) \<and> (m_history m = [] \<or> tr_To (last (m_history m)) = m_state m) \<and> 0 < m_maxHist m"

definition chans_ok :: "Machine \<Rightarrow> bool" where
  "chans_ok m \<longleftrightarrow> distinct (m_watchers m) \<and>
     (\<forall>ch \<in> set (m_watchers m). ch < m_next m \<and> m_chans m ch \<noteq> None) \<and>
     (\<forall>ch c. m_chans m ch = Some c \<longrightarrow>
        ch < m_next m \<and> 0 < ch_cap c \<and> length (ch_queue c) \<le> ch_cap c \<and> list_all tr_legal (ch_queue c))"

lemma chained_snoc: "chained (ts @ [t]) \<longleftrightarrow> chained ts \<and> (ts = [] \<or> tr_To (last ts) = tr_From t)"
  by (induction ts rule: chained.induct) auto

lemma chained_tl: "chained ts \<Longrightarrow> chained (tl ts)"
  by (cases ts rule: chained.cases) auto

lemma chained_drop: "chained ts \<Longrightarrow> chained (drop n ts)"
  by (induction n) (auto simp: drop_Suc tl_drop [symmetric] dest: chained_tl)

lemma list_all_drop: "list_all P xs \<Longrightarrow> list_all P (drop n xs)"
  by (auto simp: list_all_iff dest: in_set_dropD)

lemma applyLocked_cases:
  assumes "applyLocked now dest reason forced m = (m', r)"
  obtains (same) "m' = m" "r = None" "m_state m = dest"
  | (moved) tr where "r = Some tr" "m_state m \<noteq> dest" "tr_From tr = m_state m" "tr_To tr = dest"
      "tr_Reason tr = (if forced then ''!'' @ reason else reason)"
      "m_state m' = dest" "m_watchers m' = m_watchers m" "m_chans m' = m_chans m" "m_next m' = m_next m"
      "m_maxHist m' = m_maxHist m"
      "m_history m' = drop (length (m_history m @ [tr]) - m_maxHist m) (m_history m @ [tr])"
  using assms by (auto simp: applyLocked_def Let_def split: if_splits)

lemma applyLocked_hist_ok:
  assumes "hist_ok m" "applyLocked now dest reason forced m = (m', r)" "forced \<or> canLocked dest m"
  shows "hist_ok m'"
  using assms(2)
proof (cases rule: applyLocked_cases)
  case same
  then show ?thesis using assms(1) by simp
next
  case (moved tr)
  let ?h = "m_history m @ [tr]"
  have "tr_legal tr"
    using moved assms(3) by (auto simp: tr_legal_def canLocked_def split: if_splits)
  then have "list_all tr_legal ?h" "chained ?h"
    using assms(1) moved by (auto simp: hist_ok_def chained_snoc)
  moreover have "length ?h - m_maxHist m < length ?h" using assms(1) by (simp add: hist_ok_def)
  then have "drop (length ?h - m_maxHist m) ?h \<noteq> []" "last (drop (length ?h - m_maxHist m) ?h) = tr"
    by (auto simp: last_drop)
  ultimately show ?thesis
    using assms(1) moved unfolding hist_ok_def
    by (simp add: list_all_drop chained_drop del: drop_append)
qed

lemma chan_send_ok:
  assumes "\<forall>ch c. cs ch = Some c \<longrightarrow> ch < n \<and> 0 < ch_cap c \<and> length (ch_queue c) \<le> ch_cap c \<and> list_all tr_legal (ch_queue c)"
    and "tr_legal tr"
  shows "\<forall>ch c. chan_send tr w cs ch = Some c \<longrightarrow>
           ch < n \<and> 0 < ch_cap c \<and> length (ch_queue c) \<le> ch_cap c \<and> list_all tr_legal (ch_queue c)"
    and "chan_send tr w cs ch = None \<longleftrightarrow> cs ch = None"
  using assms by (auto simp: chan_send_def split: option.splits if_splits)

lemma notifyWatchers_ok:
  assumes "\<forall>ch c. cs ch = Some c \<longrightarrow> ch < n \<and> 0 < ch_cap c \<and> length (ch_queue c) \<le> ch_cap c \<and> list_all tr_legal (ch_queue c)"
    and "tr_legal tr"
  shows "(\<forall>ch c. notifyWatchers ws tr cs ch = Some c \<longrightarrow>
           ch < n \<and> 0 < ch_cap c \<and> length (ch_queue c) \<le> ch_cap c \<and> list_all tr_legal (ch_queue c)) \<and>
         (\<forall>ch. notifyWatchers ws tr cs ch = None \<longleftrightarrow> cs ch = None)"
  using assms(1)
proof (induction ws arbitrary: cs)
  case Nil
  then show ?case by (simp add: notifyWatchers_def)
next
  case (Cons w ws)
  from Cons.IH [OF chan_send_ok(1) [OF Cons.prems assms(2), of w]] chan_send_ok(2) [OF Cons.prems assms(2), of w]
  show ?case by (simp add: notifyWatchers_def)
qed

lemma notify_ok:
  assumes "hist_ok m" "chans_ok m" "applyLocked now dest reason forced m = (m', r)" "forced \<or> canLocked dest m"
  shows "hist_ok (notify (m', r)) \<and> chans_ok (notify (m', r))"
  using assms(3)
proof (cases rule: applyLocked_cases)
  case same
  then show ?thesis using assms by (simp add: notify_def)
next
  case (moved tr)
  have h: "hist_ok m'" by (rule applyLocked_hist_ok [OF assms(1,3,4)])
  have t: "tr_legal tr"
    using moved assms(4) by (auto simp: tr_legal_def canLocked_def split: if_splits)
  have "\<forall>ch c. m_chans m ch = Some c \<longrightarrow>
      ch < m_next m \<and> 0 < ch_cap c \<and> length (ch_queue c) \<le> ch_cap c \<and> list_all tr_legal (ch_queue c)"
    using assms(2) by (simp add: chans_ok_def)
  from notifyWatchers_ok [OF this t, of "m_watchers m"]
  have "chans_ok (notify (m', r))"
    using assms(2) moved by (simp add: chans_ok_def notify_def)
  moreover have "hist_ok (m'\<lparr>m_chans := cs\<rparr>)" for cs using h by (simp add: hist_ok_def)
  ultimately show ?thesis using moved(1) by (simp add: notify_def)
qed

lemma Watch_ok: "hist_ok m \<Longrightarrow> chans_ok m \<Longrightarrow> hist_ok (fst (Watch b m)) \<and> chans_ok (fst (Watch b m))"
  by (auto simp: hist_ok_def chans_ok_def Watch_def Let_def less_Suc_eq split: if_splits)

lemma Watcher_Stop_ok:
  "hist_ok m \<Longrightarrow> chans_ok m \<Longrightarrow> hist_ok (Watcher_Stop ch m) \<and> chans_ok (Watcher_Stop ch m)"
  by (auto simp: hist_ok_def chans_ok_def Watcher_Stop_def set_remove1_eq)

lemma chan_recv_ok:
  "hist_ok m \<Longrightarrow> chans_ok m \<Longrightarrow> hist_ok (fst (chan_recv ch m)) \<and> chans_ok (fst (chan_recv ch m))"
  by (auto simp: hist_ok_def chans_ok_def chan_recv_def split: option.splits list.splits)
    (fastforce split: if_splits)+

lemma sm_step_ok:
  assumes "sm_step m m'" "hist_ok m" "chans_ok m"
  shows "hist_ok m' \<and> chans_ok m'"
  using assms(1)
proof (cases rule: sm_step.cases)
  case (step_Move now dest reason)
  then show ?thesis
    using assms(2,3) notify_ok [OF assms(2,3), of now dest reason False]
    by (cases "applyLocked now dest reason False m") (auto simp: Move_def)
next
  case (step_Force now dest reason)
  then show ?thesis
    using notify_ok [OF assms(2,3), of now dest reason True]
    by (cases "applyLocked now dest reason True m") (auto simp: Force_def)
qed (use assms Watch_ok Watcher_Stop_ok chan_recv_ok in auto)

subsection \<open>Properties\<close>

text \<open>
  C31 (invariant). In every machine the operations can reach, forced recoveries
  included, the history is a chain of transitions that ends in the current state,
  keeps at most its bound, and holds only transitions of the table or marked with
  \<open>!\<close>; every watcher has a channel of its own that never holds more than its
  buffer.
\<close>

theorem machine_invariant: "sm_reachable m \<Longrightarrow> hist_ok m \<and> chans_ok m"
proof (induction rule: sm_reachable.induct)
  case reach_new
  then show ?case by (simp add: hist_ok_def chans_ok_def NewMachine_def)
next
  case (reach_step m m')
  then show ?case using sm_step_ok by blast
qed

lemma machine_invariant_witness:
  "hist_ok (Force 9 Online ''x'' (fst (Move 5 Starting ''start'' (fst (Watch 2 NewMachine)))))"
  by (rule machine_invariant [THEN conjunct1])
    (intro reach_step [OF _ step_Force] reach_step [OF _ step_Move] reach_step [OF _ step_Watch] reach_new)

definition moves :: "(int \<times> State \<times> string) list \<Rightarrow> Machine \<Rightarrow> Machine" where
  "moves ops m = fold (\<lambda>(now, dest, reason) m. fst (Move now dest reason m)) ops m"

lemma moves_snoc: "moves (ops @ [(now, dest, reason)]) m = fst (Move now dest reason (moves ops m))"
  by (simp add: moves_def)

lemma Move_state:
  "m_state (fst (Move now dest reason m)) = (if dest \<in> set (table (m_state m)) then dest else m_state m)"
  by (auto simp: Move_def canLocked_def applyLocked_def notify_def Let_def)

definition past_auth :: "State \<Rightarrow> bool" where
  "past_auth s \<longleftrightarrow> s \<in> {Online, Syncing, Degraded}"

text \<open>The table enters the three states past authentication from each other or from it.\<close>

lemma table_past_auth: "dest \<in> set (table s) \<Longrightarrow> past_auth dest \<Longrightarrow> past_auth s \<or> s = Authenticating"
  by (cases s) (auto simp: table_def past_auth_def)

text \<open>
  C32 (safety). Without a forced jump nothing is online before it has
  authenticated: whatever sequence of moves is requested, legal or refused, a new
  machine in \<open>Online\<close>, \<open>Syncing\<close> or \<open>Degraded\<close> has been in \<open>Authenticating\<close> before.
\<close>

theorem online_after_authenticating:
  assumes "m_state (moves ops NewMachine) \<in> {Online, Syncing, Degraded}"
  shows "\<exists>k < length ops. m_state (moves (take k ops) NewMachine) = Authenticating"
proof -
  have "past_auth (m_state (moves ops NewMachine))" using assms by (simp add: past_auth_def)
  then show ?thesis
  proof (induction ops rule: rev_induct)
    case Nil
    then show ?case by (simp add: moves_def NewMachine_def past_auth_def)
  next
    case (snoc op ops)
    obtain now dest reason where op: "op = (now, dest, reason)" by (cases op)
    let ?s = "m_state (moves ops NewMachine)"
    have "past_auth ?s \<or> ?s = Authenticating"
      using snoc.prems table_past_auth by (auto simp: op moves_snoc Move_state split: if_splits)
    then show ?case
    proof
      assume "past_auth ?s"
      then obtain k where "k < length ops" "m_state (moves (take k ops) NewMachine) = Authenticating"
        using snoc.IH by blast
      then show ?thesis by (intro exI [of _ k]) simp
    next
      assume "?s = Authenticating"
      then show ?thesis by (intro exI [of _ "length ops"]) simp
    qed
  qed
qed

lemma online_after_authenticating_witness:
  "\<exists>k < 4. m_state (moves (take k [(0, Starting, ''start''), (1, Connecting, ''dial''),
      (2, Authenticating, ''noise''), (3, Online, ''connected'')]) NewMachine) = Authenticating"
  using online_after_authenticating [of "[(0, Starting, ''start''), (1, Connecting, ''dial''),
      (2, Authenticating, ''noise''), (3, Online, ''connected'')]"]
  by (simp add: moves_def Move_state table_def NewMachine_def numeral_eq_Suc)

end
