(* ===== verification/Storage.thy ===== *)
theory Storage
  imports Prelude
begin

text \<open>
  The key/value contract of \<^verbatim>\<open>storage/memory.go\<close> and its in-memory backend. The
  Go interface \<open>KV\<close> is a record of functions over the backend's state; the locale
  \<open>kv\<close> is the contract its comment states (what a read returns after a write or a
  delete, an exact sorted \<open>List\<close>), relative to an abstraction to a finite map, a
  state invariant and the keys the backend admits. Every backend is an
  interpretation; clients are proved once, inside the locale.
\<close>

subsection \<open>The interface\<close>

datatype kv_error = ErrNotFound | ErrSealedNotFound | ErrWrongKey | ErrIO

record 's KV =
  kv_Get :: "string \<Rightarrow> 's \<Rightarrow> kv_error + bytes"
  kv_Set :: "string \<Rightarrow> bytes \<Rightarrow> 's \<Rightarrow> kv_error + 's"
  kv_Delete :: "string \<Rightarrow> 's \<Rightarrow> kv_error + 's"
  kv_List :: "string \<Rightarrow> 's \<Rightarrow> kv_error + string list"

locale kv =
  fixes ops :: "'s KV"
    and contents :: "'s \<Rightarrow> string \<rightharpoonup> bytes"
    and inv :: "'s \<Rightarrow> bool"
    and admits :: "string \<Rightarrow> bool"
  assumes finite_contents: "inv s \<Longrightarrow> finite (dom (contents s))"
    and get: "inv s \<Longrightarrow> admits k \<Longrightarrow>
      kv_Get ops k s = (case contents s k of None \<Rightarrow> Inl ErrNotFound | Some v \<Rightarrow> Inr v)"
    and set_ok: "inv s \<Longrightarrow> admits k \<Longrightarrow>
      \<exists>s'. kv_Set ops k v s = Inr s' \<and> inv s' \<and> contents s' = (contents s)(k \<mapsto> v)"
    and delete_ok: "inv s \<Longrightarrow> admits k \<Longrightarrow>
      \<exists>s'. kv_Delete ops k s = Inr s' \<and> inv s' \<and> contents s' = (contents s)(k := None)"
    and list_ok: "inv s \<Longrightarrow>
      kv_List ops p s = Inr (sorted_list_of_set {k \<in> dom (contents s). prefix p k})"
    and only_admitted: "inv s \<Longrightarrow> k \<in> dom (contents s) \<Longrightarrow> admits k"
begin

lemma get_after_set:
  assumes "inv s" "admits k" "admits k'" "kv_Set ops k v s = Inr s'"
  shows "kv_Get ops k' s' = (if k' = k then Inr v else kv_Get ops k' s)"
  using set_ok [OF assms(1,2), of v] assms by (auto simp: get)

lemma get_after_delete:
  assumes "inv s" "admits k" "admits k'" "kv_Delete ops k s = Inr s'"
  shows "kv_Get ops k' s' = (if k' = k then Inl ErrNotFound else kv_Get ops k' s)"
  using delete_ok [OF assms(1,2)] assms by (auto simp: get)

lemma set_inv: "inv s \<Longrightarrow> admits k \<Longrightarrow> kv_Set ops k v s = Inr s' \<Longrightarrow> inv s' \<and> contents s' = (contents s)(k \<mapsto> v)"
  using set_ok [of s k v] by auto

lemma delete_inv: "inv s \<Longrightarrow> admits k \<Longrightarrow> kv_Delete ops k s = Inr s' \<Longrightarrow> inv s' \<and> contents s' = (contents s)(k := None)"
  using delete_ok [of s k] by auto

text \<open>The listed keys are exactly the stored ones under the prefix, in order and once each.\<close>

lemma list_exact:
  assumes "inv s" "kv_List ops p s = Inr ks"
  shows "set ks = {k. prefix p k \<and> contents s k \<noteq> None} \<and> sorted ks \<and> distinct ks"
  using assms list_ok [OF assms(1), of p] finite_contents [OF assms(1)]
  by (auto simp: dom_def)

end

subsection \<open>The in-memory backend\<close>

text \<open>The Go map is an association list with distinct keys; values are copied in and out.\<close>

record Memory =
  mem_data :: "(string \<times> bytes) list"

definition NewMemory :: Memory where
  "NewMemory = \<lparr>mem_data = []\<rparr>"

definition cloneBytes :: "bytes \<Rightarrow> bytes" where
  "cloneBytes b = map (\<lambda>x. x) b"

lemma cloneBytes_id [simp]: "cloneBytes b = b"
  by (simp add: cloneBytes_def)

definition Memory_Get :: "string \<Rightarrow> Memory \<Rightarrow> kv_error + bytes" where
  "Memory_Get key m = (case map_of (mem_data m) key of None \<Rightarrow> Inl ErrNotFound | Some v \<Rightarrow> Inr (cloneBytes v))"

definition Memory_Set :: "string \<Rightarrow> bytes \<Rightarrow> Memory \<Rightarrow> kv_error + Memory" where
  "Memory_Set key v m = Inr (m\<lparr>mem_data := AList.update key (cloneBytes v) (mem_data m)\<rparr>)"

definition Memory_Delete :: "string \<Rightarrow> Memory \<Rightarrow> kv_error + Memory" where
  "Memory_Delete key m = Inr (m\<lparr>mem_data := AList.delete key (mem_data m)\<rparr>)"

definition Memory_List :: "string \<Rightarrow> Memory \<Rightarrow> kv_error + string list" where
  "Memory_List p m = Inr (sort (filter (prefix p) (map fst (mem_data m))))"

definition Memory_Keys :: "Memory \<Rightarrow> string list" where
  "Memory_Keys m = sort (map fst (mem_data m))"

definition Memory_KV :: "Memory KV" where
  "Memory_KV = \<lparr>kv_Get = Memory_Get, kv_Set = Memory_Set, kv_Delete = Memory_Delete, kv_List = Memory_List\<rparr>"

definition mem_contents :: "Memory \<Rightarrow> string \<rightharpoonup> bytes" where
  "mem_contents m = map_of (mem_data m)"

definition mem_inv :: "Memory \<Rightarrow> bool" where
  "mem_inv m \<longleftrightarrow> distinct (map fst (mem_data m))"

lemma sort_keys:
  assumes "distinct (map fst al)"
  shows "sort (filter P (map fst al)) = sorted_list_of_set {k \<in> dom (map_of al). P k}"
proof -
  have "set (filter P (map fst al)) = {k \<in> dom (map_of al). P k}"
    by (auto simp: dom_map_of_conv_image_fst)
  moreover have "sorted_list_of_set (set (filter P (map fst al))) = sort (remdups (filter P (map fst al)))"
    by (rule sorted_list_of_set_sort_remdups)
  moreover have "remdups (filter P (map fst al)) = filter P (map fst al)"
    using assms by (intro distinct_remdups_id distinct_filter)
  ultimately show ?thesis by simp
qed

lemma Memory_KV_sel [simp]:
  "kv_Get Memory_KV = Memory_Get" "kv_Set Memory_KV = Memory_Set"
  "kv_Delete Memory_KV = Memory_Delete" "kv_List Memory_KV = Memory_List"
  by (simp_all add: Memory_KV_def)

interpretation mem: kv Memory_KV mem_contents mem_inv "\<lambda>_. True"
proof unfold_locales
  fix s k v p
  assume i: "mem_inv s"
  show "finite (dom (mem_contents s))" by (simp add: mem_contents_def finite_dom_map_of)
  show "kv_Get Memory_KV k s = (case mem_contents s k of None \<Rightarrow> Inl ErrNotFound | Some v \<Rightarrow> Inr v)"
    by (simp add: Memory_Get_def mem_contents_def split: option.split)
  show "\<exists>s'. kv_Set Memory_KV k v s = Inr s' \<and> mem_inv s' \<and> mem_contents s' = (mem_contents s)(k \<mapsto> v)"
    using i by (simp add: Memory_Set_def mem_inv_def mem_contents_def distinct_update update_conv')
  show "\<exists>s'. kv_Delete Memory_KV k s = Inr s' \<and> mem_inv s' \<and> mem_contents s' = (mem_contents s)(k := None)"
    using i by (simp add: Memory_Delete_def mem_inv_def mem_contents_def distinct_delete delete_conv')
  show "kv_List Memory_KV p s = Inr (sorted_list_of_set {k \<in> dom (mem_contents s). prefix p k})"
    using i by (simp add: Memory_List_def mem_inv_def mem_contents_def sort_keys)
qed simp

end
