(* ===== verification/FileStore.thy ===== *)
theory FileStore
  imports Storage
begin

text \<open>
  The durable backend of \<^verbatim>\<open>storage/file.go\<close>: one file per key under an escaped
  and hashed name, and a manifest file that maps keys back. The directory is a map
  from file names to contents; its operations succeed (a full disk or a missing
  permission is outside the model). \<open>sha256\<close> is a parameter; the contract holds for
  the keys whose file names it keeps apart.
\<close>

subsection \<open>File names\<close>

definition hex_digit :: "nat \<Rightarrow> char" where
  "hex_digit n = (if n < 10 then char_of (48 + n) else char_of (87 + n))"

definition hex_byte :: "byte \<Rightarrow> string" where
  "hex_byte b = [hex_digit (unat b div 16), hex_digit (unat b mod 16)]"

definition hex_encode :: "bytes \<Rightarrow> string" where
  "hex_encode bs = concat (map hex_byte bs)"

definition safe_char :: "char \<Rightarrow> bool" where
  "safe_char c \<longleftrightarrow> (let n = (of_char c :: nat) in
     97 \<le> n \<and> n \<le> 122 \<or> 65 \<le> n \<and> n \<le> 90 \<or> 48 \<le> n \<and> n \<le> 57 \<or> c \<in> {CHR ''.'', CHR ''-'', CHR ''_''})"

definition escape_char :: "char \<Rightarrow> string" where
  "escape_char c = (if safe_char c then [c] else CHR ''%'' # hex_byte (byte_of_char c))"

fun encode_loop :: "string \<Rightarrow> string \<Rightarrow> string" where
  "encode_loop sb [] = sb"
| "encode_loop sb (c # key) = (if length sb < 180 then encode_loop (sb @ escape_char c) key else sb)"

definition encodeKey :: "(bytes \<Rightarrow> bytes) \<Rightarrow> string \<Rightarrow> string" where
  "encodeKey sha256 key =
     encode_loop [] key @ ''.'' @ hex_encode (take 8 (sha256 (bytes_of_string key)))"

subsection \<open>The store\<close>

record FileStore =
  fs_files :: "string \<rightharpoonup> bytes"
  fs_manifest :: "(string \<times> string) list"

definition indexPath :: string where
  "indexPath = ''MANIFEST''"

definition tab :: char where "tab = CHR 0x09"
definition nl :: char where "nl = CHR 0x0A"

definition manifest_text :: "(string \<times> string) list \<Rightarrow> string" where
  "manifest_text man =
     concat (map (\<lambda>k. k @ [tab] @ the (map_of man k) @ [nl]) (sort (map fst man)))"

definition writeManifestLocked :: "FileStore \<Rightarrow> FileStore" where
  "writeManifestLocked s =
     s\<lparr>fs_files := (fs_files s)(indexPath \<mapsto> bytes_of_string (manifest_text (fs_manifest s)))\<rparr>"

text \<open>\<open>strings.Split\<close> with a one-byte separator.\<close>

fun split_on :: "char \<Rightarrow> string \<Rightarrow> string list" where
  "split_on c [] = [[]]"
| "split_on c (x # xs) =
     (if x = c then [] # split_on c xs
      else case split_on c xs of [] \<Rightarrow> [[x]] | l # ls \<Rightarrow> (x # l) # ls)"

definition read_manifest_line :: "string \<Rightarrow> (string \<times> string) list \<Rightarrow> (string \<times> string) list" where
  "read_manifest_line line man =
     (case Cut line tab of
        Some (k, v) \<Rightarrow> if k \<noteq> '''' \<and> v \<noteq> '''' then AList.update k v man else man
      | None \<Rightarrow> man)"

text \<open>Opening a directory that exists; its files are what an earlier process left.\<close>

definition NewFileStore :: "(string \<rightharpoonup> bytes) \<Rightarrow> FileStore" where
  "NewFileStore files =
     \<lparr>fs_files = files,
      fs_manifest = (case files indexPath of
          None \<Rightarrow> []
        | Some index \<Rightarrow> fold read_manifest_line (split_on nl (string_of_bytes index)) [])\<rparr>"

definition FileStore_Get :: "(bytes \<Rightarrow> bytes) \<Rightarrow> string \<Rightarrow> FileStore \<Rightarrow> kv_error + bytes" where
  "FileStore_Get sha256 key s =
     (case fs_files s (encodeKey sha256 key) of None \<Rightarrow> Inl ErrNotFound | Some v \<Rightarrow> Inr v)"

definition FileStore_Set :: "(bytes \<Rightarrow> bytes) \<Rightarrow> string \<Rightarrow> bytes \<Rightarrow> FileStore \<Rightarrow> kv_error + FileStore" where
  "FileStore_Set sha256 key v s =
     (let path = encodeKey sha256 key;
          tmp = path @ ''.tmp'';
          files = (fs_files s)(tmp \<mapsto> v);
          files = (files(path := files tmp))(tmp := None)
      in Inr (writeManifestLocked
           (s\<lparr>fs_files := files, fs_manifest := AList.update key path (fs_manifest s)\<rparr>)))"

definition FileStore_Delete :: "(bytes \<Rightarrow> bytes) \<Rightarrow> string \<Rightarrow> FileStore \<Rightarrow> kv_error + FileStore" where
  "FileStore_Delete sha256 key s =
     Inr (writeManifestLocked
       (s\<lparr>fs_files := (fs_files s)(encodeKey sha256 key := None),
          fs_manifest := AList.delete key (fs_manifest s)\<rparr>))"

definition FileStore_List :: "string \<Rightarrow> FileStore \<Rightarrow> kv_error + string list" where
  "FileStore_List p s = Inr (sort (filter (prefix p) (map fst (fs_manifest s))))"

definition FileStore_KV :: "(bytes \<Rightarrow> bytes) \<Rightarrow> FileStore KV" where
  "FileStore_KV sha256 = \<lparr>kv_Get = FileStore_Get sha256, kv_Set = FileStore_Set sha256,
     kv_Delete = FileStore_Delete sha256, kv_List = FileStore_List\<rparr>"

subsection \<open>Names do not collide\<close>

definition is_hex :: "char \<Rightarrow> bool" where
  "is_hex c \<longleftrightarrow> (let n = (of_char c :: nat) in 48 \<le> n \<and> n \<le> 57 \<or> 97 \<le> n \<and> n \<le> 102)"

lemma is_hex_digit: "n < 16 \<Longrightarrow> is_hex (hex_digit n)"
  by (auto simp: hex_digit_def is_hex_def)

lemma hex_byte_chars: "c \<in> set (hex_byte b) \<Longrightarrow> is_hex c"
proof -
  have "unat b div 16 < 16" "unat b mod 16 < 16"
    using byte_bound [of b] by (auto simp: less_mult_imp_div_less)
  then show "c \<in> set (hex_byte b) \<Longrightarrow> is_hex c" using is_hex_digit by (auto simp: hex_byte_def)
qed

lemma hex_encode_chars: "c \<in> set (hex_encode bs) \<Longrightarrow> is_hex c"
  using hex_byte_chars by (auto simp: hex_encode_def)

lemma hex_encode_nonempty: "bs \<noteq> [] \<Longrightarrow> hex_encode bs \<noteq> []"
  by (cases bs) (auto simp: hex_encode_def hex_byte_def)

lemma last_encodeKey:
  assumes "\<And>b. length (sha256 b) = 32"
  shows "is_hex (last (encodeKey sha256 k))"
proof -
  let ?h = "hex_encode (take 8 (sha256 (bytes_of_string k)))"
  have "take 8 (sha256 (bytes_of_string k)) \<noteq> []"
    using assms [of "bytes_of_string k"] by (cases "sha256 (bytes_of_string k)") auto
  then have h: "?h \<noteq> []" by (rule hex_encode_nonempty)
  then have "last (encodeKey sha256 k) = last ?h" by (simp add: encodeKey_def)
  then show ?thesis using hex_encode_chars [OF last_in_set [OF h]] by simp
qed

lemma encodeKey_names:
  assumes "\<And>b. length (sha256 b) = 32"
  shows "encodeKey sha256 k \<noteq> indexPath" "encodeKey sha256 k \<noteq> encodeKey sha256 k' @ ''.tmp''"
    "encodeKey sha256 k @ ''.tmp'' \<noteq> indexPath" "encodeKey sha256 k \<noteq> []"
proof -
  have l: "is_hex (last (encodeKey sha256 k))" by (rule last_encodeKey [OF assms])
  show "encodeKey sha256 k \<noteq> indexPath" using l by (auto simp: indexPath_def is_hex_def)
  show "encodeKey sha256 k \<noteq> encodeKey sha256 k' @ ''.tmp''"
  proof
    assume "encodeKey sha256 k = encodeKey sha256 k' @ ''.tmp''"
    then have "last (encodeKey sha256 k) = CHR ''p''" by simp
    with l show False by (simp add: is_hex_def)
  qed
  show "encodeKey sha256 k @ ''.tmp'' \<noteq> indexPath"
  proof
    assume "encodeKey sha256 k @ ''.tmp'' = indexPath"
    then have "last (encodeKey sha256 k @ ''.tmp'') = last indexPath" by (rule arg_cong)
    then show False by (simp add: indexPath_def)
  qed
  show "encodeKey sha256 k \<noteq> []" by (simp add: encodeKey_def)
qed

subsection \<open>The contract\<close>

text \<open>A set of keys whose file names differ, under a hash of the right length.\<close>

definition fs_admits :: "(bytes \<Rightarrow> bytes) \<Rightarrow> string set \<Rightarrow> string \<Rightarrow> bool" where
  "fs_admits sha256 K k \<longleftrightarrow> k \<in> K \<and> inj_on (encodeKey sha256) K \<and> (\<forall>b. length (sha256 b) = 32)"

definition fs_contents :: "(bytes \<Rightarrow> bytes) \<Rightarrow> FileStore \<Rightarrow> string \<rightharpoonup> bytes" where
  "fs_contents sha256 s k =
     (if k \<in> fst ` set (fs_manifest s) then fs_files s (encodeKey sha256 k) else None)"

text \<open>The manifest and the directory agree on the admitted keys.\<close>

definition fs_inv :: "(bytes \<Rightarrow> bytes) \<Rightarrow> string set \<Rightarrow> FileStore \<Rightarrow> bool" where
  "fs_inv sha256 K s \<longleftrightarrow> distinct (map fst (fs_manifest s)) \<and>
     (\<forall>(k, f) \<in> set (fs_manifest s). fs_admits sha256 K k \<and> f = encodeKey sha256 k) \<and>
     (\<forall>k. fs_admits sha256 K k \<longrightarrow>
        (fs_files s (encodeKey sha256 k) \<noteq> None \<longleftrightarrow> k \<in> fst ` set (fs_manifest s)))"

lemma FileStore_KV_sel [simp]:
  "kv_Get (FileStore_KV sha256) = FileStore_Get sha256" "kv_Set (FileStore_KV sha256) = FileStore_Set sha256"
  "kv_Delete (FileStore_KV sha256) = FileStore_Delete sha256" "kv_List (FileStore_KV sha256) = FileStore_List"
  by (simp_all add: FileStore_KV_def)

lemma fs_contents_admitted:
  "fs_inv sha256 K s \<Longrightarrow> fs_admits sha256 K k \<Longrightarrow> fs_contents sha256 s k = fs_files s (encodeKey sha256 k)"
  by (auto simp: fs_inv_def fs_contents_def)

lemma dom_fs_contents:
  assumes "fs_inv sha256 K s"
  shows "dom (fs_contents sha256 s) = fst ` set (fs_manifest s)"
proof -
  have "fs_files s (encodeKey sha256 k) \<noteq> None" if "k \<in> fst ` set (fs_manifest s)" for k
  proof -
    have "fs_admits sha256 K k" using assms that unfolding fs_inv_def by force
    then show ?thesis using assms that unfolding fs_inv_def by blast
  qed
  then show ?thesis by (auto simp: fs_contents_def dom_def split: if_splits)
qed

text \<open>What a write and a delete leave in the directory, seen through the admitted names.\<close>

lemma Set_files:
  assumes "fs_admits sha256 K k" "fs_admits sha256 K k'" "FileStore_Set sha256 k v s = Inr s'"
  shows "fs_files s' (encodeKey sha256 k') = (if k' = k then Some v else fs_files s (encodeKey sha256 k'))"
proof -
  have h: "\<And>b. length (sha256 b) = 32" and i: "encodeKey sha256 k = encodeKey sha256 k' \<longleftrightarrow> k = k'"
    using assms(1,2) by (auto simp: fs_admits_def inj_on_def)
  show ?thesis
    using assms(3) encodeKey_names [of sha256, OF h] i
    by (auto simp: FileStore_Set_def Let_def writeManifestLocked_def)
qed

lemma Delete_files:
  assumes "fs_admits sha256 K k" "fs_admits sha256 K k'" "FileStore_Delete sha256 k s = Inr s'"
  shows "fs_files s' (encodeKey sha256 k') = (if k' = k then None else fs_files s (encodeKey sha256 k'))"
proof -
  have h: "\<And>b. length (sha256 b) = 32" and i: "encodeKey sha256 k = encodeKey sha256 k' \<longleftrightarrow> k = k'"
    using assms(1,2) by (auto simp: fs_admits_def inj_on_def)
  show ?thesis
    using assms(3) encodeKey_names [of sha256, OF h] i
    by (auto simp: FileStore_Delete_def writeManifestLocked_def)
qed

lemma FileStore_Set_manifest:
  "FileStore_Set sha256 k v s = Inr s' \<Longrightarrow> fs_manifest s' = AList.update k (encodeKey sha256 k) (fs_manifest s)"
  by (auto simp: FileStore_Set_def Let_def writeManifestLocked_def)

lemma FileStore_Delete_manifest:
  "FileStore_Delete sha256 k s = Inr s' \<Longrightarrow> fs_manifest s' = AList.delete k (fs_manifest s)"
  by (auto simp: FileStore_Delete_def writeManifestLocked_def)

lemma update_entries: "set (AList.update k v al) \<subseteq> insert (k, v) (set al)"
  by (induction al) auto

lemma delete_entries: "set (AList.delete k al) = {kv \<in> set al. fst kv \<noteq> k}"
  by (induction al) auto

lemma fs_Set:
  assumes s: "fs_inv sha256 K s" and k: "fs_admits sha256 K k" and e: "FileStore_Set sha256 k v s = Inr s'"
  shows "fs_inv sha256 K s' \<and> fs_contents sha256 s' = (fs_contents sha256 s)(k \<mapsto> v)"
proof -
  note m = FileStore_Set_manifest [OF e]
  have keys: "fst ` set (fs_manifest s') = insert k (fst ` set (fs_manifest s))"
    by (simp add: m dom_update)
  have files: "fs_files s' (encodeKey sha256 k') = (if k' = k then Some v else fs_files s (encodeKey sha256 k'))"
    if "fs_admits sha256 K k'" for k'
    using Set_files [OF k that e] .
  have i: "fs_inv sha256 K s'"
    unfolding fs_inv_def
  proof (intro conjI ballI allI impI)
    show "distinct (map fst (fs_manifest s'))"
      using s by (simp add: m fs_inv_def distinct_update)
    show "case kf of (k, f) \<Rightarrow> fs_admits sha256 K k \<and> f = encodeKey sha256 k" if "kf \<in> set (fs_manifest s')" for kf
      using that s k update_entries [of k "encodeKey sha256 k" "fs_manifest s"] by (fastforce simp: m fs_inv_def)
    show "fs_files s' (encodeKey sha256 k') \<noteq> None \<longleftrightarrow> k' \<in> fst ` set (fs_manifest s')"
      if "fs_admits sha256 K k'" for k'
      using s that by (simp add: files [OF that] keys fs_inv_def)
  qed
  moreover have "fs_contents sha256 s' k' = ((fs_contents sha256 s)(k \<mapsto> v)) k'" for k'
  proof (cases "fs_admits sha256 K k'")
    case True
    then show ?thesis using fs_contents_admitted [OF i True] fs_contents_admitted [OF s True] files by simp
  next
    case False
    then have "k' \<notin> fst ` set (fs_manifest s)" "k' \<noteq> k" using s k by (auto simp: fs_inv_def)
    then show ?thesis by (simp add: fs_contents_def keys)
  qed
  ultimately show ?thesis by blast
qed

lemma fs_Delete:
  assumes s: "fs_inv sha256 K s" and k: "fs_admits sha256 K k" and e: "FileStore_Delete sha256 k s = Inr s'"
  shows "fs_inv sha256 K s' \<and> fs_contents sha256 s' = (fs_contents sha256 s)(k := None)"
proof -
  note m = FileStore_Delete_manifest [OF e]
  have keys: "fst ` set (fs_manifest s') = fst ` set (fs_manifest s) - {k}"
    by (auto simp: m delete_entries)
  have files: "fs_files s' (encodeKey sha256 k') = (if k' = k then None else fs_files s (encodeKey sha256 k'))"
    if "fs_admits sha256 K k'" for k'
    using Delete_files [OF k that e] .
  have i: "fs_inv sha256 K s'"
    unfolding fs_inv_def
  proof (intro conjI ballI allI impI)
    show "distinct (map fst (fs_manifest s'))"
      using s by (simp add: m fs_inv_def distinct_delete)
    show "case kf of (k, f) \<Rightarrow> fs_admits sha256 K k \<and> f = encodeKey sha256 k" if "kf \<in> set (fs_manifest s')" for kf
      using that s by (auto simp: m fs_inv_def delete_entries)
    show "fs_files s' (encodeKey sha256 k') \<noteq> None \<longleftrightarrow> k' \<in> fst ` set (fs_manifest s')"
      if "fs_admits sha256 K k'" for k'
      using s that by (simp add: files [OF that] keys fs_inv_def)
  qed
  moreover have "fs_contents sha256 s' k' = ((fs_contents sha256 s)(k := None)) k'" for k'
  proof (cases "fs_admits sha256 K k'")
    case True
    then show ?thesis using fs_contents_admitted [OF i True] fs_contents_admitted [OF s True] files by simp
  next
    case False
    then have "k' \<notin> fst ` set (fs_manifest s)" using s by (auto simp: fs_inv_def)
    then show ?thesis by (simp add: fs_contents_def keys)
  qed
  ultimately show ?thesis by blast
qed

interpretation fs: kv "FileStore_KV sha256" "fs_contents sha256" "fs_inv sha256 K" "fs_admits sha256 K"
  for sha256 K
proof unfold_locales
  fix s k v p
  assume i: "fs_inv sha256 K s"
  show "finite (dom (fs_contents sha256 s))" by (simp add: dom_fs_contents [OF i])
  show "kv_List (FileStore_KV sha256) p s = Inr (sorted_list_of_set {k \<in> dom (fs_contents sha256 s). prefix p k})"
  proof -
    have "distinct (map fst (fs_manifest s))" using i by (simp add: fs_inv_def)
    from sort_keys [OF this, of "prefix p"] show ?thesis
      by (simp add: FileStore_List_def dom_fs_contents [OF i] dom_map_of_conv_image_fst)
  qed
  show "fs_admits sha256 K k" if "k \<in> dom (fs_contents sha256 s)"
    using that i dom_fs_contents [OF i] by (auto simp: fs_inv_def)
  assume k: "fs_admits sha256 K k"
  show "kv_Get (FileStore_KV sha256) k s = (case fs_contents sha256 s k of None \<Rightarrow> Inl ErrNotFound | Some v \<Rightarrow> Inr v)"
    using fs_contents_admitted [OF i k] by (simp add: FileStore_Get_def)
  show "\<exists>s'. kv_Set (FileStore_KV sha256) k v s = Inr s' \<and> fs_inv sha256 K s' \<and> fs_contents sha256 s' = (fs_contents sha256 s)(k \<mapsto> v)"
    using fs_Set [OF i k, of v] by (simp add: FileStore_Set_def Let_def)
  show "\<exists>s'. kv_Delete (FileStore_KV sha256) k s = Inr s' \<and> fs_inv sha256 K s' \<and> fs_contents sha256 s' = (fs_contents sha256 s)(k := None)"
    using fs_Delete [OF i k] by (simp add: FileStore_Delete_def)
qed

subsection \<open>The manifest survives a restart\<close>

definition clean_key :: "string \<Rightarrow> bool" where
  "clean_key k \<longleftrightarrow> k \<noteq> '''' \<and> tab \<notin> set k \<and> nl \<notin> set k"

lemma split_on_nonempty: "split_on c s \<noteq> []"
  by (induction s) (auto split: list.splits)

lemma split_on_line: "c \<notin> set l \<Longrightarrow> split_on c (l @ c # rest) = l # split_on c rest"
  by (induction l) auto

lemma split_on_lines:
  "(\<And>l. l \<in> set ls \<Longrightarrow> c \<notin> set l) \<Longrightarrow> split_on c (concat (map (\<lambda>l. l @ [c]) ls)) = ls @ [[]]"
  by (induction ls) (simp_all add: split_on_line)

lemma escape_chars: "c \<in> set (escape_char x) \<Longrightarrow> c \<noteq> nl"
  using hex_byte_chars [of c "byte_of_char x"]
  by (auto simp: escape_char_def safe_char_def nl_def is_hex_def split: if_splits)

lemma encode_loop_chars: "nl \<notin> set sb \<Longrightarrow> nl \<notin> set (encode_loop sb key)"
  by (induction sb key rule: encode_loop.induct) (auto dest: escape_chars)

lemma encodeKey_chars: "nl \<notin> set (encodeKey sha256 k)"
  using encode_loop_chars [of "[]" k] hex_encode_chars [of nl]
  by (auto simp: encodeKey_def nl_def is_hex_def)

lemma fold_read_lines:
  assumes "\<And>k. k \<in> set ks \<Longrightarrow> clean_key k \<and> f k \<noteq> []"
  shows "fold read_manifest_line (map (\<lambda>k. k @ [tab] @ f k) ks) man
           = fold (\<lambda>k. AList.update k (f k)) ks man"
  using assms
proof (induction ks arbitrary: man)
  case (Cons k ks)
  have "read_manifest_line (k @ tab # f k) man = AList.update k (f k) man"
    using Cons.prems [of k] by (simp add: read_manifest_line_def clean_key_def)
  then show ?case using Cons by simp
qed simp

lemma map_of_fold_update:
  "map_of (fold (\<lambda>k. AList.update k (f k)) ks man) k'
     = (if k' \<in> set ks then Some (f k') else map_of man k')"
  by (induction ks arbitrary: man) (auto simp: update_conv')

lemma distinct_fold_update:
  "distinct (map fst man) \<Longrightarrow> distinct (map fst (fold (\<lambda>k. AList.update k (f k)) ks man))"
  by (induction ks arbitrary: man) (auto simp: distinct_update)

lemma reopen_manifest:
  assumes i: "fs_inv sha256 K s" and clean: "\<And>k. k \<in> K \<Longrightarrow> clean_key k"
    and f: "fs_files s indexPath = Some (bytes_of_string (manifest_text (fs_manifest s)))"
  shows "distinct (map fst (fs_manifest (NewFileStore (fs_files s)))) \<and>
    map_of (fs_manifest (NewFileStore (fs_files s))) = map_of (fs_manifest s)"
proof -
  let ?man = "fs_manifest s" and ?ks = "sort (map fst (fs_manifest s))"
  let ?f = "\<lambda>k. the (map_of ?man k)"
  have f_key: "?f k = encodeKey sha256 k \<and> clean_key k \<and> map_of ?man k = Some (?f k)" if "k \<in> set ?ks" for k
  proof -
    have "k \<in> fst ` set ?man" using \<open>k \<in> set ?ks\<close> by simp
    then obtain v where v: "map_of ?man k = Some v" "(k, v) \<in> set ?man"
      by (metis map_of_eq_None_iff map_of_SomeD not_None_eq)
    then have "fs_admits sha256 K k \<and> v = encodeKey sha256 k" using i by (auto simp: fs_inv_def)
    then show ?thesis using v clean by (auto simp: fs_admits_def)
  qed
  have "split_on nl (manifest_text ?man) = map (\<lambda>k. k @ [tab] @ ?f k) ?ks @ [[]]"
  proof -
    have "nl \<notin> set l" if "l \<in> set (map (\<lambda>k. k @ [tab] @ ?f k) ?ks)" for l
      using that f_key encodeKey_chars by (fastforce simp: clean_key_def tab_def nl_def)
    from split_on_lines [of "map (\<lambda>k. k @ [tab] @ ?f k) ?ks", OF this] show ?thesis
      by (simp add: manifest_text_def comp_def)
  qed
  moreover have "fold read_manifest_line (map (\<lambda>k. k @ [tab] @ ?f k) ?ks) []
      = fold (\<lambda>k. AList.update k (?f k)) ?ks []"
    using f_key by (intro fold_read_lines) (auto simp: encodeKey_def)
  moreover have "read_manifest_line [] man = man" for man by (simp add: read_manifest_line_def)
  ultimately have m: "fs_manifest (NewFileStore (fs_files s)) = fold (\<lambda>k. AList.update k (?f k)) ?ks []"
    by (simp add: NewFileStore_def f)
  have "map_of (fold (\<lambda>k. AList.update k (?f k)) ?ks []) k = map_of ?man k" for k
  proof (cases "k \<in> set ?ks")
    case True
    then show ?thesis unfolding map_of_fold_update using f_key [OF True] by metis
  next
    case False
    then have "map_of ?man k = None" by (simp add: map_of_eq_None_iff)
    then show ?thesis unfolding map_of_fold_update using False by simp
  qed
  then show ?thesis using distinct_fold_update [of "[]" ?f ?ks] m by (auto simp: fun_eq_iff)
qed

subsection \<open>Properties\<close>

text \<open>
  C22 (functional). On keys whose file names differ, a write to the file store is
  read back, leaves every other key as it was, and is listed; the write itself
  never fails on a working directory.
\<close>

theorem filestore_set_get:
  assumes "fs_inv sha256 K s" "fs_admits sha256 K k" "fs_admits sha256 K k'"
  shows "\<exists>s'. FileStore_Set sha256 k v s = Inr s' \<and> fs_inv sha256 K s' \<and>
    FileStore_Get sha256 k' s' = (if k' = k then Inr v else FileStore_Get sha256 k' s) \<and>
    (\<forall>p. \<exists>ks. FileStore_List p s' = Inr ks \<and> sorted ks \<and> distinct ks \<and>
       (k' \<in> set ks \<longleftrightarrow> prefix p k' \<and> (k' = k \<or> is_ok (FileStore_Get sha256 k' s))))"
proof -
  obtain s' where s': "FileStore_Set sha256 k v s = Inr s'" "fs_inv sha256 K s'"
      "fs_contents sha256 s' = (fs_contents sha256 s)(k \<mapsto> v)"
    using fs.set_ok [OF assms(1,2), of v] by auto
  have g: "FileStore_Get sha256 k' s = (case fs_contents sha256 s k' of None \<Rightarrow> Inl ErrNotFound | Some v \<Rightarrow> Inr v)"
    using fs.get [OF assms(1,3)] by simp
  have "\<exists>ks. FileStore_List p s' = Inr ks \<and> sorted ks \<and> distinct ks \<and>
      (k' \<in> set ks \<longleftrightarrow> prefix p k' \<and> (k' = k \<or> is_ok (FileStore_Get sha256 k' s)))" for p
    using fs.list_exact [OF s'(2), of p] fs.list_ok [OF s'(2), of p] s'(3) g
    by (auto simp: is_ok_iff split: option.splits)
  then show ?thesis
    using s' fs.get_after_set [OF assms, of v s'] by simp
qed

definition sample_sha256 :: "bytes \<Rightarrow> bytes" where
  "sample_sha256 b = take 32 (b @ replicate 32 0)"

lemma sample_admits: "k \<in> {''a'', ''b/c''} \<Longrightarrow> fs_admits sample_sha256 {''a'', ''b/c''} k"
  by (auto simp: min_def fs_admits_def sample_sha256_def inj_on_def encodeKey_def escape_char_def safe_char_def
      hex_byte_def hex_digit_def hex_encode_def byte_of_char_def)

lemma filestore_set_get_witness:
  "\<exists>s'. FileStore_Set sample_sha256 ''b/c'' [7] (NewFileStore Map.empty) = Inr s' \<and>
     FileStore_Get sample_sha256 ''b/c'' s' = Inr [7]"
proof -
  have "fs_inv sample_sha256 {''a'', ''b/c''} (NewFileStore Map.empty)"
    by (simp add: fs_inv_def NewFileStore_def)
  from filestore_set_get [OF this sample_admits sample_admits, of "''b/c''" "''b/c''" "[7]"]
  show ?thesis by auto
qed



end
