(* ===== verification/SecureKV.thy ===== *)
theory SecureKV
  imports FileStore
begin

text \<open>
  The sealing layer of \<^verbatim>\<open>storage/secure.go\<close>: values of a backend are encrypted
  under a master key, bound to their key and stored in base64 behind a prefix. The
  AEAD (AES-256-GCM), HMAC and the random source are parameters; base64 and hex are
  modelled. Sealing is itself a backend: it turns every interpretation of the
  contract into another one.
\<close>

subsection \<open>Base64 (encoding/base64, StdEncoding)\<close>

definition b64_alphabet :: string where
  "b64_alphabet = ''ABCDEFGHIJKLMNOPQRSTUVWXYZabcdefghijklmnopqrstuvwxyz0123456789+/''"

definition b64_char :: "nat \<Rightarrow> char" where
  "b64_char n = b64_alphabet ! (n mod 64)"

definition b64_val :: "char \<Rightarrow> nat option" where
  "b64_val c = IndexByte b64_alphabet c"

fun b64_encode :: "bytes \<Rightarrow> string" where
  "b64_encode (a # b # c # r) =
     (let v = unat a * 65536 + unat b * 256 + unat c
      in [b64_char (v div 262144), b64_char (v div 4096), b64_char (v div 64), b64_char v] @ b64_encode r)"
| "b64_encode [a, b] =
     (let v = unat a * 65536 + unat b * 256
      in [b64_char (v div 262144), b64_char (v div 4096), b64_char (v div 64), CHR ''=''])"
| "b64_encode [a] =
     (let v = unat a * 65536 in [b64_char (v div 262144), b64_char (v div 4096), CHR ''='', CHR ''=''])"
| "b64_encode [] = []"

text \<open>
  \<open>DecodeString\<close> skips line breaks, wants complete quanta with padding, and ignores
  the unused low bits of the last one.
\<close>

fun b64_quanta :: "string \<Rightarrow> bytes option" where
  "b64_quanta [] = Some []"
| "b64_quanta (p # q # r # s # rest) =
     (case (b64_val p, b64_val q) of
        (Some x, Some y) \<Rightarrow>
          if r = CHR ''='' then
            (if s = CHR ''='' \<and> rest = [] then Some [of_nat ((x * 64 + y) div 16)] else None)
          else (case b64_val r of
              None \<Rightarrow> None
            | Some z \<Rightarrow>
                if s = CHR ''='' then
                  (if rest = [] then
                     (let v = (x * 64 + y) * 64 + z in Some [of_nat (v div 1024), of_nat (v div 4)])
                   else None)
                else (case b64_val s of
                    None \<Rightarrow> None
                  | Some w \<Rightarrow>
                      let v = ((x * 64 + y) * 64 + z) * 64 + w
                      in map_option (\<lambda>bs. of_nat (v div 65536) # of_nat (v div 256) # of_nat v # bs)
                           (b64_quanta rest)))
      | _ \<Rightarrow> None)"
| "b64_quanta _ = None"

definition b64_decode :: "string \<Rightarrow> bytes option" where
  "b64_decode s = b64_quanta (filter (\<lambda>c. c \<noteq> CHR 0x0A \<and> c \<noteq> CHR 0x0D) s)"

subsection \<open>Sealed records\<close>

record AEAD =
  aead_Seal :: "bytes \<Rightarrow> bytes \<Rightarrow> bytes \<Rightarrow> bytes"
  aead_Open :: "bytes \<Rightarrow> bytes \<Rightarrow> bytes \<Rightarrow> bytes option"

definition SealPrefix :: string where
  "SealPrefix = ''bseal1:''"

text \<open>\<open>seal\<close> with the nonce it draws as an argument; arguments are nonce, text, associated data.\<close>

definition seal :: "AEAD \<Rightarrow> bytes \<Rightarrow> string \<Rightarrow> bytes \<Rightarrow> bytes" where
  "seal aead nonce key v =
     (let out = nonce @ aead_Seal aead nonce v (bytes_of_string key)
      in bytes_of_string (SealPrefix @ b64_encode out))"

definition TrimPrefix :: "string \<Rightarrow> string \<Rightarrow> string" where
  "TrimPrefix s p = (if prefix p s then drop (length p) s else s)"

definition unseal :: "AEAD \<Rightarrow> string \<Rightarrow> bytes \<Rightarrow> kv_error + bytes" where
  "unseal aead key sealed =
     (let raw = TrimPrefix (string_of_bytes sealed) SealPrefix
      in if raw = string_of_bytes sealed then Inl ErrSealedNotFound
         else case b64_decode raw of
             None \<Rightarrow> Inl ErrSealedNotFound
           | Some buf \<Rightarrow>
               if length buf < 12 then Inl ErrSealedNotFound
               else case aead_Open aead (take 12 buf) (drop 12 buf) (bytes_of_string key) of
                   None \<Rightarrow> Inl ErrWrongKey
                 | Some plain \<Rightarrow> Inr plain)"

text \<open>
  The store: its backend's state and the random source, whose \<open>n\<close>-th read gives
  twelve bytes or fails.
\<close>

record 's SecureKV =
  sk_backend :: 's
  sk_rand :: "nat \<Rightarrow> bytes option"
  sk_drawn :: nat

definition NewSecureKV :: "bytes \<Rightarrow> 's \<Rightarrow> (nat \<Rightarrow> bytes option) \<Rightarrow> 's SecureKV option" where
  "NewSecureKV masterKey backend rand =
     (if length masterKey \<noteq> 32 then None
      else Some \<lparr>sk_backend = backend, sk_rand = rand, sk_drawn = 0\<rparr>)"

definition SecureKV_Get :: "AEAD \<Rightarrow> 's KV \<Rightarrow> string \<Rightarrow> 's SecureKV \<Rightarrow> kv_error + bytes" where
  "SecureKV_Get aead ops key s = and_then (kv_Get ops key (sk_backend s)) (unseal aead key)"

definition SecureKV_Set :: "AEAD \<Rightarrow> 's KV \<Rightarrow> string \<Rightarrow> bytes \<Rightarrow> 's SecureKV \<Rightarrow> kv_error + 's SecureKV" where
  "SecureKV_Set aead ops key v s =
     (case sk_rand s (sk_drawn s) of
        None \<Rightarrow> Inl ErrIO
      | Some nonce \<Rightarrow>
          and_then (kv_Set ops key (seal aead nonce key v) (sk_backend s)) (\<lambda>b.
            Inr (s\<lparr>sk_backend := b, sk_drawn := sk_drawn s + 1\<rparr>)))"

definition SecureKV_Delete :: "'s KV \<Rightarrow> string \<Rightarrow> 's SecureKV \<Rightarrow> kv_error + 's SecureKV" where
  "SecureKV_Delete ops key s = and_then (kv_Delete ops key (sk_backend s)) (\<lambda>b. Inr (s\<lparr>sk_backend := b\<rparr>))"

definition SecureKV_List :: "'s KV \<Rightarrow> string \<Rightarrow> 's SecureKV \<Rightarrow> kv_error + string list" where
  "SecureKV_List ops p s = kv_List ops p (sk_backend s)"

definition SecureKV_KV :: "AEAD \<Rightarrow> 's KV \<Rightarrow> 's SecureKV KV" where
  "SecureKV_KV aead ops = \<lparr>kv_Get = SecureKV_Get aead ops, kv_Set = SecureKV_Set aead ops,
     kv_Delete = SecureKV_Delete ops, kv_List = SecureKV_List ops\<rparr>"

subsection \<open>Master keys\<close>

text \<open>\<open>hmac key msg\<close> is \<open>hmac.New(sha256.New, key)\<close> applied to one message.\<close>

definition DeriveMaster :: "(bytes \<Rightarrow> bytes \<Rightarrow> bytes) \<Rightarrow> bytes \<Rightarrow> bytes \<Rightarrow> int \<Rightarrow> bytes" where
  "DeriveMaster hmac passphrase salt iters =
     (let iters = (if iters \<le> 0 then 100000 else iters);
          salt = (if length salt = 0 then bytes_of_string ''baturwhatsapi-seal-v1'' else salt)
      in ((\<lambda>t. hmac salt t) ^^ nat iters) (hmac salt passphrase))"

definition hexVal :: "byte \<Rightarrow> byte option" where
  "hexVal c =
     (if 0x30 \<le> c \<and> c \<le> 0x39 then Some (c - 0x30)
      else if 0x61 \<le> c \<and> c \<le> 0x66 then Some (c - 0x61 + 10)
      else if 0x41 \<le> c \<and> c \<le> 0x46 then Some (c - 0x41 + 10)
      else None)"

datatype hex_error = HexLength nat | InvalidHex | HexPanic

text \<open>The loop reads two characters a round; a single one left is an index out of range.\<close>

fun decodeHex :: "bytes \<Rightarrow> hex_error + bytes" where
  "decodeHex [] = Inr []"
| "decodeHex [_] = Inl HexPanic"
| "decodeHex (h # l # s) =
     (case (hexVal h, hexVal l) of
        (Some hi, Some lo) \<Rightarrow> and_then (decodeHex s) (\<lambda>r. Inr ((push_bit 4 hi OR lo) # r))
      | _ \<Rightarrow> Inl InvalidHex)"

text \<open>\<open>strings.TrimSpace\<close>: the UTF-8 encodings of the characters with the White Space property.\<close>

definition white_space :: "bytes list" where
  "white_space = [[0x09], [0x0A], [0x0B], [0x0C], [0x0D], [0x20], [0xC2, 0x85], [0xC2, 0xA0],
     [0xE1, 0x9A, 0x80], [0xE2, 0x80, 0x80], [0xE2, 0x80, 0x81], [0xE2, 0x80, 0x82], [0xE2, 0x80, 0x83],
     [0xE2, 0x80, 0x84], [0xE2, 0x80, 0x85], [0xE2, 0x80, 0x86], [0xE2, 0x80, 0x87], [0xE2, 0x80, 0x88],
     [0xE2, 0x80, 0x89], [0xE2, 0x80, 0x8A], [0xE2, 0x80, 0xA8], [0xE2, 0x80, 0xA9], [0xE2, 0x80, 0xAF],
     [0xE2, 0x81, 0x9F], [0xE3, 0x80, 0x80]]"

fun trim_left :: "nat \<Rightarrow> bytes list \<Rightarrow> bytes \<Rightarrow> bytes" where
  "trim_left 0 ws s = s"
| "trim_left (Suc n) ws s =
     (case find (\<lambda>w. prefix w s) ws of None \<Rightarrow> s | Some w \<Rightarrow> trim_left n ws (drop (length w) s))"

definition TrimSpace :: "bytes \<Rightarrow> bytes" where
  "TrimSpace s =
     (let l = trim_left (length s) white_space s
      in rev (trim_left (length l) (map rev white_space) (rev l)))"

definition MasterKeyFromHex :: "bytes \<Rightarrow> hex_error + bytes" where
  "MasterKeyFromHex hexStr =
     (let s = TrimSpace hexStr
      in if length s \<noteq> 64 then Inl (HexLength (length s)) else decodeHex s)"

subsection \<open>Base64 round trip\<close>

lemma IndexByte_nth: "distinct s \<Longrightarrow> n < length s \<Longrightarrow> IndexByte s (s ! n) = Some n"
proof -
  assume d: "distinct s" "n < length s"
  then have s: "s = take n s @ s ! n # drop (Suc n) s" by (simp add: id_take_nth_drop)
  have "s ! n \<notin> set (take n s)" using d by (metis s distinct.simps(2) distinct_append disjoint_iff list.set_intros(1))
  then have "IndexByte (take n s @ s ! n # drop (Suc n) s) (s ! n) = Some (length (take n s))"
    by (rule IndexByte_first)
  then show ?thesis using d s by simp
qed

lemma b64_alphabet_facts: "distinct b64_alphabet" "length b64_alphabet = 64"
  "set b64_alphabet \<inter> {CHR ''='', CHR 0x0A, CHR 0x0D} = {}"
  by (simp_all add: b64_alphabet_def)

lemma b64_val_char [simp]: "b64_val (b64_char n) = Some (n mod 64)"
  by (simp add: b64_val_def b64_char_def IndexByte_nth b64_alphabet_facts)

lemma b64_char_plain [simp]: "b64_char n \<noteq> CHR ''=''" "b64_char n \<noteq> CHR 0x0A" "b64_char n \<noteq> CHR 0x0D"
proof -
  have "b64_char n \<in> set b64_alphabet" by (simp add: b64_char_def b64_alphabet_facts)
  then show "b64_char n \<noteq> CHR ''=''" "b64_char n \<noteq> CHR 0x0A" "b64_char n \<noteq> CHR 0x0D"
    using b64_alphabet_facts(3) by auto
qed

lemma sextets:
  fixes v :: nat
  assumes "v < 16777216"
  shows "(((v div 262144 mod 64) * 64 + v div 4096 mod 64) * 64 + v div 64 mod 64) * 64 + v mod 64 = v"
    "((v div 262144 mod 64) * 64 + v div 4096 mod 64) * 64 + v div 64 mod 64 = v div 64"
    "(v div 262144 mod 64) * 64 + v div 4096 mod 64 = v div 4096"
proof -
  have 1: "v div 262144 mod 64 = v div 262144" using assms by (simp add: less_mult_imp_div_less)
  have 2: "v div 262144 = v div 4096 div 64" "v div 4096 = v div 64 div 64"
    by (simp_all add: div_mult2_eq [symmetric])
  have 3: "v div 262144 mod 64 = v div 4096 div 64" using 1 2(1) by simp
  show "(v div 262144 mod 64) * 64 + v div 4096 mod 64 = v div 4096"
    unfolding 3 by (rule div_mult_mod_eq)
  then show "((v div 262144 mod 64) * 64 + v div 4096 mod 64) * 64 + v div 64 mod 64 = v div 64"
    by (simp only: 2(2) div_mult_mod_eq)
  then show "(((v div 262144 mod 64) * 64 + v div 4096 mod 64) * 64 + v div 64 mod 64) * 64 + v mod 64 = v"
    by (simp only: div_mult_mod_eq)
qed

lemma byte_of_nat_eq: "n mod 256 = unat b \<Longrightarrow> of_nat n = (b :: byte)"
  by (simp only: word_unat_eq_iff unat_byte_of_nat)

lemma horner3:
  fixes a b c :: nat
  assumes "b < 256" "c < 256"
  shows "(a * 65536 + b * 256 + c) div 65536 = a"
    "(a * 65536 + b * 256 + c) div 256 mod 256 = b" "(a * 65536 + b * 256 + c) mod 256 = c"
proof -
  have h: "a * 65536 + b * 256 + c = (a * 256 + b) * 256 + c" by simp
  show "(a * 65536 + b * 256 + c) div 65536 = a" using assms by (intro div_nat_eqI) simp_all
  have "((a * 256 + b) * 256 + c) div 256 = a * 256 + b" using assms by (intro div_nat_eqI) simp_all
  then show "(a * 65536 + b * 256 + c) div 256 mod 256 = b" unfolding h using assms by simp
  show "(a * 65536 + b * 256 + c) mod 256 = c"
    unfolding h using assms mod_mult_self3 [of "a * 256 + b" 256 c] by simp
qed

lemma b64_quanta_full:
  "v < 16777216 \<Longrightarrow>
   b64_quanta (b64_char (v div 262144) # b64_char (v div 4096) # b64_char (v div 64) # b64_char v # rest)
     = map_option (\<lambda>bs. of_nat (v div 65536) # of_nat (v div 256) # of_nat v # bs) (b64_quanta rest)"
  by (simp only: b64_quanta.simps b64_val_char option.case prod.case b64_char_plain if_False Let_def sextets(1))

lemma b64_quanta_encode: "b64_quanta (b64_encode bs) = Some bs"
proof (induction bs rule: b64_encode.induct)
  case (1 a b c r)
  let ?v = "unat a * 65536 + unat b * 256 + unat c"
  have v: "?v < 16777216" using byte_bound [of a] byte_bound [of b] byte_bound [of c] by linarith
  have "of_nat (?v div 65536) = a" "of_nat (?v div 256) = b" "of_nat ?v = c"
    using horner3 [OF byte_bound [of b] byte_bound [of c], of "unat a"] byte_bound [of a]
    by (rule_tac [!] byte_of_nat_eq) (simp_all only: mod_less)
  then show ?case using 1
    by (simp only: b64_encode.simps Let_def append.simps b64_quanta_full [OF v] option.map)
next
  case (2 a b)
  let ?v = "unat a * 65536 + unat b * 256"
  have v: "?v < 16777216" using byte_bound [of a] byte_bound [of b] by linarith
  have h: "?v div 64 div 1024 = ?v div 65536" "?v div 64 div 4 = ?v div 256"
    by (simp_all only: div_mult2_eq [symmetric]) simp_all
  have "of_nat (?v div 64 div 1024) = a" "of_nat (?v div 64 div 4) = b"
    unfolding h using horner3 [OF byte_bound [of b], of 0 "unat a"] byte_bound [of a]
    by (rule_tac [!] byte_of_nat_eq) simp_all
  then show ?case
    by (simp only: b64_encode.simps Let_def b64_quanta.simps b64_val_char option.case prod.case b64_char_plain
        if_False if_True sextets(2) [OF v] simp_thms)
next
  case (3 a)
  let ?v = "unat a * 65536"
  have v: "?v < 16777216" using byte_bound [of a] by linarith
  have "of_nat (?v div 4096 div 16) = a" by simp
  then show ?case
    by (simp only: b64_encode.simps Let_def b64_quanta.simps b64_val_char option.case prod.case
        if_True sextets(3) [OF v] simp_thms)
qed simp

lemma b64_filter: "filter (\<lambda>c. c \<noteq> CHR 0x0A \<and> c \<noteq> CHR 0x0D) (b64_encode bs) = b64_encode bs"
  by (induction bs rule: b64_encode.induct) (simp_all add: Let_def)

lemma b64_roundtrip: "b64_decode (b64_encode bs) = Some bs"
  by (simp add: b64_decode_def b64_filter b64_quanta_encode)

subsection \<open>Sealing is a backend\<close>

definition aead_ok :: "AEAD \<Rightarrow> bool" where
  "aead_ok A \<longleftrightarrow> (\<forall>n p a. length n = 12 \<longrightarrow> aead_Open A n (aead_Seal A n p a) a = Some p)"

lemma unseal_seal: "aead_ok A \<Longrightarrow> length nonce = 12 \<Longrightarrow> unseal A key (seal A nonce key v) = Inr v"
  by (simp add: unseal_def seal_def Let_def TrimPrefix_def b64_roundtrip aead_ok_def SealPrefix_def)

definition sk_contents :: "AEAD \<Rightarrow> ('s \<Rightarrow> string \<rightharpoonup> bytes) \<Rightarrow> 's SecureKV \<Rightarrow> string \<rightharpoonup> bytes" where
  "sk_contents A contents s k =
     (case contents (sk_backend s) k of
        None \<Rightarrow> None
      | Some sealed \<Rightarrow> (case unseal A k sealed of Inl _ \<Rightarrow> None | Inr v \<Rightarrow> Some v))"

definition sk_inv :: "AEAD \<Rightarrow> ('s \<Rightarrow> string \<rightharpoonup> bytes) \<Rightarrow> ('s \<Rightarrow> bool) \<Rightarrow> 's SecureKV \<Rightarrow> bool" where
  "sk_inv A contents I s \<longleftrightarrow> I (sk_backend s) \<and> aead_ok A \<and>
     (\<forall>n. \<exists>b. sk_rand s n = Some b \<and> length b = 12) \<and>
     (\<forall>k sealed. contents (sk_backend s) k = Some sealed \<longrightarrow> is_ok (unseal A k sealed))"

lemma SecureKV_KV_sel [simp]:
  "kv_Get (SecureKV_KV A ops) = SecureKV_Get A ops" "kv_Set (SecureKV_KV A ops) = SecureKV_Set A ops"
  "kv_Delete (SecureKV_KV A ops) = SecureKV_Delete ops" "kv_List (SecureKV_KV A ops) = SecureKV_List ops"
  by (simp_all add: SecureKV_KV_def)

context kv
begin

lemma dom_sk_contents:
  "sk_inv A contents inv s \<Longrightarrow> dom (sk_contents A contents s) = dom (contents (sk_backend s))"
  by (fastforce simp: sk_inv_def sk_contents_def dom_def is_ok_iff split: option.splits sum.splits)

lemma secure_set:
  assumes "sk_inv A contents inv s" "admits k"
  shows "\<exists>s'. SecureKV_Set A ops k v s = Inr s' \<and> sk_inv A contents inv s' \<and>
           sk_contents A contents s' = (sk_contents A contents s)(k \<mapsto> v)"
proof -
  obtain nonce where n: "sk_rand s (sk_drawn s) = Some nonce" "length nonce = 12"
    using assms(1) unfolding sk_inv_def by blast
  obtain b where b: "kv_Set ops k (seal A nonce k v) (sk_backend s) = Inr b" "inv b"
      "contents b = (contents (sk_backend s))(k \<mapsto> seal A nonce k v)"
    using set_ok [of "sk_backend s" k "seal A nonce k v"] assms by (auto simp: sk_inv_def)
  have u: "unseal A k (seal A nonce k v) = Inr v" using assms(1) n by (simp add: sk_inv_def unseal_seal)
  let ?s = "s\<lparr>sk_backend := b, sk_drawn := sk_drawn s + 1\<rparr>"
  have "SecureKV_Set A ops k v s = Inr ?s" by (simp add: SecureKV_Set_def n b)
  moreover have "sk_inv A contents inv ?s" using assms(1) b u by (auto simp: sk_inv_def)
  moreover have "sk_contents A contents ?s = (sk_contents A contents s)(k \<mapsto> v)"
    by (auto simp: sk_contents_def b u fun_eq_iff)
  ultimately show ?thesis by blast
qed

lemma secure_delete:
  assumes "sk_inv A contents inv s" "admits k"
  shows "\<exists>s'. SecureKV_Delete ops k s = Inr s' \<and> sk_inv A contents inv s' \<and>
           sk_contents A contents s' = (sk_contents A contents s)(k := None)"
proof -
  obtain b where b: "kv_Delete ops k (sk_backend s) = Inr b" "inv b" "contents b = (contents (sk_backend s))(k := None)"
    using delete_ok [of "sk_backend s" k] assms by (auto simp: sk_inv_def)
  then show ?thesis using assms(1)
    by (auto simp: SecureKV_Delete_def sk_inv_def sk_contents_def fun_eq_iff)
qed

lemma secure_kv: "kv (SecureKV_KV A ops) (sk_contents A contents) (sk_inv A contents inv) admits"
proof
  fix s k v p
  assume s: "sk_inv A contents inv s"
  then have i: "inv (sk_backend s)" by (simp add: sk_inv_def)
  show "finite (dom (sk_contents A contents s))" using s i by (simp add: dom_sk_contents finite_contents)
  show "kv_List (SecureKV_KV A ops) p s = Inr (sorted_list_of_set {k \<in> dom (sk_contents A contents s). prefix p k})"
    using list_ok [OF i] by (simp add: SecureKV_List_def dom_sk_contents [OF s])
  show "k \<in> dom (sk_contents A contents s) \<Longrightarrow> admits k"
    using only_admitted [OF i] by (simp add: dom_sk_contents [OF s])
  assume k: "admits k"
  show "\<exists>s'. kv_Set (SecureKV_KV A ops) k v s = Inr s' \<and> sk_inv A contents inv s' \<and>
      sk_contents A contents s' = (sk_contents A contents s)(k \<mapsto> v)"
    using secure_set [OF s k] by simp
  show "\<exists>s'. kv_Delete (SecureKV_KV A ops) k s = Inr s' \<and> sk_inv A contents inv s' \<and>
      sk_contents A contents s' = (sk_contents A contents s)(k := None)"
    using secure_delete [OF s k] by simp
  have "is_ok (unseal A k sealed)" if "contents (sk_backend s) k = Some sealed" for sealed
    using s that by (simp add: sk_inv_def)
  then show "kv_Get (SecureKV_KV A ops) k s = (case sk_contents A contents s k of None \<Rightarrow> Inl ErrNotFound | Some v \<Rightarrow> Inr v)"
    using get [OF i k] by (auto simp: SecureKV_Get_def sk_contents_def is_ok_iff split: option.splits sum.splits)
qed

end

interpretation smem: kv "SecureKV_KV A Memory_KV" "sk_contents A mem_contents" "sk_inv A mem_contents mem_inv" "\<lambda>_. True"
  for A
  by (rule mem.secure_kv)

interpretation sfs: kv "SecureKV_KV A (FileStore_KV sha256)" "sk_contents A (fs_contents sha256)"
  "sk_inv A (fs_contents sha256) (fs_inv sha256 K)" "fs_admits sha256 K" for A sha256 K
  by (rule fs.secure_kv)

subsection \<open>Hex round trip\<close>

lemma hexVal_digit:
  assumes "n < 16"
  shows "hexVal (byte_of_char (hex_digit n)) = Some (of_nat n)"
proof -
  define m where "m = (if n < 10 then 48 + n else 87 + n)"
  define x where "x = (of_nat m :: byte)"
  have x: "byte_of_char (hex_digit n) = x"
    using assms by (simp add: x_def m_def byte_of_char_def hex_digit_def)
  have u: "unat x = m" using assms by (simp add: x_def m_def unat_byte_of_nat)
  have "n < 10 \<Longrightarrow> x - 0x30 = of_nat n" "\<not> n < 10 \<Longrightarrow> x - 0x61 + 10 = of_nat n"
    by (simp_all add: x_def m_def)
  then show ?thesis unfolding x using assms by (auto simp: hexVal_def word_le_nat_alt u m_def)
qed

lemma decodeHex_encode: "decodeHex (bytes_of_string (hex_encode bs)) = Inr bs"
proof (induction bs)
  case (Cons b bs)
  have d: "unat b div 16 < 16" "unat b mod 16 < 16" using byte_bound [of b] by (auto simp: less_mult_imp_div_less)
  have "(push_bit 4 (of_nat (unat b div 16)) OR of_nat (unat b mod 16)) = b"
  proof -
    have "of_nat (unat b div 16) = drop_bit 4 b" "of_nat (unat b mod 16) = take_bit 4 b"
      by (rule_tac [!] byte_of_nat_eq)
        (use d in \<open>simp_all add: drop_bit_eq_div unat_div_distrib take_bit_eq_mod unat_mod_distrib\<close>)
    moreover have "push_bit 4 (drop_bit 4 b) OR take_bit 4 b = b"
      by (rule bit_word_eqI) (auto simp: bit_simps)
    ultimately show ?thesis by simp
  qed
  then show ?case using Cons d by (simp add: hex_encode_def hex_byte_def hexVal_digit)
qed (simp add: hex_encode_def)

definition ascii_space :: "byte \<Rightarrow> bool" where
  "ascii_space b \<longleftrightarrow> b \<in> {0x09, 0x0A, 0x0B, 0x0C, 0x0D, 0x20}"

text \<open>A plain byte starts and ends no white space; an ASCII space is one.\<close>

lemma space_shape:
  assumes "ws = white_space \<or> ws = map rev white_space" "w \<in> set ws" "prefix w (b # s)" "b < 0x80"
  shows "w = [b] \<and> ascii_space b"
proof -
  have "list_all (\<lambda>w. w \<noteq> [] \<and> (0x80 \<le> hd w \<or> ascii_space (hd w) \<and> w = [hd w])) white_space"
    "list_all (\<lambda>w. w \<noteq> [] \<and> (0x80 \<le> hd w \<or> ascii_space (hd w) \<and> w = [hd w])) (map rev white_space)"
    by (simp_all add: white_space_def ascii_space_def)
  then have "w \<noteq> [] \<and> (0x80 \<le> hd w \<or> ascii_space (hd w) \<and> w = [hd w])"
    using assms(1,2) unfolding list_all_iff by metis
  moreover have "w \<noteq> [] \<Longrightarrow> hd w = b" using assms(3) by (cases w) auto
  ultimately show ?thesis using assms(4) by (auto simp: not_less [symmetric])
qed

lemma find_space_None:
  assumes "ws = white_space \<or> ws = map rev white_space" "\<not> ascii_space b" "b < 0x80"
  shows "find (\<lambda>w. prefix w (b # s)) ws = None"
  using space_shape [OF assms(1)] assms(2,3) by (auto simp: find_None_iff)

lemma find_space_Some:
  assumes "ws = white_space \<or> ws = map rev white_space" "ascii_space b"
  shows "find (\<lambda>w. prefix w (b # s)) ws = Some [b]"
proof -
  have b: "b < 0x80" "[b] \<in> set ws"
    using assms by (auto simp: ascii_space_def white_space_def)
  then have "find (\<lambda>w. prefix w (b # s)) ws \<noteq> None" by (auto simp: find_None_iff)
  then obtain w where w: "find (\<lambda>w. prefix w (b # s)) ws = Some w" by blast
  then have "w \<in> set ws" "prefix w (b # s)" by (auto simp: find_Some_iff)
  then show ?thesis using w space_shape [OF assms(1) _ _ b(1)] by blast
qed

lemma trim_left_spaces:
  assumes "ws = white_space \<or> ws = map rev white_space" "list_all ascii_space pre" "\<not> ascii_space b" "b < 0x80"
    "length pre \<le> n"
  shows "trim_left n ws (pre @ b # s) = b # s"
  using assms(2,5)
proof (induction pre arbitrary: n)
  case Nil
  then show ?case using find_space_None [OF assms(1,3,4)] by (cases n) simp_all
next
  case (Cons x pre)
  then obtain m where "n = Suc m" by (cases n) auto
  then show ?case using Cons find_space_Some [OF assms(1), of x "pre @ b # s"] by simp
qed

lemma TrimSpace_plain:
  assumes "list_all ascii_space pre" "list_all ascii_space post" "s \<noteq> []"
    and "\<And>b. b \<in> set s \<Longrightarrow> \<not> ascii_space b \<and> b < 0x80"
  shows "TrimSpace (pre @ s @ post) = s"
proof -
  obtain b s' where s: "s = b # s'" using assms(3) by (cases s) auto
  obtain t c where t: "s = t @ [c]" using assms(3) by (cases s rule: rev_cases) auto
  have "trim_left (length (pre @ s @ post)) white_space (pre @ s @ post) = s @ post"
    using trim_left_spaces [of white_space pre b "length (pre @ s @ post)" "s' @ post"] assms(1,4) s
    by (simp del: trim_left.simps)
  moreover have "trim_left (length (s @ post)) (map rev white_space) (rev (s @ post)) = rev s"
    using trim_left_spaces [of "map rev white_space" "rev post" c "length (s @ post)" "rev t"] assms(2,4) t
    by (simp add: list_all_rev del: trim_left.simps)
  ultimately show ?thesis by (simp only: TrimSpace_def Let_def rev_rev_ident)
qed

lemma hex_byte_plain:
  assumes "is_hex c"
  shows "\<not> ascii_space (byte_of_char c) \<and> byte_of_char c < 0x80"
proof -
  have "unat (byte_of_char c) = of_char c" by (rule unat_byte_of_char)
  then have "48 \<le> unat (byte_of_char c)" "unat (byte_of_char c) < 128"
    using assms by (auto simp: is_hex_def Let_def)
  then show ?thesis by (auto simp: ascii_space_def word_less_nat_alt)
qed

lemma length_hex_encode: "length (hex_encode bs) = 2 * length bs"
  by (induction bs) (simp_all add: hex_encode_def hex_byte_def)

subsection \<open>Properties\<close>

text \<open>
  C23 (refinement). Sealing keeps the store's contract: over the file store a value
  is read back in the clear, other keys are untouched, and the file of the key
  holds only the sealed record.
\<close>

theorem secure_filestore_set_get:
  assumes "sk_inv A (fs_contents sha256) (fs_inv sha256 K) s" "fs_admits sha256 K k" "fs_admits sha256 K k'"
  shows "\<exists>s' nonce. SecureKV_Set A (FileStore_KV sha256) k v s = Inr s' \<and>
    sk_inv A (fs_contents sha256) (fs_inv sha256 K) s' \<and>
    SecureKV_Get A (FileStore_KV sha256) k' s'
      = (if k' = k then Inr v else SecureKV_Get A (FileStore_KV sha256) k' s) \<and>
    fs_files (sk_backend s') (encodeKey sha256 k) = Some (seal A nonce k v)"
proof -
  obtain s' where s': "SecureKV_Set A (FileStore_KV sha256) k v s = Inr s'"
      "sk_inv A (fs_contents sha256) (fs_inv sha256 K) s'"
    using sfs.set_ok [OF assms(1,2), of v] by auto
  obtain nonce b where "FileStore_Set sha256 k (seal A nonce k v) (sk_backend s) = Inr b" "sk_backend s' = b"
    using s'(1) by (auto simp: SecureKV_Set_def and_then_eq_Inr split: option.splits)
  then have "fs_files (sk_backend s') (encodeKey sha256 k) = Some (seal A nonce k v)"
    using Set_files [OF assms(2,2)] by auto
  then show ?thesis using s' sfs.get_after_set [OF assms, of v s'] by auto
qed

definition sample_aead :: AEAD where
  "sample_aead = \<lparr>aead_Seal = (\<lambda>n p a. map (\<lambda>b. b XOR 0x5A) p @ [of_nat (length a)]),
     aead_Open = (\<lambda>n c a. if c \<noteq> [] \<and> last c = of_nat (length a) then Some (map (\<lambda>b. b XOR 0x5A) (butlast c)) else None)\<rparr>"

lemma sample_aead_ok: "aead_ok sample_aead"
  by (simp add: aead_ok_def sample_aead_def comp_def xor.assoc)

lemma secure_filestore_set_get_witness:
  "\<exists>s'. SecureKV_Set sample_aead (FileStore_KV sample_sha256) ''a'' [1, 2, 3]
      \<lparr>sk_backend = NewFileStore Map.empty, sk_rand = (\<lambda>n. Some (replicate 12 (of_nat n))), sk_drawn = 0\<rparr> = Inr s' \<and>
    SecureKV_Get sample_aead (FileStore_KV sample_sha256) ''a'' s' = Inr [1, 2, 3]"
proof -
  let ?s = "\<lparr>sk_backend = NewFileStore Map.empty, sk_rand = (\<lambda>n. Some (replicate 12 (of_nat n))), sk_drawn = 0\<rparr>"
  have "sk_inv sample_aead (fs_contents sample_sha256) (fs_inv sample_sha256 {''a'', ''b/c''}) ?s"
    by (simp add: sk_inv_def sample_aead_ok fs_inv_def NewFileStore_def fs_contents_def)
  from secure_filestore_set_get [OF this sample_admits sample_admits, of "''a''" "''a''" "[1, 2, 3]"]
  show ?thesis by auto
qed

text \<open>
  A 32-byte master key printed in hex is read back exactly,
  whatever ASCII white space surrounds it.
\<close>

theorem master_key_hex_roundtrip:
  assumes "length key = 32" "list_all ascii_space pre" "list_all ascii_space post"
  shows "MasterKeyFromHex (pre @ bytes_of_string (hex_encode key) @ post) = Inr key"
proof -
  let ?s = "bytes_of_string (hex_encode key)"
  have l: "length ?s = 64" using assms(1) by (simp add: length_hex_encode)
  then have "?s \<noteq> []" by (metis list.size(3) zero_neq_numeral)
  moreover have "\<not> ascii_space b \<and> b < 0x80" if "b \<in> set ?s" for b
    using that hex_encode_chars hex_byte_plain by (auto simp: bytes_of_string_def)
  ultimately have "TrimSpace (pre @ ?s @ post) = ?s" using assms(2,3) by (intro TrimSpace_plain)
  then show ?thesis using l by (simp add: MasterKeyFromHex_def decodeHex_encode)
qed

lemma master_key_hex_roundtrip_witness:
  "MasterKeyFromHex ([0x20] @ bytes_of_string (hex_encode (replicate 32 0xAB)) @ [0x0D, 0x0A]) = Inr (replicate 32 0xAB)"
  by (rule master_key_hex_roundtrip) (simp_all add: ascii_space_def)

end
