(* ===== verification/Delimited.thy ===== *)
theory Delimited
  imports Prelude
begin

text \<open>
  Self-delimiting encodings of numbers, texts and lists: concrete codecs for the places
  where the program hands a value to \<open>encoding/json\<close>, which the model takes as a
  parameter.
\<close>

definition unary :: "nat \<Rightarrow> bytes" where
  "unary n = replicate n 1 @ [0]"

definition read_unary :: "bytes \<Rightarrow> nat \<times> bytes" where
  "read_unary bs = (length (takeWhile (\<lambda>b. b = 1) bs), drop (Suc (length (takeWhile (\<lambda>b. b = 1) bs))) bs)"

lemma read_unary_unary: "read_unary (unary n @ r) = (n, r)"
  by (simp add: read_unary_def unary_def takeWhile_append)

definition enc_bytes :: "bytes \<Rightarrow> bytes" where
  "enc_bytes b = unary (length b) @ b"

definition dec_bytes :: "bytes \<Rightarrow> bytes \<times> bytes" where
  "dec_bytes b = (let (n, r) = read_unary b in (take n r, drop n r))"

lemma dec_enc_bytes: "dec_bytes (enc_bytes b @ r) = (b, r)"
  by (simp add: dec_bytes_def enc_bytes_def read_unary_unary)

definition enc_int :: "int \<Rightarrow> bytes" where
  "enc_int i = unary (nat i) @ unary (nat (- i))"

definition dec_int :: "bytes \<Rightarrow> int \<times> bytes" where
  "dec_int b = (let (p, b) = read_unary b; (n, b) = read_unary b in (int p - int n, b))"

lemma dec_enc_int [simp]: "dec_int (enc_int i @ r) = (i, r)"
  by (simp add: dec_int_def enc_int_def read_unary_unary)

definition enc_str :: "string \<Rightarrow> bytes" where
  "enc_str s = unary (length s) @ bytes_of_string s"

definition dec_str :: "bytes \<Rightarrow> string \<times> bytes" where
  "dec_str bs = (let (n, r) = read_unary bs in (string_of_bytes (take n r), drop n r))"

lemma dec_enc_str [simp]: "dec_str (enc_str s @ r) = (s, r)"
  by (simp add: dec_str_def enc_str_def read_unary_unary)

definition enc_many :: "('a \<Rightarrow> bytes) \<Rightarrow> 'a list \<Rightarrow> bytes" where
  "enc_many enc xs = unary (length xs) @ concat (map enc xs)"

primrec dec_times :: "nat \<Rightarrow> (bytes \<Rightarrow> 'a \<times> bytes) \<Rightarrow> bytes \<Rightarrow> 'a list \<times> bytes" where
  "dec_times 0 dec bs = ([], bs)"
| "dec_times (Suc n) dec bs = (let (x, bs) = dec bs; (xs, bs) = dec_times n dec bs in (x # xs, bs))"

definition dec_many :: "(bytes \<Rightarrow> 'a \<times> bytes) \<Rightarrow> bytes \<Rightarrow> 'a list \<times> bytes" where
  "dec_many dec bs = (let (n, r) = read_unary bs in dec_times n dec r)"

lemma dec_enc_many:
  assumes "\<And>x r. dec (enc x @ r) = (x, r)"
  shows "dec_many dec (enc_many enc xs @ r) = (xs, r)"
proof -
  have "dec_times (length xs) dec (concat (map enc xs) @ r) = (xs, r)"
    by (induction xs) (simp_all add: assms)
  then show ?thesis by (simp add: dec_many_def enc_many_def read_unary_unary)
qed

lemma dec_enc_many_end:
  assumes "\<And>x r. dec (enc x @ r) = (x, r)"
  shows "dec_many dec (enc_many enc xs) = (xs, [])"
  using dec_enc_many [of dec enc xs "[]", OF assms] by simp

lemmas dec_enc_strs = dec_enc_many [of dec_str enc_str, OF dec_enc_str] dec_enc_many_end [of dec_str enc_str, OF dec_enc_str]

end
