(* ===== verification/Sync.thy ===== *)
theory Sync
  imports SecureKV Delimited Node
begin

text \<open>
  The resumable synchronisation of \<^verbatim>\<open>sync/sync.go\<close>: stages fetched page by page,
  a checkpoint saved after each page through the storage contract, events on the
  bus. The store is any backend of the interface \<open>KV\<close>; a nil store is \<open>None\<close>, and
  using it is the panic the code runs into. The JSON encoding of a checkpoint, the
  fetchers and the clock are parameters. The page loop has fuel, since a server may
  hand out cursors for ever; with a chain of \<open>n\<close> pages a fuel of \<open>n\<close> is enough.
\<close>

subsection \<open>Checkpoints, pages, stages\<close>

record Checkpoint =
  cp_Stage :: string
  cp_Cursor :: string
  cp_Items :: u64
  cp_Complete :: bool
  cp_UpdatedAt :: int

record 'i Page =
  pg_Items :: "'i list"
  pg_Cursor :: string

record 'i Stage =
  st_Name :: string
  st_Fetch :: "string \<Rightarrow> string + 'i Page"

datatype sync_error =
    StoreError kv_error
  | ErrNoStore
  | BadCheckpoint string
  | FetchFailed string string
  | SyncPanic
  | SyncOutOfFuel

datatype sync_event = SyncStarted string "string list" | SyncFailed string string | SyncCompleted string

record ('s, 'i) Runner =
  r_Session :: string
  r_Store :: "'s KV option"
  r_Stages :: "'i Stage list"
  r_ForceRestart :: bool

text \<open>The JSON codec of checkpoints and the clock, whose \<open>n\<close>-th reading is \<open>sp_clock n\<close>.\<close>

record SyncParams =
  sp_marshal :: "Checkpoint \<Rightarrow> bytes"
  sp_unmarshal :: "bytes \<Rightarrow> string + Checkpoint"
  sp_clock :: "nat \<Rightarrow> int"

text \<open>
  A fetcher may keep what it fetched: \<open>ss_fetched\<close> are the items of every page a stage
  returned, in order.
\<close>

record ('s, 'i) SyncState =
  ss_store :: 's
  ss_events :: "sync_event list"
  ss_ticks :: nat
  ss_fetched :: "(string \<times> 'i list) list"

definition emit :: "sync_event \<Rightarrow> ('s, 'i) SyncState \<Rightarrow> ('s, 'i) SyncState" where
  "emit ev ss = ss\<lparr>ss_events := ss_events ss @ [ev]\<rparr>"

lemma emit_keeps [simp]: "ss_store (emit ev ss) = ss_store ss" "ss_fetched (emit ev ss) = ss_fetched ss"
  by (simp_all add: emit_def)

definition sync_prefix :: "('s, 'i) Runner \<Rightarrow> string" where
  "sync_prefix r = ''session/'' @ r_Session r @ ''/sync/''"

definition sync_key :: "('s, 'i) Runner \<Rightarrow> string \<Rightarrow> string" where
  "sync_key r stage = sync_prefix r @ stage"

definition fresh_checkpoint :: "string \<Rightarrow> Checkpoint" where
  "fresh_checkpoint stage =
     \<lparr>cp_Stage = stage, cp_Cursor = '''', cp_Items = 0, cp_Complete = False, cp_UpdatedAt = 0\<rparr>"

definition stageNames :: "('s, 'i) Runner \<Rightarrow> string list" where
  "stageNames r = map st_Name (r_Stages r)"

subsection \<open>Operations\<close>

definition LoadCheckpoint :: "SyncParams \<Rightarrow> ('s, 'i) Runner \<Rightarrow> string \<Rightarrow> ('s, 'i) SyncState \<Rightarrow> sync_error + Checkpoint" where
  "LoadCheckpoint P r stage ss =
     (case r_Store r of
        None \<Rightarrow> Inl ErrNoStore
      | Some ops \<Rightarrow>
          (case kv_Get ops (sync_key r stage) (ss_store ss) of
             Inl e \<Rightarrow> Inl (StoreError e)
           | Inr raw \<Rightarrow> (case sp_unmarshal P raw of Inl e \<Rightarrow> Inl (BadCheckpoint e) | Inr cp \<Rightarrow> Inr cp)))"

definition saveCheckpoint :: "SyncParams \<Rightarrow> ('s, 'i) Runner \<Rightarrow> Checkpoint \<Rightarrow> ('s, 'i) SyncState \<Rightarrow> sync_error + ('s, 'i) SyncState" where
  "saveCheckpoint P r cp ss =
     (let raw = sp_marshal P (cp\<lparr>cp_UpdatedAt := sp_clock P (ss_ticks ss)\<rparr>)
      in case r_Store r of
           None \<Rightarrow> Inl SyncPanic
         | Some ops \<Rightarrow>
             (case kv_Set ops (sync_key r (cp_Stage cp)) raw (ss_store ss) of
                Inl e \<Rightarrow> Inl (StoreError e)
              | Inr s \<Rightarrow> Inr (ss\<lparr>ss_store := s, ss_ticks := ss_ticks ss + 1\<rparr>)))"

definition sync_fail :: "('s, 'i) Runner \<Rightarrow> string \<Rightarrow> ('s, 'i) SyncState \<Rightarrow> ('s, 'i) SyncState" where
  "sync_fail r stage = emit (SyncFailed (r_Session r) stage)"

text \<open>The inner \<open>for\<close> of \<open>Run\<close>; the save that marks completion returns its error without an event.\<close>

fun run_pages :: "nat \<Rightarrow> SyncParams \<Rightarrow> ('s, 'i) Runner \<Rightarrow> 'i Stage \<Rightarrow> Checkpoint \<Rightarrow> string \<Rightarrow> ('s, 'i) SyncState
    \<Rightarrow> ('s, 'i) SyncState \<times> (sync_error + unit)" where
  "run_pages 0 P r st cp cursor ss = (ss, Inl SyncOutOfFuel)"
| "run_pages (Suc fuel) P r st cp cursor ss =
     (case st_Fetch st cursor of
        Inl e \<Rightarrow> (sync_fail r (st_Name st) ss, Inl (FetchFailed (st_Name st) e))
      | Inr page \<Rightarrow>
          let ss = ss\<lparr>ss_fetched := ss_fetched ss @ [(st_Name st, pg_Items page)]\<rparr>;
              cp = cp\<lparr>cp_Items := cp_Items cp + of_nat (length (pg_Items page)), cp_Cursor := pg_Cursor page\<rparr>
          in case saveCheckpoint P r cp ss of
               Inl e \<Rightarrow> (sync_fail r (st_Name st) ss, Inl e)
             | Inr ss \<Rightarrow>
                 if pg_Cursor page = '''' then
                   (case saveCheckpoint P r (cp\<lparr>cp_Complete := True, cp_Cursor := ''''\<rparr>) ss of
                      Inl e \<Rightarrow> (ss, Inl e)
                    | Inr ss \<Rightarrow> (ss, Inr ()))
                 else run_pages fuel P r st cp (pg_Cursor page) ss)"

text \<open>The \<open>switch\<close> that picks the checkpoint to start from; \<open>None\<close> skips the stage.\<close>

definition start_checkpoint :: "SyncParams \<Rightarrow> ('s, 'i) Runner \<Rightarrow> 'i Stage \<Rightarrow> ('s, 'i) SyncState \<Rightarrow> sync_error + Checkpoint option" where
  "start_checkpoint P r st ss =
     (let loaded = LoadCheckpoint P r (st_Name st) ss
      in if r_ForceRestart r then Inr (Some (fresh_checkpoint (st_Name st)))
         else if loaded = Inl (StoreError ErrNotFound) then Inr (Some (fresh_checkpoint (st_Name st)))
         else case loaded of
             Inl e \<Rightarrow> Inl e
           | Inr cp \<Rightarrow> if cp_Complete cp then Inr None else Inr (Some cp))"

fun run_stages :: "nat \<Rightarrow> SyncParams \<Rightarrow> ('s, 'i) Runner \<Rightarrow> 'i Stage list \<Rightarrow> ('s, 'i) SyncState
    \<Rightarrow> ('s, 'i) SyncState \<times> (sync_error + unit)" where
  "run_stages fuel P r [] ss = (ss, Inr ())"
| "run_stages fuel P r (st # sts) ss =
     (case start_checkpoint P r st ss of
        Inl e \<Rightarrow> (sync_fail r (st_Name st) ss, Inl e)
      | Inr None \<Rightarrow> run_stages fuel P r sts ss
      | Inr (Some cp) \<Rightarrow>
          (case run_pages fuel P r st cp (cp_Cursor cp) ss of
             (ss, Inl e) \<Rightarrow> (ss, Inl e)
           | (ss, Inr _) \<Rightarrow> run_stages fuel P r sts ss))"

definition Run :: "nat \<Rightarrow> SyncParams \<Rightarrow> ('s, 'i) Runner \<Rightarrow> ('s, 'i) SyncState \<Rightarrow> ('s, 'i) SyncState \<times> (sync_error + unit)" where
  "Run fuel P r ss =
     (case run_stages fuel P r (r_Stages r) (emit (SyncStarted (r_Session r) (stageNames r)) ss) of
        (ss, Inl e) \<Rightarrow> (ss, Inl e)
      | (ss, Inr _) \<Rightarrow> (emit (SyncCompleted (r_Session r)) ss, Inr ()))"

fun delete_keys_loop :: "'s KV \<Rightarrow> string list \<Rightarrow> 's \<Rightarrow> 's \<times> (kv_error + unit)" where
  "delete_keys_loop ops [] s = (s, Inr ())"
| "delete_keys_loop ops (k # ks) s =
     (case kv_Delete ops k s of Inl e \<Rightarrow> (s, Inl e) | Inr s \<Rightarrow> delete_keys_loop ops ks s)"

definition Reset :: "('s, 'i) Runner \<Rightarrow> ('s, 'i) SyncState \<Rightarrow> ('s, 'i) SyncState \<times> (sync_error + unit)" where
  "Reset r ss =
     (case r_Store r of
        None \<Rightarrow> (ss, Inl SyncPanic)
      | Some ops \<Rightarrow>
          (case kv_List ops (sync_prefix r) (ss_store ss) of
             Inl e \<Rightarrow> (ss, Inl (StoreError e))
           | Inr keys \<Rightarrow>
               (case delete_keys_loop ops keys (ss_store ss) of
                  (s, Inl e) \<Rightarrow> (ss\<lparr>ss_store := s\<rparr>, Inl (StoreError e))
                | (s, Inr _) \<Rightarrow> (ss\<lparr>ss_store := s\<rparr>, Inr ()))))"

definition Progress :: "SyncParams \<Rightarrow> ('s, 'i) Runner \<Rightarrow> ('s, 'i) SyncState \<Rightarrow> Checkpoint list option" where
  "Progress P r ss =
     (case r_Store r of
        None \<Rightarrow> None
      | Some ops \<Rightarrow>
          (case kv_List ops (sync_prefix r) (ss_store ss) of
             Inl e \<Rightarrow> Some []
           | Inr keys \<Rightarrow>
               Some (List.map_filter (\<lambda>k.
                 case kv_Get ops k (ss_store ss) of
                   Inl e \<Rightarrow> None
                 | Inr raw \<Rightarrow> (case sp_unmarshal P raw of Inl e \<Rightarrow> None | Inr cp \<Rightarrow> Some cp)) keys)))"

subsection \<open>Chains of pages\<close>

text \<open>The pages a fetcher serves from a cursor until it reports the end, with texts as cursors.\<close>

inductive pages :: "(string \<Rightarrow> string + 'i Page) \<Rightarrow> string \<Rightarrow> 'i Page list \<Rightarrow> bool" for fetch where
  pages_end: "fetch c = Inr p \<Longrightarrow> pg_Cursor p = '''' \<Longrightarrow> pages fetch c [p]"
| pages_step: "fetch c = Inr p \<Longrightarrow> pg_Cursor p \<noteq> '''' \<Longrightarrow> utf8 (pg_Cursor p) \<Longrightarrow> pages fetch (pg_Cursor p) ps \<Longrightarrow> pages fetch c (p # ps)"

inductive_cases pages_ConsE: "pages fetch c (p # ps)"
inductive_cases pages_NilE: "pages fetch c []"

definition item_count :: "'i Page list \<Rightarrow> u64" where
  "item_count ps = of_nat (\<Sum>p\<leftarrow>ps. length (pg_Items p))"

lemma item_count_simps [simp]:
  "item_count [] = 0" "item_count (p # ps) = of_nat (length (pg_Items p)) + item_count ps"
  by (simp_all add: item_count_def)

subsection \<open>Running over any backend\<close>

text \<open>
  \<open>encoding/json\<close> returns the checkpoint it encoded when its texts are valid UTF-8 and its
  date has a year from 1 to 9999 (in nanoseconds of the epoch); the clock reads such dates.
\<close>

definition json_time :: "int \<Rightarrow> bool" where
  "json_time t \<longleftrightarrow> -62135596800 * 10 ^ 9 \<le> t \<and> t < 253402300800 * 10 ^ 9"

definition cp_text :: "Checkpoint \<Rightarrow> bool" where
  "cp_text cp \<longleftrightarrow> utf8 (cp_Stage cp) \<and> utf8 (cp_Cursor cp) \<and> json_time (cp_UpdatedAt cp)"

definition json_ok :: "SyncParams \<Rightarrow> bool" where
  "json_ok P \<longleftrightarrow> (\<forall>cp. cp_text cp \<longrightarrow> sp_unmarshal P (sp_marshal P cp) = Inr cp) \<and> (\<forall>n. json_time (sp_clock P n))"

text \<open>
  What the store holds for a stage at any moment between two fetches, when the pages
  \<open>rest\<close> are still to come: nothing yet, a position from which they complete the total, or
  the completed stage.
\<close>

definition sync_pos :: "SyncParams \<Rightarrow> (string \<Rightarrow> string + 'i Page) \<Rightarrow> string \<Rightarrow> 'i Page list \<Rightarrow> u64 \<Rightarrow> bytes option \<Rightarrow> bool" where
  "sync_pos P fetch name rest tot raw \<longleftrightarrow>
     (case raw of
        None \<Rightarrow> pages fetch '''' rest \<and> item_count rest = tot
      | Some b \<Rightarrow> \<exists>cp. b = sp_marshal P cp \<and> cp_text cp \<and> cp_Stage cp = name \<and>
          (if cp_Complete cp then rest = [] \<and> cp_Cursor cp = '''' \<and> cp_Items cp = tot
           else pages fetch (cp_Cursor cp) rest \<and> cp_Items cp + item_count rest = tot))"

lemma sync_pos_done:
  assumes "sync_pos P fetch name [] tot raw"
  shows "\<exists>cp. raw = Some (sp_marshal P cp) \<and> cp_text cp \<and> cp_Stage cp = name \<and> cp_Complete cp \<and> cp_Cursor cp = '''' \<and> cp_Items cp = tot"
  using assms by (auto simp: sync_pos_def elim: pages_NilE split: option.splits if_splits)

definition page_items :: "string \<Rightarrow> 'i Page list \<Rightarrow> (string \<times> 'i list) list" where
  "page_items name ps = map (\<lambda>p. (name, pg_Items p)) ps"

text \<open>\<open>flaky\<close> serves what \<open>fetch\<close> serves, except where it fails.\<close>

definition agrees :: "(string \<Rightarrow> string + 'i Page) \<Rightarrow> (string \<Rightarrow> string + 'i Page) \<Rightarrow> bool" where
  "agrees flaky fetch \<longleftrightarrow> (\<forall>c. flaky c = fetch c \<or> \<not> is_ok (flaky c))"

text \<open>From a state where \<open>ps\<close> were to come, one where \<open>rest\<close> are, with the pages in between fetched.\<close>

definition progressed :: "SyncParams \<Rightarrow> ('s, 'i) Runner \<Rightarrow> ('s \<Rightarrow> string \<rightharpoonup> bytes) \<Rightarrow> ('s \<Rightarrow> bool) \<Rightarrow> 'i Stage \<Rightarrow>
    (string \<Rightarrow> string + 'i Page) \<Rightarrow> u64 \<Rightarrow> 'i Page list \<Rightarrow> ('s, 'i) SyncState \<Rightarrow> ('s, 'i) SyncState \<times> (sync_error + unit) \<Rightarrow> bool" where
  "progressed P r contents I st fetch tot ps ss out \<longleftrightarrow>
     (\<exists>ss' res qs rest. out = (ss', res) \<and> ps = qs @ rest \<and> I (ss_store ss') \<and>
        ss_fetched ss' = ss_fetched ss @ page_items (st_Name st) qs \<and>
        (\<forall>k. k \<noteq> sync_key r (st_Name st) \<longrightarrow> contents (ss_store ss') k = contents (ss_store ss) k) \<and>
        sync_pos P fetch (st_Name st) rest tot (contents (ss_store ss') (sync_key r (st_Name st))) \<and>
        (res = Inr () \<and> rest = [] \<or> st_Fetch st \<noteq> fetch \<and> \<not> is_ok res))"

lemma progressed_iff:
  "progressed P r contents I st fetch tot ps ss (ss', res) \<longleftrightarrow>
     (\<exists>qs rest. ps = qs @ rest \<and> I (ss_store ss') \<and> ss_fetched ss' = ss_fetched ss @ page_items (st_Name st) qs \<and>
        (\<forall>k. k \<noteq> sync_key r (st_Name st) \<longrightarrow> contents (ss_store ss') k = contents (ss_store ss) k) \<and>
        sync_pos P fetch (st_Name st) rest tot (contents (ss_store ss') (sync_key r (st_Name st))) \<and>
        (res = Inr () \<and> rest = [] \<or> st_Fetch st \<noteq> fetch \<and> \<not> is_ok res))"
  by (simp add: progressed_def)

context kv
begin

lemma save_ok:
  assumes "inv (ss_store ss)" "r_Store r = Some ops" "admits (sync_key r (cp_Stage cp))"
  shows "\<exists>ss' t. saveCheckpoint P r cp ss = Inr ss' \<and> inv (ss_store ss') \<and> ss_events ss' = ss_events ss \<and>
    ss_fetched ss' = ss_fetched ss \<and> (json_ok P \<longrightarrow> json_time t) \<and>
    contents (ss_store ss') = (contents (ss_store ss))(sync_key r (cp_Stage cp) \<mapsto> sp_marshal P (cp\<lparr>cp_UpdatedAt := t\<rparr>))"
proof -
  let ?t = "sp_clock P (ss_ticks ss)"
  obtain s' where "kv_Set ops (sync_key r (cp_Stage cp)) (sp_marshal P (cp\<lparr>cp_UpdatedAt := ?t\<rparr>)) (ss_store ss) = Inr s'" "inv s'"
    "contents s' = (contents (ss_store ss))(sync_key r (cp_Stage cp) \<mapsto> sp_marshal P (cp\<lparr>cp_UpdatedAt := ?t\<rparr>))"
    using set_ok [OF assms(1,3)] by blast
  then show ?thesis
    using assms(2) by (intro exI [of _ "ss\<lparr>ss_store := s', ss_ticks := ss_ticks ss + 1\<rparr>"] exI [of _ ?t]) (simp add: saveCheckpoint_def json_ok_def)
qed

lemma run_pages_pos:
  assumes "pages fetch c ps" "length ps \<le> fuel" "agrees (st_Fetch st) fetch" "r_Store r = Some ops"
    and "inv (ss_store ss)" "admits (sync_key r (st_Name st))" "json_ok P" "utf8 (st_Name st)"
    and "cp_Stage cp = st_Name st" "\<not> cp_Complete cp" "cp_Items cp + item_count ps = tot"
    and "sync_pos P fetch (st_Name st) ps tot (contents (ss_store ss) (sync_key r (st_Name st)))"
  shows "progressed P r contents inv st fetch tot ps ss (run_pages fuel P r st cp c ss)"
  using assms
proof (induction fuel arbitrary: c ps cp ss)
  case 0
  then show ?case by (auto elim: pages_NilE)
next
  case (Suc fuel)
  let ?k = "sync_key r (st_Name st)"
  obtain p ps' where ps: "ps = p # ps'" using Suc.prems(1) by (cases ps) (auto elim: pages_NilE)
  have fp: "fetch c = Inr p" using Suc.prems(1) by (auto simp: ps elim: pages_ConsE)
  show ?case
  proof (cases "st_Fetch st c")
    case (Inl e)
    then have "st_Fetch st \<noteq> fetch" using fp by auto
    then show ?thesis using Inl Suc.prems
      unfolding progressed_def by (intro exI [of _ "sync_fail r (st_Name st) ss"] exI [of _ "Inl (FetchFailed (st_Name st) e)"] exI [of _ "[]"] exI [of _ ps])
        (simp add: sync_fail_def emit_def page_items_def)
  next
    case (Inr q)
    then have q: "q = p" using Suc.prems(3) fp by (metis agrees_def is_ok_simps(1) sum.inject(2))
    let ?ss = "ss\<lparr>ss_fetched := ss_fetched ss @ [(st_Name st, pg_Items p)]\<rparr>"
    let ?cp = "cp\<lparr>cp_Items := cp_Items cp + of_nat (length (pg_Items p)), cp_Cursor := pg_Cursor p\<rparr>"
    obtain ss1 t where s1: "saveCheckpoint P r ?cp ?ss = Inr ss1" "inv (ss_store ss1)" "json_time t"
      "ss_fetched ss1 = ss_fetched ss @ [(st_Name st, pg_Items p)]"
      "contents (ss_store ss1) = (contents (ss_store ss))(?k \<mapsto> sp_marshal P (?cp\<lparr>cp_UpdatedAt := t\<rparr>))"
      using save_ok [of ?ss r ?cp P] Suc.prems by auto
    show ?thesis
    proof (cases "pg_Cursor p = ''''")
      case True
      then have [simp]: "ps' = []" using Suc.prems(1) by (auto simp: ps elim!: pages_ConsE)
      let ?cp' = "?cp\<lparr>cp_Complete := True, cp_Cursor := ''''\<rparr>"
      obtain ss2 u where s2: "saveCheckpoint P r ?cp' ss1 = Inr ss2" "inv (ss_store ss2)" "json_time u" "ss_fetched ss2 = ss_fetched ss1"
        "contents (ss_store ss2) = (contents (ss_store ss1))(?k \<mapsto> sp_marshal P (?cp'\<lparr>cp_UpdatedAt := u\<rparr>))"
        using save_ok [of ss1 r ?cp' P] Suc.prems s1 by auto
      have "sync_pos P fetch (st_Name st) [] tot (contents (ss_store ss2) ?k)"
        unfolding sync_pos_def s2(5) using Suc.prems s2(3)
        by (auto simp: ps cp_text_def utf8_def intro!: exI [of _ "?cp'\<lparr>cp_UpdatedAt := u\<rparr>"])
      moreover have "run_pages (Suc fuel) P r st cp c ss = (ss2, Inr ())" using True s1 s2 by (simp add: Inr q Let_def)
      ultimately show ?thesis
        unfolding progressed_def using s1 s2 by (intro exI [of _ ss2] exI [of _ "Inr ()"] exI [of _ ps] exI [of _ "[]"]) (simp add: ps page_items_def)
    next
      case False
      then have rest: "pages fetch (pg_Cursor p) ps'" "utf8 (pg_Cursor p)"
        using Suc.prems(1) fp by (auto simp: ps elim!: pages_ConsE)
      have "sync_pos P fetch (st_Name st) ps' tot (contents (ss_store ss1) ?k)"
        unfolding sync_pos_def s1(5) using Suc.prems rest s1(3)
        by (auto simp: ps add.assoc cp_text_def intro!: exI [of _ "?cp\<lparr>cp_UpdatedAt := t\<rparr>"])
      from Suc.IH [OF rest(1) _ Suc.prems(3,4) s1(2) Suc.prems(6-8) _ _ _ this, of ?cp] Suc.prems
      have "progressed P r contents inv st fetch tot ps' ss1 (run_pages fuel P r st ?cp (pg_Cursor p) ss1)"
        by (simp add: ps add.assoc)
      then obtain ss' res qs rest where "run_pages fuel P r st ?cp (pg_Cursor p) ss1 = (ss', res)" "ps' = qs @ rest" "inv (ss_store ss')"
        "ss_fetched ss' = ss_fetched ss1 @ page_items (st_Name st) qs"
        "\<forall>k. k \<noteq> ?k \<longrightarrow> contents (ss_store ss') k = contents (ss_store ss1) k"
        "sync_pos P fetch (st_Name st) rest tot (contents (ss_store ss') ?k)"
        "res = Inr () \<and> rest = [] \<or> st_Fetch st \<noteq> fetch \<and> \<not> is_ok res"
        unfolding progressed_def by blast
      moreover have "run_pages (Suc fuel) P r st cp c ss = run_pages fuel P r st ?cp (pg_Cursor p) ss1"
        using False s1 by (simp add: Inr q Let_def)
      ultimately show ?thesis
        unfolding progressed_def using s1 by (intro exI [of _ ss'] exI [of _ res] exI [of _ "p # qs"] exI [of _ rest]) (simp add: ps page_items_def)
    qed
  qed
qed

lemma load_contents:
  assumes "inv (ss_store ss)" "r_Store r = Some ops" "admits (sync_key r stage)" "json_ok P"
    and "contents (ss_store ss) (sync_key r stage) = None \<or>
      (\<exists>cp. cp_text cp \<and> contents (ss_store ss) (sync_key r stage) = Some (sp_marshal P cp))"
  shows "LoadCheckpoint P r stage ss =
    (case contents (ss_store ss) (sync_key r stage) of
       None \<Rightarrow> Inl (StoreError ErrNotFound)
     | Some raw \<Rightarrow> (case sp_unmarshal P raw of Inl e \<Rightarrow> Inl (BadCheckpoint e) | Inr cp \<Rightarrow> Inr cp))"
  using assms get [OF assms(1,3)] by (auto simp: LoadCheckpoint_def json_ok_def)

text \<open>One stage: from any of its positions a run keeps to them, and completes if the fetcher never fails.\<close>

lemma run_stage_pos:
  assumes "agrees (st_Fetch st) fetch" "r_Store r = Some ops" "inv (ss_store ss)" "admits (sync_key r (st_Name st))"
    and "json_ok P" "utf8 (st_Name st)" "\<not> r_ForceRestart r" "length ps \<le> fuel"
    and "sync_pos P fetch (st_Name st) ps tot (contents (ss_store ss) (sync_key r (st_Name st)))"
  shows "progressed P r contents inv st fetch tot ps ss (run_stages fuel P r [st] ss)"
proof -
  let ?raw = "contents (ss_store ss) (sync_key r (st_Name st))"
  have "?raw = None \<or> (\<exists>cp. cp_text cp \<and> ?raw = Some (sp_marshal P cp))"
    using assms(9) by (auto simp: sync_pos_def split: option.splits)
  from load_contents [OF assms(3,2,4,5) this]
  have load: "LoadCheckpoint P r (st_Name st) ss = (case ?raw of None \<Rightarrow> Inl (StoreError ErrNotFound)
      | Some raw \<Rightarrow> (case sp_unmarshal P raw of Inl e \<Rightarrow> Inl (BadCheckpoint e) | Inr cp \<Rightarrow> Inr cp))" .
  consider (start) cp where "start_checkpoint P r st ss = Inr (Some cp)" "cp_Stage cp = st_Name st" "\<not> cp_Complete cp"
      "pages fetch (cp_Cursor cp) ps" "cp_Items cp + item_count ps = tot"
    | (complete) "start_checkpoint P r st ss = Inr None" "ps = []"
  proof (cases ?raw)
    case None
    then show thesis using start [of "fresh_checkpoint (st_Name st)"] assms(7,9)
      by (simp add: sync_pos_def start_checkpoint_def load fresh_checkpoint_def)
  next
    case (Some b)
    then obtain cp where cp: "b = sp_marshal P cp" "cp_text cp" "cp_Stage cp = st_Name st"
      "if cp_Complete cp then ps = [] \<and> cp_Cursor cp = '''' \<and> cp_Items cp = tot
       else pages fetch (cp_Cursor cp) ps \<and> cp_Items cp + item_count ps = tot"
      using assms(9) by (auto simp: sync_pos_def)
    have "start_checkpoint P r st ss = Inr (if cp_Complete cp then None else Some cp)"
      using assms(5,7) Some cp(1,2) by (simp add: start_checkpoint_def load json_ok_def Let_def)
    then show thesis using start [of cp] complete cp Some by (cases "cp_Complete cp") auto
  qed
  then show ?thesis
  proof cases
    case start
    have "run_stages fuel P r [st] ss = run_pages fuel P r st cp (cp_Cursor cp) ss"
      using start(1) by (simp split: prod.split sum.split)
    then show ?thesis using run_pages_pos [OF start(4) assms(8,1-6) start(2,3,5) assms(9)] by simp
  next
    case complete
    then show ?thesis using assms(3,9)
      unfolding progressed_def by (intro exI [of _ ss] exI [of _ "Inr ()"] exI [of _ "[]"]) (simp add: page_items_def)
  qed
qed

lemma Run_stage_pos:
  assumes "agrees (st_Fetch st) fetch" "r_Store r = Some ops" "inv (ss_store ss)" "admits (sync_key r (st_Name st))"
    and "json_ok P" "utf8 (st_Name st)" "\<not> r_ForceRestart r" "length ps \<le> fuel" "r_Stages r = [st]"
    and "sync_pos P fetch (st_Name st) ps tot (contents (ss_store ss) (sync_key r (st_Name st)))"
  shows "progressed P r contents inv st fetch tot ps ss (Run fuel P r ss)"
proof -
  let ?ss = "emit (SyncStarted (r_Session r) (stageNames r)) ss"
  have "progressed P r contents inv st fetch tot ps ?ss (run_stages fuel P r [st] ?ss)"
    using run_stage_pos [OF assms(1,2) _ assms(4-8), of ?ss tot] assms(3,10) by simp
  moreover obtain s' res where run: "run_stages fuel P r [st] ?ss = (s', res)" by fastforce
  moreover have "Run fuel P r ss = (if is_ok res then (emit (SyncCompleted (r_Session r)) s', Inr ()) else (s', res))"
    unfolding Run_def assms(9) run by (cases res) simp_all
  ultimately show ?thesis by (auto simp: progressed_iff simp del: run_stages.simps)
qed

lemma Reset_ok:
  assumes "inv (ss_store ss)" "r_Store r = Some ops"
  shows "\<exists>ss'. Reset r ss = (ss', Inr ()) \<and> inv (ss_store ss') \<and>
    contents (ss_store ss') = contents (ss_store ss) |` {k. \<not> prefix (sync_prefix r) k}"
proof -
  have loop: "\<exists>s'. delete_keys_loop ops ks s = (s', Inr ()) \<and> inv s' \<and> contents s' = contents s |` (- set ks)"
    if "inv s" "\<And>k. k \<in> set ks \<Longrightarrow> admits k" for ks s
    using that
  proof (induction ks arbitrary: s)
    case Nil
    then show ?case by (simp add: restrict_map_def)
  next
    case (Cons k ks)
    obtain s1 where s1: "kv_Delete ops k s = Inr s1" "inv s1" "contents s1 = (contents s)(k := None)"
      using delete_ok [of s k] Cons.prems by auto
    obtain s' where "delete_keys_loop ops ks s1 = (s', Inr ())" "inv s'" "contents s' = contents s1 |` (- set ks)"
      using Cons.IH [OF s1(2)] Cons.prems by auto
    then show ?case using s1 by (auto simp: restrict_map_def fun_eq_iff)
  qed
  let ?s = "ss_store ss" and ?p = "sync_prefix r"
  obtain ks where ks: "kv_List ops ?p ?s = Inr ks" using list_ok [OF assms(1)] by blast
  have k: "set ks = {k. prefix ?p k \<and> contents ?s k \<noteq> None}" using list_exact [OF assms(1) ks] by blast
  then have "\<And>k. k \<in> set ks \<Longrightarrow> admits k" using only_admitted [OF assms(1)] by auto
  from loop [OF assms(1) this] obtain s' where s': "delete_keys_loop ops ks ?s = (s', Inr ())" "inv s'"
    "contents s' = contents ?s |` (- set ks)" by blast
  moreover have "contents ?s |` (- set ks) = contents ?s |` {k. \<not> prefix ?p k}"
    by (auto simp: restrict_map_def k fun_eq_iff)
  ultimately show ?thesis using assms(2) ks by (simp add: Reset_def)
qed

end

subsection \<open>Properties\<close>

text \<open>
  C13 (functional). An interrupted synchronisation loses no page and repeats none:
  over any backend that keeps the storage contract, run a stage with a fetcher that
  may fail at any point, then run it again with the working one. The second run
  succeeds, the two runs together have fetched exactly the pages of the stage in
  order, and the checkpoint is complete with the number of their items.
\<close>

theorem sync_resume:
  fixes ops :: "'s KV"
  assumes "kv ops contents I admits" "json_ok P" "utf8 name"
    and "pages fetch '''' ps" "length ps \<le> fuel" "agrees flaky fetch"
    and "I (ss_store ss)" "contents (ss_store ss) (sync_key r name) = None" "admits (sync_key r name)"
    and "r_Store r = Some ops" "\<not> r_ForceRestart r" "ss_fetched ss = []"
    and "(ss1, res1) = Run fuel P (r\<lparr>r_Stages := [\<lparr>st_Name = name, st_Fetch = flaky\<rparr>]\<rparr>) ss"
    and "(ss2, res2) = Run fuel P (r\<lparr>r_Stages := [\<lparr>st_Name = name, st_Fetch = fetch\<rparr>]\<rparr>) ss1"
  shows "res2 = Inr () \<and> ss_fetched ss2 = map (\<lambda>p. (name, pg_Items p)) ps \<and>
    (\<exists>cp. LoadCheckpoint P r name ss2 = Inr cp \<and> cp_Stage cp = name \<and> cp_Complete cp \<and> cp_Cursor cp = '''' \<and>
       cp_Items cp = item_count ps)"
proof -
  let ?r = "\<lambda>f. r\<lparr>r_Stages := [\<lparr>st_Name = name, st_Fetch = f\<rparr>]\<rparr>"
  have key: "sync_key (?r f) = sync_key r" for f
    by (simp add: sync_key_def sync_prefix_def fun_eq_iff)
  have "sync_pos P fetch name ps (item_count ps) (contents (ss_store ss) (sync_key r name))"
    using assms(4,8) by (simp add: sync_pos_def)
  then have "progressed P (?r flaky) contents I \<lparr>st_Name = name, st_Fetch = flaky\<rparr> fetch (item_count ps) ps ss (Run fuel P (?r flaky) ss)"
    using assms by (intro kv.Run_stage_pos [OF assms(1)]) (simp_all add: key)
  then obtain qs rest where 1: "ps = qs @ rest" "I (ss_store ss1)" "ss_fetched ss1 = page_items name qs"
    "sync_pos P fetch name rest (item_count ps) (contents (ss_store ss1) (sync_key r name))"
    unfolding assms(13) [symmetric] progressed_iff using assms(12) by (force simp: key)
  then have "progressed P (?r fetch) contents I \<lparr>st_Name = name, st_Fetch = fetch\<rparr> fetch (item_count ps) rest ss1 (Run fuel P (?r fetch) ss1)"
    using assms by (intro kv.Run_stage_pos [OF assms(1)]) (simp_all add: key agrees_def)
  then have 2: "I (ss_store ss2)" "res2 = Inr ()" "ss_fetched ss2 = page_items name ps"
    "sync_pos P fetch name [] (item_count ps) (contents (ss_store ss2) (sync_key r name))"
    unfolding assms(14) [symmetric] progressed_iff using 1(1,3) by (auto simp: key page_items_def)
  obtain cp where cp: "contents (ss_store ss2) (sync_key r name) = Some (sp_marshal P cp)" "cp_text cp" "cp_Stage cp = name"
    "cp_Complete cp" "cp_Cursor cp = ''''" "cp_Items cp = item_count ps"
    using sync_pos_done [OF 2(4)] by blast
  have "LoadCheckpoint P r name ss2 = Inr cp"
    using kv.load_contents [OF assms(1) 2(1) assms(10,9,2)] cp(1,2) assms(2) by (auto simp: json_ok_def)
  then show ?thesis using 2(2,3) cp by (simp add: page_items_def)
qed

text \<open>A small encoding of checkpoints, numbers in unary, to instantiate the parameters with.\<close>

definition sample_marshal :: "Checkpoint \<Rightarrow> bytes" where
  "sample_marshal cp =
     unary (length (cp_Stage cp)) @ bytes_of_string (cp_Stage cp) @
     unary (length (cp_Cursor cp)) @ bytes_of_string (cp_Cursor cp) @
     unary (unat (cp_Items cp)) @ unary (if cp_Complete cp then 1 else 0) @
     unary (nat (cp_UpdatedAt cp)) @ unary (nat (- cp_UpdatedAt cp))"

definition sample_unmarshal :: "bytes \<Rightarrow> string + Checkpoint" where
  "sample_unmarshal b =
     (let (n, b) = read_unary b; stage = string_of_bytes (take n b);
          (m, b) = read_unary (drop n b); cursor = string_of_bytes (take m b);
          (items, b) = read_unary (drop m b); (complete, b) = read_unary b;
          (up, b) = read_unary b; (down, b) = read_unary b
      in Inr \<lparr>cp_Stage = stage, cp_Cursor = cursor, cp_Items = of_nat items, cp_Complete = (complete = 1),
             cp_UpdatedAt = int up - int down\<rparr>)"

definition sample_params :: SyncParams where
  "sample_params = \<lparr>sp_marshal = sample_marshal, sp_unmarshal = sample_unmarshal, sp_clock = (\<lambda>n. min (int n) 1000)\<rparr>"

lemma sample_json: "json_ok sample_params"
proof -
  have "sample_unmarshal (sample_marshal cp) = Inr cp" for cp
    using read_unary_unary [of "nat (- cp_UpdatedAt cp)" "[]"]
    by (cases cp) (simp add: sample_unmarshal_def sample_marshal_def read_unary_unary Let_def)
  then show ?thesis by (simp add: json_ok_def sample_params_def json_time_def min_less_iff_disj)
qed

definition sample_fetch :: "string \<Rightarrow> string + nat Page" where
  "sample_fetch c =
     (if c = '''' then Inr \<lparr>pg_Items = [1, 2], pg_Cursor = ''n''\<rparr>
      else if c = ''n'' then Inr \<lparr>pg_Items = [3], pg_Cursor = ''''\<rparr> else Inl ''gone'')"

definition sample_runner :: "(Memory, nat) Runner" where
  "sample_runner = \<lparr>r_Session = ''s'', r_Store = Some Memory_KV, r_Stages = [], r_ForceRestart = False\<rparr>"

lemma sync_resume_witness:
  "\<exists>ss1 ss2. Run 2 sample_params \<lparr>r_Session = ''s'', r_Store = Some Memory_KV, r_Stages = [\<lparr>st_Name = ''contacts'',
        st_Fetch = (\<lambda>c. if c = '''' then sample_fetch c else Inl ''timeout'')\<rparr>], r_ForceRestart = False\<rparr>
      \<lparr>ss_store = NewMemory, ss_events = [], ss_ticks = 0, ss_fetched = []\<rparr> = (ss1, Inl (FetchFailed ''contacts'' ''timeout'')) \<and>
    Run 2 sample_params \<lparr>r_Session = ''s'', r_Store = Some Memory_KV,
        r_Stages = [\<lparr>st_Name = ''contacts'', st_Fetch = sample_fetch\<rparr>], r_ForceRestart = False\<rparr> ss1 = (ss2, Inr ()) \<and>
    ss_fetched ss2 = [(''contacts'', [1, 2]), (''contacts'', [3])]"
proof -
  let ?r = "\<lparr>r_Session = ''s'', r_Store = Some Memory_KV, r_Stages = [], r_ForceRestart = False\<rparr> :: (Memory, nat) Runner"
  let ?flaky = "\<lambda>c. if c = '''' then sample_fetch c else Inl ''timeout''"
  let ?ss = "\<lparr>ss_store = NewMemory, ss_events = [], ss_ticks = 0, ss_fetched = []\<rparr>"
  let ?ps = "[\<lparr>pg_Items = [1, 2], pg_Cursor = ''n''\<rparr>, \<lparr>pg_Items = [3], pg_Cursor = ''''\<rparr>]"
  have pages: "pages sample_fetch '''' ?ps"
    by (intro pages_step pages_end) (simp_all add: sample_fetch_def utf8_def byte_of_char_def)
  have agree: "agrees ?flaky sample_fetch" by (simp add: agrees_def)
  obtain ss1 where run1: "Run 2 sample_params (?r\<lparr>r_Stages := [\<lparr>st_Name = ''contacts'', st_Fetch = ?flaky\<rparr>]\<rparr>) ?ss
      = (ss1, Inl (FetchFailed ''contacts'' ''timeout''))"
    by (simp add: Run_def start_checkpoint_def LoadCheckpoint_def Memory_Get_def NewMemory_def emit_def
        fresh_checkpoint_def numeral_2_eq_2 sample_fetch_def saveCheckpoint_def Memory_Set_def Let_def)
  obtain ss2 res where run2: "Run 2 sample_params (?r\<lparr>r_Stages := [\<lparr>st_Name = ''contacts'', st_Fetch = sample_fetch\<rparr>]\<rparr>) ss1
      = (ss2, res)" by fastforce
  have "mem_inv NewMemory" "mem_contents NewMemory (sync_key ?r ''contacts'') = None" "utf8 ''contacts''"
    by (simp_all add: mem_inv_def mem_contents_def NewMemory_def utf8_def byte_of_char_def)
  with sync_resume [OF mem.kv_axioms sample_json _ pages _ agree _ _ _ _ _ _ run1 [symmetric] run2 [symmetric]]
  have "res = Inr ()" "ss_fetched ss2 = [(''contacts'', [1, 2]), (''contacts'', [3])]" by simp_all
  then show ?thesis using run1 run2 by auto
qed

text \<open>
  Resetting removes exactly the session's checkpoints, over any
  backend that keeps the storage contract: every stage starts afresh afterwards, and
  every other key keeps its value.
\<close>

theorem sync_reset:
  assumes "kv ops contents I admits" "I (ss_store ss)" "r_Store r = Some ops" "(ss', res) = Reset r ss"
  shows "res = Inr () \<and> I (ss_store ss') \<and>
    (\<forall>stage. admits (sync_key r stage) \<longrightarrow> LoadCheckpoint P r stage ss' = Inl (StoreError ErrNotFound)) \<and>
    (\<forall>k. \<not> prefix (sync_prefix r) k \<and> admits k \<longrightarrow> kv_Get ops k (ss_store ss') = kv_Get ops k (ss_store ss))"
proof -
  obtain s' where "Reset r ss = (s', Inr ())" "I (ss_store s')"
    "contents (ss_store s') = contents (ss_store ss) |` {k. \<not> prefix (sync_prefix r) k}"
    using kv.Reset_ok [OF assms(1-3)] by blast
  then have r: "res = Inr ()" "I (ss_store ss')"
    "contents (ss_store ss') = contents (ss_store ss) |` {k. \<not> prefix (sync_prefix r) k}"
    using assms(4) by auto
  then show ?thesis
    using assms(3) kv.get [OF assms(1)] assms(2)
    by (auto simp: LoadCheckpoint_def sync_key_def restrict_map_def)
qed

lemma sync_reset_witness:
  "LoadCheckpoint sample_params sample_runner ''a''
     (fst (Reset sample_runner
       \<lparr>ss_store = \<lparr>mem_data = [(''session/s/sync/a'', [1])]\<rparr>, ss_events = [], ss_ticks = 0, ss_fetched = []\<rparr>))
   = Inl (StoreError ErrNotFound)"
proof -
  let ?ss = "\<lparr>ss_store = \<lparr>mem_data = [(''session/s/sync/a'', [1])]\<rparr>, ss_events = [], ss_ticks = 0, ss_fetched = []\<rparr>"
  have "mem_inv (ss_store ?ss)" "r_Store sample_runner = Some Memory_KV" by (simp_all add: mem_inv_def sample_runner_def)
  from sync_reset [OF mem.kv_axioms this, of "fst (Reset sample_runner ?ss)" "snd (Reset sample_runner ?ss)" sample_params]
  show ?thesis by simp
qed

end
