(* ===== verification/Hkdf.thy ===== *)
theory Hkdf
  imports Prelude
begin

text \<open>
  HKDF of \<^verbatim>\<open>security/hkdf/hkdf.go\<close> over an HMAC that is a parameter (key, then
  message). A nil salt is \<open>None\<close>. The expansion loop has fuel 255, the rounds its
  counter byte can number; it is shown to be the RFC's definition and never to
  run out.
\<close>

definition HashSize :: nat where "HashSize = 32"

datatype hkdf_error = ErrOutputTooLong | HkdfOutOfFuel

type_synonym hmac = "bytes \<Rightarrow> bytes \<Rightarrow> bytes"

definition Extract :: "hmac \<Rightarrow> bytes \<Rightarrow> bytes option \<Rightarrow> bytes" where
  "Extract hmac secret salt =
     (let salt = (case salt of None \<Rightarrow> replicate HashSize 0 | Some s \<Rightarrow> s) in hmac salt secret)"

fun expand_loop :: "nat \<Rightarrow> hmac \<Rightarrow> bytes \<Rightarrow> bytes \<Rightarrow> nat \<Rightarrow> bytes \<Rightarrow> bytes \<Rightarrow> byte \<Rightarrow> hkdf_error + bytes" where
  "expand_loop fuel hmac prk info len out previous counter =
     (if length out < len then
        (case fuel of
           0 \<Rightarrow> Inl HkdfOutOfFuel
         | Suc fuel \<Rightarrow>
             let previous = hmac prk (previous @ info @ [counter])
             in expand_loop fuel hmac prk info len (out @ previous) previous (counter + 1))
      else Inr (take len out))"

declare expand_loop.simps [simp del]

definition Expand :: "hmac \<Rightarrow> bytes \<Rightarrow> bytes \<Rightarrow> nat \<Rightarrow> hkdf_error + bytes" where
  "Expand hmac prk info len =
     (if len > 255 * HashSize then Inl ErrOutputTooLong
      else expand_loop 255 hmac prk info len [] [] 1)"

definition Derive :: "hmac \<Rightarrow> bytes \<Rightarrow> bytes option \<Rightarrow> bytes \<Rightarrow> nat \<Rightarrow> hkdf_error + bytes" where
  "Derive hmac secret salt info len = Expand hmac (Extract hmac secret salt) info len"

definition Keys :: "hmac \<Rightarrow> bytes \<Rightarrow> bytes option \<Rightarrow> bytes \<Rightarrow> nat \<Rightarrow> hkdf_error + (bytes \<times> bytes)" where
  "Keys hmac secret salt info n =
     and_then (Derive hmac secret salt info (2 * n)) (\<lambda>out. Inr (take n out, take n (drop n out)))"

subsection \<open>The RFC's definition\<close>

text \<open>\<open>T(0)\<close> is empty, \<open>T(i) = HMAC(PRK, T(i-1) | info | i)\<close>; the output is a prefix of \<open>T(1) | T(2) | ...\<close>.\<close>

fun rfc_T :: "hmac \<Rightarrow> bytes \<Rightarrow> bytes \<Rightarrow> nat \<Rightarrow> bytes" where
  "rfc_T hmac prk info 0 = []"
| "rfc_T hmac prk info (Suc i) = hmac prk (rfc_T hmac prk info i @ info @ [of_nat (Suc i)])"

definition rfc_blocks :: "hmac \<Rightarrow> bytes \<Rightarrow> bytes \<Rightarrow> nat \<Rightarrow> bytes" where
  "rfc_blocks hmac prk info n = concat (map (\<lambda>i. rfc_T hmac prk info (Suc i)) [0..<n])"

definition hmac_ok :: "hmac \<Rightarrow> bool" where
  "hmac_ok hmac \<longleftrightarrow> (\<forall>k m. length (hmac k m) = HashSize)"

lemma length_rfc_blocks: "hmac_ok hmac \<Longrightarrow> length (rfc_blocks hmac prk info n) = HashSize * n"
  by (induction n) (simp_all add: rfc_blocks_def hmac_ok_def)

lemma rfc_blocks_Suc: "rfc_blocks hmac prk info (Suc n) = rfc_blocks hmac prk info n @ rfc_T hmac prk info (Suc n)"
  by (simp add: rfc_blocks_def)

lemma expand_loop_rfc:
  assumes ok: "hmac_ok hmac" and "len \<le> HashSize * (n + fuel)" "n = 0 \<or> HashSize * (n - 1) < len"
  shows "expand_loop fuel hmac prk info len (rfc_blocks hmac prk info n) (rfc_T hmac prk info n) (of_nat (Suc n))
    = Inr (take len (rfc_blocks hmac prk info ((len + 31) div 32)))"
  using assms(2,3)
proof (induction fuel arbitrary: n)
  case 0
  then have "n = (len + 31) div 32" by (cases n) (auto simp: HashSize_def)
  then show ?case using 0 by (simp add: expand_loop.simps length_rfc_blocks [OF ok])
next
  case (Suc fuel)
  show ?case
  proof (cases "HashSize * n < len")
    case True
    have "expand_loop (Suc fuel) hmac prk info len (rfc_blocks hmac prk info n) (rfc_T hmac prk info n) (of_nat (Suc n))
      = expand_loop fuel hmac prk info len (rfc_blocks hmac prk info (Suc n)) (rfc_T hmac prk info (Suc n)) (of_nat (Suc (Suc n)))"
      using True by (subst expand_loop.simps) (simp add: length_rfc_blocks [OF ok] rfc_blocks_Suc add.commute Let_def)
    then show ?thesis using Suc.IH [of "Suc n"] Suc.prems True by simp
  next
    case False
    then have "n = (len + 31) div 32" using Suc.prems by (cases n) (auto simp: HashSize_def)
    then show ?thesis using False by (simp add: expand_loop.simps length_rfc_blocks [OF ok])
  qed
qed

lemma Expand_rfc:
  assumes "hmac_ok hmac" "len \<le> 255 * HashSize"
  shows "Expand hmac prk info len = Inr (take len (rfc_blocks hmac prk info ((len + 31) div 32)))"
  using expand_loop_rfc [of hmac len 0 255 prk info] assms
  by (simp add: Expand_def rfc_blocks_def mult.commute)

lemma Expand_length:
  assumes "hmac_ok hmac" "Expand hmac prk info len = Inr out"
  shows "length out = len"
proof -
  have "len \<le> 255 * HashSize" using assms(2) by (auto simp: Expand_def split: if_splits)
  moreover have "len \<le> HashSize * ((len + 31) div 32)" by (simp add: HashSize_def)
  ultimately show ?thesis using assms Expand_rfc [OF assms(1)] length_rfc_blocks [OF assms(1)] by auto
qed

lemma Keys_32:
  assumes "hmac_ok hmac"
  shows "\<exists>a b. Keys hmac secret salt info 32 = Inr (a, b) \<and> length a = 32 \<and> length b = 32"
proof -
  obtain out where "Expand hmac (Extract hmac secret salt) info 64 = Inr out"
    using Expand_rfc [OF assms, of 64] by (simp add: HashSize_def)
  then show ?thesis using Expand_length [OF assms] by (auto simp: Keys_def Derive_def)
qed

subsection \<open>Property\<close>

text \<open>
  C34 (equivalence). Expansion is RFC 5869's: for every length up to the bound the
  output is the first bytes of \<open>T(1) | T(2) | ...\<close>, has that length, and the loop
  ends; beyond the bound the error is returned.
\<close>

theorem hkdf_expand_rfc5869:
  assumes "hmac_ok hmac"
  shows "Expand hmac prk info len =
     (if len > 255 * HashSize then Inl ErrOutputTooLong
      else Inr (take len (concat (map (\<lambda>i. rfc_T hmac prk info (Suc i)) [0..<(len + 31) div 32])))) \<and>
   (len \<le> 255 * HashSize \<longrightarrow> (\<exists>out. Expand hmac prk info len = Inr out \<and> length out = len))"
proof (cases "len \<le> 255 * HashSize")
  case True
  then show ?thesis
    using Expand_rfc [OF assms True, of prk info] Expand_length [OF assms, of prk info len]
    unfolding rfc_blocks_def by simp
next
  case False
  then show ?thesis by (simp add: Expand_def)
qed

lemma hkdf_expand_rfc5869_witness:
  "Expand (\<lambda>k m. take 32 (m @ replicate 32 7)) [1] [2] 3 = Inr [2, 1, 7]"
proof -
  have "hmac_ok (\<lambda>k m. take 32 (m @ replicate 32 7))" by (simp add: hmac_ok_def HashSize_def min_def)
  note e = hkdf_expand_rfc5869 [OF this, of "[1]" "[2]" 3, THEN conjunct1]
  have "[0..<(3 + 31) div 32] = [0 :: nat]" by (simp add: upt_rec)
  then show ?thesis unfolding e by (simp add: HashSize_def take_Cons')
qed

end
