(* ===== verification/Noise.thy ===== *)
theory Noise
  imports Hkdf
begin

text \<open>
  The Noise XX handshake and the transport ciphers of \<^verbatim>\<open>security/noise/noise.go\<close>.
  The primitives (SHA-256, HMAC, AES-256-GCM under a key, X25519) are the fields of a
  parameter record; a private key is its seed, and the random seed of a fresh
  ephemeral key is an argument (\<open>None\<close> when the generator fails). Methods return the
  changed receiver with their result, so that what a failed call leaves behind is
  part of the model.
\<close>

subsection \<open>Primitives\<close>

record Crypto =
  c_sha256 :: "bytes \<Rightarrow> bytes"
  c_hmac :: hmac
  c_seal :: "bytes \<Rightarrow> bytes \<Rightarrow> bytes \<Rightarrow> bytes \<Rightarrow> bytes"
  c_open :: "bytes \<Rightarrow> bytes \<Rightarrow> bytes \<Rightarrow> bytes \<Rightarrow> bytes option"
  c_pub :: "bytes \<Rightarrow> bytes"
  c_dh :: "bytes \<Rightarrow> bytes \<Rightarrow> bytes option"

text \<open>
  \<open>c_seal key nonce text ad\<close>, \<open>c_open key nonce ciphertext ad\<close>; \<open>c_dh priv pub\<close> is
  \<open>NewPublicKey\<close> and \<open>ECDH\<close>, \<open>None\<close> when either fails.
\<close>

datatype noise_error = ErrHandshakeState | ErrDecryptFailed | BadPeerKey | KdfError hkdf_error | SeedLength
  | RandError

definition iv :: "u32 \<Rightarrow> bytes" where
  "iv counter = replicate 8 0 @ rev (le_bytes 4 (unat counter))"

subsection \<open>Transport ciphers\<close>

record Cipher =
  ci_key :: bytes
  ci_counter :: u32

definition NewCipher :: "bytes \<Rightarrow> Cipher" where
  "NewCipher key = \<lparr>ci_key = key, ci_counter = 0\<rparr>"

definition Cipher_Seal :: "Crypto \<Rightarrow> bytes \<Rightarrow> Cipher \<Rightarrow> Cipher \<times> bytes" where
  "Cipher_Seal C plaintext c =
     (c\<lparr>ci_counter := ci_counter c + 1\<rparr>, c_seal C (ci_key c) (iv (ci_counter c)) plaintext [])"

definition Cipher_Open :: "Crypto \<Rightarrow> bytes \<Rightarrow> Cipher \<Rightarrow> Cipher \<times> (noise_error + bytes)" where
  "Cipher_Open C ciphertext c =
     (c\<lparr>ci_counter := ci_counter c + 1\<rparr>,
      case c_open C (ci_key c) (iv (ci_counter c)) ciphertext [] of
        None \<Rightarrow> Inl ErrDecryptFailed | Some out \<Rightarrow> Inr out)"

subsection \<open>The symmetric state\<close>

record Handshake =
  nh_h :: bytes
  nh_ck :: bytes
  nh_k :: bytes
  nh_counter :: u32

definition Authenticate :: "Crypto \<Rightarrow> bytes \<Rightarrow> Handshake \<Rightarrow> Handshake" where
  "Authenticate C data nh = nh\<lparr>nh_h := c_sha256 C (nh_h nh @ data)\<rparr>"

definition NewHandshake :: "Crypto \<Rightarrow> string \<Rightarrow> bytes \<Rightarrow> Handshake" where
  "NewHandshake C pattern header =
     (let h = (if length pattern = 32 then bytes_of_string pattern else c_sha256 C (bytes_of_string pattern))
      in Authenticate C header \<lparr>nh_h = h, nh_ck = h, nh_k = h, nh_counter = 0\<rparr>)"

definition encrypt :: "Crypto \<Rightarrow> bytes \<Rightarrow> Handshake \<Rightarrow> Handshake \<times> bytes" where
  "encrypt C plaintext nh =
     (let ct = c_seal C (nh_k nh) (iv (nh_counter nh)) plaintext (nh_h nh)
      in (Authenticate C ct (nh\<lparr>nh_counter := nh_counter nh + 1\<rparr>), ct))"

definition decrypt :: "Crypto \<Rightarrow> bytes \<Rightarrow> Handshake \<Rightarrow> Handshake \<times> (noise_error + bytes)" where
  "decrypt C ciphertext nh =
     (case c_open C (nh_k nh) (iv (nh_counter nh)) ciphertext (nh_h nh) of
        None \<Rightarrow> (nh\<lparr>nh_counter := nh_counter nh + 1\<rparr>, Inl ErrDecryptFailed)
      | Some pt \<Rightarrow> (Authenticate C ciphertext (nh\<lparr>nh_counter := nh_counter nh + 1\<rparr>), Inr pt))"

definition extractExpand :: "Crypto \<Rightarrow> bytes \<Rightarrow> Handshake \<Rightarrow> hkdf_error + (bytes \<times> bytes)" where
  "extractExpand C secret nh = Keys (c_hmac C) secret (Some (nh_ck nh)) [] 32"

definition MixKey :: "Crypto \<Rightarrow> bytes \<Rightarrow> Handshake \<Rightarrow> Handshake \<times> (noise_error + unit)" where
  "MixKey C secret nh =
     (let nh = nh\<lparr>nh_counter := 0\<rparr>
      in case extractExpand C secret nh of
           Inl e \<Rightarrow> (nh, Inl (KdfError e))
         | Inr (write, read) \<Rightarrow> (nh\<lparr>nh_ck := write, nh_k := read\<rparr>, Inr ()))"

definition MixHash :: "Crypto \<Rightarrow> bytes \<Rightarrow> Handshake \<Rightarrow> Handshake" where
  "MixHash C data = Authenticate C data"

record HandshakeKeys =
  hk_Send :: bytes
  hk_Recv :: bytes

definition SendKeys :: "Crypto \<Rightarrow> bool \<Rightarrow> Handshake \<Rightarrow> noise_error + HandshakeKeys" where
  "SendKeys C initiator nh =
     (case extractExpand C [] nh of
        Inl e \<Rightarrow> Inl (KdfError e)
      | Inr (send, recv) \<Rightarrow>
          let (send, recv) = (if \<not> initiator then (recv, send) else (send, recv))
          in Inr \<lparr>hk_Send = send, hk_Recv = recv\<rparr>)"

definition Handshake_Hash :: "Handshake \<Rightarrow> bytes" where
  "Handshake_Hash nh = nh_h nh"

definition KeyPairFromSeed :: "bytes \<Rightarrow> noise_error + bytes" where
  "KeyPairFromSeed seed = (if length seed \<noteq> 32 then Inl SeedLength else Inr seed)"

subsection \<open>XX\<close>

definition StartPattern :: string where
  "StartPattern = ''Noise_XX_25519_AESGCM_SHA256'' @ replicate 4 (CHR 0x00)"

record XX =
  xx_nh :: Handshake
  xx_initiator :: bool
  xx_static :: bytes
  xx_remoteStatic :: bytes
  xx_remoteEph :: bytes
  xx_eph :: bytes
  xx_done :: bool

definition NewXX :: "Crypto \<Rightarrow> bool \<Rightarrow> bytes \<Rightarrow> bytes \<Rightarrow> XX" where
  "NewXX C initiator static header =
     \<lparr>xx_nh = NewHandshake C StartPattern header, xx_initiator = initiator, xx_static = static,
      xx_remoteStatic = [], xx_remoteEph = [], xx_eph = [], xx_done = False\<rparr>"

definition NewXXClient :: "Crypto \<Rightarrow> bytes \<Rightarrow> bytes \<Rightarrow> XX" where
  "NewXXClient C = NewXX C True"

definition NewXXServer :: "Crypto \<Rightarrow> bytes \<Rightarrow> bytes \<Rightarrow> XX" where
  "NewXXServer C = NewXX C False"

definition xx_update :: "(Handshake \<Rightarrow> Handshake) \<Rightarrow> XX \<Rightarrow> XX" where
  "xx_update f xx = xx\<lparr>xx_nh := f (xx_nh xx)\<rparr>"

text \<open>A method of the embedded handshake, run on the \<open>XX\<close> that holds it.\<close>

definition on_nh :: "(Handshake \<Rightarrow> Handshake \<times> 'a) \<Rightarrow> XX \<Rightarrow> XX \<times> 'a" where
  "on_nh f xx = (case f (xx_nh xx) of (nh, a) \<Rightarrow> (xx\<lparr>xx_nh := nh\<rparr>, a))"

definition mix :: "Crypto \<Rightarrow> bytes \<Rightarrow> bytes \<Rightarrow> XX \<Rightarrow> XX \<times> (noise_error + unit)" where
  "mix C priv peerPub xx =
     (case c_dh C priv peerPub of
        None \<Rightarrow> (xx, Inl BadPeerKey)
      | Some secret \<Rightarrow> on_nh (MixKey C secret) xx)"

definition ClientHello1 :: "Crypto \<Rightarrow> bytes option \<Rightarrow> XX \<Rightarrow> XX \<times> (noise_error + bytes)" where
  "ClientHello1 C rand xx =
     (if \<not> xx_initiator xx then (xx, Inl ErrHandshakeState)
      else case rand of
          None \<Rightarrow> (xx, Inl RandError)
        | Some eph \<Rightarrow> (xx_update (Authenticate C (c_pub C eph)) (xx\<lparr>xx_eph := eph\<rparr>), Inr (c_pub C eph)))"

definition WriteHello :: "Crypto \<Rightarrow> bytes \<Rightarrow> XX \<Rightarrow> XX \<times> bytes" where
  "WriteHello C payload = on_nh (encrypt C payload)"

definition ReadHello :: "Crypto \<Rightarrow> bytes \<Rightarrow> XX \<Rightarrow> XX \<times> (noise_error + bytes)" where
  "ReadHello C payload = on_nh (decrypt C payload)"

definition ServerHello1 :: "Crypto \<Rightarrow> bytes option \<Rightarrow> bytes \<Rightarrow> bytes \<Rightarrow> XX \<Rightarrow> XX \<times> (noise_error + (bytes \<times> bytes \<times> bytes))" where
  "ServerHello1 C rand ephPub payload xx =
     (if xx_initiator xx then (xx, Inl ErrHandshakeState)
      else
        let xx = xx_update (Authenticate C ephPub) (xx\<lparr>xx_remoteEph := ephPub\<rparr>)
        in case rand of
             None \<Rightarrow> (xx, Inl RandError)
           | Some eph \<Rightarrow>
               let xx = xx_update (Authenticate C (c_pub C eph)) (xx\<lparr>xx_eph := eph\<rparr>)
               in then_st (mix C eph ephPub xx) (\<lambda>_ xx.
                  case on_nh (encrypt C (c_pub C (xx_static xx))) xx of (xx, staticCT) \<Rightarrow>
                    then_st (mix C (xx_static xx) ephPub xx) (\<lambda>_ xx.
                      case on_nh (encrypt C payload) xx of (xx, payloadCT) \<Rightarrow>
                        (xx, Inr (c_pub C eph, staticCT, payloadCT)))))"

definition ReadServerHello :: "Crypto \<Rightarrow> bytes \<Rightarrow> bytes \<Rightarrow> bytes \<Rightarrow> XX \<Rightarrow> XX \<times> (noise_error + (bytes \<times> bytes))" where
  "ReadServerHello C serverEph staticCT payloadCT xx =
     (if \<not> xx_initiator xx then (xx, Inl ErrHandshakeState)
      else
        let xx = xx_update (Authenticate C serverEph) (xx\<lparr>xx_remoteEph := serverEph\<rparr>)
        in then_st (mix C (xx_eph xx) serverEph xx) (\<lambda>_ xx.
           then_st (on_nh (decrypt C staticCT) xx) (\<lambda>remoteStatic xx.
             let xx = xx\<lparr>xx_remoteStatic := remoteStatic\<rparr>
             in then_st (mix C (xx_eph xx) remoteStatic xx) (\<lambda>_ xx.
                then_st (on_nh (decrypt C payloadCT) xx) (\<lambda>serverPayload xx.
                  (xx, Inr (remoteStatic, serverPayload)))))))"

definition WriteClientFinish :: "Crypto \<Rightarrow> bytes \<Rightarrow> XX \<Rightarrow> XX \<times> (noise_error + (bytes \<times> bytes))" where
  "WriteClientFinish C payload xx =
     (if \<not> xx_initiator xx then (xx, Inl ErrHandshakeState)
      else case on_nh (encrypt C (c_pub C (xx_static xx))) xx of (xx, clientStaticCT) \<Rightarrow>
        then_st (mix C (xx_static xx) (xx_remoteEph xx) xx) (\<lambda>_ xx.
          case on_nh (encrypt C payload) xx of (xx, clientPayloadCT) \<Rightarrow>
            (xx\<lparr>xx_done := True\<rparr>, Inr (clientStaticCT, clientPayloadCT))))"

definition ClientFinish :: "Crypto \<Rightarrow> bytes \<Rightarrow> bytes \<Rightarrow> bytes \<Rightarrow> bytes \<Rightarrow> XX \<Rightarrow> XX \<times> (noise_error + (bytes \<times> bytes))" where
  "ClientFinish C serverEph staticCT payloadCT payload xx =
     then_st (ReadServerHello C serverEph staticCT payloadCT xx) (\<lambda>_ xx. WriteClientFinish C payload xx)"

definition AcceptFinish :: "Crypto \<Rightarrow> bytes \<Rightarrow> bytes \<Rightarrow> XX \<Rightarrow> XX \<times> (noise_error + (bytes \<times> bytes))" where
  "AcceptFinish C clientStaticCT clientPayloadCT xx =
     (if xx_initiator xx then (xx, Inl ErrHandshakeState)
      else
        then_st (on_nh (decrypt C clientStaticCT) xx) (\<lambda>remote xx.
          let xx = xx\<lparr>xx_remoteStatic := remote\<rparr>
          in then_st (mix C (xx_eph xx) remote xx) (\<lambda>_ xx.
             then_st (on_nh (decrypt C clientPayloadCT) xx) (\<lambda>payload xx.
               (xx\<lparr>xx_done := True\<rparr>, Inr (remote, payload))))))"

definition SendCipher :: "Crypto \<Rightarrow> XX \<Rightarrow> noise_error + (Cipher \<times> Cipher)" where
  "SendCipher C xx =
     (if \<not> xx_done xx then Inl ErrHandshakeState
      else and_then (SendKeys C (xx_initiator xx) (xx_nh xx)) (\<lambda>keys.
        Inr (NewCipher (hk_Send keys), NewCipher (hk_Recv keys))))"

subsection \<open>Both sides keep the same state\<close>

text \<open>
  What the primitives promise: a sealed text opens under the same key, nonce and
  associated data; HMAC has its output length; X25519 secrets of honest keys exist
  and are the same on both sides.
\<close>

definition crypto_ok :: "Crypto \<Rightarrow> bool" where
  "crypto_ok C \<longleftrightarrow> hmac_ok (c_hmac C) \<and> (\<forall>k n p a. c_open C k n (c_seal C k n p a) a = Some p)"

definition dh_ok :: "Crypto \<Rightarrow> bool" where
  "dh_ok C \<longleftrightarrow> (\<forall>a b. length a = 32 \<and> length b = 32 \<longrightarrow>
     c_dh C a (c_pub C b) \<noteq> None \<and> c_dh C a (c_pub C b) = c_dh C b (c_pub C a))"

lemma decrypt_encrypt:
  "crypto_ok C \<Longrightarrow> decrypt C (snd (encrypt C pt nh)) nh = (fst (encrypt C pt nh), Inr pt)"
  by (simp add: crypto_ok_def decrypt_def encrypt_def Let_def)

lemma MixKey_ok: "crypto_ok C \<Longrightarrow> MixKey C secret nh = (fst (MixKey C secret nh), Inr ())"
  using Keys_32 [of "c_hmac C" secret "Some (nh_ck nh)" "[]"]
  by (auto simp: crypto_ok_def MixKey_def extractExpand_def)

lemma mix_ok:
  "crypto_ok C \<Longrightarrow> c_dh C priv pub = Some secret \<Longrightarrow>
   mix C priv pub xx = (xx\<lparr>xx_nh := fst (MixKey C secret (xx_nh xx))\<rparr>, Inr ())"
  by (subst mix_def, subst on_nh_def) (subst MixKey_ok, simp_all)

lemma on_nh_encrypt: "on_nh (encrypt C pt) xx = (xx\<lparr>xx_nh := fst (encrypt C pt (xx_nh xx))\<rparr>, snd (encrypt C pt (xx_nh xx)))"
  by (simp add: on_nh_def split: prod.split)

lemma on_nh_decrypt:
  "crypto_ok C \<Longrightarrow> on_nh (decrypt C (snd (encrypt C pt (xx_nh xx)))) xx = (xx\<lparr>xx_nh := fst (encrypt C pt (xx_nh xx))\<rparr>, Inr pt)"
  by (simp add: on_nh_def decrypt_encrypt)

lemma SendKeys_mirror:
  assumes "crypto_ok C"
  shows "\<exists>a b. SendKeys C True nh = Inr \<lparr>hk_Send = a, hk_Recv = b\<rparr> \<and> SendKeys C False nh = Inr \<lparr>hk_Send = b, hk_Recv = a\<rparr>"
  using Keys_32 [of "c_hmac C" "[]" "Some (nh_ck nh)" "[]"] assms
  by (auto simp: crypto_ok_def SendKeys_def extractExpand_def)

subsection \<open>Transport\<close>

fun seal_all :: "Crypto \<Rightarrow> bytes list \<Rightarrow> Cipher \<Rightarrow> Cipher \<times> bytes list" where
  "seal_all C [] c = (c, [])"
| "seal_all C (p # ps) c =
     (case Cipher_Seal C p c of (c, x) \<Rightarrow> case seal_all C ps c of (c, xs) \<Rightarrow> (c, x # xs))"

fun open_all :: "Crypto \<Rightarrow> bytes list \<Rightarrow> Cipher \<Rightarrow> Cipher \<times> (noise_error + bytes) list" where
  "open_all C [] c = (c, [])"
| "open_all C (x # xs) c =
     (case Cipher_Open C x c of (c, r) \<Rightarrow> case open_all C xs c of (c, rs) \<Rightarrow> (c, r # rs))"

lemma open_seal_all: "crypto_ok C \<Longrightarrow> open_all C (snd (seal_all C ps c)) c = (fst (seal_all C ps c), map Inr ps)"
proof (induction ps arbitrary: c)
  case (Cons p ps)
  have "fst (Cipher_Open C (snd (Cipher_Seal C p c)) c) = fst (Cipher_Seal C p c)"
    "snd (Cipher_Open C (snd (Cipher_Seal C p c)) c) = Inr p"
    using Cons.prems by (simp_all add: Cipher_Open_def Cipher_Seal_def crypto_ok_def)
  then show ?case using Cons.IH [OF Cons.prems, of "fst (Cipher_Seal C p c)"]
    by (auto split: prod.splits)
qed simp

lemma seal_all_Cons:
  "seal_all C (p # ps) c = (fst (seal_all C ps (fst (Cipher_Seal C p c))),
     snd (Cipher_Seal C p c) # snd (seal_all C ps (fst (Cipher_Seal C p c))))"
  by (simp split: prod.splits)

lemma seal_all_nonces:
  "snd (seal_all C ps c) = map (\<lambda>i. c_seal C (ci_key c) (iv (ci_counter c + of_nat i)) (ps ! i) []) [0..<length ps]"
proof (induction ps arbitrary: c)
  case (Cons p ps)
  have "[0..<length (p # ps)] = 0 # map Suc [0..<length ps]" by (metis length_Cons map_Suc_upt upt_conv_Cons zero_less_Suc)
  then show ?case by (simp add: seal_all_Cons Cons.IH del: seal_all.simps upt_Suc)
      (simp add: Cipher_Seal_def ac_simps)
qed simp

lemma unat_mod_u32: "unat (w :: u32) mod 4294967296 = unat w"
  using unsigned_less [of w, where 'a = nat] by simp

lemma iv_inj: "iv a = iv b \<longleftrightarrow> a = b"
proof
  assume "iv a = iv b"
  then have "le_nat (le_bytes 4 (unat a)) = le_nat (le_bytes 4 (unat b))" by (simp add: iv_def)
  then show "a = b" by (simp add: unat_mod_u32 word_unat_eq_iff)
qed simp

lemma of_nat_distinct: "i < j \<Longrightarrow> j < 2 ^ 32 \<Longrightarrow> (a + of_nat i :: u32) \<noteq> a + of_nat j"
  by (simp add: word_of_nat_eq_iff take_bit_eq_mod)

subsection \<open>The handshake\<close>

text \<open>The three messages in order, each state of one side matched by the other's.\<close>

lemma xx_agreement:
  assumes C: "crypto_ok C" "dh_ok C" and len: "length cs = 32" "length ss = 32" "length ce = 32" "length se = 32"
  shows "\<exists>c1 c2 c3 s1 s2 eph seph sct pct csct cpct send recv.
    ClientHello1 C (Some ce) (NewXXClient C cs header) = (c1, Inr eph) \<and>
    ServerHello1 C (Some se) eph serverPayload (NewXXServer C ss header) = (s1, Inr (seph, sct, pct)) \<and>
    ReadServerHello C seph sct pct c1 = (c2, Inr (c_pub C ss, serverPayload)) \<and>
    WriteClientFinish C clientPayload c2 = (c3, Inr (csct, cpct)) \<and>
    AcceptFinish C csct cpct s1 = (s2, Inr (c_pub C cs, clientPayload)) \<and>
    Handshake_Hash (xx_nh c3) = Handshake_Hash (xx_nh s2) \<and>
    SendCipher C c3 = Inr (send, recv) \<and> SendCipher C s2 = Inr (recv, send)"
proof -
  obtain ee es sE where dh: "c_dh C ce (c_pub C se) = Some ee" "c_dh C se (c_pub C ce) = Some ee"
    "c_dh C ce (c_pub C ss) = Some es" "c_dh C ss (c_pub C ce) = Some es"
    "c_dh C cs (c_pub C se) = Some sE" "c_dh C se (c_pub C cs) = Some sE"
    using C(2) len unfolding dh_ok_def by (metis not_None_eq)
  define n1 where "n1 = Authenticate C (c_pub C se) (Authenticate C (c_pub C ce) (NewHandshake C StartPattern header))"
  define n2 where "n2 = fst (MixKey C ee n1)"
  define n3 where "n3 = fst (encrypt C (c_pub C ss) n2)"
  define n4 where "n4 = fst (MixKey C es n3)"
  define n5 where "n5 = fst (encrypt C serverPayload n4)"
  define n6 where "n6 = fst (encrypt C (c_pub C cs) n5)"
  define n7 where "n7 = fst (MixKey C sE n6)"
  define n8 where "n8 = fst (encrypt C clientPayload n7)"
  let ?c0 = "NewXXClient C cs header" and ?s0 = "NewXXServer C ss header"
  let ?c1 = "?c0\<lparr>xx_eph := ce, xx_nh := Authenticate C (c_pub C ce) (xx_nh ?c0)\<rparr>"
  let ?c2 = "?c1\<lparr>xx_remoteEph := c_pub C se, xx_remoteStatic := c_pub C ss, xx_nh := n5\<rparr>"
  let ?c3 = "?c2\<lparr>xx_nh := n8, xx_done := True\<rparr>"
  let ?s1 = "?s0\<lparr>xx_remoteEph := c_pub C ce, xx_eph := se, xx_nh := n5\<rparr>"
  let ?s2 = "?s1\<lparr>xx_remoteStatic := c_pub C cs, xx_nh := n8, xx_done := True\<rparr>"
  note defs = NewXXClient_def NewXXServer_def NewXX_def xx_update_def Let_def
  note steps = mix_ok [OF C(1)] on_nh_encrypt dh
  obtain a b where k: "SendKeys C True n8 = Inr \<lparr>hk_Send = a, hk_Recv = b\<rparr>"
    "SendKeys C False n8 = Inr \<lparr>hk_Send = b, hk_Recv = a\<rparr>"
    using SendKeys_mirror [OF C(1)] by blast
  have 1: "ClientHello1 C (Some ce) ?c0 = (?c1, Inr (c_pub C ce))"
    by (simp add: ClientHello1_def defs)
  have 2: "ServerHello1 C (Some se) (c_pub C ce) serverPayload ?s0
      = (?s1, Inr (c_pub C se, snd (encrypt C (c_pub C ss) n2), snd (encrypt C serverPayload n4)))"
    by (simp add: ServerHello1_def defs steps n1_def n2_def n3_def n4_def n5_def)
  have 3: "ReadServerHello C (c_pub C se) (snd (encrypt C (c_pub C ss) n2)) (snd (encrypt C serverPayload n4)) ?c1
      = (?c2, Inr (c_pub C ss, serverPayload))"
    using on_nh_decrypt [OF C(1), of "c_pub C ss" "?c1\<lparr>xx_remoteEph := c_pub C se, xx_nh := n2\<rparr>"]
      on_nh_decrypt [OF C(1), of serverPayload "?c1\<lparr>xx_remoteEph := c_pub C se, xx_remoteStatic := c_pub C ss, xx_nh := n4\<rparr>"]
    by (simp add: ReadServerHello_def defs steps n1_def n2_def n3_def n4_def n5_def)
  have 4: "WriteClientFinish C clientPayload ?c2
      = (?c3, Inr (snd (encrypt C (c_pub C cs) n5), snd (encrypt C clientPayload n7)))"
    by (simp add: WriteClientFinish_def defs steps n6_def n7_def n8_def)
  have 5: "AcceptFinish C (snd (encrypt C (c_pub C cs) n5)) (snd (encrypt C clientPayload n7)) ?s1
      = (?s2, Inr (c_pub C cs, clientPayload))"
    using on_nh_decrypt [OF C(1), of "c_pub C cs" ?s1]
      on_nh_decrypt [OF C(1), of clientPayload "?s1\<lparr>xx_remoteStatic := c_pub C cs, xx_nh := n7\<rparr>"]
    by (simp add: AcceptFinish_def defs steps n6_def n7_def n8_def)
  have 6: "SendCipher C ?c3 = Inr (NewCipher a, NewCipher b)" "SendCipher C ?s2 = Inr (NewCipher b, NewCipher a)"
    using k by (simp_all add: SendCipher_def defs)
  show ?thesis
    by (intro exI conjI) (rule 1, rule 2, rule 3, rule 4, rule 5, simp, rule 6, rule 6)
qed

subsection \<open>Properties\<close>

text \<open>
  C5 (functional). An undisturbed XX handshake succeeds and agrees: each side
  learns the other's static public key and payload, both end with the same
  handshake hash, and the transport keys of one are those of the other with the
  directions exchanged.
\<close>

theorem noise_xx_agreement:
  assumes C: "crypto_ok C" "dh_ok C" and len: "length cs = 32" "length ss = 32" "length ce = 32" "length se = 32"
  shows "\<exists>c1 c2 c3 s1 s2 eph seph sct pct csct cpct send recv.
    ClientHello1 C (Some ce) (NewXXClient C cs header) = (c1, Inr eph) \<and>
    ServerHello1 C (Some se) eph serverPayload (NewXXServer C ss header) = (s1, Inr (seph, sct, pct)) \<and>
    ReadServerHello C seph sct pct c1 = (c2, Inr (c_pub C ss, serverPayload)) \<and>
    WriteClientFinish C clientPayload c2 = (c3, Inr (csct, cpct)) \<and>
    AcceptFinish C csct cpct s1 = (s2, Inr (c_pub C cs, clientPayload)) \<and>
    Handshake_Hash (xx_nh c3) = Handshake_Hash (xx_nh s2) \<and>
    SendCipher C c3 = Inr (send, recv) \<and> SendCipher C s2 = Inr (recv, send)"
  by (rule xx_agreement [OF assms])

text \<open>A stand-in for the primitives that keeps their promises, for the examples.\<close>

definition toy_crypto :: Crypto where
  "toy_crypto = \<lparr>c_sha256 = (\<lambda>m. take 32 (m @ replicate 32 0)), c_hmac = (\<lambda>k m. take 32 (m @ k @ replicate 32 0)),
     c_seal = (\<lambda>k n p a. p @ [7]), c_open = (\<lambda>k n x a. if x = [] then None else Some (butlast x)),
     c_pub = (\<lambda>s. s), c_dh = (\<lambda>a b. Some [sum_list a + sum_list b])\<rparr>"

lemma toy_crypto_ok: "crypto_ok toy_crypto" "dh_ok toy_crypto"
  by (auto simp: crypto_ok_def dh_ok_def toy_crypto_def hmac_ok_def HashSize_def add.commute)

lemma noise_xx_agreement_witness:
  "\<exists>c1 c2 c3 s1 s2 eph seph sct pct csct cpct send recv.
    ClientHello1 toy_crypto (Some (replicate 32 3)) (NewXXClient toy_crypto (replicate 32 1) [87, 65]) = (c1, Inr eph) \<and>
    ServerHello1 toy_crypto (Some (replicate 32 4)) eph [9] (NewXXServer toy_crypto (replicate 32 2) [87, 65])
      = (s1, Inr (seph, sct, pct)) \<and>
    ReadServerHello toy_crypto seph sct pct c1 = (c2, Inr (c_pub toy_crypto (replicate 32 2), [9])) \<and>
    WriteClientFinish toy_crypto [8] c2 = (c3, Inr (csct, cpct)) \<and>
    AcceptFinish toy_crypto csct cpct s1 = (s2, Inr (c_pub toy_crypto (replicate 32 1), [8])) \<and>
    Handshake_Hash (xx_nh c3) = Handshake_Hash (xx_nh s2) \<and>
    SendCipher toy_crypto c3 = Inr (send, recv) \<and> SendCipher toy_crypto s2 = Inr (recv, send)"
  by (rule noise_xx_agreement [OF toy_crypto_ok]) simp_all

text \<open>
  C35 (roundtrip). Over one cipher, what one side seals the other opens, in order
  and without error, for any sequence of messages; the \<open>i\<close>-th ciphertext is sealed
  under the nonce of counter plus \<open>i\<close>, so no nonce repeats within \<open>2 ^ 32\<close> messages,
  and the next message after those reuses the first nonce under the same key.
\<close>

theorem noise_transport:
  assumes "crypto_ok C"
  shows "open_all C (snd (seal_all C ps c)) c = (fst (seal_all C ps c), map Inr ps) \<and>
    (\<forall>i < length ps. snd (seal_all C ps c) ! i = c_seal C (ci_key c) (iv (ci_counter c + of_nat i)) (ps ! i) []) \<and>
    (\<forall>i j. i < j \<and> j < 2 ^ 32 \<longrightarrow> iv (ci_counter c + of_nat i) \<noteq> iv (ci_counter c + of_nat j)) \<and>
    iv (ci_counter c + of_nat (2 ^ 32)) = iv (ci_counter c)"
  using open_seal_all [OF assms] of_nat_distinct by (auto simp: seal_all_nonces iv_inj)

lemma noise_transport_witness:
  "open_all toy_crypto (snd (seal_all toy_crypto [[1], [2, 3]] (NewCipher [5]))) (NewCipher [5])
     = (fst (seal_all toy_crypto [[1], [2, 3]] (NewCipher [5])), [Inr [1], Inr [2, 3]]) \<and>
   iv (ci_counter (NewCipher [5]) + of_nat 0) \<noteq> iv (ci_counter (NewCipher [5]) + of_nat 1)"
proof -
  note w = noise_transport [OF toy_crypto_ok(1), of "[[1], [2, 3]]" "NewCipher [5]"]
  show ?thesis using w [THEN conjunct1] w [THEN conjunct2, THEN conjunct2, THEN conjunct1, rule_format, of 0 1]
    by (simp only: list.map, simp)
qed

end
