(* ===== verification/EventTypes.thy ===== *)
theory EventTypes
  imports Prelude
begin

text \<open>
  The canonical event type names of \<^verbatim>\<open>events/bus.go\<close>, shared by the bus, the
  session engine and the layers above it.
\<close>

definition ConnectionState :: string where "ConnectionState = ''connection.state''"
definition ConnectionError :: string where "ConnectionError = ''connection.error''"
definition SessionReady :: string where "SessionReady = ''session.ready''"
definition SessionError :: string where "SessionError = ''session.error''"
definition MessageReceived :: string where "MessageReceived = ''message.received''"
definition MessageSent :: string where "MessageSent = ''message.sent''"
definition MessageUpdated :: string where "MessageUpdated = ''message.updated''"
definition MessageAck :: string where "MessageAck = ''message.acknowledged''"
definition ChatUpdated :: string where "ChatUpdated = ''chat.updated''"
definition ContactUpdated :: string where "ContactUpdated = ''contact.updated''"
definition GroupUpdated :: string where "GroupUpdated = ''group.updated''"
definition SyncStarted :: string where "SyncStarted = ''sync.started''"
definition SyncCompleted :: string where "SyncCompleted = ''sync.completed''"
definition SyncFailed :: string where "SyncFailed = ''sync.failed''"
definition MediaUploaded :: string where "MediaUploaded = ''media.uploaded''"
definition MediaFailed :: string where "MediaFailed = ''media.failed''"
definition SupervisorAction :: string where "SupervisorAction = ''supervisor.action''"

end
