(* ===== verification/Events.thy ===== *)
theory Events
  imports Gotime "HOL-Library.Sublist" "HOL-Library.Multiset" EventTypes
begin

text \<open>
  The event bus of \<^verbatim>\<open>events/bus.go\<close>, as a step relation. Subscriptions are
  objects addressed by their place in an allocation list, so that a publisher
  which copied its targets keeps them after an \<open>Unsubscribe\<close>. Every publisher in
  flight has a program point of its own, each point one synchronising action of
  \<open>Publish\<close>; workers and publishers interleave freely. \<open>remove\<close> and \<open>Close\<close> are
  one step each: what comes after their lock only adds choices to others. A worker
  takes an event and runs the handler in one step, whose panic is the step's
  choice. Two history fields, of no effect on the program, record what a worker
  has received and what was published.
\<close>

subsection \<open>Data\<close>

record 'd Event =
  ev_Seq :: u64
  ev_Type :: string
  ev_Session :: string
  ev_Time :: Time
  ev_Data :: 'd

datatype QueuePolicy = PolicyBlock | PolicyDropOldest

datatype bus_error = NilHandler | EmptyPattern | BusClosed | CtxError string

record 'd subscription =
  su_id :: u64
  su_match :: string
  su_prefix :: string
  su_exact :: string
  su_queue :: "'d Event list"
  su_cap :: nat
  su_policy :: QueuePolicy
  su_cancelled :: bool
  su_returned :: bool
  su_seen :: "'d Event list"

record 'd Bus =
  b_objs :: "'d subscription list"
  b_subs :: "(u64 \<times> nat) list"
  b_nextID :: u64
  b_closed :: bool
  b_done :: bool
  b_seq :: u64
  b_pubCnt :: u64
  b_delCnt :: u64
  b_dropCnt :: u64
  b_panics :: u64

record Stats =
  st_Published :: u64
  st_Delivered :: u64
  st_Dropped :: u64
  st_Panics :: u64
  st_Subscribers :: nat

definition NewBus :: "'d Bus" where
  "NewBus = \<lparr>b_objs = [], b_subs = [], b_nextID = 0, b_closed = False, b_done = False, b_seq = 0,
     b_pubCnt = 0, b_delCnt = 0, b_dropCnt = 0, b_panics = 0\<rparr>"

subsection \<open>Subscribing\<close>

definition TrimSuffix :: "string \<Rightarrow> string \<Rightarrow> string" where
  "TrimSuffix s suf = (if suffix suf s then take (length s - length suf) s else s)"

definition new_subscription :: "u64 \<Rightarrow> string \<Rightarrow> int \<Rightarrow> QueuePolicy \<Rightarrow> 'd subscription" where
  "new_subscription i pattern bufferSize policy =
     \<lparr>su_id = i, su_match = pattern,
      su_prefix = (if pattern = ''*'' then '''' else if suffix ''.*'' pattern then TrimSuffix pattern ''.*'' else ''''),
      su_exact = (if pattern = ''*'' \<or> suffix ''.*'' pattern then '''' else pattern),
      su_queue = [], su_cap = nat bufferSize, su_policy = policy,
      su_cancelled = False, su_returned = False, su_seen = []\<rparr>"

text \<open>The handler is given by whether it is nil; the result is the address of the subscription.\<close>

definition Subscribe :: "string \<Rightarrow> int \<Rightarrow> QueuePolicy \<Rightarrow> bool \<Rightarrow> 'd Bus \<Rightarrow> 'd Bus \<times> (bus_error + nat)" where
  "Subscribe pattern bufferSize policy nilHandler b =
     (if nilHandler then (b, Inl NilHandler)
      else if pattern = '''' then (b, Inl EmptyPattern)
      else
        let bufferSize = (if bufferSize < 1 then 1 else bufferSize)
        in if b_closed b then (b, Inl BusClosed)
           else
             let i = b_nextID b + 1; a = length (b_objs b)
             in (b\<lparr>b_nextID := i, b_objs := b_objs b @ [new_subscription i pattern bufferSize policy],
                   b_subs := (i, a) # filter (\<lambda>(j, _). j \<noteq> i) (b_subs b)\<rparr>, Inr a))"

text \<open>\<open>None\<close> is the panic.\<close>

definition MustSubscribe :: "string \<Rightarrow> int \<Rightarrow> QueuePolicy \<Rightarrow> bool \<Rightarrow> 'd Bus \<Rightarrow> ('d Bus \<times> nat) option" where
  "MustSubscribe pattern bufferSize policy nilHandler b =
     (case Subscribe pattern bufferSize policy nilHandler b of (b, Inl e) \<Rightarrow> None | (b, Inr a) \<Rightarrow> Some (b, a))"

definition matches :: "'d subscription \<Rightarrow> string \<Rightarrow> bool" where
  "matches sub evType =
     (if su_match sub = ''*'' then True
      else if su_prefix sub \<noteq> '''' then prefix (su_prefix sub @ ''.'') evType
      else evType = su_exact sub)"

definition upd_sub :: "nat \<Rightarrow> ('d subscription \<Rightarrow> 'd subscription) \<Rightarrow> 'd Bus \<Rightarrow> 'd Bus" where
  "upd_sub a f b = b\<lparr>b_objs := (b_objs b)[a := f (b_objs b ! a)]\<rparr>"

definition bus_remove :: "nat \<Rightarrow> 'd Bus \<Rightarrow> 'd Bus" where
  "bus_remove a b =
     (let b = b\<lparr>b_subs := filter (\<lambda>(j, _). j \<noteq> su_id (b_objs b ! a)) (b_subs b)\<rparr>
      in upd_sub a (\<lambda>s. s\<lparr>su_cancelled := True\<rparr>) b)"

definition Unsubscribe :: "nat \<Rightarrow> 'd Bus \<Rightarrow> 'd Bus" where
  "Unsubscribe a b = bus_remove a b"

definition bus_Close :: "'d Bus \<Rightarrow> 'd Bus" where
  "bus_Close b =
     (if b_closed b then b
      else
        let subs = map snd (b_subs b);
            b = b\<lparr>b_closed := True, b_subs := [], b_done := True\<rparr>
        in fold (\<lambda>a. upd_sub a (\<lambda>s. s\<lparr>su_cancelled := True\<rparr>)) subs b)"

definition bus_Stats :: "'d Bus \<Rightarrow> Stats" where
  "bus_Stats b = \<lparr>st_Published = b_pubCnt b, st_Delivered = b_delCnt b, st_Dropped = b_dropCnt b,
     st_Panics = b_panics b, st_Subscribers = length (b_subs b)\<rparr>"

definition LastSeq :: "'d Bus \<Rightarrow> u64" where "LastSeq b = b_seq b"

definition Stats_String :: "Stats \<Rightarrow> string" where
  "Stats_String s =
     ''events: published='' @ nat_to_dec (unat (st_Published s)) @ '' delivered='' @ nat_to_dec (unat (st_Delivered s)) @
     '' dropped='' @ nat_to_dec (unat (st_Dropped s)) @ '' panics='' @ nat_to_dec (unat (st_Panics s)) @
     '' subs='' @ nat_to_dec (st_Subscribers s)"

subsection \<open>Publishing\<close>

text \<open>
  The program points of \<open>Publish\<close> after it released the read lock. The head of
  \<open>pu_targets\<close> is the subscription of the current iteration.
\<close>

datatype pub_at = AtSeq | AtCount | AtSend | AtMakeRoom | AtDropCount | AtRetry | AtDelivered
  | Returned "bus_error + unit"

record 'd publisher =
  pu_ev :: "'d Event"
  pu_targets :: "nat list"
  pu_at :: pub_at

text \<open>What a \<open>select\<close> takes: the send, the context's end (with its error) or the closed \<open>done\<close> channel.\<close>

datatype choice = Send | CtxDone string | BusDone

definition targets_of :: "'d Bus \<Rightarrow> string \<Rightarrow> nat list" where
  "targets_of b evType = filter (\<lambda>a. matches (b_objs b ! a) evType) (map snd (b_subs b))"

text \<open>The order in which the map is walked is \<open>ts\<close>, any order of the matching subscriptions.\<close>

definition Publish_start :: "nat list \<Rightarrow> 'd Event \<Rightarrow> 'd Bus \<Rightarrow> 'd publisher option" where
  "Publish_start ts ev b =
     (if b_closed b then Some \<lparr>pu_ev = ev, pu_targets = [], pu_at = Returned (Inl BusClosed)\<rparr>
      else if mset ts = mset (targets_of b (ev_Type ev)) then Some \<lparr>pu_ev = ev, pu_targets = ts, pu_at = AtSeq\<rparr>
      else None)"

definition has_room :: "'d subscription \<Rightarrow> bool" where
  "has_room s \<longleftrightarrow> length (su_queue s) < su_cap s"

definition enqueue :: "nat \<Rightarrow> 'd Event \<Rightarrow> 'd Bus \<Rightarrow> 'd Bus" where
  "enqueue a ev = upd_sub a (\<lambda>s. s\<lparr>su_queue := su_queue s @ [ev]\<rparr>)"

text \<open>The blocking \<open>select\<close> on the queue, the context and the bus; \<open>None\<close> when the choice is not ready.\<close>

definition select_send :: "choice \<Rightarrow> nat \<Rightarrow> 'd publisher \<Rightarrow> 'd Bus \<Rightarrow> ('d publisher \<times> 'd Bus) option" where
  "select_send ch a p b =
     (case ch of
        Send \<Rightarrow> if has_room (b_objs b ! a) then Some (p\<lparr>pu_at := AtDelivered\<rparr>, enqueue a (pu_ev p) b) else None
      | CtxDone e \<Rightarrow> Some (p\<lparr>pu_at := Returned (Inl (CtxError e))\<rparr>, b)
      | BusDone \<Rightarrow> if b_done b then Some (p\<lparr>pu_at := Returned (Inl BusClosed)\<rparr>, b) else None)"

definition Publish_step :: "Time \<Rightarrow> choice \<Rightarrow> 'd publisher \<Rightarrow> 'd Bus \<Rightarrow> ('d publisher \<times> 'd Bus) option" where
  "Publish_step now ch p b =
     (case pu_at p of
        AtSeq \<Rightarrow>
          let ev = (pu_ev p)\<lparr>ev_Seq := b_seq b + 1\<rparr>;
              ev = (if IsZero (ev_Time ev) then ev\<lparr>ev_Time := now\<rparr> else ev)
          in Some (p\<lparr>pu_ev := ev, pu_at := AtCount\<rparr>, b\<lparr>b_seq := b_seq b + 1\<rparr>)
      | AtCount \<Rightarrow> Some (p\<lparr>pu_at := AtSend\<rparr>, b\<lparr>b_pubCnt := b_pubCnt b + 1\<rparr>)
      | Returned r \<Rightarrow> None
      | at \<Rightarrow>
          (case pu_targets p of
             [] \<Rightarrow> Some (p\<lparr>pu_at := Returned (Inr ())\<rparr>, b)
           | a # ts \<Rightarrow>
               let s = b_objs b ! a
               in case at of
                    AtSend \<Rightarrow>
                      (case su_policy s of
                         PolicyDropOldest \<Rightarrow>
                           if has_room s then Some (p\<lparr>pu_at := AtDelivered\<rparr>, enqueue a (pu_ev p) b)
                           else Some (p\<lparr>pu_at := AtMakeRoom\<rparr>, b)
                       | PolicyBlock \<Rightarrow> select_send ch a p b)
                  | AtMakeRoom \<Rightarrow>
                      if su_queue s \<noteq> []
                      then Some (p\<lparr>pu_at := AtDropCount\<rparr>, upd_sub a (\<lambda>s. s\<lparr>su_queue := tl (su_queue s)\<rparr>) b)
                      else Some (p\<lparr>pu_at := AtRetry\<rparr>, b)
                  | AtDropCount \<Rightarrow> Some (p\<lparr>pu_at := AtRetry\<rparr>, b\<lparr>b_dropCnt := b_dropCnt b + 1\<rparr>)
                  | AtRetry \<Rightarrow> select_send ch a p b
                  | _ \<Rightarrow> Some (p\<lparr>pu_targets := ts, pu_at := AtSend\<rparr>, b\<lparr>b_delCnt := b_delCnt b + 1\<rparr>)))"

subsection \<open>Workers\<close>

definition bus_invoke :: "bool \<Rightarrow> 'd Bus \<Rightarrow> 'd Bus" where
  "bus_invoke panics b = (if panics then b\<lparr>b_panics := b_panics b + 1\<rparr> else b)"

datatype worker_choice = TakeDone | TakeEvent bool

definition runSubscriber :: "worker_choice \<Rightarrow> nat \<Rightarrow> 'd Bus \<Rightarrow> 'd Bus option" where
  "runSubscriber ch a b =
     (let s = b_objs b ! a
      in if su_returned s then None
         else case ch of
           TakeDone \<Rightarrow>
             if su_cancelled s then Some (upd_sub a (\<lambda>s. s\<lparr>su_returned := True\<rparr>) b) else None
         | TakeEvent panics \<Rightarrow>
             (case su_queue s of
                [] \<Rightarrow> None
              | ev # evs \<Rightarrow>
                  Some (bus_invoke panics
                    (upd_sub a (\<lambda>s. s\<lparr>su_queue := evs, su_seen := su_seen s @ [ev]\<rparr>) b))))"

subsection \<open>Runs\<close>

record 'd world =
  w_bus :: "'d Bus"
  w_pubs :: "'d publisher list"
  w_published :: "'d Event list"

definition initial_world :: "'d world" where
  "initial_world = \<lparr>w_bus = NewBus, w_pubs = [], w_published = []\<rparr>"

datatype 'd action = DoSubscribe string int QueuePolicy bool | DoUnsubscribe nat | DoClose
  | DoPublish "nat list" "'d Event" | DoPubStep nat Time choice | DoWorker nat worker_choice

text \<open>One action of the program or its environment; \<open>None\<close> when it is not possible.\<close>

definition bus_step :: "'d action \<Rightarrow> 'd world \<Rightarrow> 'd world option" where
  "bus_step act w =
     (case act of
        DoSubscribe pattern n policy nilHandler \<Rightarrow>
          Some (w\<lparr>w_bus := fst (Subscribe pattern n policy nilHandler (w_bus w))\<rparr>)
      | DoUnsubscribe a \<Rightarrow>
          if a < length (b_objs (w_bus w)) then Some (w\<lparr>w_bus := Unsubscribe a (w_bus w)\<rparr>) else None
      | DoClose \<Rightarrow> Some (w\<lparr>w_bus := bus_Close (w_bus w)\<rparr>)
      | DoPublish ts ev \<Rightarrow>
          map_option (\<lambda>p. w\<lparr>w_pubs := w_pubs w @ [p]\<rparr>) (Publish_start ts ev (w_bus w))
      | DoPubStep i now ch \<Rightarrow>
          if i < length (w_pubs w) then
            map_option (\<lambda>(p, b). w\<lparr>w_bus := b, w_pubs := (w_pubs w)[i := p],
                w_published := (if pu_at (w_pubs w ! i) = AtSeq then w_published w @ [pu_ev p] else w_published w)\<rparr>)
              (Publish_step now ch (w_pubs w ! i) (w_bus w))
          else None
      | DoWorker a ch \<Rightarrow>
          if a < length (b_objs (w_bus w)) then map_option (\<lambda>b. w\<lparr>w_bus := b\<rparr>) (runSubscriber ch a (w_bus w))
          else None)"

text \<open>A sequence of actions, each within what the environment is allowed.\<close>

fun bus_run :: "('d world \<Rightarrow> 'd action \<Rightarrow> bool) \<Rightarrow> 'd action list \<Rightarrow> 'd world \<Rightarrow> 'd world option" where
  "bus_run allowed [] w = Some w"
| "bus_run allowed (act # acts) w =
     (if allowed w act then case bus_step act w of None \<Rightarrow> None | Some w \<Rightarrow> bus_run allowed acts w else None)"

subsection \<open>The transitions of a publisher\<close>

definition stamp :: "Time \<Rightarrow> u64 \<Rightarrow> 'd Event \<Rightarrow> 'd Event" where
  "stamp now n ev = (if IsZero (ev_Time ev) then ev\<lparr>ev_Seq := n, ev_Time := now\<rparr> else ev\<lparr>ev_Seq := n\<rparr>)"

lemma select_send_cases [consumes 1, case_names send fail]:
  assumes "select_send ch a p b = Some (p', b')"
  obtains "has_room (b_objs b ! a)" "p' = p\<lparr>pu_at := AtDelivered\<rparr>" "b' = enqueue a (pu_ev p) b"
  | e where "p' = p\<lparr>pu_at := Returned (Inl e)\<rparr>" "b' = b" "e = BusClosed \<Longrightarrow> b_done b" "e \<noteq> NilHandler" "e \<noteq> EmptyPattern"
proof (cases ch)
  case Send
  then show ?thesis using assms by (intro that(1)) (simp_all add: select_send_def split: if_splits)
next
  case (CtxDone m)
  then show ?thesis using assms by (intro that(2) [of "CtxError m"]) (simp_all add: select_send_def)
next
  case BusDone
  then show ?thesis using assms by (intro that(2) [of BusClosed]) (simp_all add: select_send_def split: if_splits)
qed

lemma Publish_step_cases [consumes 1, case_names seq counted last send full drop none dropped fail delivered]:
  assumes "Publish_step now ch p b = Some (p', b')"
  obtains "pu_at p = AtSeq" "p' = p\<lparr>pu_ev := stamp now (b_seq b + 1) (pu_ev p), pu_at := AtCount\<rparr>" "b' = b\<lparr>b_seq := b_seq b + 1\<rparr>"
  | "pu_at p = AtCount" "p' = p\<lparr>pu_at := AtSend\<rparr>" "b' = b\<lparr>b_pubCnt := b_pubCnt b + 1\<rparr>"
  | "pu_at p \<in> {AtSend, AtMakeRoom, AtDropCount, AtRetry, AtDelivered}" "pu_targets p = []"
      "p' = p\<lparr>pu_at := Returned (Inr ())\<rparr>" "b' = b"
  | a ts where "pu_at p \<in> {AtSend, AtRetry}" "pu_targets p = a # ts" "has_room (b_objs b ! a)"
      "p' = p\<lparr>pu_at := AtDelivered\<rparr>" "b' = enqueue a (pu_ev p) b"
  | a ts where "pu_at p = AtSend" "pu_targets p = a # ts" "su_policy (b_objs b ! a) = PolicyDropOldest"
      "\<not> has_room (b_objs b ! a)" "p' = p\<lparr>pu_at := AtMakeRoom\<rparr>" "b' = b"
  | a ts where "pu_at p = AtMakeRoom" "pu_targets p = a # ts" "su_queue (b_objs b ! a) \<noteq> []"
      "p' = p\<lparr>pu_at := AtDropCount\<rparr>" "b' = upd_sub a (\<lambda>s. s\<lparr>su_queue := tl (su_queue s)\<rparr>) b"
  | a ts where "pu_at p = AtMakeRoom" "pu_targets p = a # ts" "su_queue (b_objs b ! a) = []"
      "p' = p\<lparr>pu_at := AtRetry\<rparr>" "b' = b"
  | a ts where "pu_at p = AtDropCount" "pu_targets p = a # ts" "p' = p\<lparr>pu_at := AtRetry\<rparr>"
      "b' = b\<lparr>b_dropCnt := b_dropCnt b + 1\<rparr>"
  | a ts e where "pu_at p \<in> {AtSend, AtRetry}" "pu_targets p = a # ts"
      "pu_at p = AtSend \<Longrightarrow> su_policy (b_objs b ! a) = PolicyBlock"
      "p' = p\<lparr>pu_at := Returned (Inl e)\<rparr>" "b' = b" "e = BusClosed \<Longrightarrow> b_done b" "e \<noteq> NilHandler" "e \<noteq> EmptyPattern"
  | a ts where "pu_at p = AtDelivered" "pu_targets p = a # ts" "p' = p\<lparr>pu_targets := ts, pu_at := AtSend\<rparr>"
      "b' = b\<lparr>b_delCnt := b_delCnt b + 1\<rparr>"
proof (cases "pu_at p")
  case AtSeq
  then show ?thesis using assms by (intro that(1)) (simp_all add: Publish_step_def stamp_def Let_def split: if_splits)
next
  case AtCount
  then show ?thesis using assms by (intro that(2)) (simp_all add: Publish_step_def)
next
  case AtSend
  note at = this
  show ?thesis
  proof (cases "pu_targets p")
    case Nil
    then show ?thesis using at assms by (intro that(3)) (simp_all add: Publish_step_def)
  next
    case (Cons a ts)
    show ?thesis
    proof (cases "su_policy (b_objs b ! a)")
      case PolicyBlock
      then have "select_send ch a p b = Some (p', b')" using at Cons assms by (simp add: Publish_step_def Let_def)
      then show ?thesis
      proof (cases rule: select_send_cases)
        case send
        with at Cons show ?thesis by (intro that(4)) simp_all
      next
        case (fail e)
        with at Cons PolicyBlock show ?thesis by (intro that(9)) simp_all
      qed
    next
      case PolicyDropOldest
      then have "Publish_step now ch p b =
        (if has_room (b_objs b ! a) then Some (p\<lparr>pu_at := AtDelivered\<rparr>, enqueue a (pu_ev p) b)
         else Some (p\<lparr>pu_at := AtMakeRoom\<rparr>, b))"
        using at Cons by (simp add: Publish_step_def Let_def)
      then show ?thesis using at Cons PolicyDropOldest assms
        by (cases "has_room (b_objs b ! a)") (rule that(4) [of a ts] that(5) [of a ts]; (simp; fail))+
    qed
  qed
next
  case AtMakeRoom
  note at = this
  show ?thesis
  proof (cases "pu_targets p")
    case Nil
    then show ?thesis using at assms by (intro that(3)) (simp_all add: Publish_step_def)
  next
    case (Cons a ts)
    show ?thesis
    proof (cases "su_queue (b_objs b ! a) = []")
      case True
      with at Cons assms show ?thesis by (intro that(7)) (simp_all add: Publish_step_def Let_def)
    next
      case False
      with at Cons assms show ?thesis by (intro that(6)) (auto simp: Publish_step_def Let_def)
    qed
  qed
next
  case AtDropCount
  note at = this
  show ?thesis
  proof (cases "pu_targets p")
    case Nil
    then show ?thesis using at assms by (intro that(3)) (simp_all add: Publish_step_def)
  next
    case (Cons a ts)
    with at assms show ?thesis by (intro that(8)) (simp_all add: Publish_step_def Let_def)
  qed
next
  case AtRetry
  note at = this
  show ?thesis
  proof (cases "pu_targets p")
    case Nil
    then show ?thesis using at assms by (intro that(3)) (simp_all add: Publish_step_def)
  next
    case (Cons a ts)
    then have "select_send ch a p b = Some (p', b')" using at assms by (simp add: Publish_step_def Let_def)
    then show ?thesis
    proof (cases rule: select_send_cases)
      case send
      with at Cons show ?thesis by (intro that(4)) simp_all
    next
      case (fail e)
      with at Cons show ?thesis by (intro that(9)) simp_all
    qed
  qed
next
  case AtDelivered
  note at = this
  show ?thesis
  proof (cases "pu_targets p")
    case Nil
    then show ?thesis using at assms by (intro that(3)) (simp_all add: Publish_step_def)
  next
    case (Cons a ts)
    with at assms show ?thesis by (intro that(10)) (auto simp: Publish_step_def Let_def)
  qed
next
  case (Returned r)
  then show ?thesis using assms by (simp add: Publish_step_def)
qed

lemma upd_sub_simps [simp]:
  "b_objs (upd_sub a f b) = (b_objs b)[a := f (b_objs b ! a)]" "b_subs (upd_sub a f b) = b_subs b"
  "b_nextID (upd_sub a f b) = b_nextID b" "b_closed (upd_sub a f b) = b_closed b" "b_done (upd_sub a f b) = b_done b"
  "b_seq (upd_sub a f b) = b_seq b" "b_pubCnt (upd_sub a f b) = b_pubCnt b" "b_delCnt (upd_sub a f b) = b_delCnt b"
  "b_dropCnt (upd_sub a f b) = b_dropCnt b" "b_panics (upd_sub a f b) = b_panics b"
  by (simp_all add: upd_sub_def)

lemma fold_upd_sub [simp]:
  "b_subs (fold (\<lambda>a. upd_sub a f) as b) = b_subs b" "b_closed (fold (\<lambda>a. upd_sub a f) as b) = b_closed b"
  "b_done (fold (\<lambda>a. upd_sub a f) as b) = b_done b" "b_seq (fold (\<lambda>a. upd_sub a f) as b) = b_seq b"
  "b_delCnt (fold (\<lambda>a. upd_sub a f) as b) = b_delCnt b" "b_dropCnt (fold (\<lambda>a. upd_sub a f) as b) = b_dropCnt b"
  "length (b_objs (fold (\<lambda>a. upd_sub a f) as b)) = length (b_objs b)"
  by (induction as arbitrary: b) simp_all

subsection \<open>The invariant of every run\<close>

inductive bus_reach :: "('d world \<Rightarrow> 'd action \<Rightarrow> bool) \<Rightarrow> 'd world \<Rightarrow> bool" for allowed where
  start: "bus_reach allowed initial_world"
| act: "bus_reach allowed w \<Longrightarrow> allowed w x \<Longrightarrow> bus_step x w = Some w' \<Longrightarrow> bus_reach allowed w'"

lemma bus_run_reach: "bus_reach allowed w \<Longrightarrow> bus_run allowed acts w = Some w' \<Longrightarrow> bus_reach allowed w'"
  by (induction acts arbitrary: w) (auto intro: bus_reach.act split: if_splits option.splits)

text \<open>
  Every queue is within its capacity, the registry and the publishers hold live
  addresses, each subscription once, and the counters account for every event put
  into a queue: it is still there, was received by the worker, or was dropped.
\<close>

definition sub_ok :: "'d subscription \<Rightarrow> bool" where
  "sub_ok s \<longleftrightarrow> 1 \<le> su_cap s \<and> length (su_queue s) \<le> su_cap s"

definition bus_ok :: "'d Bus \<Rightarrow> bool" where
  "bus_ok b \<longleftrightarrow> list_all sub_ok (b_objs b) \<and> list_all (\<lambda>x. snd x < length (b_objs b)) (b_subs b) \<and>
     distinct (map fst (b_subs b)) \<and> distinct (map snd (b_subs b))"

definition pub_ok :: "nat \<Rightarrow> 'd publisher \<Rightarrow> bool" where
  "pub_ok n p \<longleftrightarrow> distinct (pu_targets p) \<and> list_all (\<lambda>a. a < n) (pu_targets p) \<and>
     (pu_at p \<in> {AtMakeRoom, AtDropCount, AtRetry, AtDelivered} \<longrightarrow> pu_targets p \<noteq> [])"

definition weight :: "'d subscription \<Rightarrow> u64" where
  "weight s = of_nat (length (su_seen s) + length (su_queue s))"

definition stored :: "'d Bus \<Rightarrow> u64" where
  "stored b = sum_list (map weight (b_objs b))"

definition tally :: "pub_at \<Rightarrow> 'd publisher list \<Rightarrow> u64" where
  "tally at ps = sum_list (map (\<lambda>p. of_bool (pu_at p = at)) ps)"

definition accounted :: "'d world \<Rightarrow> bool" where
  "accounted w \<longleftrightarrow> b_delCnt (w_bus w) + tally AtDelivered (w_pubs w)
     = stored (w_bus w) + b_dropCnt (w_bus w) + tally AtDropCount (w_pubs w)"

definition bus_inv :: "'d world \<Rightarrow> bool" where
  "bus_inv w \<longleftrightarrow> bus_ok (w_bus w) \<and> list_all (pub_ok (length (b_objs (w_bus w)))) (w_pubs w) \<and> accounted w"

lemma sum_list_map_update:
  fixes f :: "'a \<Rightarrow> 'b::ab_group_add"
  shows "i < length xs \<Longrightarrow> sum_list (map f (xs[i := x])) = sum_list (map f xs) + f x - f (xs ! i)"
  by (induction xs arbitrary: i) (auto split: nat.splits)

lemma of_nat_sum_list_map: "of_nat (sum_list (map f xs)) = sum_list (map (\<lambda>x. of_nat (f x)) xs)"
  by (induction xs) simp_all

lemma stored_nat: "stored b = of_nat (\<Sum>s \<leftarrow> b_objs b. length (su_seen s) + length (su_queue s))"
  unfolding stored_def weight_def of_nat_sum_list_map ..

lemma tally_update:
  "i < length ps \<Longrightarrow> tally at (ps[i := p]) = tally at ps + of_bool (pu_at p = at) - of_bool (pu_at (ps ! i) = at)"
  unfolding tally_def by (rule sum_list_map_update)

lemma stored_upd_sub:
  "a < length (b_objs b) \<Longrightarrow> stored (upd_sub a f b) = stored b + weight (f (b_objs b ! a)) - weight (b_objs b ! a)"
  by (simp add: stored_def sum_list_map_update)

lemma stored_cong: "b_objs b = b_objs b' \<Longrightarrow> stored b = stored b'"
  by (simp add: stored_def)

lemma bus_ok_upd_sub:
  "bus_ok b \<Longrightarrow> (a < length (b_objs b) \<Longrightarrow> sub_ok (f (b_objs b ! a))) \<Longrightarrow> bus_ok (upd_sub a f b)"
  by (cases "a < length (b_objs b)") (auto simp: bus_ok_def list_all_length nth_list_update)

lemma distinct_map_filter_fst: "distinct (map f xs) \<Longrightarrow> distinct (map f (filter P xs))"
  by (induction xs) auto

lemma bus_ok_filter: "bus_ok b \<Longrightarrow> bus_ok (b\<lparr>b_subs := filter P (b_subs b)\<rparr>)"
  by (auto simp: bus_ok_def distinct_map_filter_fst list_all_iff)

lemma bus_ok_nth: "bus_ok b \<Longrightarrow> a < length (b_objs b) \<Longrightarrow> sub_ok (b_objs b ! a)"
  by (simp add: bus_ok_def list_all_length)

lemma Subscribe_cases [consumes 1, case_names fail new]:
  assumes "Subscribe pattern n policy nilHandler b = (b', r)"
  obtains "b' = b" "\<exists>e. r = Inl e"
  | i s where "\<not> b_closed b" "r = Inr (length (b_objs b))" "sub_ok s" "weight s = 0" "su_queue s = []" "su_seen s = []"
      "b' = b\<lparr>b_nextID := i, b_objs := b_objs b @ [s], b_subs := (i, length (b_objs b)) # filter (\<lambda>(j, _). j \<noteq> i) (b_subs b)\<rparr>"
proof (cases "nilHandler \<or> pattern = '''' \<or> b_closed b")
  case True
  then show ?thesis using assms by (intro that(1)) (auto simp: Subscribe_def Let_def split: if_splits)
next
  case False
  let ?s = "new_subscription (b_nextID b + 1) pattern (if n < 1 then 1 else n) policy"
  show ?thesis using False assms
    by (intro that(2) [of ?s "b_nextID b + 1"])
      (auto simp: Subscribe_def Let_def sub_ok_def new_subscription_def weight_def)
qed

lemma bus_ok_Subscribe:
  assumes "bus_ok b" "Subscribe pattern n policy nilHandler b = (b', r)"
  shows "bus_ok b' \<and> stored b' = stored b \<and> b_delCnt b' = b_delCnt b \<and> b_dropCnt b' = b_dropCnt b \<and>
    length (b_objs b) \<le> length (b_objs b')"
  using assms(2)
proof (cases rule: Subscribe_cases)
  case fail
  then show ?thesis using assms(1) by simp
next
  case (new i s)
  have "bus_ok (b\<lparr>b_subs := filter (\<lambda>(j, _). j \<noteq> i) (b_subs b)\<rparr>)" using assms(1) by (rule bus_ok_filter)
  then have "bus_ok b'" using new
    by (auto simp: bus_ok_def list_all_iff) (metis less_Suc_eq, metis less_irrefl)
  then show ?thesis using new by (simp add: stored_def)
qed

lemma fold_cancel:
  assumes "bus_ok b"
  shows "bus_ok (fold (\<lambda>a. upd_sub a (\<lambda>s. s\<lparr>su_cancelled := True\<rparr>)) as b) \<and>
    stored (fold (\<lambda>a. upd_sub a (\<lambda>s. s\<lparr>su_cancelled := True\<rparr>)) as b) = stored b"
  using assms
proof (induction as arbitrary: b)
  case (Cons a as)
  have "bus_ok (upd_sub a (\<lambda>s. s\<lparr>su_cancelled := True\<rparr>) b)"
    using Cons.prems bus_ok_nth [OF Cons.prems] by (intro bus_ok_upd_sub) (auto simp: sub_ok_def)
  moreover have "stored (upd_sub a (\<lambda>s. s\<lparr>su_cancelled := True\<rparr>) b) = stored b"
    by (cases "a < length (b_objs b)") (simp add: stored_upd_sub weight_def, simp add: stored_def list_update_beyond)
  ultimately show ?case using Cons.IH by simp
qed simp

lemma bus_ok_Close:
  assumes "bus_ok b"
  shows "bus_ok (bus_Close b) \<and> stored (bus_Close b) = stored b"
proof -
  have "bus_ok (b\<lparr>b_closed := True, b_subs := [], b_done := True\<rparr>)" using assms by (simp add: bus_ok_def)
  note fold_cancel [OF this, of "map snd (b_subs b)"]
  moreover have "stored (b\<lparr>b_closed := True, b_subs := [], b_done := True\<rparr>) = stored b" by (simp add: stored_def)
  ultimately show ?thesis using assms by (simp add: bus_Close_def Let_def)
qed

lemma bus_Close_simps [simp]:
  "length (b_objs (bus_Close b)) = length (b_objs b)" "b_delCnt (bus_Close b) = b_delCnt b"
  "b_dropCnt (bus_Close b) = b_dropCnt b"
  by (simp_all add: bus_Close_def Let_def)

lemma bus_ok_remove:
  assumes "bus_ok b" "a < length (b_objs b)"
  shows "bus_ok (bus_remove a b) \<and> stored (bus_remove a b) = stored b"
proof -
  let ?b = "b\<lparr>b_subs := filter (\<lambda>(j, _). j \<noteq> su_id (b_objs b ! a)) (b_subs b)\<rparr>"
  have "bus_ok ?b" using assms(1) by (rule bus_ok_filter)
  then show ?thesis using fold_cancel [of ?b "[a]"] by (simp add: bus_remove_def Let_def) (simp add: stored_def)
qed

lemma bus_remove_simps [simp]:
  "length (b_objs (bus_remove a b)) = length (b_objs b)" "b_delCnt (bus_remove a b) = b_delCnt b"
  "b_dropCnt (bus_remove a b) = b_dropCnt b"
  by (simp_all add: bus_remove_def Let_def)

lemma targets_of_ok:
  assumes "bus_ok b" "Publish_start ts ev b = Some p"
  shows "pub_ok (length (b_objs b)) p \<and> pu_at p \<noteq> AtDelivered \<and> pu_at p \<noteq> AtDropCount"
proof -
  have "distinct (targets_of b (ev_Type ev))" "\<forall>a \<in> set (targets_of b (ev_Type ev)). a < length (b_objs b)"
    using assms(1) by (auto simp: targets_of_def bus_ok_def list_all_iff)
  moreover have "distinct ts \<and> set ts = set (targets_of b (ev_Type ev))" if "mset ts = mset (targets_of b (ev_Type ev))"
    using that calculation(1) by (metis mset_eq_imp_distinct_iff set_mset_mset)
  ultimately show ?thesis using assms(2)
    by (auto simp: Publish_start_def pub_ok_def list_all_iff split: if_splits)
qed

lemma weight_simps [simp]:
  "weight (s\<lparr>su_queue := q\<rparr>) = of_nat (length (su_seen s) + length q)"
  "weight (s\<lparr>su_returned := r\<rparr>) = weight s"
  "weight (s\<lparr>su_queue := q, su_seen := x\<rparr>) = of_nat (length x + length q)"
  by (simp_all add: weight_def)

lemma Publish_step_ok:
  assumes "bus_ok b" "pub_ok (length (b_objs b)) p" "Publish_step now ch p b = Some (p', b')"
  shows "bus_ok b' \<and> length (b_objs b') = length (b_objs b) \<and> pub_ok (length (b_objs b)) p' \<and>
    b_delCnt b' + of_bool (pu_at p' = AtDelivered) - (stored b' + b_dropCnt b' + of_bool (pu_at p' = AtDropCount)) =
    b_delCnt b + of_bool (pu_at p = AtDelivered) - (stored b + b_dropCnt b + of_bool (pu_at p = AtDropCount))"
  using assms(3)
proof (cases rule: Publish_step_cases)
  case (send a ts)
  then have a: "a < length (b_objs b)" using assms(2) by (simp add: pub_ok_def)
  then have "bus_ok b'" unfolding send enqueue_def using assms(1) send(3) bus_ok_nth [OF assms(1) a]
    by (intro bus_ok_upd_sub) (auto simp: sub_ok_def has_room_def)
  then show ?thesis using send a assms(2)
    by (auto simp: enqueue_def stored_upd_sub weight_def pub_ok_def algebra_simps)
next
  case (drop a ts)
  then have a: "a < length (b_objs b)" using assms(2) by (simp add: pub_ok_def)
  then have "bus_ok b'" unfolding drop using assms(1) bus_ok_nth [OF assms(1) a]
    by (intro bus_ok_upd_sub) (auto simp: sub_ok_def)
  then show ?thesis using drop a assms(2)
    by (cases "su_queue (b_objs b ! a)") (auto simp: stored_upd_sub weight_def pub_ok_def algebra_simps)
qed (use assms(1,2) in \<open>auto simp: pub_ok_def bus_ok_def stored_def algebra_simps\<close>)

lemma runSubscriber_ok:
  assumes "bus_ok b" "a < length (b_objs b)" "runSubscriber ch a b = Some b'"
  shows "bus_ok b' \<and> length (b_objs b') = length (b_objs b) \<and> stored b' = stored b \<and>
    b_delCnt b' = b_delCnt b \<and> b_dropCnt b' = b_dropCnt b"
proof -
  have panic: "bus_ok (bus_invoke x c) = bus_ok c \<and> stored (bus_invoke x c) = stored c \<and> b_objs (bus_invoke x c) = b_objs c \<and>
     b_delCnt (bus_invoke x c) = b_delCnt c \<and> b_dropCnt (bus_invoke x c) = b_dropCnt c" for x and c :: "'a Bus"
    by (simp add: bus_invoke_def bus_ok_def stored_def)
  have ok: "bus_ok (upd_sub a f b)" if "sub_ok (f (b_objs b ! a))" for f
    using assms(1) that by (intro bus_ok_upd_sub)
  show ?thesis using assms bus_ok_nth [OF assms(1,2)]
    by (cases ch) (auto simp: runSubscriber_def Let_def panic stored_upd_sub weight_def sub_ok_def intro!: ok split: if_splits list.splits)
qed

lemma bus_inv_start: "bus_inv initial_world"
  by (simp add: bus_inv_def initial_world_def NewBus_def bus_ok_def accounted_def stored_def tally_def)

lemma pub_ok_mono: "pub_ok m p \<Longrightarrow> m \<le> n \<Longrightarrow> pub_ok n p"
  by (auto simp: pub_ok_def list_all_iff)

lemma list_all_update: "list_all P xs \<Longrightarrow> P x \<Longrightarrow> list_all P (xs[i := x])"
  by (cases "i < length xs") (auto simp: list_all_length nth_list_update)

lemma bus_inv_bus:
  assumes "bus_inv w" "bus_ok b" "stored b = stored (w_bus w)" "b_delCnt b = b_delCnt (w_bus w)"
    "b_dropCnt b = b_dropCnt (w_bus w)" "length (b_objs (w_bus w)) \<le> length (b_objs b)"
  shows "bus_inv (w\<lparr>w_bus := b\<rparr>)"
  using assms pub_ok_mono by (auto simp: bus_inv_def accounted_def list_all_iff)

lemma bus_step_pub:
  assumes "bus_step (DoPubStep i now ch) w = Some w'"
  shows "\<exists>p b. i < length (w_pubs w) \<and> Publish_step now ch (w_pubs w ! i) (w_bus w) = Some (p, b) \<and>
    w_bus w' = b \<and> w_pubs w' = (w_pubs w)[i := p] \<and>
    w_published w' = (if pu_at (w_pubs w ! i) = AtSeq then w_published w @ [pu_ev p] else w_published w)"
  using assms by (cases "pu_at (w_pubs w ! i) = AtSeq") (auto simp: bus_step_def split: if_splits)

lemma bus_inv_pub_step:
  assumes inv: "bus_inv w" and i: "i < length (w_pubs w)" and st: "Publish_step now ch (w_pubs w ! i) (w_bus w) = Some (p, b)"
  shows "bus_inv (w\<lparr>w_bus := b, w_pubs := (w_pubs w)[i := p]\<rparr>)"
proof -
  have ok: "bus_ok (w_bus w)" "list_all (pub_ok (length (b_objs (w_bus w)))) (w_pubs w)" "accounted w"
    using inv by (simp_all add: bus_inv_def)
  have "pub_ok (length (b_objs (w_bus w))) (w_pubs w ! i)" using ok(2) i by (simp add: list_all_length)
  note step = Publish_step_ok [OF ok(1) this st]
  let ?p = "w_pubs w ! i"
  have "b_delCnt b + (tally AtDelivered (w_pubs w) + of_bool (pu_at p = AtDelivered) - of_bool (pu_at ?p = AtDelivered))
      - (stored b + b_dropCnt b + (tally AtDropCount (w_pubs w) + of_bool (pu_at p = AtDropCount) - of_bool (pu_at ?p = AtDropCount)))
    = (b_delCnt b + of_bool (pu_at p = AtDelivered) - (stored b + b_dropCnt b + of_bool (pu_at p = AtDropCount)))
      - (b_delCnt (w_bus w) + of_bool (pu_at ?p = AtDelivered) - (stored (w_bus w) + b_dropCnt (w_bus w) + of_bool (pu_at ?p = AtDropCount)))
      + (b_delCnt (w_bus w) + tally AtDelivered (w_pubs w) - (stored (w_bus w) + b_dropCnt (w_bus w) + tally AtDropCount (w_pubs w)))"
    by (simp only: algebra_simps)
  also have "\<dots> = 0" using step ok(3) by (simp add: accounted_def)
  finally show ?thesis
    using step ok(2) i unfolding bus_inv_def accounted_def by (simp add: tally_update list_all_update)
qed

lemma bus_inv_step:
  assumes inv: "bus_inv w" and st: "bus_step x w = Some w'"
  shows "bus_inv w'"
proof -
  have ok: "bus_ok (w_bus w)" using inv by (simp add: bus_inv_def)
  show ?thesis
  proof (cases x)
    case (DoSubscribe pattern n policy nilHandler)
    obtain b r where "Subscribe pattern n policy nilHandler (w_bus w) = (b, r)" by force
    then show ?thesis using st DoSubscribe bus_ok_Subscribe [OF ok] inv
      by (auto simp: bus_step_def intro!: bus_inv_bus)
  next
    case (DoUnsubscribe a)
    then show ?thesis using st bus_ok_remove [OF ok, of a] inv
      by (auto simp: bus_step_def Unsubscribe_def intro!: bus_inv_bus split: if_splits)
  next
    case DoClose
    then show ?thesis using st bus_ok_Close [OF ok] inv by (auto simp: bus_step_def intro!: bus_inv_bus)
  next
    case (DoPublish ts ev)
    then show ?thesis using st targets_of_ok [OF ok, of ts ev] inv
      by (auto simp: bus_step_def bus_inv_def accounted_def tally_def)
  next
    case (DoPubStep i now ch)
    then obtain p b where "i < length (w_pubs w)" "Publish_step now ch (w_pubs w ! i) (w_bus w) = Some (p, b)"
      "w_bus w' = b" "w_pubs w' = (w_pubs w)[i := p]"
      using bus_step_pub st by metis
    then show ?thesis using bus_inv_pub_step [OF inv, of i now ch p b] by (simp add: bus_inv_def accounted_def)
  next
    case (DoWorker a ch)
    then show ?thesis using st runSubscriber_ok [OF ok, of a ch] inv
      by (auto simp: bus_step_def intro!: bus_inv_bus split: if_splits)
  qed
qed

lemma bus_reach_inv: "bus_reach allowed w \<Longrightarrow> bus_inv w"
  by (induction rule: bus_reach.induct) (auto intro: bus_inv_start bus_inv_step)

subsection \<open>Publishers one after the other\<close>

text \<open>
  Runs in which a publish starts only when the earlier ones have returned. What a
  subscriber has received and has queued is then a subsequence of what was
  published, and a publisher that made room finds it when it retries.
\<close>

definition is_returned :: "'d publisher \<Rightarrow> bool" where
  "is_returned p = (case pu_at p of Returned r \<Rightarrow> True | _ \<Rightarrow> False)"

definition serial :: "'d world \<Rightarrow> 'd action \<Rightarrow> bool" where
  "serial w x = (case x of DoPublish ts ev \<Rightarrow> list_all is_returned (w_pubs w) | _ \<Rightarrow> True)"

definition trace :: "'d subscription \<Rightarrow> 'd Event list" where
  "trace s = su_seen s @ su_queue s"

definition pending :: "'d publisher \<Rightarrow> nat list" where
  "pending p = (if pu_at p = AtDelivered then tl (pu_targets p) else pu_targets p)"

text \<open>What holds of the one publisher in flight.\<close>

definition flight_ok :: "'d Event list \<Rightarrow> 'd Bus \<Rightarrow> 'd publisher \<Rightarrow> bool" where
  "flight_ok pub b p \<longleftrightarrow>
     (pu_at p \<noteq> AtSeq \<longrightarrow> pub \<noteq> [] \<and> last pub = pu_ev p \<and>
        (\<forall>a \<in> set (pending p). subseq (trace (b_objs b ! a)) (butlast pub))) \<and>
     (pu_at p \<in> {AtDropCount, AtRetry} \<longrightarrow> has_room (b_objs b ! hd (pu_targets p)))"

definition ord_inv :: "'d world \<Rightarrow> bool" where
  "ord_inv w \<longleftrightarrow>
     (\<forall>s \<in> set (b_objs (w_bus w)). subseq (trace s) (w_published w)) \<and>
     (\<forall>i < length (w_pubs w). \<not> is_returned (w_pubs w ! i) \<longrightarrow>
        (\<forall>j < length (w_pubs w). j \<noteq> i \<longrightarrow> is_returned (w_pubs w ! j)) \<and>
        flight_ok (w_published w) (w_bus w) (w_pubs w ! i))"

text \<open>Bus changes that touch no trace and only make room.\<close>

definition calmer :: "'d Bus \<Rightarrow> 'd Bus \<Rightarrow> bool" where
  "calmer b b' \<longleftrightarrow> length (b_objs b) \<le> length (b_objs b') \<and>
     (\<forall>a < length (b_objs b). trace (b_objs b' ! a) = trace (b_objs b ! a) \<and>
        length (su_queue (b_objs b' ! a)) \<le> length (su_queue (b_objs b ! a)) \<and> su_cap (b_objs b' ! a) = su_cap (b_objs b ! a)) \<and>
     (\<forall>a < length (b_objs b'). length (b_objs b) \<le> a \<longrightarrow> trace (b_objs b' ! a) = [])"

lemma calmer_refl: "calmer b b"
  by (simp add: calmer_def)

lemma calmer_trans:
  assumes "calmer b c" "calmer c d"
  shows "calmer b d"
proof -
  have "trace (b_objs d ! a) = []" if "a < length (b_objs d)" "length (b_objs b) \<le> a" for a
    using that assms by (cases "a < length (b_objs c)") (simp_all add: calmer_def)
  moreover have "length (su_queue (b_objs d ! a)) \<le> length (su_queue (b_objs b ! a))" if "a < length (b_objs b)" for a
    using that assms le_trans [of "length (su_queue (b_objs d ! a))" "length (su_queue (b_objs c ! a))"] by (simp add: calmer_def)
  ultimately show ?thesis using assms by (simp add: calmer_def)
qed

lemma calmer_same: "b_objs b = b_objs b' \<Longrightarrow> calmer b b'"
  by (simp add: calmer_def)

lemma calmer_upd:
  assumes "trace (f (b_objs b ! a)) = trace (b_objs b ! a)" "length (su_queue (f (b_objs b ! a))) \<le> length (su_queue (b_objs b ! a))"
    "su_cap (f (b_objs b ! a)) = su_cap (b_objs b ! a)"
  shows "calmer b (upd_sub a f b)"
  using assms by (cases "a < length (b_objs b)") (auto simp: calmer_def nth_list_update list_update_beyond)

lemma calmer_fold_cancel: "calmer b (fold (\<lambda>a. upd_sub a (\<lambda>s. s\<lparr>su_cancelled := True\<rparr>)) as b)"
proof (induction as arbitrary: b)
  case (Cons a as)
  have "calmer b (upd_sub a (\<lambda>s. s\<lparr>su_cancelled := True\<rparr>) b)" by (rule calmer_upd) (simp_all add: trace_def)
  then show ?case using Cons calmer_trans by fastforce
qed (simp add: calmer_refl)

lemma calmer_steps:
  "calmer b (fst (Subscribe pattern n policy nilHandler b))"
  "calmer b (Unsubscribe a b)"
  "calmer b (bus_Close b)"
  "runSubscriber ch a b = Some b' \<Longrightarrow> calmer b b'"
proof -
  obtain c r where c: "Subscribe pattern n policy nilHandler b = (c, r)" by force
  then have "calmer b c"
  proof (cases rule: Subscribe_cases)
    case (new i s)
    then show ?thesis by (auto simp: calmer_def nth_append trace_def)
  qed (simp add: calmer_refl)
  with c show "calmer b (fst (Subscribe pattern n policy nilHandler b))" by simp
next
  show "calmer b (Unsubscribe a b)"
    unfolding Unsubscribe_def bus_remove_def Let_def
    by (rule calmer_trans [OF calmer_same calmer_upd]) (simp_all add: trace_def)
next
  show "calmer b (bus_Close b)"
    by (auto simp: bus_Close_def Let_def calmer_refl intro: calmer_trans [OF calmer_same calmer_fold_cancel])
next
  have panic: "b_objs (bus_invoke x c) = b_objs c" for x and c :: "'a Bus" by (simp add: bus_invoke_def)
  assume r: "runSubscriber ch a b = Some b'"
  show "calmer b b'"
  proof (cases ch)
    case TakeDone
    then show ?thesis using r by (auto simp: runSubscriber_def Let_def trace_def intro!: calmer_upd split: if_splits)
  next
    case (TakeEvent x)
    then obtain ev evs where "su_queue (b_objs b ! a) = ev # evs"
      "b' = bus_invoke x (upd_sub a (\<lambda>s. s\<lparr>su_queue := evs, su_seen := su_seen s @ [ev]\<rparr>) b)"
      using r by (auto simp: runSubscriber_def Let_def split: if_splits list.splits)
    moreover from this(1) have "calmer b (upd_sub a (\<lambda>s. s\<lparr>su_queue := evs, su_seen := su_seen s @ [ev]\<rparr>) b)"
      by (intro calmer_upd) (simp_all add: trace_def)
    ultimately show ?thesis by (simp add: calmer_trans [OF _ calmer_same] panic)
  qed
qed

lemma calmer_room: "calmer b b' \<Longrightarrow> a < length (b_objs b) \<Longrightarrow> has_room (b_objs b ! a) \<Longrightarrow> has_room (b_objs b' ! a)"
  by (auto simp: calmer_def has_room_def)

lemma flight_ok_calmer:
  assumes "flight_ok pub b p" "pub_ok (length (b_objs b)) p" "calmer b b'"
  shows "flight_ok pub b' p"
proof -
  have "a < length (b_objs b)" if "a \<in> set (pending p)" for a
    using that assms(2) by (auto simp: pending_def pub_ok_def list_all_iff dest: list.set_sel(2) [rotated] split: if_splits)
  moreover have "hd (pu_targets p) < length (b_objs b)" if "pu_at p \<in> {AtDropCount, AtRetry}"
    using that assms(2) by (auto simp: pub_ok_def list_all_iff)
  ultimately show ?thesis using assms(1,3) calmer_room [OF assms(3)] by (auto simp: flight_ok_def calmer_def)
qed

lemma ord_inv_calmer:
  assumes "bus_inv w" "ord_inv w" "calmer (w_bus w) b"
  shows "ord_inv (w\<lparr>w_bus := b\<rparr>)"
proof -
  have "subseq (trace (b_objs b ! a)) (w_published w)" if "a < length (b_objs b)" for a
    using that assms(2,3) by (cases "a < length (b_objs (w_bus w))") (auto simp: ord_inv_def calmer_def)
  then show ?thesis using assms flight_ok_calmer [OF _ _ assms(3)]
    by (auto simp: ord_inv_def in_set_conv_nth bus_inv_def list_all_length)
qed

lemma subseq_snoc_last: "subseq xs (butlast pub) \<Longrightarrow> pub \<noteq> [] \<Longrightarrow> last pub = ev \<Longrightarrow> subseq (xs @ [ev]) pub"
  using list_emb_append_mono [of "(=)" xs "butlast pub" "[ev]" "[ev]"] by (metis append_butlast_last_id list_emb_refl)

lemma subseq_drop: "subseq (xs @ tl ys) (xs @ ys)"
  by (induction xs) (cases ys; auto)+

lemma subseq_trace_send:
  assumes "flight_ok pub b p" "pub_ok (length (b_objs b)) p" "pu_at p \<in> {AtSend, AtRetry}" "pu_targets p = a # ts"
    and all: "\<forall>s \<in> set (b_objs b). subseq (trace s) pub"
  shows "(\<forall>s \<in> set (b_objs (enqueue a (pu_ev p) b)). subseq (trace s) pub) \<and>
    flight_ok pub (enqueue a (pu_ev p) b) (p\<lparr>pu_at := AtDelivered\<rparr>)"
proof -
  have a: "a < length (b_objs b)" "a \<notin> set ts" using assms(2,4) by (simp_all add: pub_ok_def)
  have f: "pub \<noteq> []" "last pub = pu_ev p" "\<forall>c \<in> set (a # ts). subseq (trace (b_objs b ! c)) (butlast pub)"
    using assms(1,3,4) by (auto simp: flight_ok_def pending_def)
  then have "subseq (trace (b_objs b ! a) @ [pu_ev p]) pub" by (simp add: subseq_snoc_last)
  then have "\<forall>s \<in> set (b_objs (enqueue a (pu_ev p) b)). subseq (trace s) pub"
    using all set_update_subset_insert [of "b_objs b" a] by (fastforce simp: enqueue_def trace_def)
  moreover have "\<forall>c \<in> set ts. b_objs (enqueue a (pu_ev p) b) ! c = b_objs b ! c"
    using a(2) by (auto simp: enqueue_def intro!: nth_list_update_neq)
  ultimately show ?thesis using f assms(4) by (simp add: flight_ok_def pending_def)
qed

lemma subseq_trace_drop:
  assumes "flight_ok pub b p" "pub_ok (length (b_objs b)) p" "pu_at p = AtMakeRoom" "pu_targets p = a # ts"
    and q: "su_queue (b_objs b ! a) \<noteq> []" and ok: "bus_ok b" and all: "\<forall>s \<in> set (b_objs b). subseq (trace s) pub"
  shows "let b' = upd_sub a (\<lambda>s. s\<lparr>su_queue := tl (su_queue s)\<rparr>) b in
    (\<forall>s \<in> set (b_objs b'). subseq (trace s) pub) \<and> flight_ok pub b' (p\<lparr>pu_at := AtDropCount\<rparr>)"
proof -
  let ?b = "upd_sub a (\<lambda>s. s\<lparr>su_queue := tl (su_queue s)\<rparr>) b"
  have a: "a < length (b_objs b)" "\<forall>c \<in> set ts. c < length (b_objs b)" using assms(2,4) by (simp_all add: pub_ok_def list_all_iff)
  have sub: "subseq (trace (b_objs ?b ! c)) (trace (b_objs b ! c))" if "c < length (b_objs b)" for c
    using that by (cases "c = a") (simp_all add: trace_def subseq_drop)
  have "has_room (b_objs ?b ! a)" using bus_ok_nth [OF ok a(1)] q a(1)
    by (cases "su_queue (b_objs b ! a)") (simp_all add: has_room_def sub_ok_def)
  moreover have "subseq (trace (b_objs ?b ! c)) (butlast pub)" if "c \<in> set (a # ts)" for c
  proof -
    have "subseq (trace (b_objs b ! c)) (butlast pub)"
      using that assms(1,3,4) by (auto simp: flight_ok_def pending_def)
    moreover have "c < length (b_objs b)" using that a by auto
    ultimately show ?thesis using sub subseq_order.trans by blast
  qed
  moreover have "\<forall>s \<in> set (b_objs ?b). subseq (trace s) pub"
  proof
    fix s assume "s \<in> set (b_objs ?b)"
    then obtain c where c: "c < length (b_objs b)" "s = b_objs ?b ! c" by (auto simp: in_set_conv_nth)
    have "subseq (trace (b_objs b ! c)) pub" using all nth_mem [OF c(1)] by blast
    then show "subseq (trace s) pub" using sub [OF c(1)] subseq_order.trans unfolding c(2) by blast
  qed
  ultimately show ?thesis using assms(1,3,4) by (simp add: flight_ok_def pending_def Let_def)
qed

lemma flight_step:
  assumes ok: "bus_ok b" "pub_ok (length (b_objs b)) p" and f: "flight_ok pub b p"
    and all: "\<forall>s \<in> set (b_objs b). subseq (trace s) pub" and st: "Publish_step now ch p b = Some (p', b')"
  defines "pub' \<equiv> if pu_at p = AtSeq then pub @ [pu_ev p'] else pub"
  shows "(\<forall>s \<in> set (b_objs b'). subseq (trace s) pub') \<and> (is_returned p' \<or> flight_ok pub' b' p')"
  using st
proof (cases rule: Publish_step_cases)
  case seq
  have "subseq (trace s) (pub @ [e])" if "s \<in> set (b_objs b)" for s e using that all by (simp add: subseq_rev_drop_many)
  moreover have "subseq (trace (b_objs b ! a)) pub" if "a \<in> set (pu_targets p)" for a
    using that all ok(2) by (simp add: pub_ok_def list_all_iff)
  ultimately show ?thesis using seq by (simp add: pub'_def flight_ok_def pending_def)
next
  case (send a ts)
  then show ?thesis using subseq_trace_send [OF f ok(2) _ _ all, of a ts] by (auto simp: pub'_def)
next
  case (drop a ts)
  then show ?thesis using subseq_trace_drop [OF f ok(2) _ _ _ ok(1) all, of a ts] by (simp add: pub'_def Let_def)
next
  case (none a ts)
  then have "has_room (b_objs b ! a)"
    using ok bus_ok_nth [OF ok(1), of a] by (auto simp: has_room_def sub_ok_def pub_ok_def)
  then show ?thesis using none f all by (simp add: pub'_def flight_ok_def pending_def)
qed (use f all in \<open>auto simp: pub'_def flight_ok_def pending_def is_returned_def\<close>)

lemma ord_inv_pub_step:
  assumes inv: "bus_inv w" "ord_inv w" and st: "bus_step (DoPubStep i now ch) w = Some w'"
  shows "ord_inv w'"
proof -
  obtain p b where i: "i < length (w_pubs w)" and p: "Publish_step now ch (w_pubs w ! i) (w_bus w) = Some (p, b)"
    and w': "w_bus w' = b" "w_pubs w' = (w_pubs w)[i := p]"
      "w_published w' = (if pu_at (w_pubs w ! i) = AtSeq then w_published w @ [pu_ev p] else w_published w)"
    using bus_step_pub [OF st] by auto
  have "\<not> is_returned (w_pubs w ! i)" using p by (auto simp: is_returned_def Publish_step_def split: pub_at.splits)
  then have f: "flight_ok (w_published w) (w_bus w) (w_pubs w ! i)"
    and others: "\<forall>j < length (w_pubs w). j \<noteq> i \<longrightarrow> is_returned (w_pubs w ! j)"
    using inv(2) i by (simp_all add: ord_inv_def)
  have all: "\<forall>s \<in> set (b_objs (w_bus w)). subseq (trace s) (w_published w)" using inv(2) by (simp add: ord_inv_def)
  have ok: "bus_ok (w_bus w)" "pub_ok (length (b_objs (w_bus w))) (w_pubs w ! i)"
    using inv(1) i by (simp_all add: bus_inv_def list_all_length)
  note new = flight_step [OF ok f all p, folded w'(3)]
  have "\<forall>k < length (w_pubs w'). \<not> is_returned (w_pubs w' ! k) \<longrightarrow> k = i"
    using others i w'(2) by (auto simp: nth_list_update)
  then show ?thesis unfolding ord_inv_def using new others i w'(1,2) by (auto simp: nth_list_update)
qed

lemma ord_inv_step:
  assumes "bus_inv w" "ord_inv w" "serial w x" "bus_step x w = Some w'"
  shows "ord_inv w'"
proof (cases x)
  case (DoPublish ts ev)
  then obtain p where "w' = w\<lparr>w_pubs := w_pubs w @ [p]\<rparr>" "is_returned p \<or> pu_at p = AtSeq"
    using assms(4) by (auto simp: bus_step_def Publish_start_def is_returned_def split: if_splits)
  then show ?thesis using assms(2,3) DoPublish
    by (auto simp: ord_inv_def serial_def list_all_length nth_append flight_ok_def less_Suc_eq)
next
  case (DoPubStep i now ch)
  then show ?thesis using assms ord_inv_pub_step by blast
next
  case (DoSubscribe pattern n policy nilHandler)
  then show ?thesis using assms calmer_steps(1) by (auto simp: bus_step_def intro!: ord_inv_calmer)
next
  case (DoUnsubscribe a)
  then show ?thesis using assms calmer_steps(2) by (auto simp: bus_step_def intro!: ord_inv_calmer split: if_splits)
next
  case DoClose
  then show ?thesis using assms calmer_steps(3) by (auto simp: bus_step_def intro!: ord_inv_calmer)
next
  case (DoWorker a ch)
  then show ?thesis using assms calmer_steps(4) by (auto simp: bus_step_def intro!: ord_inv_calmer split: if_splits)
qed

lemma serial_reach_ord: "bus_reach serial w \<Longrightarrow> bus_inv w \<and> ord_inv w"
proof (induction rule: bus_reach.induct)
  case start
  show ?case by (simp add: bus_inv_start) (simp add: ord_inv_def initial_world_def NewBus_def)
qed (blast intro: bus_inv_step ord_inv_step)

text \<open>Sequence numbers are handed out in publish order, in every run.\<close>

definition seq_inv :: "'d world \<Rightarrow> bool" where
  "seq_inv w \<longleftrightarrow> b_seq (w_bus w) = of_nat (length (w_published w)) \<and>
     map ev_Seq (w_published w) = map (\<lambda>i. of_nat (Suc i)) [0..<length (w_published w)]"

lemma b_seq_steps [simp]:
  "b_seq (fst (Subscribe pattern n policy nilHandler b)) = b_seq b" "b_seq (Unsubscribe a b) = b_seq b"
  "b_seq (bus_Close b) = b_seq b"
  by (simp_all add: Subscribe_def Unsubscribe_def bus_remove_def bus_Close_def Let_def)

lemma runSubscriber_seq: "runSubscriber ch a b = Some b' \<Longrightarrow> b_seq b' = b_seq b"
  by (cases ch) (auto simp: runSubscriber_def bus_invoke_def Let_def split: if_splits list.splits)

lemma seq_inv_pub_step:
  assumes "seq_inv w" "bus_step (DoPubStep i now ch) w = Some w'"
  shows "seq_inv w'"
proof -
  obtain p b where p: "Publish_step now ch (w_pubs w ! i) (w_bus w) = Some (p, b)" and w': "w_bus w' = b"
      "w_published w' = (if pu_at (w_pubs w ! i) = AtSeq then w_published w @ [pu_ev p] else w_published w)"
    using bus_step_pub [OF assms(2)] by auto
  from p show ?thesis using assms(1) w'
    by (cases rule: Publish_step_cases) (auto simp: seq_inv_def stamp_def enqueue_def)
qed

lemma reach_seq_inv: "bus_reach allowed w \<Longrightarrow> seq_inv w"
proof (induction rule: bus_reach.induct)
  case start
  show ?case by (simp add: seq_inv_def initial_world_def NewBus_def)
next
  case (act w x w')
  show ?case
  proof (cases x)
    case (DoPubStep i now ch)
    then show ?thesis using act seq_inv_pub_step by blast
  qed (use act in \<open>auto simp: bus_step_def seq_inv_def dest: runSubscriber_seq split: if_splits\<close>)
qed

text \<open>Publish ends: each of its steps lowers this number.\<close>

fun at_rank :: "pub_at \<Rightarrow> nat" where
  "at_rank AtSeq = 7" | "at_rank AtCount = 6" | "at_rank AtSend = 5" | "at_rank AtMakeRoom = 4"
| "at_rank AtDropCount = 3" | "at_rank AtRetry = 2" | "at_rank AtDelivered = 1" | "at_rank (Returned r) = 0"

definition pub_rank :: "'d publisher \<Rightarrow> nat" where
  "pub_rank p = 5 * length (pu_targets p) + at_rank (pu_at p)"

lemma Publish_step_rank: "Publish_step now ch p b = Some (p', b') \<Longrightarrow> pub_rank p' < pub_rank p"
  by (erule Publish_step_cases) (auto simp: pub_rank_def)

definition waits :: "'d Bus \<Rightarrow> 'd publisher \<Rightarrow> bool" where
  "waits b p \<longleftrightarrow> pu_at p = AtSend \<and>
     (case pu_targets p of [] \<Rightarrow> False
      | a # ts \<Rightarrow> su_policy (b_objs b ! a) = PolicyBlock \<and> \<not> has_room (b_objs b ! a))"

lemma Publish_step_enabled:
  assumes "flight_ok pub b p" "\<not> is_returned p" "\<not> waits b p"
  shows "\<exists>p' b'. Publish_step now Send p b = Some (p', b')"
proof (cases "pu_targets p")
  case Nil
  then show ?thesis using assms(2) by (cases "pu_at p") (auto simp: Publish_step_def is_returned_def Let_def)
next
  case (Cons a ts)
  show ?thesis
  proof (cases "pu_at p = AtRetry")
    case True
    then show ?thesis using Cons assms(1) by (simp add: Publish_step_def flight_ok_def select_send_def)
  next
    case False
    then show ?thesis using Cons assms(2,3)
      by (cases "pu_at p"; cases "su_policy (b_objs b ! a)")
        (auto simp: Publish_step_def is_returned_def waits_def select_send_def Let_def)
  qed
qed

subsection \<open>Properties\<close>

text \<open>
  C10 (invariant). Whatever the interleaving of publishers, workers, subscribers and
  \<open>Close\<close>, no queue exceeds its capacity, and once no publish is in flight the
  counters balance: deliveries are the events received or still queued plus the
  dropped ones. Sequence numbers count the published events from one.
\<close>

theorem bus_invariant:
  assumes "bus_reach (\<lambda>_ _. True) w"
  shows "(\<forall>s \<in> set (b_objs (w_bus w)). length (su_queue s) \<le> su_cap s) \<and>
    (list_all is_returned (w_pubs w) \<longrightarrow>
       st_Delivered (bus_Stats (w_bus w)) = st_Dropped (bus_Stats (w_bus w)) +
         of_nat (\<Sum>s \<leftarrow> b_objs (w_bus w). length (su_seen s) + length (su_queue s))) \<and>
    map ev_Seq (w_published w) = map (\<lambda>i. of_nat (Suc i)) [0..<length (w_published w)] \<and>
    LastSeq (w_bus w) = of_nat (length (w_published w))"
proof -
  have inv: "bus_inv w" and seq: "seq_inv w" using assms bus_reach_inv reach_seq_inv by blast+
  have "tally at (w_pubs w) = 0" if "list_all is_returned (w_pubs w)" "\<forall>r. at \<noteq> Returned r" for at
  proof -
    have "\<forall>p \<in> set (w_pubs w). pu_at p \<noteq> at"
      using that by (cases at) (auto simp: list_all_iff is_returned_def)
    then show ?thesis by (simp add: tally_def cong: map_cong)
  qed
  then show ?thesis using inv seq
    by (auto simp: bus_inv_def bus_ok_def sub_ok_def list_all_iff accounted_def bus_Stats_def seq_inv_def LastSeq_def
        stored_nat add.commute)
qed

text \<open>
  C24 (safety). When publishes do not overlap, every subscriber receives events in
  publish order: what its worker has received, followed by what is queued, is a
  subsequence of the published events.
\<close>

theorem bus_order:
  assumes "bus_reach serial w" "s \<in> set (b_objs (w_bus w))"
  shows "subseq (su_seen s @ su_queue s) (w_published w)"
  using serial_reach_ord [OF assms(1)] assms(2) by (simp add: ord_inv_def trace_def)

text \<open>
  C36 (liveness). When publishes do not overlap, a publish in flight can always take
  its next step unless it stands before a full queue of a \<open>PolicyBlock\<close>
  subscriber; a \<open>PolicyDropOldest\<close> subscriber never holds it up, and every step
  brings it nearer to its return.
\<close>

theorem bus_publish_progress:
  assumes "bus_reach serial w" "i < length (w_pubs w)" "\<not> is_returned (w_pubs w ! i)" "\<not> waits (w_bus w) (w_pubs w ! i)"
  shows "\<exists>w'. bus_step (DoPubStep i now Send) w = Some w' \<and> pub_rank (w_pubs w' ! i) < pub_rank (w_pubs w ! i)"
proof -
  have "flight_ok (w_published w) (w_bus w) (w_pubs w ! i)"
    using serial_reach_ord [OF assms(1)] assms(2,3) by (simp add: ord_inv_def)
  then obtain p b where st: "Publish_step now Send (w_pubs w ! i) (w_bus w) = Some (p, b)"
    using Publish_step_enabled assms(3,4) by blast
  then show ?thesis using assms(2) Publish_step_rank [OF st] by (simp add: bus_step_def)
qed

text \<open>Example runs: one subscriber with a queue of one, and two publishes.\<close>

definition demo_event :: "string \<Rightarrow> string Event" where
  "demo_event data = \<lparr>ev_Seq = 0, ev_Type = MessageReceived, ev_Session = ''s'', ev_Time = \<lparr>t_sec = 9, t_nsec = 0\<rparr>, ev_Data = data\<rparr>"

definition demo_steps :: "nat \<Rightarrow> nat \<Rightarrow> string action list" where
  "demo_steps i n = replicate n (DoPubStep i \<lparr>t_sec = 9, t_nsec = 0\<rparr> Send)"

definition demo_dropped :: "string action list" where
  "demo_dropped = [DoSubscribe ''message.*'' 1 PolicyDropOldest False, DoPublish [0] (demo_event ''a'')] @ demo_steps 0 5 @
     [DoPublish [0] (demo_event ''b'')] @ demo_steps 1 4"

definition run_gives :: "'d world option \<Rightarrow> ('d world \<Rightarrow> bool) \<Rightarrow> bool" where
  "run_gives r P = (case r of None \<Rightarrow> False | Some w \<Rightarrow> P w)"

lemma run_gives_obtain: "run_gives r P \<Longrightarrow> \<exists>w. r = Some w \<and> P w"
  by (auto simp: run_gives_def split: option.splits)

lemma demo_run: "run_gives (bus_run serial demo_dropped initial_world)
   (\<lambda>w. length (w_pubs w) = 2 \<and> \<not> is_returned (w_pubs w ! 1) \<and> \<not> waits (w_bus w) (w_pubs w ! 1) \<and>
      length (b_objs (w_bus w)) = 1)"
  by code_simp

lemma reach_run: "bus_run allowed acts initial_world = Some w \<Longrightarrow> bus_reach allowed w"
  by (rule bus_run_reach [OF bus_reach.start])

lemma bus_invariant_witness:
  "\<exists>w. bus_run (\<lambda>_ _. True) (demo_dropped @ demo_steps 1 4) initial_world = Some w \<and>
     st_Delivered (bus_Stats (w_bus w)) = st_Dropped (bus_Stats (w_bus w)) +
       of_nat (\<Sum>s \<leftarrow> b_objs (w_bus w). length (su_seen s) + length (su_queue s))"
proof -
  have "run_gives (bus_run (\<lambda>_ _. True) (demo_dropped @ demo_steps 1 4) initial_world) (\<lambda>w. list_all is_returned (w_pubs w))"
    by code_simp
  then obtain w where w: "bus_run (\<lambda>_ _. True) (demo_dropped @ demo_steps 1 4) initial_world = Some w"
    "list_all is_returned (w_pubs w)"
    using run_gives_obtain by blast
  show ?thesis using bus_invariant [OF reach_run [OF w(1)]] w by blast
qed

lemma bus_order_witness:
  "\<exists>w. bus_run serial demo_dropped initial_world = Some w \<and>
     subseq (su_seen (b_objs (w_bus w) ! 0) @ su_queue (b_objs (w_bus w) ! 0)) (w_published w)"
proof -
  obtain w where w: "bus_run serial demo_dropped initial_world = Some w" "length (b_objs (w_bus w)) = 1"
    using run_gives_obtain [OF demo_run] by blast
  show ?thesis using bus_order [OF reach_run [OF w(1)], of "b_objs (w_bus w) ! 0"] w by simp
qed

lemma bus_publish_progress_witness:
  "\<exists>w w'. bus_run serial demo_dropped initial_world = Some w \<and>
     bus_step (DoPubStep 1 \<lparr>t_sec = 9, t_nsec = 0\<rparr> Send) w = Some w'"
proof -
  obtain w where w: "bus_run serial demo_dropped initial_world = Some w" "length (w_pubs w) = 2"
    "\<not> is_returned (w_pubs w ! 1)" "\<not> waits (w_bus w) (w_pubs w ! 1)"
    using run_gives_obtain [OF demo_run] by blast
  show ?thesis using bus_publish_progress [OF reach_run [OF w(1)], of 1] w by auto
qed

text \<open>Two publishes that overlap: the second takes its number after the first and enqueues before it.\<close>

definition demo_overlap :: "string action list" where
  "demo_overlap = [DoSubscribe ''*'' 2 PolicyBlock False, DoPublish [0] (demo_event ''a''), DoPublish [0] (demo_event ''b'')] @
     demo_steps 0 1 @ demo_steps 1 5 @ demo_steps 0 4 @ [DoWorker 0 (TakeEvent False), DoWorker 0 (TakeEvent False)]"

text \<open>
  Without that restriction the order is not kept: two overlapping
  publishes that both return without error can reach one subscriber in the
  opposite order of their sequence numbers.
\<close>

theorem bus_overlap_reorders:
  "\<exists>w. bus_run (\<lambda>_ _. True) demo_overlap initial_world = Some w \<and>
     map pu_at (w_pubs w) = [Returned (Inr ()), Returned (Inr ())] \<and>
     map ev_Seq (su_seen (b_objs (w_bus w) ! 0)) = [2, 1]"
  by (rule run_gives_obtain) code_simp

end
