(* ===== verification/WsFrame.thy ===== *)
theory WsFrame
  imports Prelude
begin

text \<open>
  WebSocket frames, \<^verbatim>\<open>transport/ws/ws.go\<close> (\<open>writeFrame\<close>, \<open>readFrame\<close>,
  \<open>accumulate\<close>) and the test server of \<^verbatim>\<open>transport/ws/server.go\<close> (\<open>Recv\<close>,
  \<open>SendRaw\<close>). Reading works on the bytes that have arrived: \<open>NeedMore\<close> is where
  \<open>io.ReadFull\<close> waits, or fails at the end of the stream.
\<close>

definition MaxFrameSize :: nat where "MaxFrameSize = 16 * 2 ^ 20"

datatype ws_error = NeedMore | ErrFrameTooLarge | MaskedServerFrame | UnmaskedClientFrame | ErrProtocol
  | BadOpcode byte | ErrClosed | NetError string | RandFailed

record frame =
  fr_fin :: bool
  fr_opcode :: byte
  fr_payload :: bytes

definition length_bytes :: "nat \<Rightarrow> bytes" where
  "length_bytes n =
     (if n < 126 then [of_nat n]
      else if n \<le> 0xFFFF then 126 # rev (le_bytes 2 n)
      else 127 # rev (le_bytes 8 n))"

definition mask_bytes :: "bytes \<Rightarrow> bytes \<Rightarrow> bytes" where
  "mask_bytes key payload = map (\<lambda>i. payload ! i XOR key ! (i mod 4)) [0..<length payload]"

fun set_mask_bit :: "bytes \<Rightarrow> bytes" where
  "set_mask_bit [] = []"
| "set_mask_bit (b # bs) = (b OR 0x80) # bs"

text \<open>The bytes \<open>writeFrame\<close> hands to the socket; \<open>key\<close> is the fresh mask of a client.\<close>

definition frame_bytes :: "bool \<Rightarrow> bytes \<Rightarrow> byte \<Rightarrow> bytes \<Rightarrow> bytes" where
  "frame_bytes masked key opcode payload =
     (0x80 OR opcode) #
     (if masked then set_mask_bit (length_bytes (length payload)) @ key @ mask_bytes key payload
      else length_bytes (length payload) @ payload)"

text \<open>The frame of \<open>writeFrameNoFail\<close>: a one-byte length and an all-zero key.\<close>

definition short_frame_bytes :: "bool \<Rightarrow> byte \<Rightarrow> bytes \<Rightarrow> bytes" where
  "short_frame_bytes masked opcode payload =
     (0x80 OR opcode) #
     (if masked then (of_nat (length payload) OR 0x80) # replicate 4 0 @ mask_bytes (replicate 4 0) payload
      else of_nat (length payload) # payload)"

definition read_full :: "nat \<Rightarrow> bytes \<Rightarrow> ws_error + (bytes \<times> bytes)" where
  "read_full n s = (if length s < n then Inl NeedMore else Inr (take n s, drop n s))"

definition read_length :: "byte \<Rightarrow> bytes \<Rightarrow> ws_error + (nat \<times> bytes)" where
  "read_length b s =
     (let n = unat (b AND 0x7F)
      in if n = 126 then and_then (read_full 2 s) (\<lambda>(bs, s). Inr (be_nat bs, s))
         else if n = 127 then and_then (read_full 8 s) (\<lambda>(bs, s). Inr (be_nat bs, s))
         else Inr (n, s))"

text \<open>\<open>readFrame\<close> of a connection that masks what it sends (a client) or does not (a server).\<close>

definition readFrame :: "bool \<Rightarrow> bytes \<Rightarrow> ws_error + (frame \<times> bytes)" where
  "readFrame client s =
     and_then (read_full 2 s) (\<lambda>(hdr, s).
       let masked = (hdr ! 1 AND 0x80 \<noteq> 0)
       in if client \<and> masked then Inl MaskedServerFrame
          else if \<not> client \<and> \<not> masked then Inl UnmaskedClientFrame
          else
            and_then (read_length (hdr ! 1) s) (\<lambda>(n, s).
              if n > MaxFrameSize then Inl ErrFrameTooLarge
              else
                and_then (if client then Inr ([], s) else read_full 4 s) (\<lambda>(key, s).
                  and_then (read_full n s) (\<lambda>(payload, s).
                    Inr (\<lparr>fr_fin = hdr ! 0 AND 0x80 \<noteq> 0, fr_opcode = hdr ! 0 AND 0x0F,
                          fr_payload = (if client then payload else mask_bytes key payload)\<rparr>, s)))))"

text \<open>Merging fragments: the changed \<open>partial\<close>, and \<open>None\<close> for an unsolicited continuation.\<close>

definition accumulate :: "frame \<Rightarrow> bytes \<Rightarrow> bytes \<times> bytes option option" where
  "accumulate f partial =
     (if fr_opcode f \<noteq> 0 then
        (if \<not> fr_fin f then (fr_payload f, Some None) else (partial, Some (Some (fr_payload f))))
      else if length partial = 0 then (partial, None)
      else
        let partial = partial @ fr_payload f
        in if \<not> fr_fin f then (partial, Some None) else ([], Some (Some partial)))"

subsection \<open>The test server\<close>

definition ServerConn_Recv :: "bytes \<Rightarrow> ws_error + ((byte \<times> bytes) \<times> bytes)" where
  "ServerConn_Recv s =
     and_then (read_full 2 s) (\<lambda>(hdr, s).
       if hdr ! 1 AND 0x80 = 0 then Inl UnmaskedClientFrame
       else
         and_then (read_length (hdr ! 1) s) (\<lambda>(n, s).
           if n > MaxFrameSize then Inl ErrFrameTooLarge
           else
             and_then (read_full 4 s) (\<lambda>(key, s).
               and_then (read_full n s) (\<lambda>(payload, s).
                 Inr ((hdr ! 0 AND 0x0F, mask_bytes key payload), s)))))"

definition ServerConn_SendRaw :: "bool \<Rightarrow> byte \<Rightarrow> bytes \<Rightarrow> bytes" where
  "ServerConn_SendRaw fin opcode payload =
     (if fin then opcode OR 0x80 else opcode) # length_bytes (length payload) @ payload"

subsection \<open>Lemmas\<close>

lemma low_bits:
  fixes w :: byte
  assumes "unat w < 2 ^ k"
  shows "w AND mask k = w"
proof -
  have "unat (take_bit k w) = unat w" using assms by (simp add: unsigned_take_bit_eq take_bit_nat_eq_self)
  then show ?thesis by (simp add: word_unat_eq_iff take_bit_eq_mask)
qed

lemma top_bit [simp]:
  fixes w :: byte
  shows "(w OR 0x80) AND 0x80 = 0x80" "(0x80 OR w) AND 0x80 = 0x80"
  by (rule bit_word_eqI, auto simp: bit_simps)+

lemma seven_bits:
  fixes w :: byte
  assumes "unat w < 128"
  shows "w AND 0x7F = w" "w AND 0x80 = 0" "(w OR 0x80) AND 0x7F = w"
proof -
  show a: "w AND 0x7F = w" using low_bits [of w 7] assms by (simp add: mask_eq_exp_minus_1)
  have "w AND 0x80 = w AND (0x7F AND 0x80)" by (subst (1) a [symmetric]) (simp only: and.assoc)
  then show "w AND 0x80 = 0" by simp
  show "(w OR 0x80) AND 0x7F = w" by (simp add: bit.conj_disj_distrib2 a)
qed

lemma opcode_bits:
  fixes op :: byte
  assumes "unat op < 16"
  shows "op AND 0x0F = op" "op AND 0x80 = 0" "(op OR 0x80) AND 0x0F = op" "(0x80 OR op) AND 0x0F = op"
proof -
  show a: "op AND 0x0F = op" using low_bits [of op 4] assms by (simp add: mask_eq_exp_minus_1)
  show "op AND 0x80 = 0" using assms by (simp add: seven_bits)
  show "(op OR 0x80) AND 0x0F = op" by (simp add: bit.conj_disj_distrib2 a)
  then show "(0x80 OR op) AND 0x0F = op" by (simp add: or.commute)
qed

lemma be_nat_rev: "be_nat (rev bs) = le_nat bs"
  by (induction bs) (simp_all add: be_nat_snoc)

lemma read_full_append [simp]: "length xs = n \<Longrightarrow> read_full n (xs @ rest) = Inr (xs, rest)"
  by (simp add: read_full_def)

lemma read_length_bytes:
  assumes "n < 2 ^ 63"
  shows "\<exists>b bs. length_bytes n = b # bs \<and> unat b < 128 \<and>
    read_length b (bs @ rest) = Inr (n, rest) \<and> read_length (b OR 0x80) (bs @ rest) = Inr (n, rest)"
proof (cases "n < 126")
  case True
  then have "unat (of_nat n :: byte) = n" by (simp add: unat_of_nat take_bit_nat_eq_self)
  then show ?thesis using True by (simp add: length_bytes_def read_length_def seven_bits Let_def)
next
  case False
  have 126: "((126 :: byte) OR 0x80) AND 0x7F = 126" "((127 :: byte) OR 0x80) AND 0x7F = 127" by simp_all
  have "read_full 2 (rev (le_bytes 2 n) @ rest) = Inr (rev (le_bytes 2 n), rest)"
    "read_full 8 (rev (le_bytes 8 n) @ rest) = Inr (rev (le_bytes 8 n), rest)" by simp_all
  then show ?thesis using False assms
    by (auto simp: length_bytes_def read_length_def be_nat_rev 126 Let_def simp del: rev_append)
qed

lemma length_mask [simp]: "length (mask_bytes key payload) = length payload"
  by (simp add: mask_bytes_def)

lemma mask_mask [simp]: "mask_bytes key (mask_bytes key payload) = payload"
  by (rule nth_equalityI) (simp_all add: mask_bytes_def xor.assoc)

lemma readFrame_frame_bytes:
  assumes "length payload \<le> MaxFrameSize" "unat op < 16" "masked \<Longrightarrow> length key = 4"
  shows "readFrame (\<not> masked) (frame_bytes masked key op payload @ rest)
    = Inr (\<lparr>fr_fin = True, fr_opcode = op, fr_payload = payload\<rparr>, rest)"
proof -
  have n: "length payload < 2 ^ 63" using assms(1) by (simp add: MaxFrameSize_def)
  show ?thesis
  proof (cases masked)
    case True
    obtain b bs where b: "length_bytes (length payload) = b # bs" "unat b < 128"
      "read_length (b OR 0x80) (bs @ key @ mask_bytes key payload @ rest) = Inr (length payload, key @ mask_bytes key payload @ rest)"
      using read_length_bytes [OF n] by blast
    have "read_full 2 ((0x80 OR op) # (b OR 0x80) # xs) = Inr ([0x80 OR op, b OR 0x80], xs)" for xs
      by (simp add: read_full_def)
    then show ?thesis using assms True b by (simp add: readFrame_def frame_bytes_def opcode_bits)
  next
    case False
    obtain b bs where b: "length_bytes (length payload) = b # bs" "unat b < 128"
      "read_length b (bs @ payload @ rest) = Inr (length payload, payload @ rest)"
      using read_length_bytes [OF n] by blast
    have "read_full 2 ((0x80 OR op) # b # xs) = Inr ([0x80 OR op, b], xs)" for xs by (simp add: read_full_def)
    then show ?thesis using assms False b by (simp add: readFrame_def frame_bytes_def opcode_bits seven_bits)
  qed
qed

lemma readFrame_SendRaw:
  assumes "length payload \<le> MaxFrameSize" "unat op < 16"
  shows "readFrame True (ServerConn_SendRaw fin op payload @ rest)
    = Inr (\<lparr>fr_fin = fin, fr_opcode = op, fr_payload = payload\<rparr>, rest)"
proof -
  have n: "length payload < 2 ^ 63" using assms(1) by (simp add: MaxFrameSize_def)
  obtain b bs where b: "length_bytes (length payload) = b # bs" "unat b < 128"
    "read_length b (bs @ payload @ rest) = Inr (length payload, payload @ rest)"
    using read_length_bytes [OF n] by blast
  have "read_full 2 (x # b # xs) = Inr ([x, b], xs)" for x xs by (simp add: read_full_def)
  then show ?thesis using assms b by (simp add: readFrame_def ServerConn_SendRaw_def opcode_bits seven_bits)
qed

lemma Recv_frame_bytes:
  assumes "length payload \<le> MaxFrameSize" "unat op < 16" "length key = 4"
  shows "ServerConn_Recv (frame_bytes True key op payload @ rest) = Inr ((op, payload), rest)"
proof -
  have n: "length payload < 2 ^ 63" using assms(1) by (simp add: MaxFrameSize_def)
  obtain b bs where b: "length_bytes (length payload) = b # bs" "unat b < 128"
    "read_length (b OR 0x80) (bs @ key @ mask_bytes key payload @ rest) = Inr (length payload, key @ mask_bytes key payload @ rest)"
    using read_length_bytes [OF n] by blast
  have "read_full 2 (x # y # xs) = Inr ([x, y], xs)" for x y xs by (simp add: read_full_def)
  then show ?thesis using assms b by (simp add: ServerConn_Recv_def frame_bytes_def opcode_bits)
qed

lemma readFrame_wrong_side:
  assumes "length payload < 2 ^ 63"
  shows "readFrame masked (frame_bytes masked key op payload @ rest)
    = Inl (if masked then MaskedServerFrame else UnmaskedClientFrame)"
proof -
  obtain b bs where b: "length_bytes (length payload) = b # bs" "unat b < 128"
    using read_length_bytes [OF assms] by blast
  have "read_full 2 (x # y # xs) = Inr ([x, y], xs)" for x y xs by (simp add: read_full_def)
  then show ?thesis using b by (simp add: readFrame_def frame_bytes_def seven_bits)
qed

lemma read_full_Inr: "read_full n s = Inr (xs, s') \<longleftrightarrow> n \<le> length s \<and> xs = take n s \<and> s' = drop n s"
  by (auto simp: read_full_def)

lemma read_length_shrinks: "read_length b s = Inr (n, s') \<Longrightarrow> length s' \<le> length s"
  by (auto simp: read_length_def and_then_eq_Inr read_full_Inr Let_def split: if_splits)

lemma readFrame_bounds:
  assumes "readFrame client s = Inr (f, s')"
  shows "length (fr_payload f) \<le> MaxFrameSize \<and> length s' + length (fr_payload f) + 2 \<le> length s"
proof -
  obtain hdr t n t' key u payload where
    h: "read_full 2 s = Inr (hdr, t)" "read_length (hdr ! 1) t = Inr (n, t')" "n \<le> MaxFrameSize"
    and k: "(if client then Inr ([], t') else read_full 4 t') = Inr (key, u)" "read_full n u = Inr (payload, s')"
    and f: "fr_payload f = (if client then payload else mask_bytes key payload)"
    using assms by (auto simp: readFrame_def and_then_eq_Inr Let_def split: if_splits)
  have "length t + 2 = length s" using h(1) by (auto simp: read_full_Inr)
  moreover have "length t' \<le> length t" using h(2) by (rule read_length_shrinks)
  moreover have "length u \<le> length t'" using k(1) by (auto simp: read_full_Inr split: if_splits)
  moreover have "length payload = n" "length s' + n = length u" using k(2) by (auto simp: read_full_Inr)
  ultimately show ?thesis using h(3) f by simp
qed

subsection \<open>Properties\<close>

text \<open>
  C37 (round trip). The peer reads back what an end writes: opcode and payload of a
  frame, with the bytes after it untouched, for clients (masked) and servers; a
  frame sent in the wrong direction is a protocol error, and the test server reads
  a client's frame to the same opcode and payload.
\<close>

theorem ws_frame_roundtrip:
  assumes "length payload \<le> MaxFrameSize" "unat op < 16" "length key = 4"
  shows "readFrame (\<not> masked) (frame_bytes masked key op payload @ rest)
      = Inr (\<lparr>fr_fin = True, fr_opcode = op, fr_payload = payload\<rparr>, rest) \<and>
    readFrame masked (frame_bytes masked key op payload @ rest)
      = Inl (if masked then MaskedServerFrame else UnmaskedClientFrame) \<and>
    ServerConn_Recv (frame_bytes True key op payload @ rest) = Inr ((op, payload), rest) \<and>
    readFrame True (ServerConn_SendRaw fin op payload @ rest)
      = Inr (\<lparr>fr_fin = fin, fr_opcode = op, fr_payload = payload\<rparr>, rest)"
proof -
  have "length payload < 2 ^ 63" using assms(1) by (simp add: MaxFrameSize_def)
  then show ?thesis
    using assms by (simp only: readFrame_frame_bytes readFrame_wrong_side Recv_frame_bytes readFrame_SendRaw)
qed

lemma ws_frame_roundtrip_witness:
  "readFrame False (frame_bytes True [1, 2, 3, 4] 2 (replicate 200 7) @ [9])
     = Inr (\<lparr>fr_fin = True, fr_opcode = 2, fr_payload = replicate 200 7\<rparr>, [9])"
  using ws_frame_roundtrip [of "replicate 200 7" 2 "[1, 2, 3, 4]" True "[9]" False]
  by (simp add: MaxFrameSize_def)

text \<open>
  A frame \<open>readFrame\<close> returns has a payload of at most
  \<open>MaxFrameSize\<close> bytes, all of them taken from the input, and the input shrinks; a
  longer announced length is refused from the header alone, whatever follows.
\<close>

theorem ws_frame_bounds:
  "(\<forall>f s'. readFrame client s = Inr (f, s') \<longrightarrow>
      length (fr_payload f) \<le> MaxFrameSize \<and> length s' + length (fr_payload f) + 2 \<le> length s) \<and>
   (MaxFrameSize < n \<and> n < 2 ^ 64 \<longrightarrow>
      readFrame client (x # (if client then 127 else 255) # rev (le_bytes 8 n) @ rest) = Inl ErrFrameTooLarge)"
proof -
  have h: "read_full 2 (x # y # xs) = Inr ([x, y], xs)" for x y xs by (simp add: read_full_def)
  have "read_full 8 (rev (le_bytes 8 n) @ rest) = Inr (rev (le_bytes 8 n), rest)" by simp
  then have "read_length (if client then 127 else 255) (rev (le_bytes 8 n) @ rest) = Inr (n, rest)" if "n < 2 ^ 64"
    using that by (auto simp: read_length_def be_nat_rev Let_def)
  then show ?thesis using readFrame_bounds by (auto simp: readFrame_def h)
qed

lemma ws_frame_bounds_witness:
  "length (fr_payload \<lparr>fr_fin = True, fr_opcode = 1, fr_payload = [7]\<rparr>) \<le> MaxFrameSize \<and>
   readFrame True (0x82 # 127 # rev (le_bytes 8 (2 ^ 40)) @ []) = Inl ErrFrameTooLarge"
proof -
  have "readFrame True (ServerConn_SendRaw True 1 [7] @ []) = Inr (\<lparr>fr_fin = True, fr_opcode = 1, fr_payload = [7]\<rparr>, [])"
    by (rule readFrame_SendRaw) (simp_all add: MaxFrameSize_def)
  then show ?thesis
    using ws_frame_bounds [where client = True and s = "ServerConn_SendRaw True 1 [7] @ []" and n = "2 ^ 40" and x = "0x82" and rest = "[]"]
    by (auto simp: MaxFrameSize_def simp del: append_Nil2 rev_append)
qed

end
