(* ===== verification/Transport.thy ===== *)
theory Transport
  imports Prelude "HOL-Library.Sublist"
begin

text \<open>
  The contract of a connection, \<open>Conn\<close> of \<^verbatim>\<open>transport/transport.go\<close>, as the session engine
  relies on it: a reliable ordered channel of frames between the calls that were
  accepted at one end and those that returned a frame at the other. The WebSocket
  connection and the in-memory pipe interpret it.
\<close>

text \<open>What was received and what is queued are the first of the frames accepted, in order, and the queue is bounded.\<close>

locale frame_stream =
  fixes reach :: "'c \<Rightarrow> bool"
    and accepted :: "'c \<Rightarrow> bytes list"
    and received :: "'c \<Rightarrow> bytes list"
    and pending :: "'c \<Rightarrow> bytes list"
    and bound :: nat
  assumes order: "reach c \<Longrightarrow> prefix (received c @ pending c) (accepted c)"
    and bounded: "reach c \<Longrightarrow> length (pending c) \<le> bound"
begin

lemma received_prefix: "reach c \<Longrightarrow> prefix (received c) (accepted c)"
  using order append_prefixD by blast

lemma next_frame:
  assumes "reach c" "pending c = f # fs"
  shows "accepted c ! length (received c) = f"
proof -
  obtain rest where "accepted c = received c @ f # fs @ rest" using order [OF assms(1)] assms(2) by (auto simp: prefix_def)
  then show ?thesis by simp
qed

lemma lag_bounded:
  assumes "reach c" "accepted c = received c @ pending c"
  shows "length (accepted c) \<le> length (received c) + bound"
  using assms bounded by simp

end

text \<open>A channel in which every accepted frame is received or queued.\<close>

locale frame_channel = frame_stream +
  assumes lossless: "reach c \<Longrightarrow> accepted c = received c @ pending c"
begin

lemma nothing_lost: "reach c \<Longrightarrow> pending c = [] \<Longrightarrow> received c = accepted c"
  by (simp add: lossless)

lemma accepted_bounded: "reach c \<Longrightarrow> length (accepted c) \<le> length (received c) + bound"
  by (rule lag_bounded) (simp_all add: lossless)

end

end
