(* ===== verification/WsConn.thy ===== *)
theory WsConn
  imports WsFrame Transport
begin

text \<open>
  A WebSocket connection, \<open>Conn\<close> of \<^verbatim>\<open>transport/ws/ws.go\<close>. Bytes arrive in
  pieces chosen by the environment; one iteration of \<open>readLoop\<close> is one step, taken
  when a whole frame is there and, for a message, the \<open>frames\<close> channel has room.
  What a socket write does (all bytes out, or an error after some of them) and the
  random mask are arguments. Three history fields, of no effect on the program,
  record the bytes that arrived, the frames the loop has taken and the messages
  \<open>ReceiveBinary\<close> has returned. Deadlines are left out; a write past its deadline
  is a write error.
\<close>

subsection \<open>State\<close>

record Conn =
  cn_masked :: bool
  cn_in :: bytes
  cn_eof :: bool
  cn_out :: bytes
  cn_partial :: bytes
  cn_isClosed :: bool
  cn_frames :: "bytes list"
  cn_lastErr :: "ws_error option"
  cn_header :: bytes
  cn_reading :: bool
  cn_arrived :: bytes
  cn_log :: "frame list"
  cn_got :: "bytes list"

definition framesCap :: nat where "framesCap = 64"

text \<open>A new connection, its \<open>readLoop\<close> started; the buffered reader may hold bytes already.\<close>

definition newConn :: "bytes \<Rightarrow> bytes \<Rightarrow> bool \<Rightarrow> Conn" where
  "newConn buffered binding clientSide =
     \<lparr>cn_masked = clientSide, cn_in = buffered, cn_eof = False, cn_out = [], cn_partial = [], cn_isClosed = False,
      cn_frames = [], cn_lastErr = None, cn_header = binding, cn_reading = True, cn_arrived = buffered, cn_log = [], cn_got = []\<rparr>"

definition BindingHeader :: "Conn \<Rightarrow> bytes" where "BindingHeader c = cn_header c"

subsection \<open>Closing\<close>

definition shutdown :: "ws_error option \<Rightarrow> Conn \<Rightarrow> Conn" where
  "shutdown reason c =
     (if cn_isClosed c then c
      else
        let c = c\<lparr>cn_isClosed := True\<rparr>;
            c = (case reason of
                   None \<Rightarrow> c
                 | Some e \<Rightarrow> if cn_lastErr c = None then c\<lparr>cn_lastErr := Some e\<rparr> else c)
        in c\<lparr>cn_eof := True\<rparr>)"

definition conn_fail :: "ws_error \<Rightarrow> Conn \<Rightarrow> Conn" where
  "conn_fail e c = shutdown None (if cn_lastErr c = None then c\<lparr>cn_lastErr := Some e\<rparr> else c)"

definition conn_failure :: "Conn \<Rightarrow> ws_error" where
  "conn_failure c = (case cn_lastErr c of Some e \<Rightarrow> e | None \<Rightarrow> ErrClosed)"

subsection \<open>Writing\<close>

datatype write_result = WriteOk | WriteErr nat string

definition net_write :: "write_result \<Rightarrow> bytes \<Rightarrow> Conn \<Rightarrow> Conn \<times> (ws_error + unit)" where
  "net_write io data c =
     (case io of
        WriteOk \<Rightarrow> (c\<lparr>cn_out := cn_out c @ data\<rparr>, Inr ())
      | WriteErr k e \<Rightarrow> (c\<lparr>cn_out := cn_out c @ take k data\<rparr>, Inl (NetError e)))"

definition writeFrame :: "write_result \<Rightarrow> bytes option \<Rightarrow> byte \<Rightarrow> bytes \<Rightarrow> Conn \<Rightarrow> Conn \<times> (ws_error + unit)" where
  "writeFrame io key opcode payload c =
     (if length payload > MaxFrameSize then (c, Inl ErrFrameTooLarge)
      else if cn_masked c \<and> key = None then (c, Inl RandFailed)
      else
        let data = frame_bytes (cn_masked c) (case key of Some k \<Rightarrow> k | None \<Rightarrow> []) opcode payload
        in case net_write io data c of
             (c, Inl e) \<Rightarrow> (conn_fail e c, Inl e)
           | (c, Inr _) \<Rightarrow> (c, Inr ()))"

definition SendBinary :: "write_result \<Rightarrow> bytes option \<Rightarrow> bytes \<Rightarrow> Conn \<Rightarrow> Conn \<times> (ws_error + unit)" where
  "SendBinary io key payload = writeFrame io key 0x2 payload"

definition SendText :: "write_result \<Rightarrow> bytes option \<Rightarrow> bytes \<Rightarrow> Conn \<Rightarrow> Conn \<times> (ws_error + unit)" where
  "SendText io key payload = writeFrame io key 0x1 payload"

definition SendPing :: "write_result \<Rightarrow> bytes option \<Rightarrow> bytes \<Rightarrow> Conn \<Rightarrow> Conn \<times> (ws_error + unit)" where
  "SendPing io key payload = writeFrame io key 0x9 payload"

definition writePong :: "write_result \<Rightarrow> bytes option \<Rightarrow> bytes \<Rightarrow> Conn \<Rightarrow> Conn \<times> (ws_error + unit)" where
  "writePong io key payload = writeFrame io key 0xA payload"

definition writeFrameNoFail :: "write_result \<Rightarrow> byte \<Rightarrow> bytes \<Rightarrow> Conn \<Rightarrow> Conn \<times> (ws_error + unit)" where
  "writeFrameNoFail io opcode payload c =
     (if length payload > MaxFrameSize then (c, Inl ErrFrameTooLarge)
      else net_write io (short_frame_bytes (cn_masked c) opcode payload) c)"

definition sendCloseBestEffort :: "write_result \<Rightarrow> Conn \<Rightarrow> Conn" where
  "sendCloseBestEffort io c = fst (writeFrameNoFail io 0x8 [0x03, 0xE8] c)"

definition conn_Close :: "write_result \<Rightarrow> Conn \<Rightarrow> Conn" where
  "conn_Close io c =
     (let already = cn_isClosed c;
          c = (if \<not> already then sendCloseBestEffort io c else c)
      in shutdown None c)"

subsection \<open>Receiving\<close>

datatype recv_choice = TakeFrame | TakeClosed | TakeCtx string

text \<open>\<open>None\<close>: the chosen case of the \<open>select\<close> is not ready.\<close>

definition take_frame :: "Conn \<Rightarrow> (Conn \<times> (ws_error + bytes)) option" where
  "take_frame c =
     (case cn_frames c of
        [] \<Rightarrow> None
      | f # fs \<Rightarrow> Some (c\<lparr>cn_frames := fs, cn_got := cn_got c @ [f]\<rparr>, Inr f))"

definition ReceiveBinary :: "recv_choice \<Rightarrow> Conn \<Rightarrow> (Conn \<times> (ws_error + bytes)) option" where
  "ReceiveBinary ch c =
     (case ch of
        TakeFrame \<Rightarrow> take_frame c
      | TakeClosed \<Rightarrow>
          if cn_isClosed c
          then (case take_frame c of Some r \<Rightarrow> Some r | None \<Rightarrow> Some (c, Inl (conn_failure c)))
          else None
      | TakeCtx e \<Rightarrow> Some (c, Inl (NetError e)))"

text \<open>
  One iteration of the read loop. \<open>toClose\<close> is the choice of its \<open>select\<close> when both
  the channel has room and the connection was closed.
\<close>

definition stop_reading :: "Conn \<Rightarrow> Conn" where
  "stop_reading c = c\<lparr>cn_reading := False\<rparr>"

definition route_message :: "bool \<Rightarrow> bytes \<Rightarrow> Conn \<Rightarrow> Conn option" where
  "route_message toClose msg c =
     (if toClose then (if cn_isClosed c then Some (stop_reading c) else None)
      else if length (cn_frames c) < framesCap then Some (c\<lparr>cn_frames := cn_frames c @ [msg]\<rparr>) else None)"

definition readLoop :: "write_result \<Rightarrow> bytes option \<Rightarrow> bool \<Rightarrow> Conn \<Rightarrow> Conn option" where
  "readLoop io key toClose c =
     (if \<not> cn_reading c then None
      else case readFrame (cn_masked c) (cn_in c) of
          Inl e \<Rightarrow>
            if e = NeedMore
            then (if cn_eof c then Some (stop_reading (conn_fail (NetError ''EOF'') c)) else None)
            else Some (stop_reading (conn_fail e c))
        | Inr (f, rest) \<Rightarrow>
            let c = c\<lparr>cn_in := rest, cn_log := cn_log c @ [f]\<rparr>
            in if fr_opcode f = 0x8 then Some (stop_reading (conn_fail ErrClosed c))
               else if fr_opcode f = 0x9 then
                 (case writePong io key (fr_payload f) c of
                    (c, Inl e) \<Rightarrow> Some (stop_reading (conn_fail e c))
                  | (c, Inr _) \<Rightarrow> Some c)
               else if fr_opcode f = 0xA then Some c
               else if fr_opcode f \<in> {0x0, 0x1, 0x2} then
                 (case accumulate f (cn_partial c) of
                    (p, None) \<Rightarrow> Some (stop_reading (conn_fail ErrProtocol (c\<lparr>cn_partial := p\<rparr>)))
                  | (p, Some None) \<Rightarrow> Some (c\<lparr>cn_partial := p\<rparr>)
                  | (p, Some (Some msg)) \<Rightarrow> route_message toClose msg (c\<lparr>cn_partial := p\<rparr>))
               else Some (stop_reading (conn_fail (BadOpcode (fr_opcode f)) c)))"

subsection \<open>Runs\<close>

datatype conn_action = Arrive bytes | PeerEnds | Lost nat | DoReadLoop write_result "bytes option" bool
  | DoReceive recv_choice | DoWrite write_result "bytes option" byte bytes | DoConnClose write_result

text \<open>
  \<open>Lost\<close>: of what had not been read when the socket closed, only a prefix was
  buffered.
\<close>

definition conn_step :: "conn_action \<Rightarrow> Conn \<Rightarrow> Conn option" where
  "conn_step act c =
     (case act of
        Arrive bs \<Rightarrow> if cn_eof c then None else Some (c\<lparr>cn_in := cn_in c @ bs, cn_arrived := cn_arrived c @ bs\<rparr>)
      | PeerEnds \<Rightarrow> Some (c\<lparr>cn_eof := True\<rparr>)
      | Lost n \<Rightarrow> if cn_eof c then Some (c\<lparr>cn_in := take n (cn_in c)\<rparr>) else None
      | DoReadLoop io key toClose \<Rightarrow> readLoop io key toClose c
      | DoReceive ch \<Rightarrow> map_option fst (ReceiveBinary ch c)
      | DoWrite io key opcode payload \<Rightarrow> Some (fst (writeFrame io key opcode payload c))
      | DoConnClose io \<Rightarrow> Some (conn_Close io c))"

inductive conn_reach :: "Conn \<Rightarrow> Conn \<Rightarrow> bool" for c0 where
  conn_start: "conn_reach c0 c0"
| conn_next: "conn_reach c0 c \<Longrightarrow> conn_step act c = Some c' \<Longrightarrow> conn_reach c0 c'"

subsection \<open>Assembling messages\<close>

text \<open>The messages a sequence of frames carries, and the fragments left over.\<close>

definition is_data :: "frame \<Rightarrow> bool" where
  "is_data f \<longleftrightarrow> fr_opcode f \<in> {0x0, 0x1, 0x2}"

definition assemble_step :: "bytes \<times> bytes list \<Rightarrow> frame \<Rightarrow> bytes \<times> bytes list" where
  "assemble_step st f =
     (if is_data f then
        (case accumulate f (fst st) of
           (p, Some (Some m)) \<Rightarrow> (p, snd st @ [m])
         | (p, _) \<Rightarrow> (p, snd st))
      else st)"

definition assemble :: "frame list \<Rightarrow> bytes \<times> bytes list" where
  "assemble fs = foldl assemble_step ([], []) fs"

lemma assemble_snoc: "assemble (fs @ [f]) = assemble_step (assemble fs) f"
  by (simp add: assemble_def)

lemma assemble_step_prefix: "prefix (snd st) (snd (assemble_step st f))"
  by (auto simp: assemble_step_def split: prod.splits option.splits)

lemma foldl_assemble_prefix: "prefix (snd st) (snd (foldl assemble_step st fs))"
proof (induction fs arbitrary: st)
  case (Cons f fs)
  show ?case using Cons [of "assemble_step st f"] assemble_step_prefix [of st f] prefix_order.trans by fastforce
qed simp

lemma assemble_prefix: "prefix fs gs \<Longrightarrow> prefix (snd (assemble fs)) (snd (assemble gs))"
  by (auto simp: prefix_def assemble_def) (metis foldl_assemble_prefix prefix_def)

lemma foldl_filter_data: "foldl assemble_step st (filter is_data fs) = foldl assemble_step st fs"
  by (induction fs arbitrary: st) (simp_all add: assemble_step_def)

text \<open>A message sent in fragments: the opcode on the first, continuations after it, FIN on the last.\<close>

fun continuations :: "bytes list \<Rightarrow> frame list" where
  "continuations [] = []"
| "continuations (p # ps) = \<lparr>fr_fin = (ps = []), fr_opcode = 0, fr_payload = p\<rparr> # continuations ps"

fun fragment_frames :: "byte \<Rightarrow> bytes list \<Rightarrow> frame list" where
  "fragment_frames op [] = []"
| "fragment_frames op (p # ps) = \<lparr>fr_fin = (ps = []), fr_opcode = op, fr_payload = p\<rparr> # continuations ps"

definition message_ok :: "byte \<times> bytes list \<Rightarrow> bool" where
  "message_ok m \<longleftrightarrow> fst m \<in> {0x1, 0x2} \<and> (case snd m of [] \<Rightarrow> False | p # ps \<Rightarrow> ps = [] \<or> p \<noteq> [])"

lemma foldl_continuations:
  "ps \<noteq> [] \<Longrightarrow> p \<noteq> [] \<Longrightarrow> foldl assemble_step (p, ms) (continuations ps) = ([], ms @ [p @ concat ps])"
proof (induction ps arbitrary: p)
  case (Cons q ps)
  show ?case
  proof (cases "ps = []")
    case True
    then show ?thesis using Cons.prems by (simp add: assemble_step_def is_data_def accumulate_def)
  next
    case False
    then show ?thesis using Cons.IH [of "p @ q"] Cons.prems by (simp add: assemble_step_def is_data_def accumulate_def)
  qed
qed simp

lemma foldl_fragments:
  "message_ok m \<Longrightarrow> foldl assemble_step ([], ms) (fragment_frames (fst m) (snd m)) = ([], ms @ [concat (snd m)])"
  by (cases "snd m") (auto simp: message_ok_def assemble_step_def is_data_def accumulate_def foldl_continuations)

lemma assemble_messages:
  assumes "list_all message_ok msgs" "filter is_data fs = concat (map (\<lambda>m. fragment_frames (fst m) (snd m)) msgs)"
  shows "assemble fs = ([], map (concat \<circ> snd) msgs)"
proof -
  have "foldl assemble_step ([], ms) (concat (map (\<lambda>m. fragment_frames (fst m) (snd m)) msgs)) = ([], ms @ map (concat \<circ> snd) msgs)" for ms
    using assms(1) by (induction msgs arbitrary: ms) (simp_all add: foldl_fragments)
  then show ?thesis using foldl_filter_data [of "([], [])" fs] assms(2) by (simp add: assemble_def)
qed

subsection \<open>Reading a stream of frames\<close>

lemma read_full_more: "read_full n s = Inr (x, s') \<Longrightarrow> read_full n (s @ t) = Inr (x, s' @ t)"
  by (auto simp: read_full_def split: if_splits)

lemma read_length_more: "read_length b s = Inr (n, s') \<Longrightarrow> read_length b (s @ t) = Inr (n, s' @ t)"
  unfolding read_length_def Let_def
  using read_full_more [of 2 s _ _ t] read_full_more [of 8 s _ _ t]
  by (cases "read_full 2 s"; cases "read_full 8 s") (fastforce split: if_splits)+

lemma readFrame_more:
  assumes "readFrame client s = Inr (f, s')"
  shows "readFrame client (s @ t) = Inr (f, s' @ t)"
proof -
  obtain hdr a n b key u payload where
    h: "read_full 2 s = Inr (hdr, a)" "read_length (hdr ! 1) a = Inr (n, b)"
    and k: "(if client then Inr ([], b) else read_full 4 b) = Inr (key, u)" "read_full n u = Inr (payload, s')"
    and rest: "\<not> (client \<and> hdr ! 1 AND 0x80 \<noteq> 0)" "\<not> (\<not> client \<and> \<not> hdr ! 1 AND 0x80 \<noteq> 0)" "\<not> n > MaxFrameSize"
      "f = \<lparr>fr_fin = hdr ! 0 AND 0x80 \<noteq> 0, fr_opcode = hdr ! 0 AND 0x0F, fr_payload = (if client then payload else mask_bytes key payload)\<rparr>"
    using assms by (auto simp: readFrame_def and_then_eq_Inr Let_def split: if_splits)
  have "(if client then Inr ([], b @ t) else read_full 4 (b @ t)) = Inr (key, u @ t)"
    using k(1) read_full_more [of 4 b key u t] by (auto split: if_splits)
  then show ?thesis
    using read_full_more [OF h(1), of t] read_length_more [OF h(2), of t] read_full_more [OF k(2), of t] rest
    by (simp add: readFrame_def Let_def)
qed

definition raw_bytes :: "frame list \<Rightarrow> bytes" where
  "raw_bytes fs = concat (map (\<lambda>f. ServerConn_SendRaw (fr_fin f) (fr_opcode f) (fr_payload f)) fs)"

definition sendable :: "frame \<Rightarrow> bool" where
  "sendable f \<longleftrightarrow> length (fr_payload f) \<le> MaxFrameSize \<and> unat (fr_opcode f) < 16"

lemma SendRaw_nonempty [simp]: "ServerConn_SendRaw fin op payload \<noteq> []"
  by (simp add: ServerConn_SendRaw_def)

lemma readFrame_stream:
  assumes "prefix s (raw_bytes fs)" "list_all sendable fs" "readFrame True s = Inr (f, s')"
  shows "\<exists>gs. fs = f # gs \<and> prefix s' (raw_bytes gs) \<and>
    s = ServerConn_SendRaw (fr_fin f) (fr_opcode f) (fr_payload f) @ s'"
proof -
  obtain t where t: "raw_bytes fs = s @ t" using assms(1) by (auto simp: prefix_def)
  have r: "readFrame True (raw_bytes fs) = Inr (f, s' @ t)" using readFrame_more [OF assms(3)] t by simp
  show ?thesis
  proof (cases fs)
    case Nil
    then show ?thesis using r by (simp add: raw_bytes_def readFrame_def read_full_def)
  next
    case (Cons g gs)
    then have "raw_bytes fs = ServerConn_SendRaw (fr_fin g) (fr_opcode g) (fr_payload g) @ raw_bytes gs"
      by (simp add: raw_bytes_def)
    moreover have "readFrame True (ServerConn_SendRaw (fr_fin g) (fr_opcode g) (fr_payload g) @ raw_bytes gs) = Inr (g, raw_bytes gs)"
      using Cons assms(2) readFrame_SendRaw by (simp add: sendable_def)
    ultimately have "f = g" and gs: "raw_bytes gs = s' @ t"
      and "(ServerConn_SendRaw (fr_fin g) (fr_opcode g) (fr_payload g) @ s') @ t = s @ t"
      using r t by auto
    then have "s = ServerConn_SendRaw (fr_fin g) (fr_opcode g) (fr_payload g) @ s'" by (metis append_same_eq)
    then show ?thesis using Cons gs \<open>f = g\<close> by (auto simp: prefix_def)
  qed
qed

subsection \<open>The invariant of a connection\<close>

text \<open>What the loop has taken from the stream, and where its messages went.\<close>

definition stream_ok :: "frame list \<Rightarrow> Conn \<Rightarrow> bool" where
  "stream_ok fs c \<longleftrightarrow> (\<exists>gs. fs = cn_log c @ gs \<and> prefix (cn_in c) (raw_bytes gs) \<and>
     (\<not> cn_eof c \<longrightarrow> cn_arrived c = raw_bytes (cn_log c) @ cn_in c))"

definition queue_ok :: "Conn \<Rightarrow> bool" where
  "queue_ok c \<longleftrightarrow> length (cn_frames c) \<le> framesCap \<and> prefix (cn_got c @ cn_frames c) (snd (assemble (cn_log c))) \<and>
     (cn_reading c \<longrightarrow> cn_got c @ cn_frames c = snd (assemble (cn_log c)) \<and> cn_partial c = fst (assemble (cn_log c)))"

text \<open>Steps beside the read loop: what they keep.\<close>

definition keeps :: "Conn \<Rightarrow> Conn \<Rightarrow> bool" where
  "keeps c c' \<longleftrightarrow> cn_masked c' = cn_masked c \<and> cn_in c' = cn_in c \<and> cn_partial c' = cn_partial c \<and>
     cn_frames c' = cn_frames c \<and> cn_got c' = cn_got c \<and> cn_reading c' = cn_reading c \<and> cn_log c' = cn_log c \<and>
     cn_arrived c' = cn_arrived c \<and> (cn_eof c \<longrightarrow> cn_eof c')"

lemma keeps_simps [simp]:
  "keeps c (shutdown reason c)" "keeps c (conn_fail e c)" "keeps c (fst (net_write io data c))"
  by (auto simp: keeps_def shutdown_def conn_fail_def net_write_def Let_def split: option.splits write_result.splits)

lemma keeps_trans: "keeps a b \<Longrightarrow> keeps b c \<Longrightarrow> keeps a c"
  by (auto simp: keeps_def)

lemma keeps_refl [simp]: "keeps c c"
  by (simp add: keeps_def)

lemma writeFrame_cases:
  "fst (writeFrame io key opcode payload c) = c \<or>
   (\<exists>data. fst (writeFrame io key opcode payload c) = fst (net_write io data c)) \<or>
   (\<exists>data e. fst (writeFrame io key opcode payload c) = conn_fail e (fst (net_write io data c)))"
proof -
  let ?data = "frame_bytes (cn_masked c) (case key of None \<Rightarrow> [] | Some k \<Rightarrow> k) opcode payload"
  obtain d r where w: "net_write io ?data c = (d, r)" by force
  show ?thesis
  proof (cases r)
    case (Inl e)
    then have "fst (writeFrame io key opcode payload c) \<in> {c, conn_fail e (fst (net_write io ?data c))}"
      using w by (simp add: writeFrame_def Let_def)
    then show ?thesis by blast
  next
    case (Inr u)
    then have "fst (writeFrame io key opcode payload c) \<in> {c, fst (net_write io ?data c)}"
      using w by (simp add: writeFrame_def Let_def)
    then show ?thesis by blast
  qed
qed

lemma keeps_writeFrame [simp]: "keeps c (fst (writeFrame io key opcode payload c))"
  using writeFrame_cases [of io key opcode payload c] keeps_trans [OF keeps_simps(3) keeps_simps(2)] keeps_simps(3) keeps_refl
  by metis

lemma keeps_Close [simp]: "keeps c (conn_Close io c)"
  using keeps_trans [OF keeps_simps(3) keeps_simps(1)]
  by (auto simp: conn_Close_def sendCloseBestEffort_def writeFrameNoFail_def Let_def)

lemma keeps_ok:
  assumes "keeps c c'" "queue_ok c" "stream_ok fs c"
  shows "queue_ok c' \<and> stream_ok fs c'"
  using assms by (auto simp: keeps_def queue_ok_def stream_ok_def)

lemma queue_ok_receive:
  assumes "queue_ok c" "ReceiveBinary ch c = Some (c', r)"
  shows "queue_ok c' \<and> (stream_ok fs c \<longrightarrow> stream_ok fs c')"
proof -
  have "queue_ok c' \<and> (stream_ok fs c \<longrightarrow> stream_ok fs c')" if "take_frame c = Some (c', r)"
    using that assms(1) by (auto simp: take_frame_def queue_ok_def stream_ok_def split: list.splits)
  then show ?thesis using assms by (auto simp: ReceiveBinary_def split: recv_choice.splits if_splits option.splits)
qed

text \<open>The frame at the head of the stream moves to the log; then the rest of the iteration.\<close>

definition taken :: "frame \<Rightarrow> bytes \<Rightarrow> Conn \<Rightarrow> Conn" where
  "taken f rest c = c\<lparr>cn_in := rest, cn_log := cn_log c @ [f]\<rparr>"

lemma stream_ok_taken:
  assumes "stream_ok fs c" "list_all sendable fs" "readFrame True (cn_in c) = Inr (f, rest)"
  shows "stream_ok fs (taken f rest c)"
proof -
  obtain gs where gs: "fs = cn_log c @ gs" "prefix (cn_in c) (raw_bytes gs)"
    "\<not> cn_eof c \<longrightarrow> cn_arrived c = raw_bytes (cn_log c) @ cn_in c"
    using assms(1) by (auto simp: stream_ok_def)
  have "list_all sendable gs" using assms(2) gs(1) by simp
  from readFrame_stream [OF gs(2) this assms(3)]
  obtain hs where "gs = f # hs" "prefix rest (raw_bytes hs)"
    "cn_in c = ServerConn_SendRaw (fr_fin f) (fr_opcode f) (fr_payload f) @ rest" by blast
  then show ?thesis using gs by (auto simp: stream_ok_def taken_def raw_bytes_def)
qed

lemma stream_ok_cong:
  "stream_ok fs c \<Longrightarrow> cn_log c' = cn_log c \<Longrightarrow> cn_in c' = cn_in c \<Longrightarrow> cn_arrived c' = cn_arrived c \<Longrightarrow>
   (cn_eof c \<Longrightarrow> cn_eof c') \<Longrightarrow> stream_ok fs c'"
  by (auto simp: stream_ok_def)

lemma queue_ok_stopped:
  assumes "queue_ok c" "keeps (taken f rest c\<lparr>cn_partial := p\<rparr>) d"
  shows "queue_ok (stop_reading d)"
proof -
  have "prefix (snd (assemble (cn_log c))) (snd (assemble (cn_log c @ [f])))"
    by (simp add: assemble_snoc assemble_step_prefix)
  then show ?thesis
    using assms prefix_order.trans by (fastforce simp: queue_ok_def keeps_def taken_def stop_reading_def)
qed

lemma queue_ok_control:
  assumes "queue_ok c" "\<not> is_data f" "keeps (taken f rest c) d"
  shows "queue_ok d"
  using assms by (auto simp: queue_ok_def keeps_def taken_def assemble_snoc assemble_step_def)

lemma queue_ok_data:
  assumes "queue_ok c" "cn_reading c" "is_data f" "accumulate f (cn_partial c) = (p, Some r)"
  shows "(r = None \<longrightarrow> queue_ok (taken f rest c\<lparr>cn_partial := p\<rparr>)) \<and>
    (\<forall>m d. r = Some m \<and> route_message toClose m (taken f rest c\<lparr>cn_partial := p\<rparr>) = Some d \<longrightarrow> queue_ok d)"
proof -
  have "route_message toClose m (taken f rest c\<lparr>cn_partial := p\<rparr>) = Some (stop_reading (taken f rest c\<lparr>cn_partial := p\<rparr>)) \<Longrightarrow>
      queue_ok (stop_reading (taken f rest c\<lparr>cn_partial := p\<rparr>))" for m
    by (rule queue_ok_stopped [OF assms(1), where f = f and rest = rest and p = p]) simp
  then show ?thesis
    using assms by (auto simp: queue_ok_def taken_def assemble_snoc assemble_step_def route_message_def split: if_splits)
qed

lemma readLoop_cases [consumes 1, case_names short bad closing pong_failed pong ignored refused more message unknown]:
  assumes "readLoop io key toClose c = Some c'"
  obtains "c' = stop_reading (conn_fail (NetError ''EOF'') c)" "cn_eof c"
  | e where "c' = stop_reading (conn_fail e c)" "readFrame (cn_masked c) (cn_in c) = Inl e"
  | f rest where "readFrame (cn_masked c) (cn_in c) = Inr (f, rest)" "\<not> is_data f" "c' = stop_reading (conn_fail ErrClosed (taken f rest c))"
  | f rest e where "readFrame (cn_masked c) (cn_in c) = Inr (f, rest)" "\<not> is_data f"
      "c' = stop_reading (conn_fail e (fst (writePong io key (fr_payload f) (taken f rest c))))"
  | f rest where "readFrame (cn_masked c) (cn_in c) = Inr (f, rest)" "\<not> is_data f"
      "c' = fst (writePong io key (fr_payload f) (taken f rest c))"
  | f rest where "readFrame (cn_masked c) (cn_in c) = Inr (f, rest)" "\<not> is_data f" "c' = taken f rest c"
  | f rest p where "readFrame (cn_masked c) (cn_in c) = Inr (f, rest)" "is_data f"
      "c' = stop_reading (conn_fail ErrProtocol (taken f rest c\<lparr>cn_partial := p\<rparr>))"
  | f rest p where "readFrame (cn_masked c) (cn_in c) = Inr (f, rest)" "is_data f"
      "accumulate f (cn_partial c) = (p, Some None)" "c' = taken f rest c\<lparr>cn_partial := p\<rparr>"
  | f rest p m where "readFrame (cn_masked c) (cn_in c) = Inr (f, rest)" "is_data f"
      "accumulate f (cn_partial c) = (p, Some (Some m))" "route_message toClose m (taken f rest c\<lparr>cn_partial := p\<rparr>) = Some c'"
  | f rest where "readFrame (cn_masked c) (cn_in c) = Inr (f, rest)" "\<not> is_data f"
      "c' = stop_reading (conn_fail (BadOpcode (fr_opcode f)) (taken f rest c))"
proof (cases "readFrame (cn_masked c) (cn_in c)")
  case (Inl e)
  show ?thesis
  proof (cases "e = NeedMore")
    case True
    then show ?thesis using Inl assms by (intro that(1)) (auto simp: readLoop_def split: if_splits)
  next
    case False
    then show ?thesis using Inl assms by (intro that(2) [of e]) (auto simp: readLoop_def split: if_splits)
  qed
next
  case (Inr r)
  then obtain f rest where f: "readFrame (cn_masked c) (cn_in c) = Inr (f, rest)" by (cases r) auto
  note step = assms [unfolded readLoop_def, simplified f, simplified Let_def, folded taken_def]
  consider "fr_opcode f = 8" | "fr_opcode f = 9" | "fr_opcode f = 10" | "is_data f"
    | "fr_opcode f \<notin> {8, 9, 10}" "\<not> is_data f" by auto
  then show ?thesis
  proof cases
    case 1
    then show ?thesis using f step by (intro that(3)) (auto simp: is_data_def taken_def split: if_splits)
  next
    case 2
    obtain d r where w: "writePong io key (fr_payload f) (taken f rest c) = (d, r)" by force
    show ?thesis
    proof (cases r)
      case (Inl e)
      then show ?thesis using f step 2 w by (intro that(4)) (auto simp: is_data_def taken_def split: if_splits)
    next
      case (Inr u)
      then show ?thesis using f step 2 w by (intro that(5)) (auto simp: is_data_def taken_def split: if_splits)
    qed
  next
    case 3
    then show ?thesis using f step by (intro that(6)) (auto simp: is_data_def taken_def split: if_splits)
  next
    case 4
    obtain p r where a: "accumulate f (cn_partial c) = (p, r)" by force
    have op: "fr_opcode f \<noteq> 8" "fr_opcode f \<noteq> 9" "fr_opcode f \<noteq> 10" "fr_opcode f \<in> {0, 1, 2}"
      using 4 by (auto simp: is_data_def)
    show ?thesis
    proof (cases r)
      case None
      then show ?thesis using f step 4 a op by (intro that(7)) (auto simp: taken_def split: if_splits)
    next
      case (Some r')
      show ?thesis
      proof (cases r')
        case None
        then show ?thesis using f step 4 a op Some by (intro that(8)) (auto simp: taken_def split: if_splits)
      next
        case (Some m)
        then show ?thesis using f step 4 a op \<open>r = Some r'\<close> by (intro that(9)) (auto simp: taken_def split: if_splits)
      qed
    qed
  next
    case 5
    then show ?thesis using f step by (intro that(10)) (auto simp: is_data_def taken_def split: if_splits)
  qed
qed

lemma queue_ok_fail: "queue_ok c \<Longrightarrow> queue_ok (stop_reading (conn_fail e c))"
  using keeps_simps(2) [of c e] by (auto simp: queue_ok_def keeps_def stop_reading_def)

lemma queue_ok_readLoop:
  assumes "queue_ok c" "readLoop io key toClose c = Some c'"
  shows "queue_ok c'"
proof -
  have r: "cn_reading c" using assms(2) by (simp add: readLoop_def split: if_splits)
  have stopped: "queue_ok (stop_reading d)" if "keeps (taken f rest c) d" for f rest d
    using queue_ok_stopped [OF assms(1), where f = f and rest = rest and p = "cn_partial (taken f rest c)"] that by simp
  from assms(2) show ?thesis
  proof (cases rule: readLoop_cases)
    case (closing f rest)
    then show ?thesis using stopped [of f rest] by simp
  next
    case (pong_failed f rest e)
    have "keeps (taken f rest c) (conn_fail e (fst (writePong io key (fr_payload f) (taken f rest c))))"
      unfolding writePong_def by (rule keeps_trans [OF keeps_writeFrame keeps_simps(2)])
    then show ?thesis using stopped pong_failed by blast
  next
    case (pong f rest)
    then show ?thesis using queue_ok_control [OF assms(1), of f rest] by (simp add: writePong_def)
  next
    case (ignored f rest)
    then show ?thesis using queue_ok_control [OF assms(1), of f rest] by simp
  next
    case (refused f rest p)
    then show ?thesis using queue_ok_stopped [OF assms(1), where f = f and rest = rest and p = p] by simp
  next
    case (more f rest p)
    then show ?thesis using queue_ok_data [OF assms(1) r, of f p None] by simp
  next
    case (message f rest p m)
    then show ?thesis using queue_ok_data [OF assms(1) r, of f p "Some m"] by simp
  next
    case (unknown f rest)
    then show ?thesis using stopped [of f rest] by simp
  qed (use queue_ok_fail assms(1) in auto)
qed

lemma stream_ok_keeps: "keeps c c' \<Longrightarrow> stream_ok fs c \<Longrightarrow> stream_ok fs c'"
  by (auto simp: keeps_def stream_ok_def)

lemma stream_ok_simps [simp]:
  "stream_ok fs (stop_reading c) = stream_ok fs c" "stream_ok fs (c\<lparr>cn_partial := p\<rparr>) = stream_ok fs c"
  "stream_ok fs (c\<lparr>cn_frames := q\<rparr>) = stream_ok fs c"
  by (simp_all add: stream_ok_def stop_reading_def)

lemma stream_ok_route: "route_message toClose m c = Some d \<Longrightarrow> stream_ok fs c \<Longrightarrow> stream_ok fs d"
  by (auto simp: route_message_def split: if_splits)

lemma stream_ok_readLoop:
  assumes "stream_ok fs c" "list_all sendable fs" "cn_masked c" "readLoop io key toClose c = Some c'"
  shows "stream_ok fs c'"
proof -
  have t: "stream_ok fs (taken f rest c)" if "readFrame (cn_masked c) (cn_in c) = Inr (f, rest)" for f rest
    using stream_ok_taken assms that by simp
  note k = stream_ok_keeps [OF keeps_simps(2)] stream_ok_keeps [OF keeps_writeFrame]
  from assms(4) show ?thesis
    by (cases rule: readLoop_cases) (use assms(1) t in \<open>auto simp: writePong_def intro!: k elim: stream_ok_route\<close>)
qed

lemma readLoop_masked:
  assumes "readLoop io key toClose c = Some c'"
  shows "cn_masked c' = cn_masked c \<and> cn_arrived c' = cn_arrived c"
proof -
  have t: "cn_masked (taken f rest c) = cn_masked c" "cn_arrived (taken f rest c) = cn_arrived c" for f rest
    by (simp_all add: taken_def)
  have w: "cn_masked (fst (writeFrame io key op p d)) = cn_masked d" "cn_arrived (fst (writeFrame io key op p d)) = cn_arrived d" for op p d
    using keeps_writeFrame [of d io key op p] by (simp_all add: keeps_def)
  have cf: "cn_masked (conn_fail e d) = cn_masked d" "cn_arrived (conn_fail e d) = cn_arrived d" for e d
    using keeps_simps(2) [of d e] by (simp_all add: keeps_def)
  have r: "route_message toClose m d = Some d' \<Longrightarrow> cn_masked d' = cn_masked d \<and> cn_arrived d' = cn_arrived d" for m d d'
    by (auto simp: route_message_def stop_reading_def split: if_splits)
  from assms show ?thesis
    by (cases rule: readLoop_cases) (auto simp: t cf w writePong_def stop_reading_def dest!: r)
qed

lemma conn_step_ok:
  assumes step: "conn_step act c = Some c'" and inv: "queue_ok c" "cn_masked c"
    and s: "prefix (cn_arrived c) (raw_bytes fs) \<longrightarrow> stream_ok fs c" and fs: "list_all sendable fs"
  shows "queue_ok c' \<and> cn_masked c' \<and> (prefix (cn_arrived c') (raw_bytes fs) \<longrightarrow> stream_ok fs c')"
proof -
  have k: ?thesis if "keeps c c'" using that inv s stream_ok_keeps by (auto simp: queue_ok_def keeps_def)
  show ?thesis
  proof (cases act)
    case (Arrive bs)
    then have c': "\<not> cn_eof c" "c' = c\<lparr>cn_in := cn_in c @ bs, cn_arrived := cn_arrived c @ bs\<rparr>"
      using step by (auto simp: conn_step_def split: if_splits)
    have "stream_ok fs c'" if p: "prefix (cn_arrived c @ bs) (raw_bytes fs)"
    proof -
      have "stream_ok fs c" using s p append_prefixD by blast
      then obtain gs where gs: "fs = cn_log c @ gs" "cn_arrived c = raw_bytes (cn_log c) @ cn_in c"
        using c'(1) by (auto simp: stream_ok_def)
      then have "prefix (cn_in c @ bs) (raw_bytes gs)" using p by (simp add: raw_bytes_def)
      then show ?thesis using gs c' by (auto simp: stream_ok_def)
    qed
    then show ?thesis using inv c' by (simp add: queue_ok_def)
  next
    case (Lost n)
    then show ?thesis using step inv s
      by (auto simp: conn_step_def queue_ok_def stream_ok_def split: if_splits intro: prefix_order.trans [OF take_is_prefix])
  next
    case (DoReadLoop io key toClose)
    then have "readLoop io key toClose c = Some c'" using step by (simp add: conn_step_def)
    then show ?thesis using queue_ok_readLoop stream_ok_readLoop readLoop_masked inv s fs by metis
  next
    case (DoReceive ch)
    then obtain r where r: "ReceiveBinary ch c = Some (c', r)" using step by (auto simp: conn_step_def)
    then have "cn_masked c' = cn_masked c \<and> cn_arrived c' = cn_arrived c"
      by (auto simp: ReceiveBinary_def take_frame_def split: recv_choice.splits if_splits option.splits list.splits)
    then show ?thesis using queue_ok_receive [OF inv(1) r] inv(2) s by auto
  next
    case (DoWrite io key op p)
    then show ?thesis using step k by (auto simp: conn_step_def)
  next
    case (DoConnClose io)
    then show ?thesis using step k by (auto simp: conn_step_def)
  next
    case PeerEnds
    then show ?thesis using step inv s by (auto simp: conn_step_def queue_ok_def stream_ok_def)
  qed
qed

lemma conn_reach_ok:
  assumes "conn_reach (newConn buffered binding True) c" "list_all sendable fs"
  shows "queue_ok c \<and> cn_masked c \<and> (prefix (cn_arrived c) (raw_bytes fs) \<longrightarrow> stream_ok fs c)"
  using assms(1)
proof (induction rule: conn_reach.induct)
  case conn_start
  show ?case by (simp add: newConn_def queue_ok_def stream_ok_def assemble_def raw_bytes_def)
next
  case (conn_next c act c')
  then show ?case using conn_step_ok [OF _ _ _ _ assms(2)] by blast
qed

subsection \<open>The contract of a connection\<close>

text \<open>
  The messages the read loop took off the wire are the frames accepted. A loop that ends
  may drop the message it could not queue; while it runs nothing is lost.
\<close>

lemma client_queue: "conn_reach (newConn buffered binding True) c \<Longrightarrow> queue_ok c"
  using conn_reach_ok [of buffered binding c "[]"] by simp

interpretation client: frame_stream "conn_reach (newConn buffered binding True)" "\<lambda>c. snd (assemble (cn_log c))" cn_got cn_frames framesCap
  for buffered binding
  by unfold_locales (use client_queue in \<open>auto simp: queue_ok_def\<close>)

interpretation running: frame_channel "\<lambda>c. conn_reach (newConn buffered binding True) c \<and> cn_reading c" "\<lambda>c. snd (assemble (cn_log c))" cn_got cn_frames framesCap
  for buffered binding
  by unfold_locales (use client_queue in \<open>auto simp: queue_ok_def\<close>)

subsection \<open>Properties\<close>

text \<open>
  C9 (functional). A client reads a stream of frames from a server in which every
  message may be cut into fragments, with control frames anywhere between, and the
  bytes may arrive in any pieces, interleaved with reads, writes and closing. At
  every moment what \<open>ReceiveBinary\<close> has returned, followed by what is queued, is a
  prefix of the messages in order, at most 64 of them queued; and it is all of them
  once the running loop has read the whole stream.
\<close>

theorem ws_delivery:
  assumes "conn_reach (newConn buffered binding True) c"
    and "list_all sendable fs" "list_all message_ok msgs"
    and "filter is_data fs = concat (map (\<lambda>m. fragment_frames (fst m) (snd m)) msgs)"
    and "prefix (cn_arrived c) (raw_bytes fs)"
  shows "prefix (cn_got c @ cn_frames c) (map (concat \<circ> snd) msgs) \<and> length (cn_frames c) \<le> 64 \<and>
    (cn_reading c \<and> \<not> cn_eof c \<and> cn_arrived c = raw_bytes fs \<and> cn_in c = [] \<longrightarrow> cn_got c @ cn_frames c = map (concat \<circ> snd) msgs)"
proof -
  have ok: "stream_ok fs c" using conn_reach_ok [OF assms(1,2)] assms(5) by auto
  have all: "snd (assemble fs) = map (concat \<circ> snd) msgs" using assemble_messages [OF assms(3,4)] by simp
  obtain gs where gs: "fs = cn_log c @ gs" "\<not> cn_eof c \<longrightarrow> cn_arrived c = raw_bytes (cn_log c) @ cn_in c"
    using ok by (auto simp: stream_ok_def)
  have "prefix (snd (assemble (cn_log c))) (snd (assemble fs))" using gs(1) by (intro assemble_prefix) simp
  then have p: "prefix (cn_got c @ cn_frames c) (map (concat \<circ> snd) msgs)"
    using client.order [OF assms(1)] all prefix_order.trans by fastforce
  have "gs = []" if "\<not> cn_eof c" "cn_arrived c = raw_bytes fs" "cn_in c = []"
    using that gs by (auto simp: raw_bytes_def)
  then show ?thesis using p client.bounded [OF assms(1)] running.lossless [of buffered binding c] assms(1) all gs(1) by (auto simp: framesCap_def)
qed

fun conn_run :: "conn_action list \<Rightarrow> Conn \<Rightarrow> Conn option" where
  "conn_run [] c = Some c"
| "conn_run (act # acts) c = (case conn_step act c of None \<Rightarrow> None | Some c \<Rightarrow> conn_run acts c)"

lemma conn_run_reach: "conn_reach c0 c \<Longrightarrow> conn_run acts c = Some c' \<Longrightarrow> conn_reach c0 c'"
  by (induction acts arbitrary: c) (auto intro: conn_reach.conn_next split: option.splits)

lemmas conn_eval = conn_step_def readLoop_def readFrame_def read_full_def read_length_def raw_bytes_def ServerConn_SendRaw_def
  length_bytes_def MaxFrameSize_def newConn_def accumulate_def route_message_def framesCap_def writePong_def writeFrame_def
  net_write_def frame_bytes_def mask_bytes_def stop_reading_def conn_fail_def shutdown_def

text \<open>One message in two fragments with a ping between them.\<close>

definition demo_frames :: "frame list" where
  "demo_frames = [\<lparr>fr_fin = False, fr_opcode = 2, fr_payload = [1]\<rparr>, \<lparr>fr_fin = True, fr_opcode = 9, fr_payload = []\<rparr>,
     \<lparr>fr_fin = True, fr_opcode = 0, fr_payload = [2, 3]\<rparr>]"

definition demo_reads :: "conn_action list" where
  "demo_reads = [Arrive (take 4 (raw_bytes demo_frames)), DoReadLoop WriteOk (Some [0, 0, 0, 0]) False,
     Arrive (drop 4 (raw_bytes demo_frames)), DoReadLoop WriteOk (Some [5, 6, 7, 8]) False, DoReadLoop WriteOk None False]"

lemma demo_reads_run:
  "case conn_run demo_reads (newConn [] [] True) of None \<Rightarrow> False
   | Some c \<Rightarrow> cn_reading c \<and> \<not> cn_eof c \<and> cn_arrived c = raw_bytes demo_frames \<and> cn_in c = []"
  by (simp add: demo_reads_def demo_frames_def conn_eval Let_def)

lemma ws_delivery_witness:
  "\<exists>c. conn_run demo_reads (newConn [] [] True) = Some c \<and> cn_got c @ cn_frames c = [[1, 2, 3]]"
proof -
  obtain c where c: "conn_run demo_reads (newConn [] [] True) = Some c" "cn_reading c" "\<not> cn_eof c"
    "cn_arrived c = raw_bytes demo_frames" "cn_in c = []"
    using demo_reads_run by (auto split: option.splits)
  have "conn_reach (newConn [] [] True) c" using conn_run_reach [OF conn_start c(1)] .
  from ws_delivery [OF this, of demo_frames "[(2, [[1], [2, 3]])]"] c show ?thesis
    by (simp add: demo_frames_def sendable_def MaxFrameSize_def message_ok_def is_data_def)
qed

text \<open>A message whose first fragment is empty: the continuation is taken for an unsolicited one.\<close>

lemma empty_first_fragment_refused:
  "case conn_run [Arrive (raw_bytes (fragment_frames 2 [[], [7]])), DoReadLoop WriteOk None False, DoReadLoop WriteOk None False]
      (newConn [] [] True) of None \<Rightarrow> False
   | Some c \<Rightarrow> cn_lastErr c = Some ErrProtocol \<and> cn_frames c = [] \<and> \<not> cn_reading c"
  by (simp add: conn_eval Let_def)



end
