(* ===== verification/WsHandshake.thy ===== *)
theory WsHandshake
  imports WsConn SecureKV
begin

text \<open>
  The opening handshake: \<open>Dial\<close> of \<^verbatim>\<open>transport/ws/ws.go\<close> and \<open>Upgrade\<close>,
  \<open>ServeWS\<close> of \<^verbatim>\<open>transport/ws/server.go\<close>. SHA-1 is a parameter. A parsed URL
  and the headers of a parsed request are data; what the network does (connecting,
  writing, the bytes it answers) is an environment record. Case folding is written
  out for comparisons with ASCII names: besides the ASCII letters, Go folds the long
  s and the Kelvin sign, and lowers the Kelvin sign and the dotted capital I.
\<close>

subsection \<open>Strings\<close>

definition cr :: char where "cr = CHR 0x0D"

definition crlf :: string where "crlf = [cr, nl]"

definition lower :: "char \<Rightarrow> char" where
  "lower c = (if 65 \<le> (of_char c :: nat) \<and> (of_char c :: nat) \<le> 90 then char_of ((of_char c :: nat) + 32) else c)"

fun fold_case :: "string \<Rightarrow> string" where
  "fold_case (a # b # c # r) =
     (if a = CHR 0xC5 \<and> b = CHR 0xBF then CHR ''s'' # fold_case (c # r)
      else if a = CHR 0xE2 \<and> b = CHR 0x84 \<and> c = CHR 0xAA then CHR ''k'' # fold_case r
      else lower a # fold_case (b # c # r))"
| "fold_case [a, b] = (if a = CHR 0xC5 \<and> b = CHR 0xBF then [CHR ''s''] else [lower a, lower b])"
| "fold_case [a] = [lower a]"
| "fold_case [] = []"

definition EqualFold :: "string \<Rightarrow> string \<Rightarrow> bool" where
  "EqualFold s t \<longleftrightarrow> fold_case s = fold_case t"

fun ToLower :: "string \<Rightarrow> string" where
  "ToLower (a # b # c # r) =
     (if a = CHR 0xC4 \<and> b = CHR 0xB0 then CHR ''i'' # ToLower (c # r)
      else if a = CHR 0xE2 \<and> b = CHR 0x84 \<and> c = CHR 0xAA then CHR ''k'' # ToLower r
      else lower a # ToLower (b # c # r))"
| "ToLower [a, b] = (if a = CHR 0xC4 \<and> b = CHR 0xB0 then [CHR ''i''] else [lower a, lower b])"
| "ToLower [a] = [lower a]"
| "ToLower [] = []"

declare fold_case.simps [simp del] ToLower.simps [simp del]

definition trim :: "string \<Rightarrow> string" where
  "trim s = string_of_bytes (TrimSpace (bytes_of_string s))"

text \<open>\<open>strings.TrimRight(s, crlf)\<close>.\<close>

definition trim_eol :: "string \<Rightarrow> string" where
  "trim_eol s = rev (dropWhile (\<lambda>c. c = cr \<or> c = nl) (rev s))"

text \<open>\<open>ReadString\<close> up to a newline, which it keeps; \<open>None\<close> is the end of the stream before one.\<close>

definition ReadString :: "string \<Rightarrow> (string \<times> string) option" where
  "ReadString s = map_option (\<lambda>i. (take (i + 1) s, drop (i + 1) s)) (IndexByte s nl)"

lemma ReadString_shrinks: "ReadString s = Some (line, rest) \<Longrightarrow> length rest < length s"
  by (cases s) (auto simp: ReadString_def IndexByte_def split: if_splits)

subsection \<open>Keys\<close>

definition wsGUID :: string where "wsGUID = ''258EAFA5-E914-47DA-95CA-C5AB0DC85B11''"

definition acceptKey :: "(bytes \<Rightarrow> bytes) \<Rightarrow> string \<Rightarrow> string" where
  "acceptKey sha1 key = b64_encode (sha1 (bytes_of_string (key @ wsGUID)))"

subsection \<open>The client\<close>

record URL =
  url_Scheme :: string
  url_Host :: string
  url_RequestURI :: string

datatype dial_error = UnsupportedScheme string | DialFailed string | DialRand | DialWrite string
  | ReadStatusLine | ReadHeaders | Rejected string | BadUpgrade

text \<open>The address to connect to, and whether TLS wraps the connection.\<close>

definition dial_target :: "URL \<Rightarrow> dial_error + (string \<times> bool)" where
  "dial_target u =
     (if url_Scheme u = ''ws'' then
        Inr (if CHR '':'' \<notin> set (url_Host u) then url_Host u @ '':80'' else url_Host u, False)
      else if url_Scheme u = ''wss'' then
        Inr (if CHR '':'' \<notin> set (url_Host u) then url_Host u @ '':443'' else url_Host u, True)
      else Inl (UnsupportedScheme (url_Scheme u)))"

definition dial_request :: "URL \<Rightarrow> string \<Rightarrow> (string \<times> string) list \<Rightarrow> string" where
  "dial_request u wsKey headers =
     ''GET '' @ url_RequestURI u @ '' HTTP/1.1'' @ crlf @ ''Host: '' @ url_Host u @ crlf @
     ''Upgrade: websocket'' @ crlf @ ''Connection: Upgrade'' @ crlf @
     ''Sec-WebSocket-Key: '' @ wsKey @ crlf @ ''Sec-WebSocket-Version: 13'' @ crlf @
     concat (map (\<lambda>(k, v). k @ '': '' @ v @ crlf) headers) @ crlf"

text \<open>The header lines up to the empty one; the last \<open>Upgrade\<close> and \<open>Sec-WebSocket-Accept\<close> count.\<close>

function read_headers :: "string \<Rightarrow> string \<Rightarrow> string \<Rightarrow> dial_error + ((string \<times> string) \<times> string)" where
  "read_headers upgrade accept s =
     (case ReadString s of
        None \<Rightarrow> Inl ReadHeaders
      | Some (line, rest) \<Rightarrow>
          let line = trim_eol line
          in if line = '''' then Inr ((upgrade, accept), rest)
             else case Cut line (CHR '':'') of
                 None \<Rightarrow> read_headers upgrade accept rest
               | Some (k, v) \<Rightarrow>
                   let v = trim v; name = ToLower (trim k)
                   in if name = ''upgrade'' then read_headers v accept rest
                      else if name = ''sec-websocket-accept'' then read_headers upgrade v rest
                      else read_headers upgrade accept rest)"
  by pat_completeness auto
termination
  by (relation "measure (\<lambda>(u, a, s). length s)") (auto dest: ReadString_shrinks)

declare read_headers.simps [simp del]

text \<open>What the client makes of the answer: the trimmed status line and the bytes after the headers.\<close>

definition dial_response :: "(bytes \<Rightarrow> bytes) \<Rightarrow> string \<Rightarrow> string \<Rightarrow> dial_error + (string \<times> string)" where
  "dial_response sha1 wsKey s =
     (case ReadString s of
        None \<Rightarrow> Inl ReadStatusLine
      | Some (statusLine, s) \<Rightarrow>
          let parts = split_on (CHR '' '') (trim statusLine)
          in if length parts < 2 \<or> parts ! 1 \<noteq> ''101'' then Inl (Rejected (trim statusLine))
             else
               and_then (read_headers '''' '''' s) (\<lambda>((upgrade, accept), rest).
                 if \<not> EqualFold upgrade ''websocket'' \<or> accept \<noteq> acceptKey sha1 wsKey then Inl BadUpgrade
                 else Inr (trim statusLine, rest)))"

record NetEnv =
  ne_connect :: "string \<Rightarrow> bool \<Rightarrow> string option"
  ne_rand :: "bytes option"
  ne_write :: write_result
  ne_response :: string

definition Dial :: "(bytes \<Rightarrow> bytes) \<Rightarrow> NetEnv \<Rightarrow> (string \<times> string) list \<Rightarrow> URL \<Rightarrow> dial_error + Conn" where
  "Dial sha1 env headers u =
     and_then (dial_target u) (\<lambda>(hostPort, tls).
       case ne_connect env hostPort tls of
         Some e \<Rightarrow> Inl (DialFailed e)
       | None \<Rightarrow>
          (case ne_rand env of
             None \<Rightarrow> Inl DialRand
           | Some keyBytes \<Rightarrow>
               let wsKey = b64_encode keyBytes
               in case ne_write env of
                    WriteErr k e \<Rightarrow> Inl (DialWrite e)
                  | WriteOk \<Rightarrow>
                      and_then (dial_response sha1 wsKey (ne_response env)) (\<lambda>(status, rest).
                        let binding = ''GET '' @ url_RequestURI u @ '' HTTP/1.1'' @ crlf @ ''Host: '' @ url_Host u @ crlf @
                              status @ crlf
                        in Inr (newConn (bytes_of_string rest) (bytes_of_string binding) True))))"

subsection \<open>The server\<close>

datatype upgrade_error = NotUpgrade | HijackUnsupported | UpgradeIO string

definition switching_response :: "(bytes \<Rightarrow> bytes) \<Rightarrow> string \<Rightarrow> string" where
  "switching_response sha1 key =
     ''HTTP/1.1 101 Switching Protocols'' @ crlf @ ''Upgrade: websocket'' @ crlf @ ''Connection: Upgrade'' @ crlf @
     ''Sec-WebSocket-Accept: '' @ acceptKey sha1 key @ crlf @ crlf"

text \<open>
  \<open>hdr\<close> is \<open>Header.Get\<close> of the request; \<open>hijack\<close> is \<open>None\<close> when the writer cannot be
  hijacked, else the error of taking over, writing or flushing, or the bytes the
  reader had buffered. The result is the answer written and the connection.
\<close>

definition Upgrade :: "(bytes \<Rightarrow> bytes) \<Rightarrow> (string \<Rightarrow> string) \<Rightarrow> (string + bytes) option \<Rightarrow> upgrade_error + (string \<times> Conn)" where
  "Upgrade sha1 hdr hijack =
     (let key = hdr ''Sec-WebSocket-Key''
      in if \<not> EqualFold (hdr ''Upgrade'') ''websocket'' \<or> key = '''' then Inl NotUpgrade
         else case hijack of
             None \<Rightarrow> Inl HijackUnsupported
           | Some (Inl e) \<Rightarrow> Inl (UpgradeIO e)
           | Some (Inr buffered) \<Rightarrow> Inr (switching_response sha1 key, newConn buffered [] False))"

text \<open>\<open>io\<close> is the error of writing or flushing the answer.\<close>

definition ServeWS :: "(bytes \<Rightarrow> bytes) \<Rightarrow> (string \<Rightarrow> string) \<Rightarrow> string option \<Rightarrow> upgrade_error + string" where
  "ServeWS sha1 hdr io =
     (let key = hdr ''Sec-WebSocket-Key''
      in if \<not> EqualFold (hdr ''Upgrade'') ''websocket'' \<or> key = '''' then Inl NotUpgrade
         else case io of Some e \<Rightarrow> Inl (UpgradeIO e) | None \<Rightarrow> Inr (switching_response sha1 key))"

subsection \<open>Lemmas\<close>

lemma ReadString_line: "nl \<notin> set l \<Longrightarrow> ReadString (l @ crlf @ rest) = Some (l @ crlf, rest)"
  by (simp add: ReadString_def IndexByte_def crlf_def cr_def nl_def takeWhile_append)

lemma trim_eol_line: "cr \<notin> set l \<Longrightarrow> nl \<notin> set l \<Longrightarrow> trim_eol (l @ crlf) = l"
  by (cases l rule: rev_cases) (auto simp: trim_eol_def crlf_def)

lemma read_headers_line:
  assumes "cr \<notin> set l" "nl \<notin> set l" "Cut l (CHR '':'') = Some (k, v)"
  shows "read_headers upgrade accept (l @ crlf @ rest) =
    (if ToLower (trim k) = ''upgrade'' then read_headers (trim v) accept rest
     else if ToLower (trim k) = ''sec-websocket-accept'' then read_headers upgrade (trim v) rest
     else read_headers upgrade accept rest)"
proof -
  have "l \<noteq> ''''" using assms(3) by (auto simp: Cut_def IndexByte_def)
  then show ?thesis
    by (subst read_headers.simps) (simp add: ReadString_line [OF assms(2)] trim_eol_line [OF assms(1,2)] assms(3) Let_def)
qed

lemma read_headers_end: "read_headers upgrade accept (crlf @ rest) = Inr ((upgrade, accept), rest)"
  using ReadString_line [of "[]" rest] trim_eol_line [of "[]"] by (subst read_headers.simps) simp

lemma b64_encode_chars: "set (b64_encode bs) \<subseteq> insert (CHR ''='') (set b64_alphabet)"
proof -
  have "length b64_alphabet = 64" by (simp add: b64_alphabet_def)
  then have c: "b64_char n \<in> set b64_alphabet" for n by (simp add: b64_char_def)
  show ?thesis by (induction bs rule: b64_encode.induct) (auto simp: c Let_def)
qed

lemma b64_plain:
  assumes "c \<in> set (b64_encode bs)"
  shows "\<not> ascii_space (byte_of_char c) \<and> byte_of_char c < 0x80 \<and> c \<noteq> cr \<and> c \<noteq> nl"
proof -
  have "list_all (\<lambda>c. \<not> ascii_space (byte_of_char c) \<and> byte_of_char c < 0x80 \<and> c \<noteq> cr \<and> c \<noteq> nl)
      (CHR ''='' # b64_alphabet)"
    by code_simp
  then show ?thesis using b64_encode_chars [of bs] assms unfolding list_all_iff by (metis list.set(2) subsetD)
qed

lemma b64_encode_nonempty: "bs \<noteq> [] \<Longrightarrow> b64_encode bs \<noteq> []"
  by (induction bs rule: b64_encode.induct) (auto simp: Let_def)

lemma trim_b64:
  assumes "bs \<noteq> []"
  shows "trim (CHR '' '' # b64_encode bs) = b64_encode bs"
proof -
  have "TrimSpace ([0x20] @ bytes_of_string (b64_encode bs) @ []) = bytes_of_string (b64_encode bs)"
    using b64_plain b64_encode_nonempty [OF assms]
    by (intro TrimSpace_plain) (auto simp: ascii_space_def bytes_of_string_def)
  moreover have "bytes_of_string (CHR '' '' # x) = 0x20 # bytes_of_string x" for x
    by (simp add: bytes_of_string_def byte_of_char_def)
  ultimately show ?thesis by (simp add: trim_def)
qed

lemma trim_names:
  "trim ''Upgrade'' = ''Upgrade''" "trim '' websocket'' = ''websocket''" "trim ''Connection'' = ''Connection''"
  "trim ''Sec-WebSocket-Accept'' = ''Sec-WebSocket-Accept''"
  "trim (''HTTP/1.1 101 Switching Protocols'' @ crlf) = ''HTTP/1.1 101 Switching Protocols''"
  by code_simp+

lemma lower_names:
  "ToLower ''Upgrade'' = ''upgrade''" "ToLower ''Connection'' \<noteq> ''upgrade''" "ToLower ''Connection'' \<noteq> ''sec-websocket-accept''"
  "ToLower ''Sec-WebSocket-Accept'' = ''sec-websocket-accept''"
  by code_simp+

lemma read_switching_headers:
  assumes "\<And>x. sha1 x \<noteq> []"
  shows "read_headers '''' '''' (''Upgrade: websocket'' @ crlf @ ''Connection: Upgrade'' @ crlf @
     ''Sec-WebSocket-Accept: '' @ acceptKey sha1 key @ crlf @ crlf @ rest) = Inr ((''websocket'', acceptKey sha1 key), rest)"
proof -
  have plain: "cr \<notin> set (acceptKey sha1 key)" "nl \<notin> set (acceptKey sha1 key)" using b64_plain by (auto simp: acceptKey_def)
  have cut: "Cut ''Upgrade: websocket'' (CHR '':'') = Some (''Upgrade'', '' websocket'')"
    "Cut ''Connection: Upgrade'' (CHR '':'') = Some (''Connection'', '' Upgrade'')" by code_simp+
  have cutk: "Cut (''Sec-WebSocket-Accept: '' @ acceptKey sha1 key) (CHR '':'')
      = Some (''Sec-WebSocket-Accept'', CHR '' '' # acceptKey sha1 key)"
    by (simp add: Cut_def IndexByte_def)
  have names: "cr \<notin> set ''Upgrade: websocket''" "nl \<notin> set ''Upgrade: websocket''" "cr \<notin> set ''Connection: Upgrade''"
    "nl \<notin> set ''Connection: Upgrade''" "cr \<notin> set ''Sec-WebSocket-Accept: ''" "nl \<notin> set ''Sec-WebSocket-Accept: ''"
    by (simp_all add: cr_def nl_def)
  note l3 = read_headers_line [of "''Sec-WebSocket-Accept: '' @ acceptKey sha1 key", OF _ _ cutk]
  have "read_headers ''websocket'' '''' ((''Sec-WebSocket-Accept: '' @ acceptKey sha1 key) @ crlf @ crlf @ rest)
      = read_headers ''websocket'' (acceptKey sha1 key) (crlf @ rest)"
    using plain names trim_b64 [OF assms] by (subst l3) (simp_all add: trim_names lower_names acceptKey_def)
  then show ?thesis
    using plain names by (simp only: read_headers_line [OF names(1,2) cut(1)] read_headers_line [OF names(3,4) cut(2)]
      trim_names lower_names if_True if_False append_assoc read_headers_end simp_thms)
qed

subsection \<open>Property\<close>

text \<open>
  C39 (functional). The answer a server of this package gives is accepted by the
  client for the key it sent, through either server entry, and the client keeps
  every byte behind the headers for the frame reader: the new connection starts
  with exactly those bytes, and with the request and status lines as its binding.
\<close>

theorem ws_handshake_accepted:
  assumes "\<And>x. sha1 x \<noteq> []" "hdr ''Sec-WebSocket-Key'' = b64_encode keyBytes" "keyBytes \<noteq> []" "hdr ''Upgrade'' = ''websocket''"
    and "dial_target u = Inr (hostPort, tls)" "ne_connect env hostPort tls = None" "ne_rand env = Some keyBytes"
    and "ne_write env = WriteOk" "Upgrade sha1 hdr (Some (Inr [])) = Inr (answer, server)" "ne_response env = answer @ rest"
  shows "ServeWS sha1 hdr None = Inr answer \<and> cn_masked server = False \<and>
    Dial sha1 env headers u = Inr (newConn (bytes_of_string rest)
      (bytes_of_string (''GET '' @ url_RequestURI u @ '' HTTP/1.1'' @ crlf @ ''Host: '' @ url_Host u @ crlf @
         ''HTTP/1.1 101 Switching Protocols'' @ crlf)) True)"
proof -
  have e: "EqualFold ''websocket'' ''websocket''" by (simp add: EqualFold_def)
  have ans: "answer = switching_response sha1 (b64_encode keyBytes)" "server = newConn [] [] False"
    using assms(2-4,9) e b64_encode_nonempty [OF assms(3)] by (auto simp: Upgrade_def Let_def)
  have parts: "split_on (CHR '' '') ''HTTP/1.1 101 Switching Protocols'' = [''HTTP/1.1'', ''101'', ''Switching'', ''Protocols'']"
    by code_simp
  have first: "ReadString (''HTTP/1.1 101 Switching Protocols'' @ crlf @ s) = Some (''HTTP/1.1 101 Switching Protocols'' @ crlf, s)" for s
    by (rule ReadString_line) (simp add: nl_def)
  have "dial_response sha1 (b64_encode keyBytes) (answer @ rest) = Inr (''HTTP/1.1 101 Switching Protocols'', rest)"
    unfolding ans switching_response_def dial_response_def append_assoc first
    by (simp add: parts trim_names read_switching_headers [OF assms(1)] e Let_def del: append.simps)
  then have "Dial sha1 env headers u = Inr (newConn (bytes_of_string rest)
      (bytes_of_string (''GET '' @ url_RequestURI u @ '' HTTP/1.1'' @ crlf @ ''Host: '' @ url_Host u @ crlf @
         ''HTTP/1.1 101 Switching Protocols'' @ crlf)) True)"
    using assms(5-8,10) by (simp add: Dial_def Let_def)
  then show ?thesis
    using assms(2,4) e b64_encode_nonempty [OF assms(3)] ans by (simp add: ServeWS_def newConn_def Let_def)
qed

lemma ws_handshake_accepted_witness:
  "\<exists>binding. Dial (\<lambda>_. replicate 20 5) \<lparr>ne_connect = (\<lambda>_ _. None), ne_rand = Some [1, 2, 3], ne_write = WriteOk,
      ne_response = switching_response (\<lambda>_. replicate 20 5) (b64_encode [1, 2, 3]) @ ''ab''\<rparr> []
     \<lparr>url_Scheme = ''ws'', url_Host = ''h'', url_RequestURI = ''/''\<rparr> = Inr (newConn (bytes_of_string ''ab'') binding True)"
proof -
  let ?sha = "\<lambda>_ :: bytes. replicate 20 (5 :: byte)"
  let ?hdr = "\<lambda>h. if h = ''Upgrade'' then ''websocket'' else b64_encode [1, 2, 3]"
  let ?u = "\<lparr>url_Scheme = ''ws'', url_Host = ''h'', url_RequestURI = ''/''\<rparr>"
  let ?env = "\<lparr>ne_connect = (\<lambda>_ _. None), ne_rand = Some [1, 2, 3], ne_write = WriteOk,
      ne_response = switching_response ?sha (b64_encode [1, 2, 3]) @ ''ab''\<rparr>"
  have "Upgrade ?sha ?hdr (Some (Inr [])) = Inr (switching_response ?sha (b64_encode [1, 2, 3]), newConn [] [] False)"
    using b64_encode_nonempty [of "[1, 2, 3]"] by (simp add: Upgrade_def EqualFold_def del: b64_encode.simps)
  moreover have "dial_target ?u = Inr (''h:80'', False)" by (simp add: dial_target_def)
  ultimately have "ServeWS ?sha ?hdr None = Inr (switching_response ?sha (b64_encode [1, 2, 3])) \<and>
    cn_masked (newConn [] [] False) = False \<and> Dial ?sha ?env [] ?u = Inr (newConn (bytes_of_string ''ab'')
      (bytes_of_string (''GET '' @ url_RequestURI ?u @ '' HTTP/1.1'' @ crlf @ ''Host: '' @ url_Host ?u @ crlf @
         ''HTTP/1.1 101 Switching Protocols'' @ crlf)) True)"
    by (intro ws_handshake_accepted [where hostPort = "''h:80''" and tls = False and keyBytes = "[1, 2, 3]"]) (simp_all del: b64_encode.simps)
  then show ?thesis by blast
qed

end
