(* ===== verification/X3dh.thy ===== *)
theory X3dh
  imports Noise Wacert "HOL-Library.Multiset"
begin

text \<open>
  Keys, prekey bundles, X3DH and the key derivations of
  \<^verbatim>\<open>security/e2e/e2e.go\<close>. The primitives extend those of the Noise theory:
  Ed25519 over a signing seed, and AES-CBC with a zero IV on whole blocks. A key
  pair is its seed. The iteration over the map of one-time prekeys is the list of
  its entries in the order Go happens to walk it, an argument of the operations.
\<close>

record E2eCrypto = Crypto +
  e_sign :: "bytes \<Rightarrow> bytes \<Rightarrow> bytes"
  e_signpub :: "bytes \<Rightarrow> bytes"
  e_verify :: "bytes \<Rightarrow> bytes \<Rightarrow> bytes \<Rightarrow> bool"
  e_cbc_enc :: "bytes \<Rightarrow> bytes \<Rightarrow> bytes"
  e_cbc_dec :: "bytes \<Rightarrow> bytes \<Rightarrow> bytes"

datatype e2e_error = ErrBadKey | E2eDecryptFailed | ErrBundleInvalid | BundleIdentity | BundlePreKey | X3dhError string
  | KdfFailed hkdf_error | AesKeySize nat | E2eRand | NoRemoteKey | NoSendingKey | SkippedExhausted | TooOld
  | NotInit | BadIdentityCert | BadInitTag | PreKeyMismatch | EnvelopePb pb_error | BadEnvelope byte byte | StateVersion int

subsection \<open>Keys and identities\<close>

definition e2e_KeyPairFromSeed :: "bytes \<Rightarrow> e2e_error + bytes" where
  "e2e_KeyPairFromSeed seed = (if length seed \<noteq> 32 then Inl ErrBadKey else Inr seed)"

definition dh :: "E2eCrypto \<Rightarrow> bytes \<Rightarrow> bytes \<Rightarrow> e2e_error + bytes" where
  "dh C priv peerRaw = (case c_dh C priv peerRaw of None \<Rightarrow> Inl ErrBadKey | Some s \<Rightarrow> Inr s)"

record Identity =
  id_DH :: bytes
  id_signSeed :: bytes
  id_RegID :: u32

definition SignPub :: "E2eCrypto \<Rightarrow> Identity \<Rightarrow> bytes" where
  "SignPub C i = e_signpub C (id_signSeed i)"

text \<open>Random input: the X25519 seed, the Ed25519 seed and four bytes for the id; \<open>None\<close> where reading fails.\<close>

definition NewIdentity :: "bytes option \<Rightarrow> bytes option \<Rightarrow> bytes option \<Rightarrow> e2e_error + Identity" where
  "NewIdentity dhSeed sigSeed reg =
     (case dhSeed of None \<Rightarrow> Inl E2eRand | Some d \<Rightarrow>
      case sigSeed of None \<Rightarrow> Inl E2eRand | Some g \<Rightarrow>
      case reg of None \<Rightarrow> Inl E2eRand | Some b \<Rightarrow>
        Inr \<lparr>id_DH = d, id_signSeed = g, id_RegID = be_u32 b\<rparr>)"

definition RestoreIdentity :: "bytes \<Rightarrow> bytes \<Rightarrow> u32 \<Rightarrow> e2e_error + Identity" where
  "RestoreIdentity dhSeed sigSeed regID =
     and_then (e2e_KeyPairFromSeed dhSeed) (\<lambda>d.
       if length sigSeed \<noteq> 32 then Inl ErrBadKey
       else Inr \<lparr>id_DH = d, id_signSeed = sigSeed, id_RegID = regID\<rparr>)"

definition Identity_Sign :: "E2eCrypto \<Rightarrow> Identity \<Rightarrow> bytes \<Rightarrow> bytes" where
  "Identity_Sign C i msg = e_sign C (id_signSeed i) msg"

subsection \<open>Bundles\<close>

record PreKeyBundle =
  pk_IdentityPub :: bytes
  pk_IdentitySigPub :: bytes
  pk_IdentityCert :: bytes
  pk_RegID :: u32
  pk_SignedPreKeyPub :: bytes
  pk_SignedPreKeyID :: u32
  pk_SignedPreKeySig :: bytes
  pk_OneTimePreKeys :: "(u32 \<times> bytes) list"

definition spkCertMessage :: "bytes \<Rightarrow> bytes \<Rightarrow> u32 \<Rightarrow> bytes" where
  "spkCertMessage identityCert spkPub spkID =
     bytes_of_string (''batur-e2e-spk-v1'' @ [CHR 0x00]) @ identityCert @ spkPub @
     [ucast (drop_bit 24 spkID), ucast (drop_bit 16 spkID), ucast (drop_bit 8 spkID), ucast spkID]"

definition idCertMessage :: "bytes \<Rightarrow> bytes" where
  "idCertMessage dhPub = bytes_of_string (''batur-e2e-id-v1'' @ [CHR 0x00]) @ dhPub"

definition BuildBundle :: "E2eCrypto \<Rightarrow> Identity \<Rightarrow> bytes \<Rightarrow> u32 \<Rightarrow> (u32 \<times> bytes) list \<Rightarrow> PreKeyBundle" where
  "BuildBundle C i spk spkID oneTime =
     (let idCert = Identity_Sign C i (idCertMessage (c_pub C (id_DH i)));
          sig = Identity_Sign C i (spkCertMessage idCert (c_pub C spk) spkID)
      in \<lparr>pk_IdentityPub = c_pub C (id_DH i), pk_IdentitySigPub = SignPub C i, pk_IdentityCert = idCert,
          pk_RegID = id_RegID i, pk_SignedPreKeyPub = c_pub C spk, pk_SignedPreKeyID = spkID,
          pk_SignedPreKeySig = sig, pk_OneTimePreKeys = oneTime\<rparr>)"

definition VerifyBundle :: "E2eCrypto \<Rightarrow> PreKeyBundle \<Rightarrow> e2e_error + unit" where
  "VerifyBundle C b =
     (if length (pk_IdentityPub b) \<noteq> 32 \<or> length (pk_IdentitySigPub b) \<noteq> 32 \<or> length (pk_SignedPreKeyPub b) \<noteq> 32
      then Inl ErrBundleInvalid
      else if \<not> e_verify C (pk_IdentitySigPub b) (idCertMessage (pk_IdentityPub b)) (pk_IdentityCert b)
      then Inl BundleIdentity
      else
        let want = spkCertMessage (pk_IdentityCert b) (pk_SignedPreKeyPub b) (pk_SignedPreKeyID b)
        in if \<not> e_verify C (pk_IdentitySigPub b) want (pk_SignedPreKeySig b) then Inl BundlePreKey else Inr ())"

subsection \<open>X3DH\<close>

definition x3dhZero :: bytes where "x3dhZero = replicate 32 0"

definition x3dhDerive :: "E2eCrypto \<Rightarrow> bytes \<Rightarrow> bytes \<Rightarrow> e2e_error + (bytes \<times> bytes)" where
  "x3dhDerive C ikm info =
     and_then (wrap_err KdfFailed (Derive (c_hmac C) ikm (Some x3dhZero) info 64)) (\<lambda>full.
       Inr (take 32 full, take 32 (drop 32 full)))"

text \<open>
  The initiator returns no error of the derivation: on one the keys would be nil.
  \<open>otks\<close> lists the one-time prekeys in the order the map is walked.
\<close>

definition X3DHInitiator :: "E2eCrypto \<Rightarrow> bytes \<Rightarrow> bytes \<Rightarrow> PreKeyBundle \<Rightarrow> (u32 \<times> bytes) list \<Rightarrow> bytes \<Rightarrow>
    e2e_error + (bytes \<times> bytes)" where
  "X3DHInitiator C identity ephemeral bundle otks info =
     and_then (dh C identity (pk_IdentityPub bundle)) (\<lambda>d1.
     and_then (dh C ephemeral (pk_SignedPreKeyPub bundle)) (\<lambda>d2.
     and_then (dh C identity (pk_SignedPreKeyPub bundle)) (\<lambda>d3.
     and_then (case otks of [] \<Rightarrow> Inr x3dhZero | (_, opkPub) # _ \<Rightarrow> dh C ephemeral opkPub) (\<lambda>d4.
       case x3dhDerive C (d1 @ d2 @ d3 @ d4) info of
         Inl e \<Rightarrow> Inr ([], [])
       | Inr keys \<Rightarrow> Inr keys))))"

definition X3DHRecipient :: "E2eCrypto \<Rightarrow> bytes \<Rightarrow> bytes \<Rightarrow> bytes \<Rightarrow> bytes \<Rightarrow> bytes option \<Rightarrow> bytes \<Rightarrow>
    e2e_error + (bytes \<times> bytes)" where
  "X3DHRecipient C identity spkPriv senderIdentityPub senderEphemeralPub oneTimePriv info =
     and_then (dh C identity senderIdentityPub) (\<lambda>d1.
     and_then (dh C spkPriv senderEphemeralPub) (\<lambda>d2.
     and_then (dh C spkPriv senderIdentityPub) (\<lambda>d3.
     and_then (case oneTimePriv of None \<Rightarrow> Inr x3dhZero | Some opk \<Rightarrow> dh C opk senderEphemeralPub) (\<lambda>d4.
       x3dhDerive C (d1 @ d2 @ d3 @ d4) info))))"

subsection \<open>Chains\<close>

definition kdfRoot :: "E2eCrypto \<Rightarrow> bytes \<Rightarrow> bytes \<Rightarrow> bytes \<times> bytes" where
  "kdfRoot C rootKey dhOut = (c_hmac C rootKey (0x80 # dhOut), c_hmac C rootKey (0x07 # dhOut))"

definition kdfChain :: "E2eCrypto \<Rightarrow> bytes \<Rightarrow> bytes \<times> bytes" where
  "kdfChain C chainKey = (c_hmac C chainKey [0x01], c_hmac C chainKey [0x02])"

text \<open>The panic on a failed derivation is an error here; it never happens (\<open>expandMessageKey_ok\<close>).\<close>

definition expandMessageKey :: "E2eCrypto \<Rightarrow> bytes \<Rightarrow> e2e_error + (bytes \<times> bytes)" where
  "expandMessageKey C msgKey =
     and_then (wrap_err KdfFailed (Derive (c_hmac C) msgKey (Some (bytes_of_string ''batur-e2e-keys'')) (bytes_of_string ''msg'') 44))
       (\<lambda>out. Inr (take 32 out, take 12 (drop 32 out)))"

subsection \<open>Headers and bodies\<close>

definition pkcs7 :: "bytes \<Rightarrow> nat \<Rightarrow> bytes" where
  "pkcs7 data bs = (let pad = bs - length data mod bs in data @ replicate pad (of_nat pad))"

definition unpkcs7 :: "bytes \<Rightarrow> bytes option" where
  "unpkcs7 data =
     (if data = [] then None
      else
        let pad = unat (last data)
        in if pad = 0 \<or> pad > 16 \<or> pad > length data then None
           else if \<exists>b \<in> set (drop (length data - pad) data). unat b \<noteq> pad then None
           else Some (take (length data - pad) data))"

definition aes_key_ok :: "bytes \<Rightarrow> bool" where
  "aes_key_ok key \<longleftrightarrow> length key \<in> {16, 24, 32}"

definition encryptHeader :: "E2eCrypto \<Rightarrow> bytes \<Rightarrow> bytes \<Rightarrow> e2e_error + bytes" where
  "encryptHeader C sharedKey plaintext =
     (if \<not> aes_key_ok sharedKey then Inl (AesKeySize (length sharedKey))
      else Inr (e_cbc_enc C sharedKey (pkcs7 plaintext 16)))"

definition decryptHeader :: "E2eCrypto \<Rightarrow> bytes \<Rightarrow> bytes \<Rightarrow> e2e_error + bytes" where
  "decryptHeader C sharedKey ciphertext =
     (if length ciphertext = 0 \<or> length ciphertext mod 16 \<noteq> 0 then Inl E2eDecryptFailed
      else if \<not> aes_key_ok sharedKey then Inl E2eDecryptFailed
      else case unpkcs7 (e_cbc_dec C sharedKey ciphertext) of None \<Rightarrow> Inl E2eDecryptFailed | Some plain \<Rightarrow> Inr plain)"

definition aesGCMDecrypt :: "E2eCrypto \<Rightarrow> bytes \<Rightarrow> bytes \<Rightarrow> bytes \<Rightarrow> bytes \<Rightarrow> e2e_error + bytes" where
  "aesGCMDecrypt C key nonce ciphertext ad =
     (case c_open C key nonce ciphertext ad of None \<Rightarrow> Inl E2eDecryptFailed | Some pt \<Rightarrow> Inr pt)"

subsection \<open>What the primitives promise\<close>

definition e2e_ok :: "E2eCrypto \<Rightarrow> bool" where
  "e2e_ok C \<longleftrightarrow> hmac_ok (c_hmac C) \<and> (\<forall>k n p a. c_open C k n (c_seal C k n p a) a = Some p) \<and>
     (\<forall>k n p a. length (c_seal C k n p a) \<le> length p + 16) \<and>
     (\<forall>s. length (c_pub C s) = 32) \<and>
     (\<forall>a b. length a = 32 \<and> length b = 32 \<longrightarrow>
        c_dh C a (c_pub C b) \<noteq> None \<and> c_dh C a (c_pub C b) = c_dh C b (c_pub C a)) \<and>
     (\<forall>s m. e_verify C (e_signpub C s) m (e_sign C s m)) \<and> (\<forall>s. length (e_signpub C s) = 32) \<and>
     (\<forall>s m. length (e_sign C s m) = 64) \<and>
     (\<forall>k x. length x mod 16 = 0 \<longrightarrow> e_cbc_dec C k (e_cbc_enc C k x) = x \<and> length (e_cbc_enc C k x) = length x)"

lemma e2e_okD:
  assumes "e2e_ok C"
  shows "hmac_ok (c_hmac C)" "c_open C k n (c_seal C k n p a) a = Some p" "length (c_seal C k n p a) \<le> length p + 16"
    "length (c_pub C s) = 32" "e_verify C (e_signpub C s) m (e_sign C s m)" "length (e_signpub C s) = 32"
    "length (e_sign C s m) = 64"
    "length x mod 16 = 0 \<Longrightarrow> e_cbc_dec C k (e_cbc_enc C k x) = x"
    "length x mod 16 = 0 \<Longrightarrow> length (e_cbc_enc C k x) = length x"
    "length u = 32 \<Longrightarrow> length v = 32 \<Longrightarrow> c_dh C u (c_pub C v) \<noteq> None"
    "length u = 32 \<Longrightarrow> length v = 32 \<Longrightarrow> c_dh C u (c_pub C v) = c_dh C v (c_pub C u)"
  using assms by (simp_all only: e2e_ok_def simp_thms)

lemma pkcs7_length: "length (pkcs7 data 16) mod 16 = 0 \<and> pkcs7 data 16 \<noteq> [] \<and> length (pkcs7 data 16) \<le> length data + 16"
proof -
  have "(n + (16 - n mod 16)) mod 16 = 0" for n :: nat by presburger
  moreover have "16 - n mod 16 > 0" for n :: nat by simp
  ultimately show ?thesis by (simp add: pkcs7_def Let_def)
qed

lemma unpkcs7_padded:
  assumes "0 < p" "p \<le> 16"
  shows "unpkcs7 (data @ replicate p (of_nat p)) = Some data"
proof -
  have "unat (of_nat p :: byte) = p" using assms by (simp add: unat_of_nat take_bit_nat_eq_self)
  then show ?thesis using assms by (simp add: unpkcs7_def Let_def last_append)
qed

lemma unpkcs7_pkcs7: "unpkcs7 (pkcs7 data 16) = Some data"
  unfolding pkcs7_def Let_def by (rule unpkcs7_padded) simp_all

lemma header_roundtrip:
  assumes "e2e_ok C" "aes_key_ok key"
  shows "\<exists>ct. encryptHeader C key plain = Inr ct \<and> decryptHeader C key ct = Inr plain \<and> length ct \<le> length plain + 16"
proof -
  have "length (pkcs7 plain 16) mod 16 = 0" using pkcs7_length by blast
  then have "e_cbc_dec C key (e_cbc_enc C key (pkcs7 plain 16)) = pkcs7 plain 16"
    "length (e_cbc_enc C key (pkcs7 plain 16)) = length (pkcs7 plain 16)" using e2e_okD(8,9) [OF assms(1)] by simp_all
  moreover from this(2) have "e_cbc_enc C key (pkcs7 plain 16) \<noteq> []" using pkcs7_length [of plain] by (metis length_0_conv)
  ultimately show ?thesis using assms(2) pkcs7_length [of plain] by (simp add: encryptHeader_def decryptHeader_def unpkcs7_pkcs7)
qed

lemma Derive_ok:
  assumes "hmac_ok h" "len \<le> 255 * HashSize"
  shows "\<exists>out. Derive h secret salt info len = Inr out \<and> length out = len"
  using Expand_rfc [OF assms] Expand_length [OF assms(1)] by (metis Derive_def)

lemma expandMessageKey_ok:
  "e2e_ok C \<Longrightarrow> \<exists>key nonce. expandMessageKey C msgKey = Inr (key, nonce) \<and> length key = 32 \<and> length nonce = 12"
  using Derive_ok [OF e2e_okD(1), of C 44 msgKey "Some (bytes_of_string ''batur-e2e-keys'')" "bytes_of_string ''msg''"]
  by (auto simp: expandMessageKey_def HashSize_def)

lemma x3dhDerive_ok:
  "e2e_ok C \<Longrightarrow> \<exists>root chain. x3dhDerive C ikm info = Inr (root, chain) \<and> length root = 32 \<and> length chain = 32"
  using Derive_ok [OF e2e_okD(1), of C 64 ikm "Some x3dhZero" info] by (auto simp: x3dhDerive_def HashSize_def)

lemma dh_sym:
  assumes "e2e_ok C" "length a = 32" "length b = 32"
  shows "\<exists>s. dh C a (c_pub C b) = Inr s \<and> dh C b (c_pub C a) = Inr s"
proof -
  have "c_dh C a (c_pub C b) \<noteq> None" "c_dh C a (c_pub C b) = c_dh C b (c_pub C a)"
    using e2e_okD(10,11) [OF assms] by auto
  then show ?thesis by (auto simp: dh_def)
qed

lemma VerifyBundle_Build: "e2e_ok C \<Longrightarrow> VerifyBundle C (BuildBundle C i spk spkID otks) = Inr ()"
  by (simp add: e2e_okD VerifyBundle_def BuildBundle_def SignPub_def Identity_Sign_def Let_def)

lemma x3dh_agree:
  assumes "e2e_ok C" "length (id_DH a) = 32" "length (id_DH b) = 32" "length eph = 32" "length spk = 32"
    and "case opk of None \<Rightarrow> otks = [] | Some k \<Rightarrow> length k = 32 \<and> (\<exists>i. otks = [(i, c_pub C k)])"
  shows "\<exists>root chain. X3DHInitiator C (id_DH a) eph (BuildBundle C b spk spkID otks) otks info = Inr (root, chain) \<and>
    X3DHRecipient C (id_DH b) spk (c_pub C (id_DH a)) (c_pub C eph) opk info = Inr (root, chain) \<and>
    length root = 32 \<and> length chain = 32"
proof -
  obtain d1 d2 d3 where d: "dh C (id_DH a) (c_pub C (id_DH b)) = Inr d1" "dh C (id_DH b) (c_pub C (id_DH a)) = Inr d1"
    "dh C eph (c_pub C spk) = Inr d2" "dh C spk (c_pub C eph) = Inr d2"
    "dh C (id_DH a) (c_pub C spk) = Inr d3" "dh C spk (c_pub C (id_DH a)) = Inr d3"
    using dh_sym [OF assms(1)] assms(2-5) by metis
  obtain d4 where d4: "(case otks of [] \<Rightarrow> Inr x3dhZero | (_, opkPub) # _ \<Rightarrow> dh C eph opkPub) = Inr d4"
    "(case opk of None \<Rightarrow> Inr x3dhZero | Some opk \<Rightarrow> dh C opk (c_pub C eph)) = Inr d4"
  proof (cases opk)
    case None
    then show ?thesis using that assms(6) by simp
  next
    case (Some k)
    then obtain i where "length k = 32" "otks = [(i, c_pub C k)]" using assms(6) by auto
    then show ?thesis using dh_sym [OF assms(1,4), of k] Some that by auto
  qed
  obtain root chain where k: "x3dhDerive C (d1 @ d2 @ d3 @ d4) info = Inr (root, chain)" "length root = 32" "length chain = 32"
    using x3dhDerive_ok [OF assms(1)] by blast
  show ?thesis using d d4 k
    by (intro exI [of _ root] exI [of _ chain]) (simp add: X3DHInitiator_def X3DHRecipient_def BuildBundle_def Let_def)
qed

end
