(* ===== verification/Ratchet.thy ===== *)
theory Ratchet
  imports X3dh
begin

text \<open>
  Envelopes and the double ratchet, \<^verbatim>\<open>security/e2e/ratchet.go\<close>. Every method
  returns the changed ratchet with its result, so that what a failed call leaves
  behind is part of the model. The map of skipped message keys is an association
  list; nil chains are \<open>None\<close>; the signing closure is the seed it signs with; the
  seed of a fresh key pair is an argument. The state is persisted through the
  record that the JSON encoder gets; JSON itself is not modelled.
\<close>

subsection \<open>Envelopes\<close>

definition EnvInit :: byte where "EnvInit = 1"
definition EnvRatchet :: byte where "EnvRatchet = 2"

definition initTag :: bytes where "initTag = bytes_of_string ''batur-e2e-init-v1''"

record Envelope =
  en_Version :: byte
  en_Type :: byte
  en_RatchetPub :: bytes
  en_PrevCount :: u32
  en_Counter :: u32
  en_HeaderEncrypt :: bytes
  en_Body :: bytes
  en_IdentityPub :: bytes
  en_IdentitySigPub :: bytes
  en_IdentityCert :: bytes
  en_RegID :: u32
  en_OpkID :: u32

definition no_envelope :: Envelope where
  "no_envelope = \<lparr>en_Version = 0, en_Type = 0, en_RatchetPub = [], en_PrevCount = 0, en_Counter = 0, en_HeaderEncrypt = [],
     en_Body = [], en_IdentityPub = [], en_IdentitySigPub = [], en_IdentityCert = [], en_RegID = 0, en_OpkID = 0\<rparr>"

definition envelope_fields :: "Envelope \<Rightarrow> builder" where
  "envelope_fields e =
     (let b = addBytes 7 (en_Body e) (addBytes 6 (en_HeaderEncrypt e) (addUint 5 (ucast (en_Counter e))
                (addUint 4 (ucast (en_PrevCount e)) (addBytes 3 (en_RatchetPub e) (addUint 2 (ucast (en_Type e))
                  (addUint 1 (ucast (en_Version e)) NewBuilder))))))
      in if en_Type e = EnvInit
         then addUint 10 (ucast (en_OpkID e)) (addUint 9 (ucast (en_RegID e)) (addBytes 12 (en_IdentityCert e)
                (addBytes 11 (en_IdentitySigPub e) (addBytes 8 (en_IdentityPub e) b))))
         else b)"

definition Serialize :: "Envelope \<Rightarrow> bytes" where
  "Serialize e = Build (envelope_fields e)"

definition ParseEnvelope :: "bytes \<Rightarrow> e2e_error + Envelope" where
  "ParseEnvelope data =
     and_then (wrap_err EnvelopePb (Parse data)) (\<lambda>m.
       let e = \<lparr>en_Version = ucast (uint_or_zero m 1), en_Type = ucast (uint_or_zero m 2), en_RatchetPub = bytes_or_empty m 3,
                en_PrevCount = ucast (uint_or_zero m 4), en_Counter = ucast (uint_or_zero m 5),
                en_HeaderEncrypt = bytes_or_empty m 6, en_Body = bytes_or_empty m 7, en_IdentityPub = bytes_or_empty m 8,
                en_IdentitySigPub = bytes_or_empty m 11, en_IdentityCert = bytes_or_empty m 12,
                en_RegID = ucast (uint_or_zero m 9), en_OpkID = ucast (uint_or_zero m 10)\<rparr>
       in if en_Version e \<noteq> 1 \<or> (en_Type e \<noteq> EnvInit \<and> en_Type e \<noteq> EnvRatchet)
          then Inl (BadEnvelope (en_Version e) (en_Type e))
          else if length (en_RatchetPub e) \<noteq> 32 then Inl ErrBadKey
          else Inr e)"

subsection \<open>State\<close>

type_synonym chainIndex = "bytes \<times> u32 \<times> u32"

definition MaxSkippedMessageKeys :: nat where "MaxSkippedMessageKeys = 1000"

record Ratchet =
  ra_rootKey :: bytes
  ra_sendingChain :: "bytes option"
  ra_recvChain :: "bytes option"
  ra_sendingDH :: "bytes option"
  ra_recvPub :: bytes
  ra_haveRecvPub :: bool
  ra_initSent :: bool
  ra_isInitiator :: bool
  ra_sendingCounter :: u32
  ra_receivingCounter :: u32
  ra_previousCounter :: u32
  ra_retiredSendCount :: u32
  ra_skipped :: "(chainIndex \<times> bytes) list"
  ra_selfDH :: bytes
  ra_selfSig :: bytes
  ra_selfID :: u32
  ra_signer :: "bytes option"
  ra_peerIdentityPub :: bytes
  ra_peerSigPub :: bytes
  ra_peerRegID :: u32
  ra_opkID :: u32
  ra_spkID :: u32
  ra_initInfo :: bytes
  ra_maxSkip :: nat

definition copy32 :: "bytes \<Rightarrow> bytes" where
  "copy32 bs = take 32 (bs @ replicate 32 0)"

text \<open>\<open>otks\<close> and \<open>otks'\<close> list the one-time prekeys in the orders the two loops walk the map.\<close>

definition AliceSession :: "E2eCrypto \<Rightarrow> bytes option \<Rightarrow> (u32 \<times> bytes) list \<Rightarrow> (u32 \<times> bytes) list \<Rightarrow> PreKeyBundle \<Rightarrow>
    Identity \<Rightarrow> bytes \<Rightarrow> e2e_error + Ratchet" where
  "AliceSession C rand otks otks' bundle identity info =
     and_then (VerifyBundle C bundle) (\<lambda>_.
     case rand of None \<Rightarrow> Inl E2eRand | Some eph \<Rightarrow>
     and_then (X3DHInitiator C (id_DH identity) eph bundle otks info) (\<lambda>(root, chain).
       Inr \<lparr>ra_rootKey = root, ra_sendingChain = Some chain, ra_recvChain = None, ra_sendingDH = Some eph,
            ra_recvPub = replicate 32 0, ra_haveRecvPub = False, ra_initSent = False, ra_isInitiator = True,
            ra_sendingCounter = 0, ra_receivingCounter = 0, ra_previousCounter = 0, ra_retiredSendCount = 0,
            ra_skipped = [], ra_selfDH = c_pub C (id_DH identity), ra_selfSig = SignPub C identity,
            ra_selfID = id_RegID identity, ra_signer = Some (id_signSeed identity),
            ra_peerIdentityPub = pk_IdentityPub bundle, ra_peerSigPub = pk_IdentitySigPub bundle,
            ra_peerRegID = pk_RegID bundle, ra_opkID = (case otks' of [] \<Rightarrow> 0 | (i, _) # _ \<Rightarrow> i),
            ra_spkID = pk_SignedPreKeyID bundle, ra_initInfo = info, ra_maxSkip = MaxSkippedMessageKeys\<rparr>))"

subsection \<open>Sending\<close>

definition ensureSendingChain :: "E2eCrypto \<Rightarrow> bytes option \<Rightarrow> Ratchet \<Rightarrow> Ratchet \<times> (e2e_error + unit)" where
  "ensureSendingChain C rand r =
     (if ra_sendingChain r \<noteq> None then (r, Inr ())
      else if \<not> ra_haveRecvPub r then (r, Inl NoRemoteKey)
      else case rand of
          None \<Rightarrow> (r, Inl E2eRand)
        | Some nk \<Rightarrow>
            (case dh C nk (ra_recvPub r) of
               Inl e \<Rightarrow> (r, Inl e)
             | Inr out \<Rightarrow>
                 let (root, chain) = kdfRoot C (ra_rootKey r) out
                 in (r\<lparr>ra_rootKey := root, ra_sendingChain := Some chain, ra_sendingDH := Some nk, ra_sendingCounter := 0,
                       ra_previousCounter := ra_retiredSendCount r\<rparr>, Inr ())))"

definition selfCert :: "E2eCrypto \<Rightarrow> Ratchet \<Rightarrow> bytes" where
  "selfCert C r = (case ra_signer r of None \<Rightarrow> [] | Some seed \<Rightarrow> e_sign C seed (idCertMessage (ra_selfDH r)))"

definition envAAD :: "Envelope \<Rightarrow> bytes" where
  "envAAD env = en_RatchetPub env @ en_HeaderEncrypt env"

definition init_header :: "Ratchet \<Rightarrow> builder" where
  "init_header r = addUint 2 (ucast (ra_spkID r)) (addBytes 1 initTag NewBuilder)"

text \<open>The envelope before its body, and the ratchet marked as having sent it.\<close>

definition start_envelope :: "E2eCrypto \<Rightarrow> Ratchet \<Rightarrow> Ratchet \<times> (e2e_error + Envelope)" where
  "start_envelope C r =
     (let env = no_envelope\<lparr>en_Version := 1, en_Type := EnvRatchet,
                  en_RatchetPub := (case ra_sendingDH r of Some k \<Rightarrow> c_pub C k | None \<Rightarrow> []),
                  en_PrevCount := ra_previousCounter r, en_Counter := ra_sendingCounter r\<rparr>
      in if ra_isInitiator r \<and> \<not> ra_initSent r then
           (case encryptHeader C (ra_rootKey r) (Build (init_header r)) of
              Inl e \<Rightarrow> (r, Inl e)
            | Inr h \<Rightarrow>
                (r\<lparr>ra_initSent := True\<rparr>,
                 Inr (env\<lparr>en_Type := EnvInit, en_IdentityPub := ra_selfDH r, en_IdentitySigPub := ra_selfSig r,
                        en_IdentityCert := selfCert C r, en_RegID := ra_selfID r, en_OpkID := ra_opkID r,
                        en_HeaderEncrypt := h\<rparr>)))
         else (r, Inr env))"

definition Encrypt :: "E2eCrypto \<Rightarrow> bytes option \<Rightarrow> bytes \<Rightarrow> Ratchet \<Rightarrow> Ratchet \<times> (e2e_error + Envelope)" where
  "Encrypt C rand plaintext r =
     then_st (ensureSendingChain C rand r) (\<lambda>_ r.
     then_st (start_envelope C r) (\<lambda>env r.
       let (msgKey, next) = kdfChain C (case ra_sendingChain r of Some c \<Rightarrow> c | None \<Rightarrow> []);
           r = r\<lparr>ra_sendingChain := Some next\<rparr>
       in case expandMessageKey C msgKey of
            Inl e \<Rightarrow> (r, Inl e)
          | Inr (key, nonce) \<Rightarrow>
              (r\<lparr>ra_sendingCounter := ra_sendingCounter r + 1\<rparr>,
               Inr (env\<lparr>en_Body := c_seal C key nonce plaintext (envAAD env)\<rparr>))))"

subsection \<open>Receiving\<close>

lemma unat_inc: "(c :: u32) < n \<Longrightarrow> unat (c + 1) = Suc (unat c)"
  using unatSuc [of c] by (metis add.commute add_diff_cancel_left' diff_0 word_order.extremum_strict)

text \<open>
  The skip loops: derive and keep the keys from the receiving counter up to \<open>n\<close>,
  indexed under \<open>(pub, pn)\<close>. The error is the exhausted buffer.
\<close>

function skip_keys :: "E2eCrypto \<Rightarrow> bytes \<Rightarrow> u32 \<Rightarrow> u32 \<Rightarrow> Ratchet \<Rightarrow> Ratchet \<times> (e2e_error + unit)" where
  "skip_keys C pub pn n r =
     (if ra_receivingCounter r < n then
        (if length (ra_skipped r) \<ge> ra_maxSkip r then (r, Inl SkippedExhausted)
         else
           let (mk, next) = kdfChain C (case ra_recvChain r of Some c \<Rightarrow> c | None \<Rightarrow> [])
           in skip_keys C pub pn n
                (r\<lparr>ra_skipped := AList.update (pub, pn, ra_receivingCounter r) mk (ra_skipped r), ra_recvChain := Some next,
                   ra_receivingCounter := ra_receivingCounter r + 1\<rparr>))
      else (r, Inr ()))"
  by pat_completeness auto
termination
  by (relation "measure (\<lambda>(C, pub, pn, n, r). unat n - unat (ra_receivingCounter r))")
    (auto simp: unat_inc word_less_nat_alt)

declare skip_keys.simps [simp del]

text \<open>Taking a new remote key: the rest of the old chain is skipped, the own sending chain retired.\<close>

definition recvRatchetStep :: "E2eCrypto \<Rightarrow> bytes \<Rightarrow> u32 \<Rightarrow> Ratchet \<Rightarrow> Ratchet \<times> (e2e_error + unit)" where
  "recvRatchetStep C pub pn r =
     then_st (if ra_recvChain r \<noteq> None then skip_keys C (ra_recvPub r) (ra_previousCounter r) pn r else (r, Inr ())) (\<lambda>_ r.
       let r = (if ra_sendingChain r \<noteq> None then r\<lparr>ra_retiredSendCount := ra_sendingCounter r\<rparr> else r);
           r = r\<lparr>ra_sendingChain := None\<rparr>
       in case ra_sendingDH r of
            None \<Rightarrow> (r, Inl NoSendingKey)
          | Some k \<Rightarrow>
              (case dh C k pub of
                 Inl e \<Rightarrow> (r, Inl e)
               | Inr out \<Rightarrow>
                   let (root, chain) = kdfRoot C (ra_rootKey r) out
                   in (r\<lparr>ra_rootKey := root, ra_recvChain := Some chain, ra_receivingCounter := 0, ra_recvPub := pub,
                         ra_haveRecvPub := True\<rparr>, Inr ())))"

definition openWithKey :: "E2eCrypto \<Rightarrow> bytes \<Rightarrow> Envelope \<Rightarrow> e2e_error + bytes" where
  "openWithKey C msgKey env =
     and_then (expandMessageKey C msgKey) (\<lambda>(key, nonce). aesGCMDecrypt C key nonce (en_Body env) (envAAD env))"

definition openMessage :: "E2eCrypto \<Rightarrow> Envelope \<Rightarrow> bytes \<Rightarrow> Ratchet \<Rightarrow> Ratchet \<times> (e2e_error + bytes)" where
  "openMessage C env pub r =
     (let idx = (pub, en_PrevCount env, en_Counter env)
      in case map_of (ra_skipped r) idx of
           Some sk \<Rightarrow> (r\<lparr>ra_skipped := AList.delete idx (ra_skipped r)\<rparr>, openWithKey C sk env)
         | None \<Rightarrow>
             if en_Counter env < ra_receivingCounter r then (r, Inl TooOld)
             else
               then_st (skip_keys C pub (en_PrevCount env) (en_Counter env) r) (\<lambda>_ r.
                 let (mk, next) = kdfChain C (case ra_recvChain r of Some c \<Rightarrow> c | None \<Rightarrow> [])
                 in (r\<lparr>ra_recvChain := Some next, ra_receivingCounter := ra_receivingCounter r + 1\<rparr>, openWithKey C mk env)))"

definition Decrypt :: "E2eCrypto \<Rightarrow> Envelope \<Rightarrow> Ratchet \<Rightarrow> Ratchet \<times> (e2e_error + bytes)" where
  "Decrypt C env r =
     (let pub = copy32 (en_RatchetPub env)
      in then_st (if ra_recvChain r = None \<or> pub \<noteq> ra_recvPub r then recvRatchetStep C pub (en_PrevCount env) r else (r, Inr ()))
           (\<lambda>_ r. openMessage C env pub r))"

definition PeerIdentity :: "Ratchet \<Rightarrow> bytes \<times> bytes \<times> u32" where
  "PeerIdentity r = (ra_peerIdentityPub r, ra_peerSigPub r, ra_peerRegID r)"

subsection \<open>Responding\<close>

record BobKeys =
  bk_Identity :: Identity
  bk_SignedPreKey :: bytes
  bk_SignedPreID :: u32
  bk_OneTimeKey :: "bytes option"
  bk_OneTimeKeyID :: u32

definition BobSession :: "E2eCrypto \<Rightarrow> BobKeys \<Rightarrow> Envelope \<Rightarrow> bytes \<Rightarrow> e2e_error + (Ratchet \<times> bytes)" where
  "BobSession C keys env info =
     (if en_Type env \<noteq> EnvInit then Inl NotInit
      else if length (en_IdentityPub env) \<noteq> 32 \<or> length (en_IdentitySigPub env) \<noteq> 32 then Inl ErrBadKey
      else if \<not> e_verify C (en_IdentitySigPub env) (idCertMessage (en_IdentityPub env)) (en_IdentityCert env)
      then Inl BadIdentityCert
      else
        and_then (X3DHRecipient C (id_DH (bk_Identity keys)) (bk_SignedPreKey keys) (en_IdentityPub env) (en_RatchetPub env)
            (bk_OneTimeKey keys) info) (\<lambda>(root, chain).
          let r = \<lparr>ra_rootKey = root, ra_sendingChain = None, ra_recvChain = Some chain, ra_sendingDH = None,
                   ra_recvPub = copy32 (en_RatchetPub env), ra_haveRecvPub = True, ra_initSent = False, ra_isInitiator = False,
                   ra_sendingCounter = 0, ra_receivingCounter = 0, ra_previousCounter = 0, ra_retiredSendCount = 0,
                   ra_skipped = [], ra_selfDH = c_pub C (id_DH (bk_Identity keys)), ra_selfSig = SignPub C (bk_Identity keys),
                   ra_selfID = id_RegID (bk_Identity keys), ra_signer = Some (id_signSeed (bk_Identity keys)),
                   ra_peerIdentityPub = en_IdentityPub env, ra_peerSigPub = en_IdentitySigPub env,
                   ra_peerRegID = en_RegID env, ra_opkID = en_OpkID env, ra_spkID = bk_SignedPreID keys,
                   ra_initInfo = info, ra_maxSkip = MaxSkippedMessageKeys\<rparr>
          in and_then (decryptHeader C (ra_rootKey r) (en_HeaderEncrypt env)) (\<lambda>hdr.
             and_then (wrap_err EnvelopePb (Parse hdr)) (\<lambda>m.
               if bytes_or_empty m 1 \<noteq> initTag then Inl BadInitTag
               else if (case GetUint m 2 of Some spkID \<Rightarrow> ucast spkID \<noteq> bk_SignedPreID keys | None \<Rightarrow> False) then Inl PreKeyMismatch
               else case openMessage C env (ra_recvPub r) r of
                   (r, Inl e) \<Rightarrow> Inl e
                 | (r, Inr msg) \<Rightarrow> Inr (r, msg)))))"

text \<open>The responder's fresh keys: five random inputs and two ids, in the order they are drawn.\<close>

definition NewBobKeys :: "E2eCrypto \<Rightarrow> bytes option \<Rightarrow> bytes option \<Rightarrow> bytes option \<Rightarrow> bytes option \<Rightarrow> bytes option \<Rightarrow>
    bytes option \<Rightarrow> bytes option \<Rightarrow> e2e_error + (BobKeys \<times> PreKeyBundle)" where
  "NewBobKeys C dhSeed sigSeed reg spk sid opk oid =
     and_then (NewIdentity dhSeed sigSeed reg) (\<lambda>i.
     case spk of None \<Rightarrow> Inl E2eRand | Some spk \<Rightarrow>
     case sid of None \<Rightarrow> Inl E2eRand | Some sid \<Rightarrow>
     case opk of None \<Rightarrow> Inl E2eRand | Some opk \<Rightarrow>
     case oid of None \<Rightarrow> Inl E2eRand | Some oid \<Rightarrow>
       Inr (\<lparr>bk_Identity = i, bk_SignedPreKey = spk, bk_SignedPreID = be_u32 sid, bk_OneTimeKey = Some opk,
             bk_OneTimeKeyID = be_u32 oid\<rparr>,
            BuildBundle C i spk (be_u32 sid) [(be_u32 oid, c_pub C opk)]))"

subsection \<open>Persistence\<close>

record skipKV =
  sv_Key :: bytes
  sv_PN :: u32
  sv_N :: u32
  sv_V :: bytes

record persistedRatchet =
  pr_Version :: int
  pr_RootKey :: bytes
  pr_SendingChain :: bytes
  pr_RecvChain :: bytes
  pr_SendingDHSeed :: bytes
  pr_RecvPub :: bytes
  pr_HaveRecvPub :: bool
  pr_InitSent :: bool
  pr_IsInitiator :: bool
  pr_SendingCounter :: u32
  pr_ReceivingCounter :: u32
  pr_PreviousCounter :: u32
  pr_RetiredSendCount :: u32
  pr_PeerIdentity :: bytes
  pr_PeerSig :: bytes
  pr_PeerRegID :: u32
  pr_OpkID :: u32
  pr_SpkID :: u32
  pr_InitInfo :: bytes
  pr_SelfDH :: bytes
  pr_SelfSig :: bytes
  pr_SelfRegID :: u32
  pr_Skipped :: "skipKV list"

text \<open>A nil chain or seed is left out of the JSON and read back as nil: an empty slice here.\<close>

definition MarshalState :: "Ratchet \<Rightarrow> persistedRatchet" where
  "MarshalState r =
     \<lparr>pr_Version = 1, pr_RootKey = ra_rootKey r, pr_SendingChain = (case ra_sendingChain r of None \<Rightarrow> [] | Some c \<Rightarrow> c),
      pr_RecvChain = (case ra_recvChain r of None \<Rightarrow> [] | Some c \<Rightarrow> c),
      pr_SendingDHSeed = (case ra_sendingDH r of None \<Rightarrow> [] | Some k \<Rightarrow> k),
      pr_RecvPub = ra_recvPub r, pr_HaveRecvPub = ra_haveRecvPub r, pr_InitSent = ra_initSent r,
      pr_IsInitiator = ra_isInitiator r, pr_SendingCounter = ra_sendingCounter r, pr_ReceivingCounter = ra_receivingCounter r,
      pr_PreviousCounter = ra_previousCounter r, pr_RetiredSendCount = ra_retiredSendCount r,
      pr_PeerIdentity = ra_peerIdentityPub r, pr_PeerSig = ra_peerSigPub r, pr_PeerRegID = ra_peerRegID r,
      pr_OpkID = ra_opkID r, pr_SpkID = ra_spkID r, pr_InitInfo = ra_initInfo r, pr_SelfDH = ra_selfDH r,
      pr_SelfSig = ra_selfSig r, pr_SelfRegID = ra_selfID r,
      pr_Skipped = map (\<lambda>((pub, pn, n), v). \<lparr>sv_Key = pub, sv_PN = pn, sv_N = n, sv_V = v\<rparr>) (ra_skipped r)\<rparr>"

definition json_slice :: "bytes \<Rightarrow> bytes option" where
  "json_slice bs = (if bs = [] then None else Some bs)"

definition RestoreRatchet :: "persistedRatchet \<Rightarrow> e2e_error + Ratchet" where
  "RestoreRatchet p =
     (if pr_Version p \<noteq> 1 then Inl (StateVersion (pr_Version p))
      else
        and_then (if length (pr_SendingDHSeed p) > 0 then and_then (e2e_KeyPairFromSeed (pr_SendingDHSeed p)) (Inr \<circ> Some)
                  else Inr None) (\<lambda>sendingDH.
          Inr \<lparr>ra_rootKey = pr_RootKey p, ra_sendingChain = json_slice (pr_SendingChain p),
               ra_recvChain = json_slice (pr_RecvChain p), ra_sendingDH = sendingDH, ra_recvPub = copy32 (pr_RecvPub p),
               ra_haveRecvPub = pr_HaveRecvPub p, ra_initSent = pr_InitSent p, ra_isInitiator = pr_IsInitiator p,
               ra_sendingCounter = pr_SendingCounter p, ra_receivingCounter = pr_ReceivingCounter p,
               ra_previousCounter = pr_PreviousCounter p, ra_retiredSendCount = pr_RetiredSendCount p,
               ra_skipped = fold (\<lambda>kv m. AList.update (copy32 (sv_Key kv), sv_PN kv, sv_N kv) (sv_V kv) m) (pr_Skipped p) [],
               ra_selfDH = pr_SelfDH p, ra_selfSig = pr_SelfSig p, ra_selfID = pr_SelfRegID p, ra_signer = None,
               ra_peerIdentityPub = pr_PeerIdentity p, ra_peerSigPub = pr_PeerSig p, ra_peerRegID = pr_PeerRegID p,
               ra_opkID = pr_OpkID p, ra_spkID = pr_SpkID p, ra_initInfo = pr_InitInfo p,
               ra_maxSkip = MaxSkippedMessageKeys\<rparr>))"

text \<open>Well-formed states: arrays of 32 bytes, chains and seeds present or nil, the skipped keys a map.\<close>

definition ratchet_wf :: "Ratchet \<Rightarrow> bool" where
  "ratchet_wf r \<longleftrightarrow> length (ra_recvPub r) = 32 \<and> ra_sendingChain r \<noteq> Some [] \<and> ra_recvChain r \<noteq> Some [] \<and>
     (\<forall>k. ra_sendingDH r = Some k \<longrightarrow> length k = 32) \<and> ra_maxSkip r = MaxSkippedMessageKeys \<and>
     distinct (map fst (ra_skipped r)) \<and> (\<forall>x \<in> set (ra_skipped r). length (fst (fst x)) = 32)"

lemma copy32_id [simp]: "length bs = 32 \<Longrightarrow> copy32 bs = bs"
  by (simp add: copy32_def)

lemma fold_update_skipped:
  assumes "distinct (map fst (acc @ m))" "\<forall>x \<in> set m. length (fst (fst x)) = 32"
  shows "fold (\<lambda>kv m. AList.update (copy32 (sv_Key kv), sv_PN kv, sv_N kv) (sv_V kv) m)
     (map (\<lambda>((pub, pn, n), v). \<lparr>sv_Key = pub, sv_PN = pn, sv_N = n, sv_V = v\<rparr>) m) acc = acc @ m"
  using assms
proof (induction m arbitrary: acc)
  case (Cons x m)
  obtain pub pn n v where x: "x = ((pub, pn, n), v)" by (metis prod.exhaust)
  have "AList.update (pub, pn, n) v acc = acc @ [x]" using Cons.prems(1) x by (intro update_fresh [of "(pub, pn, n)" acc v, folded x]) auto
  then show ?case using Cons.IH [of "acc @ [x]"] Cons.prems x by simp
qed simp

lemma Restore_Marshal:
  assumes "ratchet_wf r"
  shows "RestoreRatchet (MarshalState r) = Inr (r\<lparr>ra_signer := None\<rparr>)"
proof -
  have "fold (\<lambda>kv m. AList.update (copy32 (sv_Key kv), sv_PN kv, sv_N kv) (sv_V kv) m) (pr_Skipped (MarshalState r)) [] = ra_skipped r"
    using fold_update_skipped [of "[]" "ra_skipped r"] assms by (simp add: MarshalState_def ratchet_wf_def)
  moreover have "(if length (pr_SendingDHSeed (MarshalState r)) > 0
      then and_then (e2e_KeyPairFromSeed (pr_SendingDHSeed (MarshalState r))) (Inr \<circ> Some) else Inr None) = Inr (ra_sendingDH r)"
    using assms by (cases "ra_sendingDH r") (auto simp: MarshalState_def ratchet_wf_def e2e_KeyPairFromSeed_def)
  moreover have "json_slice (pr_SendingChain (MarshalState r)) = ra_sendingChain r" "json_slice (pr_RecvChain (MarshalState r)) = ra_recvChain r"
    using assms by (auto simp: MarshalState_def json_slice_def ratchet_wf_def split: option.splits)
  ultimately show ?thesis using assms
    by (simp add: RestoreRatchet_def) (simp add: MarshalState_def ratchet_wf_def)
qed

subsection \<open>Envelopes on the wire\<close>

definition envelope_ok :: "Envelope \<Rightarrow> bool" where
  "envelope_ok e \<longleftrightarrow> en_Version e = 1 \<and> en_Type e \<in> {EnvInit, EnvRatchet} \<and> length (en_RatchetPub e) = 32 \<and>
     length (en_HeaderEncrypt e) < 2 ^ 64 \<and> length (en_Body e) < 2 ^ 64 \<and> length (en_IdentityPub e) < 2 ^ 64 \<and>
     length (en_IdentitySigPub e) < 2 ^ 64 \<and> length (en_IdentityCert e) < 2 ^ 64 \<and>
     (en_Type e = EnvRatchet \<longrightarrow> en_IdentityPub e = [] \<and> en_IdentitySigPub e = [] \<and> en_IdentityCert e = [] \<and>
        en_RegID e = 0 \<and> en_OpkID e = 0)"

lemma ucast_byte_u64 [simp]: "ucast (ucast (x :: byte) :: u64) = x"
  by (rule bit_word_eqI) (simp add: bit_simps)

lemma uint_or_zero_Nil [simp]: "uint_or_zero [] n = 0"
  by (simp add: uint_or_zero_def GetUint_def)

lemma Parse_Serialize:
  assumes "envelope_ok e"
  shows "ParseEnvelope (Serialize e) = Inr e"
proof -
  have "list_all field_ok (envelope_fields e)"
    using assms by (simp add: envelope_fields_def builder_defs envelope_ok_def Let_def)
  then have p: "Parse (Serialize e) = Inr (envelope_fields e)" by (simp add: Serialize_def)
  show ?thesis
  proof (cases "en_Type e = EnvInit")
    case True
    then show ?thesis using assms p
      by (simp add: ParseEnvelope_def envelope_fields_def builder_defs envelope_ok_def EnvInit_def EnvRatchet_def Let_def)
  next
    case False
    then show ?thesis using assms p
      by (simp add: ParseEnvelope_def envelope_fields_def builder_defs envelope_ok_def EnvInit_def EnvRatchet_def Let_def)
  qed
qed

subsection \<open>One message\<close>

text \<open>The envelope of a regular message on a chain, and what sending and receiving it do.\<close>

definition msg_env :: "E2eCrypto \<Rightarrow> bytes \<Rightarrow> u32 \<Rightarrow> u32 \<Rightarrow> bytes \<Rightarrow> bytes \<Rightarrow> Envelope" where
  "msg_env C s pc n chain pt =
     (let env = no_envelope\<lparr>en_Version := 1, en_Type := EnvRatchet, en_RatchetPub := c_pub C s, en_PrevCount := pc, en_Counter := n\<rparr>
      in case expandMessageKey C (fst (kdfChain C chain)) of
           Inl e \<Rightarrow> env
         | Inr (key, nonce) \<Rightarrow> env\<lparr>en_Body := c_seal C key nonce pt (envAAD env)\<rparr>)"

lemma msg_env_simps:
  assumes "e2e_ok C"
  shows "en_RatchetPub (msg_env C s pc n chain pt) = c_pub C s" "en_PrevCount (msg_env C s pc n chain pt) = pc"
    "en_Counter (msg_env C s pc n chain pt) = n"
    "openWithKey C (fst (kdfChain C chain)) (msg_env C s pc n chain pt) = Inr pt"
    "length pt < 2 ^ 63 \<Longrightarrow> ParseEnvelope (Serialize (msg_env C s pc n chain pt)) = Inr (msg_env C s pc n chain pt)"
proof -
  obtain key nonce where k: "expandMessageKey C (fst (kdfChain C chain)) = Inr (key, nonce)"
    using expandMessageKey_ok [OF assms] by blast
  then show "en_RatchetPub (msg_env C s pc n chain pt) = c_pub C s" "en_PrevCount (msg_env C s pc n chain pt) = pc"
    "en_Counter (msg_env C s pc n chain pt) = n" by (simp_all add: msg_env_def Let_def)
  show "openWithKey C (fst (kdfChain C chain)) (msg_env C s pc n chain pt) = Inr pt"
    using k e2e_okD(2) [OF assms] by (simp add: msg_env_def openWithKey_def aesGCMDecrypt_def envAAD_def Let_def)
  assume l: "length pt < 2 ^ 63"
  have "length (c_seal C key nonce pt a) < 2 ^ 64" for a using e2e_okD(3) [OF assms, of key nonce pt a] l by simp
  then show "ParseEnvelope (Serialize (msg_env C s pc n chain pt)) = Inr (msg_env C s pc n chain pt)"
    using k e2e_okD(4) [OF assms, of s] by (intro Parse_Serialize) (simp add: msg_env_def envelope_ok_def no_envelope_def EnvInit_def EnvRatchet_def Let_def)
qed

lemma Encrypt_on_chain:
  assumes "e2e_ok C" "ra_sendingChain r = Some chain" "ra_sendingDH r = Some s" "ra_isInitiator r \<longrightarrow> ra_initSent r"
  shows "Encrypt C rnd pt r = (r\<lparr>ra_sendingChain := Some (snd (kdfChain C chain)), ra_sendingCounter := ra_sendingCounter r + 1\<rparr>,
    Inr (msg_env C s (ra_previousCounter r) (ra_sendingCounter r) chain pt))"
proof -
  obtain key nonce where "expandMessageKey C (fst (kdfChain C chain)) = Inr (key, nonce)"
    using expandMessageKey_ok [OF assms(1)] by blast
  then show ?thesis using assms(2-4)
    by (auto simp: Encrypt_def ensureSendingChain_def start_envelope_def msg_env_def envAAD_def Let_def split: prod.splits)
qed

lemma Encrypt_ensure:
  assumes "ra_sendingChain r = None" "ra_haveRecvPub r" "dh C nk (ra_recvPub r) = Inr out" "kdfRoot C (ra_rootKey r) out = (root, chain)"
  shows "Encrypt C (Some nk) pt r = Encrypt C (Some nk) pt (r\<lparr>ra_rootKey := root, ra_sendingChain := Some chain,
    ra_sendingDH := Some nk, ra_sendingCounter := 0, ra_previousCounter := ra_retiredSendCount r\<rparr>)"
    (is "_ = Encrypt C (Some nk) pt ?r")
proof -
  have "ensureSendingChain C (Some nk) r = (?r, Inr ())" using assms by (simp add: ensureSendingChain_def)
  moreover have "ensureSendingChain C (Some nk) ?r = (?r, Inr ())" by (simp add: ensureSendingChain_def)
  ultimately show ?thesis by (simp add: Encrypt_def)
qed

lemma Encrypt_new_chain:
  assumes "e2e_ok C" "ra_sendingChain r = None" "ra_haveRecvPub r" "ra_isInitiator r \<longrightarrow> ra_initSent r"
    and "dh C nk (ra_recvPub r) = Inr out" "kdfRoot C (ra_rootKey r) out = (root, chain)"
  shows "Encrypt C (Some nk) pt r = (r\<lparr>ra_rootKey := root, ra_sendingChain := Some (snd (kdfChain C chain)), ra_sendingDH := Some nk,
      ra_sendingCounter := 1, ra_previousCounter := ra_retiredSendCount r\<rparr>,
    Inr (msg_env C nk (ra_retiredSendCount r) 0 chain pt))"
proof -
  let ?r = "r\<lparr>ra_rootKey := root, ra_sendingChain := Some chain, ra_sendingDH := Some nk, ra_sendingCounter := 0,
    ra_previousCounter := ra_retiredSendCount r\<rparr>"
  show ?thesis using Encrypt_ensure [OF assms(2,3,5,6)] Encrypt_on_chain [OF assms(1), of ?r chain nk "Some nk" pt] assms(4) by simp
qed

lemma Decrypt_on_chain:
  assumes "e2e_ok C" "ra_recvChain r = Some chain" "ra_recvPub r = c_pub C s" "ra_receivingCounter r = n" "ra_skipped r = []"
  shows "Decrypt C (msg_env C s pc n chain pt) r
    = (r\<lparr>ra_recvChain := Some (snd (kdfChain C chain)), ra_receivingCounter := n + 1\<rparr>, Inr pt)"
proof -
  have "skip_keys C (c_pub C s) pc n r = (r, Inr ())" using assms(4) by (simp add: skip_keys.simps)
  then show ?thesis using assms msg_env_simps [OF assms(1), where s = s and pc = pc and n = n and chain = chain and pt = pt] e2e_okD(4) [OF assms(1), of s]
    by (auto simp: Decrypt_def openMessage_def Let_def split: prod.splits)
qed

lemma Decrypt_step:
  assumes "e2e_ok C" "ra_recvChain r = None \<or> ra_recvPub r \<noteq> c_pub C s \<and> ra_receivingCounter r = en_PrevCount env"
    and "ra_sendingDH r = Some k" "dh C k (c_pub C s) = Inr out" "kdfRoot C (ra_rootKey r) out = (root, chain)"
    and "en_RatchetPub env = c_pub C s"
  shows "Decrypt C env r = Decrypt C env (r\<lparr>ra_rootKey := root, ra_recvChain := Some chain, ra_receivingCounter := 0,
         ra_recvPub := c_pub C s, ra_haveRecvPub := True, ra_sendingChain := None,
         ra_retiredSendCount := (if ra_sendingChain r \<noteq> None then ra_sendingCounter r else ra_retiredSendCount r)\<rparr>)"
    (is "_ = Decrypt C env ?r")
proof -
  have "(if ra_recvChain r \<noteq> None then skip_keys C (ra_recvPub r) (ra_previousCounter r) (en_PrevCount env) r else (r, Inr ()))
      = (r, Inr ())"
    using assms(2) by (auto simp: skip_keys.simps)
  then have "recvRatchetStep C (c_pub C s) (en_PrevCount env) r = (?r, Inr ())"
    using assms(3-5) by (simp add: recvRatchetStep_def Let_def)
  then show ?thesis using assms(2,6) e2e_okD(4) [OF assms(1), of s] by (auto simp: Decrypt_def Let_def)
qed

lemma Decrypt_new_chain:
  assumes "e2e_ok C" "ra_recvChain r = None \<or> ra_recvPub r \<noteq> c_pub C s \<and> ra_receivingCounter r = pc" "ra_skipped r = []"
    and "ra_sendingDH r = Some k" "dh C k (c_pub C s) = Inr out" "kdfRoot C (ra_rootKey r) out = (root, chain)"
  shows "Decrypt C (msg_env C s pc 0 chain pt) r
    = (r\<lparr>ra_rootKey := root, ra_recvChain := Some (snd (kdfChain C chain)), ra_receivingCounter := 1, ra_recvPub := c_pub C s,
         ra_haveRecvPub := True, ra_sendingChain := None,
         ra_retiredSendCount := (if ra_sendingChain r \<noteq> None then ra_sendingCounter r else ra_retiredSendCount r)\<rparr>, Inr pt)"
  using assms(2,3) Decrypt_step [OF assms(1) _ assms(4-6), of "msg_env C s pc 0 chain pt"] msg_env_simps(1,2) [OF assms(1)]
  by (simp add: Decrypt_on_chain [OF assms(1)])

end
