(* ===== verification/Conversation.thy ===== *)
theory Conversation
  imports Ratchet
begin

text \<open>
  Two ratchets talking: the prekey bundle, the initial message and every later
  message through \<open>Encrypt\<close>, the wire format and \<open>Decrypt\<close>
  (\<^verbatim>\<open>security/e2e/ratchet.go\<close>), with the peers free to speak in any turn and to
  be stored and restored in between; and one sending chain whose messages arrive
  in any order.
\<close>

subsection \<open>Runs\<close>

text \<open>The initiator's first message as the responder takes it.\<close>

definition first_flight :: "E2eCrypto \<Rightarrow> BobKeys \<Rightarrow> PreKeyBundle \<Rightarrow> Identity \<Rightarrow> bytes \<Rightarrow> bytes \<Rightarrow> bytes \<Rightarrow>
    e2e_error + ((Ratchet \<times> Ratchet) \<times> bytes)" where
  "first_flight C keys bundle alice eph info pt =
     and_then (AliceSession C (Some eph) (pk_OneTimePreKeys bundle) (pk_OneTimePreKeys bundle) bundle alice info) (\<lambda>a.
       case Encrypt C None pt a of
         (a, Inl e) \<Rightarrow> Inl e
       | (a, Inr env) \<Rightarrow>
           and_then (ParseEnvelope (Serialize env)) (\<lambda>env.
           and_then (BobSession C keys env info) (\<lambda>(b, msg). Inr ((a, b), msg))))"

text \<open>One message from the first ratchet to the second.\<close>

definition deliver :: "E2eCrypto \<Rightarrow> bytes \<Rightarrow> bytes \<Rightarrow> Ratchet \<Rightarrow> Ratchet \<Rightarrow> Ratchet \<times> Ratchet \<times> (e2e_error + bytes)" where
  "deliver C seed pt a b =
     (case Encrypt C (Some seed) pt a of
        (a, Inl e) \<Rightarrow> (a, b, Inl e)
      | (a, Inr env) \<Rightarrow>
          (case ParseEnvelope (Serialize env) of
             Inl e \<Rightarrow> (a, b, Inl e)
           | Inr env \<Rightarrow> (case Decrypt C env b of (b, res) \<Rightarrow> (a, b, res))))"

text \<open>A turn: the initiator or the responder speaks (with the seed of a key pair, if it needs one), or one of them is restarted from its stored state.\<close>

datatype turn = Ask bytes bytes | Answer bytes bytes | RestartA | RestartB

definition restart :: "Ratchet \<Rightarrow> Ratchet" where
  "restart r = (case RestoreRatchet (MarshalState r) of Inr r' \<Rightarrow> r' | Inl _ \<Rightarrow> r)"

fun converse :: "E2eCrypto \<Rightarrow> turn list \<Rightarrow> Ratchet \<Rightarrow> Ratchet \<Rightarrow> Ratchet \<times> Ratchet \<times> (e2e_error + bytes) list" where
  "converse C [] a b = (a, b, [])"
| "converse C (Ask seed pt # ts) a b =
     (case deliver C seed pt a b of (a, b, res) \<Rightarrow> case converse C ts a b of (a, b, out) \<Rightarrow> (a, b, res # out))"
| "converse C (Answer seed pt # ts) a b =
     (case deliver C seed pt b a of (b, a, res) \<Rightarrow> case converse C ts a b of (a, b, out) \<Rightarrow> (a, b, res # out))"
| "converse C (RestartA # ts) a b = converse C ts (restart a) b"
| "converse C (RestartB # ts) a b = converse C ts a (restart b)"

fun spoken :: "turn list \<Rightarrow> bytes list" where
  "spoken [] = []"
| "spoken (Ask seed pt # ts) = pt # spoken ts"
| "spoken (Answer seed pt # ts) = pt # spoken ts"
| "spoken (RestartA # ts) = spoken ts"
| "spoken (RestartB # ts) = spoken ts"

fun seeds :: "turn list \<Rightarrow> bytes list" where
  "seeds [] = []"
| "seeds (Ask seed pt # ts) = seed # seeds ts"
| "seeds (Answer seed pt # ts) = seed # seeds ts"
| "seeds (RestartA # ts) = seeds ts"
| "seeds (RestartB # ts) = seeds ts"

subsection \<open>Linked ratchets\<close>

text \<open>\<open>a\<close> can send to \<open>b\<close>: on a chain both hold, or by a new chain from the key \<open>b\<close> last sent with.\<close>

definition can_send :: "E2eCrypto \<Rightarrow> Ratchet \<Rightarrow> Ratchet \<Rightarrow> bool" where
  "can_send C a b \<longleftrightarrow>
     (\<exists>ck s. ra_sendingChain a = Some ck \<and> ra_sendingDH a = Some s \<and> ra_recvChain b = Some ck \<and> ra_recvPub b = c_pub C s \<and>
        ra_receivingCounter b = ra_sendingCounter a) \<or>
     (\<exists>k. ra_sendingChain a = None \<and> ra_haveRecvPub a \<and> ra_sendingDH b = Some k \<and> ra_recvPub a = c_pub C k \<and>
        (ra_recvChain b \<noteq> None \<longrightarrow> ra_receivingCounter b = ra_retiredSendCount a))"

definition side_ok :: "bytes set \<Rightarrow> Ratchet \<Rightarrow> bool" where
  "side_ok used r \<longleftrightarrow> ratchet_wf r \<and> ra_skipped r = [] \<and> (ra_isInitiator r \<longrightarrow> ra_initSent r) \<and>
     (ra_recvChain r \<noteq> None \<longrightarrow> ra_recvPub r \<in> used)"

definition linked :: "E2eCrypto \<Rightarrow> bytes set \<Rightarrow> Ratchet \<Rightarrow> Ratchet \<Rightarrow> bool" where
  "linked C used a b \<longleftrightarrow> ra_rootKey a = ra_rootKey b \<and> side_ok used a \<and> side_ok used b \<and> can_send C a b \<and> can_send C b a"

lemma linked_sym: "linked C used a b \<longleftrightarrow> linked C used b a"
  by (auto simp: linked_def)

lemma hmac_nonempty: "e2e_ok C \<Longrightarrow> c_hmac C k m \<noteq> []"
  using e2e_okD(1) [of C] by (metis hmac_ok_def HashSize_def list.size(3) zero_neq_numeral)

lemma restart_eq: "ratchet_wf r \<Longrightarrow> restart r = r\<lparr>ra_signer := None\<rparr>"
  by (simp add: restart_def Restore_Marshal)

lemma linked_restart: "linked C used a b \<Longrightarrow> linked C used (restart a) b"
  by (auto simp: linked_def side_ok_def can_send_def restart_eq ratchet_wf_def)

text \<open>A message on a chain both hold.\<close>

lemma deliver_on_chain:
  assumes "e2e_ok C" "linked C used a b" "length pt < 2 ^ 63" "ra_sendingChain a = Some ck"
  shows "\<exists>a' b'. deliver C seed pt a b = (a', b', Inr pt) \<and> linked C used a' b'"
proof -
  obtain s where s: "ra_sendingDH a = Some s" "ra_recvChain b = Some ck" "ra_recvPub b = c_pub C s"
    "ra_receivingCounter b = ra_sendingCounter a"
    using assms(2,4) by (auto simp: linked_def can_send_def)
  let ?m = "msg_env C s (ra_previousCounter a) (ra_sendingCounter a) ck pt"
  let ?a = "a\<lparr>ra_sendingChain := Some (snd (kdfChain C ck)), ra_sendingCounter := ra_sendingCounter a + 1\<rparr>"
  let ?b = "b\<lparr>ra_recvChain := Some (snd (kdfChain C ck)), ra_receivingCounter := ra_sendingCounter a + 1\<rparr>"
  have side: "side_ok used a" "side_ok used b" using assms(2) by (auto simp: linked_def)
  have "Encrypt C (Some seed) pt a = (?a, Inr ?m)"
    using side by (intro Encrypt_on_chain assms(1,4) s) (simp add: side_ok_def)
  moreover have "ParseEnvelope (Serialize ?m) = Inr ?m" by (rule msg_env_simps(5) [OF assms(1,3)])
  moreover have "Decrypt C ?m b = (?b, Inr pt)"
    using side by (intro Decrypt_on_chain assms(1) s) (simp add: side_ok_def)
  ultimately have "deliver C seed pt a b = (?a, ?b, Inr pt)" by (simp add: deliver_def)
  moreover have "linked C used ?a ?b"
    using assms(2,4) s hmac_nonempty [OF assms(1)]
    by (auto simp: linked_def side_ok_def can_send_def ratchet_wf_def kdfChain_def)
  ultimately show ?thesis by blast
qed

text \<open>The first message of a new chain.\<close>

lemma deliver_new_chain:
  assumes "e2e_ok C" "linked C used a b" "length pt < 2 ^ 63" "ra_sendingChain a = None" "length seed = 32" "c_pub C seed \<notin> used"
  shows "\<exists>a' b'. deliver C seed pt a b = (a', b', Inr pt) \<and> linked C (insert (c_pub C seed) used) a' b'"
proof -
  obtain k where k: "ra_haveRecvPub a" "ra_sendingDH b = Some k" "ra_recvPub a = c_pub C k"
    "ra_recvChain b \<noteq> None \<longrightarrow> ra_receivingCounter b = ra_retiredSendCount a"
    using assms(2,4) by (auto simp: linked_def can_send_def)
  have side: "side_ok used a" "side_ok used b" and root: "ra_rootKey a = ra_rootKey b" using assms(2) by (auto simp: linked_def)
  have "length k = 32" using side(2) k(2) by (simp add: side_ok_def ratchet_wf_def)
  then obtain out where out: "dh C seed (c_pub C k) = Inr out" "dh C k (c_pub C seed) = Inr out"
    using dh_sym [OF assms(1,5)] by blast
  obtain rt ck where rt: "kdfRoot C (ra_rootKey a) out = (rt, ck)" by force
  have ne: "ck \<noteq> []" using rt hmac_nonempty [OF assms(1)] by (auto simp: kdfRoot_def)
  let ?m = "msg_env C seed (ra_retiredSendCount a) 0 ck pt"
  let ?a = "a\<lparr>ra_rootKey := rt, ra_sendingChain := Some (snd (kdfChain C ck)), ra_sendingDH := Some seed,
      ra_sendingCounter := 1, ra_previousCounter := ra_retiredSendCount a\<rparr>"
  let ?b = "b\<lparr>ra_rootKey := rt, ra_recvChain := Some (snd (kdfChain C ck)), ra_receivingCounter := 1, ra_recvPub := c_pub C seed,
         ra_haveRecvPub := True, ra_sendingChain := None,
         ra_retiredSendCount := (if ra_sendingChain b \<noteq> None then ra_sendingCounter b else ra_retiredSendCount b)\<rparr>"
  have "Encrypt C (Some seed) pt a = (?a, Inr ?m)"
    using side k(3) out(1) rt by (intro Encrypt_new_chain assms(1,4) k(1)) (simp_all add: side_ok_def)
  moreover have "ParseEnvelope (Serialize ?m) = Inr ?m" by (rule msg_env_simps(5) [OF assms(1,3)])
  moreover have "Decrypt C ?m b = (?b, Inr pt)"
  proof (intro Decrypt_new_chain [OF assms(1) _ _ k(2) out(2)])
    show "ra_recvChain b = None \<or> ra_recvPub b \<noteq> c_pub C seed \<and> ra_receivingCounter b = ra_retiredSendCount a"
      using side(2) k(4) assms(6) by (auto simp: side_ok_def)
    show "ra_skipped b = []" using side(2) by (simp add: side_ok_def)
    show "kdfRoot C (ra_rootKey b) out = (rt, ck)" using rt root by simp
  qed
  ultimately have "deliver C seed pt a b = (?a, ?b, Inr pt)" by (simp add: deliver_def)
  moreover have "side_ok (insert (c_pub C seed) used) ?a" "side_ok (insert (c_pub C seed) used) ?b"
    using side assms(5) hmac_nonempty [OF assms(1)] e2e_okD(4) [OF assms(1)]
    by (auto simp: side_ok_def ratchet_wf_def kdfChain_def)
  moreover have "can_send C ?a ?b" by (simp add: can_send_def)
  moreover have "can_send C ?b ?a" using assms(2) by (auto simp: linked_def can_send_def)
  ultimately show ?thesis by (auto simp: linked_def)
qed

lemma linked_mono: "linked C used a b \<Longrightarrow> used \<subseteq> used' \<Longrightarrow> linked C used' a b"
  by (auto simp: linked_def side_ok_def)

lemma deliver_linked:
  assumes "e2e_ok C" "linked C used a b" "length pt < 2 ^ 63" "length seed = 32" "c_pub C seed \<notin> used"
  shows "\<exists>a' b'. deliver C seed pt a b = (a', b', Inr pt) \<and> linked C (insert (c_pub C seed) used) a' b'"
proof (cases "ra_sendingChain a")
  case None
  then show ?thesis using deliver_new_chain [OF assms(1-3)] assms(4,5) by simp
next
  case (Some ck)
  then show ?thesis using deliver_on_chain [OF assms(1-3), of ck seed] linked_mono [OF _ subset_insertI] by blast
qed

lemma converse_linked:
  assumes "e2e_ok C" "linked C used a b"
    and "list_all (\<lambda>s. length s = 32) (seeds ts)" "list_all (\<lambda>pt. length pt < 2 ^ 63) (spoken ts)"
    and "distinct (map (c_pub C) (seeds ts))" "set (map (c_pub C) (seeds ts)) \<inter> used = {}"
  shows "\<exists>a' b'. converse C ts a b = (a', b', map Inr (spoken ts)) \<and> linked C (used \<union> set (map (c_pub C) (seeds ts))) a' b'"
  using assms(2-)
proof (induction ts arbitrary: used a b)
  case (Cons t ts)
  show ?case
  proof (cases t)
    case (Ask seed pt)
    then obtain a' b' where d: "deliver C seed pt a b = (a', b', Inr pt)" "linked C (insert (c_pub C seed) used) a' b'"
      using deliver_linked [OF assms(1) Cons.prems(1), of pt seed] Cons.prems(2-5) by auto
    then show ?thesis using Cons.IH [OF d(2)] Cons.prems(2-5) Ask by auto
  next
    case (Answer seed pt)
    then obtain a' b' where d: "deliver C seed pt b a = (b', a', Inr pt)" "linked C (insert (c_pub C seed) used) b' a'"
      using deliver_linked [OF assms(1), of used b a pt seed] Cons.prems linked_sym by auto
    then show ?thesis using Cons.IH [OF d(2) [unfolded linked_sym [of C _ b']]] Cons.prems(2-5) Answer by auto
  next
    case RestartA
    then show ?thesis using Cons.IH [OF linked_restart [OF Cons.prems(1)]] Cons.prems(2-5) by simp
  next
    case RestartB
    then show ?thesis
      using Cons.IH [OF linked_restart [OF Cons.prems(1) [unfolded linked_sym [of C _ a]], unfolded linked_sym [of C _ "restart b"]]]
        Cons.prems(2-5) by simp
  qed
qed simp

subsection \<open>The first flight\<close>

definition init_env :: "E2eCrypto \<Rightarrow> Ratchet \<Rightarrow> bytes \<Rightarrow> bytes \<Rightarrow> bytes \<Rightarrow> bytes \<Rightarrow> Envelope" where
  "init_env C r eph h chain pt =
     (let env = no_envelope\<lparr>en_Version := 1, en_Type := EnvInit, en_RatchetPub := c_pub C eph, en_IdentityPub := ra_selfDH r,
                  en_IdentitySigPub := ra_selfSig r, en_IdentityCert := selfCert C r, en_RegID := ra_selfID r,
                  en_OpkID := ra_opkID r, en_HeaderEncrypt := h\<rparr>
      in case expandMessageKey C (fst (kdfChain C chain)) of
           Inl e \<Rightarrow> env
         | Inr (key, nonce) \<Rightarrow> env\<lparr>en_Body := c_seal C key nonce pt (envAAD env)\<rparr>)"

lemma Encrypt_init:
  assumes "e2e_ok C" "ra_sendingChain r = Some chain" "ra_sendingDH r = Some eph" "ra_isInitiator r" "\<not> ra_initSent r"
    "ra_previousCounter r = 0" "ra_sendingCounter r = 0" "encryptHeader C (ra_rootKey r) (Build (init_header r)) = Inr h"
  shows "Encrypt C rnd pt r = (r\<lparr>ra_initSent := True, ra_sendingChain := Some (snd (kdfChain C chain)), ra_sendingCounter := 1\<rparr>,
    Inr (init_env C r eph h chain pt))"
proof -
  obtain key nonce where "expandMessageKey C (fst (kdfChain C chain)) = Inr (key, nonce)"
    using expandMessageKey_ok [OF assms(1)] by blast
  then show ?thesis using assms(2-8)
    by (auto simp: Encrypt_def ensureSendingChain_def start_envelope_def init_env_def envAAD_def no_envelope_def Let_def split: prod.splits)
qed

lemma init_env_simps:
  assumes "e2e_ok C"
  shows "en_Type (init_env C r eph h chain pt) = EnvInit" "en_RatchetPub (init_env C r eph h chain pt) = c_pub C eph"
    "en_PrevCount (init_env C r eph h chain pt) = 0" "en_Counter (init_env C r eph h chain pt) = 0"
    "en_HeaderEncrypt (init_env C r eph h chain pt) = h" "en_IdentityPub (init_env C r eph h chain pt) = ra_selfDH r"
    "en_IdentitySigPub (init_env C r eph h chain pt) = ra_selfSig r" "en_IdentityCert (init_env C r eph h chain pt) = selfCert C r"
    "en_RegID (init_env C r eph h chain pt) = ra_selfID r" "en_OpkID (init_env C r eph h chain pt) = ra_opkID r"
    "openWithKey C (fst (kdfChain C chain)) (init_env C r eph h chain pt) = Inr pt"
    "length pt < 2 ^ 63 \<Longrightarrow> length h < 2 ^ 63 \<Longrightarrow> length (ra_selfDH r) = 32 \<Longrightarrow> length (ra_selfSig r) = 32 \<Longrightarrow>
       length (selfCert C r) = 64 \<Longrightarrow> ParseEnvelope (Serialize (init_env C r eph h chain pt)) = Inr (init_env C r eph h chain pt)"
proof -
  obtain key nonce where k: "expandMessageKey C (fst (kdfChain C chain)) = Inr (key, nonce)"
    using expandMessageKey_ok [OF assms] by blast
  then show "en_Type (init_env C r eph h chain pt) = EnvInit" "en_RatchetPub (init_env C r eph h chain pt) = c_pub C eph"
    "en_PrevCount (init_env C r eph h chain pt) = 0" "en_Counter (init_env C r eph h chain pt) = 0"
    "en_HeaderEncrypt (init_env C r eph h chain pt) = h" "en_IdentityPub (init_env C r eph h chain pt) = ra_selfDH r"
    "en_IdentitySigPub (init_env C r eph h chain pt) = ra_selfSig r" "en_IdentityCert (init_env C r eph h chain pt) = selfCert C r"
    "en_RegID (init_env C r eph h chain pt) = ra_selfID r" "en_OpkID (init_env C r eph h chain pt) = ra_opkID r"
    by (simp_all add: init_env_def no_envelope_def Let_def)
  show "openWithKey C (fst (kdfChain C chain)) (init_env C r eph h chain pt) = Inr pt"
    using k e2e_okD(2) [OF assms] by (simp add: init_env_def openWithKey_def aesGCMDecrypt_def envAAD_def Let_def)
  assume l: "length pt < 2 ^ 63" "length h < 2 ^ 63" "length (ra_selfDH r) = 32" "length (ra_selfSig r) = 32" "length (selfCert C r) = 64"
  have "length (c_seal C key nonce pt a) < 2 ^ 64" for a using e2e_okD(3) [OF assms, of key nonce pt a] l(1) by simp
  then show "ParseEnvelope (Serialize (init_env C r eph h chain pt)) = Inr (init_env C r eph h chain pt)"
    using k l e2e_okD(4) [OF assms, of eph]
    by (intro Parse_Serialize) (simp add: init_env_def envelope_ok_def no_envelope_def EnvInit_def EnvRatchet_def Let_def)
qed

text \<open>The header, read back.\<close>

lemma init_header_ok: "list_all field_ok (init_header r)"
  by (simp add: init_header_def builder_defs initTag_def)

lemma init_header_fields: "bytes_or_empty (init_header r) 1 = initTag" "GetUint (init_header r) 2 = Some (ucast (ra_spkID r))"
  by (simp_all add: init_header_def builder_defs bytes_or_empty_def GetBytes_def GetUint_def)

lemma init_header_short: "length (Build (init_header r)) < 100"
proof -
  have "length initTag = 17" by (simp add: initTag_def)
  then show ?thesis using bytes_field_length [of initTag 1] varint_field_length [of "ucast (ra_spkID r)" 2]
    by (simp add: init_header_def builder_defs)
qed

lemma BobSession_init:
  assumes ok: "e2e_ok C" and len: "length (ra_selfDH a) = 32" "length (ra_selfSig a) = 32" "length chain = 32"
    and cert: "e_verify C (ra_selfSig a) (idCertMessage (ra_selfDH a)) (selfCert C a)"
    and x: "X3DHRecipient C (id_DH (bk_Identity keys)) (bk_SignedPreKey keys) (ra_selfDH a) (c_pub C eph) (bk_OneTimeKey keys) info
      = Inr (root, chain)"
    and h: "decryptHeader C root h = Inr (Build (init_header a))" and spk: "ra_spkID a = bk_SignedPreID keys"
  shows "\<exists>b. BobSession C keys (init_env C a eph h chain pt) info = Inr (b, pt) \<and> ra_rootKey b = root \<and> ra_sendingChain b = None \<and>
    ra_recvChain b = Some (snd (kdfChain C chain)) \<and> ra_recvPub b = c_pub C eph \<and> ra_haveRecvPub b \<and> \<not> ra_isInitiator b \<and>
    ra_receivingCounter b = 1 \<and> ra_sendingCounter b = 0 \<and> ra_skipped b = [] \<and> ratchet_wf b \<and> PeerIdentity b = (ra_selfDH a, ra_selfSig a, ra_selfID a)"
proof -
  have ne: "snd (kdfChain C chain) \<noteq> []" using hmac_nonempty [OF ok] by (simp add: kdfChain_def)
  obtain mk nxt where k: "kdfChain C chain = (mk, nxt)" by force
  have "openWithKey C mk (init_env C a eph h chain pt) = Inr pt" using init_env_simps(11) [OF ok, where chain = chain] k by simp
  moreover have "ucast (ucast (ra_spkID a) :: u64) = ra_spkID a" by (rule bit_word_eqI) (simp add: bit_simps)
  ultimately show ?thesis using assms ne k e2e_okD(4) [OF ok, of eph]
    by (auto simp: BobSession_def init_env_simps openMessage_def skip_keys.simps init_header_ok init_header_fields
        ratchet_wf_def PeerIdentity_def Let_def)
qed

lemma first_flight_linked:
  assumes ok: "e2e_ok C" and len: "length (id_DH alice) = 32" "length (id_DH i) = 32" "length eph = 32" "length spk = 32"
      "length opk = 32" "length pt < 2 ^ 63"
    and keys: "keys = \<lparr>bk_Identity = i, bk_SignedPreKey = spk, bk_SignedPreID = sid, bk_OneTimeKey = Some opk, bk_OneTimeKeyID = oid\<rparr>"
    and bd: "bundle = BuildBundle C i spk sid [(oid, c_pub C opk)]"
  shows "\<exists>a b. first_flight C keys bundle alice eph info pt = Inr ((a, b), pt) \<and> linked C {c_pub C eph} a b \<and> ra_sendingCounter b = 0 \<and>
    PeerIdentity a = (c_pub C (id_DH i), SignPub C i, id_RegID i) \<and>
    PeerIdentity b = (c_pub C (id_DH alice), SignPub C alice, id_RegID alice)"
proof -
  obtain root chain where x: "X3DHInitiator C (id_DH alice) eph bundle [(oid, c_pub C opk)] info = Inr (root, chain)"
    "X3DHRecipient C (id_DH i) spk (c_pub C (id_DH alice)) (c_pub C eph) (Some opk) info = Inr (root, chain)"
    "length root = 32" "length chain = 32"
    using x3dh_agree [OF ok len(1-4), where opk = "Some opk" and otks = "[(oid, c_pub C opk)]" and spkID = sid and info = info] len(5) bd by auto
  have ne: "chain \<noteq> []" using x(4) by auto
  have otks: "pk_OneTimePreKeys bundle = [(oid, c_pub C opk)]" by (simp add: bd BuildBundle_def Let_def)
  obtain a where a: "AliceSession C (Some eph) [(oid, c_pub C opk)] [(oid, c_pub C opk)] bundle alice info = Inr a"
    "ra_rootKey a = root" "ra_sendingChain a = Some chain" "ra_recvChain a = None" "ra_sendingDH a = Some eph"
    "ra_isInitiator a" "\<not> ra_initSent a" "ra_sendingCounter a = 0" "ra_previousCounter a = 0" "ra_skipped a = []"
    "ra_selfDH a = c_pub C (id_DH alice)" "ra_selfSig a = SignPub C alice" "ra_selfID a = id_RegID alice"
    "ra_signer a = Some (id_signSeed alice)" "ra_spkID a = sid" "ratchet_wf a"
    "PeerIdentity a = (c_pub C (id_DH i), SignPub C i, id_RegID i)"
    using x(1) ne len(3) VerifyBundle_Build [OF ok, of i spk sid "[(oid, c_pub C opk)]"]
    by (auto simp: AliceSession_def bd BuildBundle_def ratchet_wf_def PeerIdentity_def Let_def)
  obtain h where h: "encryptHeader C root (Build (init_header a)) = Inr h" "decryptHeader C root h = Inr (Build (init_header a))"
    "length h \<le> length (Build (init_header a)) + 16"
    using header_roundtrip [OF ok, of root "Build (init_header a)"] x(3) by (auto simp: aes_key_ok_def)
  let ?env = "init_env C a eph h chain pt"
  let ?a = "a\<lparr>ra_initSent := True, ra_sendingChain := Some (snd (kdfChain C chain)), ra_sendingCounter := 1\<rparr>"
  have enc: "Encrypt C None pt a = (?a, Inr ?env)" using a h by (intro Encrypt_init ok) simp_all
  have cert: "selfCert C a = e_sign C (id_signSeed alice) (idCertMessage (c_pub C (id_DH alice)))" using a by (simp add: selfCert_def)
  have parse: "ParseEnvelope (Serialize ?env) = Inr ?env"
    using a cert h(3) init_header_short [of a] e2e_okD(4,6,7) [OF ok] len(6)
    by (intro init_env_simps ok) (simp_all add: SignPub_def)
  obtain b where b: "BobSession C keys ?env info = Inr (b, pt)"
    "ra_rootKey b = root" "ra_sendingChain b = None" "ra_recvChain b = Some (snd (kdfChain C chain))"
    "ra_recvPub b = c_pub C eph" "ra_haveRecvPub b" "\<not> ra_isInitiator b" "ra_receivingCounter b = 1"
    "ra_sendingCounter b = 0" "ra_skipped b = []" "ratchet_wf b" "PeerIdentity b = (c_pub C (id_DH alice), SignPub C alice, id_RegID alice)"
    using BobSession_init [OF ok, where a = a and chain = chain and keys = keys and eph = eph and info = info and root = root and h = h and pt = pt]
      a cert x h(2) e2e_okD(4-6) [OF ok] by (auto simp: keys SignPub_def)
  have "linked C {c_pub C eph} ?a b"
    using a b hmac_nonempty [OF ok] by (auto simp: linked_def side_ok_def can_send_def ratchet_wf_def kdfChain_def)
  then show ?thesis using a b enc parse otks by (intro exI [of _ ?a] exI [of _ b]) (simp add: first_flight_def PeerIdentity_def)
qed

subsection \<open>Messages out of order\<close>

fun send_all :: "E2eCrypto \<Rightarrow> bytes \<Rightarrow> bytes list \<Rightarrow> Ratchet \<Rightarrow> Ratchet \<times> (e2e_error + bytes) list" where
  "send_all C seed [] a = (a, [])"
| "send_all C seed (pt # pts) a =
     (case Encrypt C (Some seed) pt a of (a, res) \<Rightarrow>
      case send_all C seed pts a of (a, out) \<Rightarrow> (a, and_then res (Inr \<circ> Serialize) # out))"

fun receive_all :: "E2eCrypto \<Rightarrow> bytes list \<Rightarrow> Ratchet \<Rightarrow> Ratchet \<times> (e2e_error + bytes) list" where
  "receive_all C [] b = (b, [])"
| "receive_all C (w # ws) b =
     (case (case ParseEnvelope w of Inl e \<Rightarrow> (b, Inl e) | Inr env \<Rightarrow> Decrypt C env b) of (b, res) \<Rightarrow>
      case receive_all C ws b of (b, out) \<Rightarrow> (b, res # out))"

text \<open>What arriving messages should give: the text the first time, an error each later time.\<close>

fun expected :: "bytes list \<Rightarrow> nat set \<Rightarrow> nat list \<Rightarrow> (e2e_error + bytes) list" where
  "expected pts seen [] = []"
| "expected pts seen (i # js) = (if i \<in> seen then Inl TooOld else Inr (pts ! i)) # expected pts (insert i seen) js"

primrec chain_at :: "E2eCrypto \<Rightarrow> bytes \<Rightarrow> nat \<Rightarrow> bytes" where
  "chain_at C ck 0 = ck"
| "chain_at C ck (Suc i) = snd (kdfChain C (chain_at C ck i))"

lemma chain_at_shift: "chain_at C (snd (kdfChain C ck)) i = chain_at C ck (Suc i)"
  by (induction i) simp_all

abbreviation chain_key :: "E2eCrypto \<Rightarrow> bytes \<Rightarrow> nat \<Rightarrow> bytes" where
  "chain_key C ck i \<equiv> fst (kdfChain C (chain_at C ck i))"

text \<open>
  The receiver within a chain that starts with \<open>ck\<close> at counter \<open>n\<close>: it has advanced by \<open>m\<close> messages, and the
  keys of those in \<open>pend\<close> are kept.
\<close>

definition window :: "E2eCrypto \<Rightarrow> bytes \<Rightarrow> u32 \<Rightarrow> bytes \<Rightarrow> u32 \<Rightarrow> nat \<Rightarrow> nat set \<Rightarrow> Ratchet \<Rightarrow> bool" where
  "window C pub pc ck n m pend r \<longleftrightarrow> ra_recvPub r = pub \<and> ra_recvChain r = Some (chain_at C ck m) \<and>
     ra_receivingCounter r = n + of_nat m \<and> unat n + m < 2 ^ 32 \<and> ra_maxSkip r = MaxSkippedMessageKeys \<and> pend \<subseteq> {..<m} \<and>
     distinct (map fst (ra_skipped r)) \<and> set (ra_skipped r) = (\<lambda>i. ((pub, pc, n + of_nat i), chain_key C ck i)) ` pend"

lemma index_less: "unat (n :: u32) + i < 2 ^ 32 \<Longrightarrow> unat n + j < 2 ^ 32 \<Longrightarrow> n + of_nat i < n + of_nat j \<longleftrightarrow> i < j"
  by (simp add: word_less_nat_alt unat_word_ariths unat_of_nat take_bit_nat_eq_self)

lemma index_inj: "unat (n :: u32) + i < 2 ^ 32 \<Longrightarrow> unat n + j < 2 ^ 32 \<Longrightarrow> n + of_nat i = n + of_nat j \<longleftrightarrow> i = j"
  using index_less [of n i j] index_less [of n j i] by (metis less_irrefl linorder_less_linear)

lemma window_length:
  assumes "window C pub pc ck n m pend r"
  shows "length (ra_skipped r) = card pend"
proof -
  have "inj_on (\<lambda>i. ((pub, pc, n + of_nat i :: u32), chain_key C ck i)) pend"
  proof (rule inj_onI)
    fix i j assume ij: "i \<in> pend" "j \<in> pend" "((pub, pc, n + of_nat i), chain_key C ck i) = ((pub, pc, n + of_nat j), chain_key C ck j)"
    moreover from ij(1,2) have "unat n + i < 2 ^ 32" "unat n + j < 2 ^ 32" using assms by (auto simp: window_def)
    ultimately show "i = j" using index_inj by (metis Pair_inject)
  qed
  then have "card (set (ra_skipped r)) = card pend" using assms by (simp add: window_def card_image)
  moreover have "distinct (ra_skipped r)" using assms by (auto simp: window_def distinct_map)
  ultimately show ?thesis by (metis distinct_card)
qed

lemma window_lookup:
  assumes "window C pub pc ck n m pend r" "unat n + i < 2 ^ 32"
  shows "map_of (ra_skipped r) (pub, pc, n + of_nat i) = (if i \<in> pend then Some (chain_key C ck i) else None)"
proof -
  have "map_of (ra_skipped r) (pub, pc, n + of_nat i) = Some v \<longleftrightarrow> i \<in> pend \<and> v = chain_key C ck i" for v
    using assms index_inj [OF assms(2)] by (auto simp: window_def map_of_eq_Some_iff subset_iff)
  then show ?thesis by (metis not_Some_eq)
qed

lemma window_skip:
  assumes "window C pub pc ck n m pend r" "m \<le> i" "unat n + i < 2 ^ 32" "card pend + (i - m) \<le> MaxSkippedMessageKeys"
  shows "\<exists>r'. skip_keys C pub pc (n + of_nat i) r = (r', Inr ()) \<and> window C pub pc ck n i (pend \<union> {m..<i}) r'"
  using assms
proof (induction "i - m" arbitrary: m pend r)
  case 0
  then have "m = i" by simp
  then show ?case using 0(2) by (auto simp: skip_keys.simps [of C pub pc _ r] window_def)
next
  case (Suc d)
  let ?r = "r\<lparr>ra_skipped := ra_skipped r @ [((pub, pc, n + of_nat m), chain_key C ck m)], ra_recvChain := Some (chain_at C ck (Suc m)),
    ra_receivingCounter := n + of_nat (Suc m)\<rparr>"
  have mi: "m < i" "unat n + m < 2 ^ 32" using Suc by auto
  have d: "d = i - Suc m" using Suc.hyps(2) by simp
  have fin: "m \<notin> pend" "finite pend" using Suc.prems(1) finite_subset by (auto simp: window_def)
  have fresh: "(pub, pc, n + of_nat m) \<notin> fst ` set (ra_skipped r)"
    using window_lookup [OF Suc.prems(1) mi(2)] fin by (simp add: map_of_eq_None_iff)
  have w: "window C pub pc ck n (Suc m) (insert m pend) ?r"
    using Suc.prems(1,3) mi fresh by (auto simp: window_def)
  have "card (insert m pend) + (i - Suc m) \<le> MaxSkippedMessageKeys" using fin Suc.prems(4) mi by simp
  then obtain r' where r': "skip_keys C pub pc (n + of_nat i) ?r = (r', Inr ())"
      "window C pub pc ck n i (insert m pend \<union> {Suc m..<i}) r'"
    using Suc.hyps(1) [OF _ w _ Suc.prems(3)] d mi by auto
  have "length (ra_skipped r) < ra_maxSkip r" using window_length [OF Suc.prems(1)] Suc.prems(1,4) mi by (auto simp: window_def)
  then have "skip_keys C pub pc (n + of_nat i) r = skip_keys C pub pc (n + of_nat i) ?r"
    using Suc.prems(1,3) mi fresh index_less [of n m i]
    by (simp add: skip_keys.simps [of C pub pc _ r] window_def update_fresh Let_def ac_simps split: prod.splits)
  moreover have "insert m pend \<union> {Suc m..<i} = pend \<union> {m..<i}" using mi(1) by auto
  ultimately show ?case using r' by auto
qed

text \<open>One arriving message of the chain: kept, new, or already read.\<close>

lemma window_open:
  assumes ok: "e2e_ok C" and w: "window C (c_pub C s) pc ck n m ({..<m} - seen) r" and seen: "seen \<subseteq> {..<m}"
    and i: "unat n + Suc i < 2 ^ 32" "i \<le> MaxSkippedMessageKeys"
  shows "\<exists>r' m'. Decrypt C (msg_env C s pc (n + of_nat i) (chain_at C ck i) pt) r
      = (r', if i \<in> seen then Inl TooOld else Inr pt) \<and>
    window C (c_pub C s) pc ck n m' ({..<m'} - insert i seen) r' \<and> insert i seen \<subseteq> {..<m'}"
proof -
  let ?env = "msg_env C s pc (n + of_nat i) (chain_at C ck i) pt"
  note env = msg_env_simps [OF ok, where s = s and pc = pc and n = "n + of_nat i" and chain = "chain_at C ck i" and pt = pt]
  have d: "Decrypt C ?env r = openMessage C ?env (c_pub C s) r"
    using w env(1) e2e_okD(4) [OF ok, of s] by (simp add: Decrypt_def window_def)
  have lk: "map_of (ra_skipped r) (c_pub C s, pc, n + of_nat i) = (if i \<in> {..<m} - seen then Some (chain_key C ck i) else None)"
    using i(1) by (intro window_lookup [OF w]) simp
  have rc: "ra_receivingCounter r = n + of_nat m" and m: "unat n + m < 2 ^ 32" using w by (auto simp: window_def)
  have lt: "n + of_nat i < ra_receivingCounter r \<longleftrightarrow> i < m" using index_less [OF _ m, of i] i(1) rc by simp
  consider "i \<in> {..<m} - seen" | "i \<in> seen" | "m \<le> i" by force
  then show ?thesis
  proof cases
    case 1
    let ?r = "r\<lparr>ra_skipped := AList.delete (c_pub C s, pc, n + of_nat i) (ra_skipped r)\<rparr>"
    have ix: "n + of_nat j = n + of_nat i \<longleftrightarrow> j = i" if "j < m" for j using that m i(1) by (intro index_inj) auto
    have "set (ra_skipped ?r) = {x \<in> set (ra_skipped r). fst x \<noteq> (c_pub C s, pc, n + of_nat i)}"
      by (auto simp: AList.delete_eq)
    also have "\<dots> = (\<lambda>i. ((c_pub C s, pc, n + of_nat i), chain_key C ck i)) ` ({..<m} - insert i seen)"
      using w ix by (fastforce simp: window_def)
    finally have "window C (c_pub C s) pc ck n m ({..<m} - insert i seen) ?r"
      using w by (auto simp: window_def distinct_delete)
    moreover have "Decrypt C ?env r = (?r, Inr pt)" using d lk 1 env by (simp add: openMessage_def Let_def)
    ultimately show ?thesis using 1 seen by (intro exI [of _ ?r] exI [of _ m]) auto
  next
    case 2
    then have "Decrypt C ?env r = (r, Inl TooOld)" using d lk lt env seen by (auto simp: openMessage_def Let_def)
    then show ?thesis using 2 w seen by (intro exI [of _ r] exI [of _ m]) (auto simp: insert_absorb)
  next
    case 3
    then have "i \<notin> seen" "\<not> i < m" using seen by auto
    have "card ({..<m} - seen) + (i - m) \<le> MaxSkippedMessageKeys"
      using i(2) 3 card_mono [of "{..<m}" "{..<m} - seen"] by simp
    then obtain r' where r': "skip_keys C (c_pub C s) pc (n + of_nat i) r = (r', Inr ())"
        "window C (c_pub C s) pc ck n i ({..<m} - seen \<union> {m..<i}) r'"
      using window_skip [OF w 3] i(1) by auto
    let ?r = "r'\<lparr>ra_recvChain := Some (chain_at C ck (Suc i)), ra_receivingCounter := ra_receivingCounter r' + 1\<rparr>"
    have "Decrypt C ?env r = (?r, Inr pt)"
      using d lk lt r' \<open>\<not> i < m\<close> env by (auto simp: openMessage_def window_def Let_def split: prod.splits)
    moreover have "{..<m} - seen \<union> {m..<i} = {..<Suc i} - insert i seen" using 3 seen by auto
    then have "window C (c_pub C s) pc ck n (Suc i) ({..<Suc i} - insert i seen) ?r"
      using r'(2) i(1) by (auto simp: window_def)
    ultimately show ?thesis using \<open>i \<notin> seen\<close> 3 seen by (intro exI [of _ ?r] exI [of _ "Suc i"]) auto
  qed
qed

definition chain_wire :: "E2eCrypto \<Rightarrow> bytes \<Rightarrow> u32 \<Rightarrow> u32 \<Rightarrow> bytes \<Rightarrow> bytes list \<Rightarrow> nat \<Rightarrow> bytes" where
  "chain_wire C s pc n ck pts i = Serialize (msg_env C s pc (n + of_nat i) (chain_at C ck i) (pts ! i))"

lemma receive_window:
  assumes ok: "e2e_ok C"
    and js: "\<forall>i \<in> set js. i < length pts \<and> unat n + Suc i < 2 ^ 32 \<and> i \<le> MaxSkippedMessageKeys"
    and pts: "list_all (\<lambda>pt. length pt < 2 ^ 63) pts"
    and w: "window C (c_pub C s) pc ck n m ({..<m} - seen) r" "seen \<subseteq> {..<m}"
  shows "snd (receive_all C (map (chain_wire C s pc n ck pts) js) r) = expected pts seen js"
  using w js
proof (induction js arbitrary: m seen r)
  case (Cons i js)
  have "length (pts ! i) < 2 ^ 63" using pts Cons.prems(3) by (simp add: list_all_length)
  note p = msg_env_simps(5) [OF ok this]
  obtain r' m' where d: "Decrypt C (msg_env C s pc (n + of_nat i) (chain_at C ck i) (pts ! i)) r
      = (r', if i \<in> seen then Inl TooOld else Inr (pts ! i))"
    "window C (c_pub C s) pc ck n m' ({..<m'} - insert i seen) r'" "insert i seen \<subseteq> {..<m'}"
    using window_open [OF ok Cons.prems(1,2), of i "pts ! i"] Cons.prems(3) by auto
  show ?case using Cons.IH [OF d(2,3)] Cons.prems(3) d(1) p by (simp add: chain_wire_def case_prod_beta)
qed simp

lemma send_on_chain:
  assumes "e2e_ok C" "ra_sendingDH a = Some s" "ra_isInitiator a \<longrightarrow> ra_initSent a" "ra_sendingChain a = Some ck"
  shows "snd (send_all C seed pts a)
    = map (\<lambda>i. Inr (chain_wire C s (ra_previousCounter a) (ra_sendingCounter a) ck pts i)) [0..<length pts]"
  using assms(2-)
proof (induction pts arbitrary: a ck)
  case (Cons pt pts)
  let ?a = "a\<lparr>ra_sendingChain := Some (snd (kdfChain C ck)), ra_sendingCounter := ra_sendingCounter a + 1\<rparr>"
  have e: "Encrypt C (Some seed) pt a = (?a, Inr (msg_env C s (ra_previousCounter a) (ra_sendingCounter a) ck pt))"
    by (rule Encrypt_on_chain [OF assms(1) Cons.prems(3,1,2)])
  have "snd (send_all C seed pts ?a) = map (\<lambda>i. Inr (chain_wire C s (ra_previousCounter a) (ra_sendingCounter a) ck (pt # pts) (Suc i))) [0..<length pts]"
    using Cons.IH [of ?a "snd (kdfChain C ck)"] Cons.prems by (simp add: chain_wire_def chain_at_shift add.assoc)
  then show ?case using e
    by (simp add: chain_wire_def case_prod_beta upt_conv_Cons map_Suc_upt [symmetric] comp_def del: upt_Suc map_Suc_upt)
qed simp

text \<open>Whatever turn two linked ratchets are in, a run of messages one way can arrive in any order and any number of times.\<close>

lemma any_order_on_chain:
  assumes ok: "e2e_ok C" and h: "ra_sendingDH a = Some s" "ra_isInitiator a \<longrightarrow> ra_initSent a" "ra_sendingChain a = Some ck"
      "ra_recvChain b = Some ck" "ra_recvPub b = c_pub C s" "ra_receivingCounter b = ra_sendingCounter a" "ra_skipped b = []"
      "ra_maxSkip b = MaxSkippedMessageKeys" "unat (ra_sendingCounter a) + length pts < 2 ^ 32"
    and pts: "list_all (\<lambda>pt. length pt < 2 ^ 63) pts" "length pts \<le> Suc MaxSkippedMessageKeys" and js: "\<forall>i \<in> set js. i < length pts"
    and w: "w = chain_wire C s (ra_previousCounter a) (ra_sendingCounter a) ck pts"
  shows "snd (send_all C seed pts a) = map Inr (map w [0..<length pts])" "snd (receive_all C (map w js) b) = expected pts {} js"
proof -
  have "window C (c_pub C s) (ra_previousCounter a) ck (ra_sendingCounter a) 0 ({..<0} - {}) b"
    using h by (simp add: window_def)
  then show "snd (receive_all C (map w js) b) = expected pts {} js"
    using js pts h(9) unfolding w by (intro receive_window ok) fastforce+
  show "snd (send_all C seed pts a) = map Inr (map w [0..<length pts])" using send_on_chain [OF ok h(1-3)] by (simp add: w)
qed

text \<open>The same when the first message starts a new chain: whichever of its messages arrives first takes the ratchet step.\<close>

lemma any_order_new_chain:
  assumes ok: "e2e_ok C" and l: "linked C used a b" "ra_sendingChain a = None" and seed: "length seed = 32" "c_pub C seed \<notin> used"
    and pts: "list_all (\<lambda>pt. length pt < 2 ^ 63) pts" "length pts \<le> Suc MaxSkippedMessageKeys" and js: "\<forall>i \<in> set js. i < length pts"
  shows "\<exists>w. snd (send_all C seed pts a) = map Inr (map w [0..<length pts]) \<and> snd (receive_all C (map w js) b) = expected pts {} js"
proof -
  obtain k where k: "ra_haveRecvPub a" "ra_sendingDH b = Some k" "ra_recvPub a = c_pub C k"
    "ra_recvChain b \<noteq> None \<longrightarrow> ra_receivingCounter b = ra_retiredSendCount a"
    using l by (auto simp: linked_def can_send_def)
  have side: "side_ok used a" "side_ok used b" and root: "ra_rootKey a = ra_rootKey b" using l by (auto simp: linked_def)
  have "length k = 32" using side(2) k(2) by (simp add: side_ok_def ratchet_wf_def)
  then obtain out where out: "dh C seed (ra_recvPub a) = Inr out" "dh C k (c_pub C seed) = Inr out"
    using dh_sym [OF ok seed(1)] k(3) by metis
  obtain rt ck where rt: "kdfRoot C (ra_rootKey a) out = (rt, ck)" by force
  let ?a = "a\<lparr>ra_rootKey := rt, ra_sendingChain := Some ck, ra_sendingDH := Some seed, ra_sendingCounter := 0,
    ra_previousCounter := ra_retiredSendCount a\<rparr>"
  let ?b = "b\<lparr>ra_rootKey := rt, ra_recvChain := Some ck, ra_receivingCounter := 0, ra_recvPub := c_pub C seed,
    ra_haveRecvPub := True, ra_sendingChain := None,
    ra_retiredSendCount := (if ra_sendingChain b \<noteq> None then ra_sendingCounter b else ra_retiredSendCount b)\<rparr>"
  let ?w = "chain_wire C seed (ra_retiredSendCount a) 0 ck pts"
  have on: "snd (send_all C seed pts ?a) = map Inr (map ?w [0..<length pts])" "snd (receive_all C (map ?w js) ?b) = expected pts {} js"
    using any_order_on_chain [OF ok, of ?a seed ck ?b pts js ?w] side pts js
    by (simp_all add: side_ok_def ratchet_wf_def MaxSkippedMessageKeys_def)
  have "snd (send_all C seed pts a) = map Inr (map ?w [0..<length pts])"
    using on(1) Encrypt_ensure [OF l(2) k(1) out(1) rt] by (cases pts) simp_all
  moreover have "snd (receive_all C (map ?w js) b) = expected pts {} js"
  proof (cases js)
    case (Cons i js2)
    let ?m = "msg_env C seed (ra_retiredSendCount a) (of_nat i) (chain_at C ck i) (pts ! i)"
    have "length (pts ! i) < 2 ^ 63" using pts(1) js Cons by (simp add: list_all_length)
    then have p: "ParseEnvelope (?w i) = Inr ?m" using msg_env_simps(5) [OF ok] by (simp add: chain_wire_def)
    have "Decrypt C ?m b = Decrypt C ?m ?b"
    proof (rule Decrypt_step [OF ok _ k(2) out(2)])
      show "ra_recvChain b = None \<or> ra_recvPub b \<noteq> c_pub C seed \<and> ra_receivingCounter b = en_PrevCount ?m"
        using side(2) k(4) seed(2) msg_env_simps(2) [OF ok] by (auto simp: side_ok_def)
      show "kdfRoot C (ra_rootKey b) out = (rt, ck)" using rt root by simp
      show "en_RatchetPub ?m = c_pub C seed" by (rule msg_env_simps(1) [OF ok])
    qed
    then have "receive_all C (map ?w js) b = receive_all C (map ?w js) ?b" using p Cons by simp
    then show ?thesis using on(2) by simp
  qed simp
  ultimately show ?thesis by blast
qed

text \<open>Whatever turn two linked ratchets are in, a run of messages one way can arrive in any order and any number of times.\<close>

lemma any_order_linked:
  assumes ok: "e2e_ok C" and l: "linked C used a b" and seed: "length seed = 32" "c_pub C seed \<notin> used"
    and pts: "list_all (\<lambda>pt. length pt < 2 ^ 63) pts" "length pts \<le> Suc MaxSkippedMessageKeys"
      "unat (ra_sendingCounter a) + length pts < 2 ^ 32"
    and js: "\<forall>i \<in> set js. i < length pts"
  shows "\<exists>wire. snd (send_all C seed pts a) = map Inr wire \<and> length wire = length pts \<and>
    snd (receive_all C (map ((!) wire) js) b) = expected pts {} js"
proof -
  have "\<exists>w. snd (send_all C seed pts a) = map Inr (map w [0..<length pts]) \<and> snd (receive_all C (map w js) b) = expected pts {} js"
  proof (cases "ra_sendingChain a")
    case None
    then show ?thesis using any_order_new_chain [OF ok l _ seed pts(1,2) js] by blast
  next
    case (Some ck)
    then obtain s where "ra_sendingDH a = Some s" "ra_recvChain b = Some ck" "ra_recvPub b = c_pub C s"
      "ra_receivingCounter b = ra_sendingCounter a" using l by (auto simp: linked_def can_send_def)
    then show ?thesis using any_order_on_chain [OF ok _ _ Some, of s b pts js] l pts js
      by (auto simp: linked_def side_ok_def ratchet_wf_def)
  qed
  then obtain w where w: "snd (send_all C seed pts a) = map Inr (map w [0..<length pts])"
    "snd (receive_all C (map w js) b) = expected pts {} js" by blast
  have "map ((!) (map w [0..<length pts])) js = map w js" using js by simp
  then show ?thesis using w by (metis length_map length_upt diff_zero)
qed

subsection \<open>Hostile input\<close>

text \<open>Any envelope at all: the skipped keys stay a map within the bound, and the ratchet well-formed.\<close>

definition buffer_ok :: "Ratchet \<Rightarrow> bool" where
  "buffer_ok r \<longleftrightarrow> ratchet_wf r \<and> length (ra_skipped r) \<le> MaxSkippedMessageKeys"

lemma length_update_le: "length (AList.update k v m) \<le> Suc (length m)"
  by (induction m) auto

lemma fst_set_update: "fst ` set (AList.update k v m) = insert k (fst ` set m)"
  using dom_update [of k v m] by (simp add: dom_map_of_conv_image_fst)

lemma buffer_ok_skip1:
  assumes "e2e_ok C" "buffer_ok r" "length pub = 32" "length (ra_skipped r) < ra_maxSkip r" "mk_nx = kdfChain C chain"
  shows "buffer_ok (r\<lparr>ra_skipped := AList.update (pub, pn, i) (fst mk_nx) (ra_skipped r), ra_recvChain := Some (snd mk_nx),
    ra_receivingCounter := j\<rparr>)"
proof -
  have "\<forall>x \<in> fst ` set (AList.update (pub, pn, i) v (ra_skipped r)). length (fst x) = 32" for v
    using assms(2,3) by (auto simp: fst_set_update buffer_ok_def ratchet_wf_def)
  then have "\<forall>x \<in> set (AList.update (pub, pn, i) v (ra_skipped r)). length (fst (fst x)) = 32" for v by blast
  then show ?thesis
    using assms length_update_le [of "(pub, pn, i)" "fst mk_nx" "ra_skipped r"] hmac_nonempty [OF assms(1)]
    by (auto simp: buffer_ok_def ratchet_wf_def kdfChain_def distinct_update)
qed

lemma skip_keys_buffer:
  assumes "e2e_ok C" "buffer_ok r" "length pub = 32"
  shows "buffer_ok (fst (skip_keys C pub pn n r)) \<and> ra_sendingDH (fst (skip_keys C pub pn n r)) = ra_sendingDH r"
  using assms
proof (induction C pub pn n r rule: skip_keys.induct)
  case (1 C pub pn n r)
  let ?k = "kdfChain C (case ra_recvChain r of Some c \<Rightarrow> c | None \<Rightarrow> [])"
  let ?r = "r\<lparr>ra_skipped := AList.update (pub, pn, ra_receivingCounter r) (fst ?k) (ra_skipped r), ra_recvChain := Some (snd ?k),
      ra_receivingCounter := ra_receivingCounter r + 1\<rparr>"
  show ?case
  proof (cases "ra_receivingCounter r < n \<and> \<not> length (ra_skipped r) \<ge> ra_maxSkip r")
    case True
    then have "skip_keys C pub pn n r = skip_keys C pub pn n ?r"
      by (simp add: skip_keys.simps [of C pub pn n r] case_prod_beta Let_def)
    moreover have "buffer_ok ?r" using True by (intro buffer_ok_skip1 [OF "1.prems"]) simp_all
    ultimately show ?thesis using "1.IH" [of ?k "fst ?k" "snd ?k"] True "1.prems" by simp
  next
    case False
    then show ?thesis using "1.prems" by (auto simp: skip_keys.simps [of C pub pn n r])
  qed
qed

lemma recvRatchetStep_buffer:
  assumes "e2e_ok C" "buffer_ok r" "length pub = 32"
  shows "buffer_ok (fst (recvRatchetStep C pub pn r))"
  unfolding recvRatchetStep_def
proof (rule then_st_inv [where P = buffer_ok])
  show "buffer_ok (fst (if ra_recvChain r \<noteq> None then skip_keys C (ra_recvPub r) (ra_previousCounter r) pn r else (r, Inr ())))"
    using assms skip_keys_buffer [OF assms(1,2), of "ra_recvPub r"] by (simp add: buffer_ok_def ratchet_wf_def)
qed (use assms(3) hmac_nonempty [OF assms(1)] in
    \<open>auto simp: buffer_ok_def ratchet_wf_def kdfRoot_def Let_def split: sum.splits option.splits\<close>)

lemma openMessage_buffer:
  assumes "e2e_ok C" "buffer_ok r" "length pub = 32"
  shows "buffer_ok (fst (openMessage C env pub r))"
proof -
  have del: "buffer_ok (r\<lparr>ra_skipped := AList.delete idx (ra_skipped r)\<rparr>)" for idx
    using assms(2) length_delete_le [of idx "ra_skipped r"] set_delete_subset [of idx "ra_skipped r"]
    by (auto simp: buffer_ok_def ratchet_wf_def distinct_delete)
  have "buffer_ok (fst (then_st (skip_keys C pub (en_PrevCount env) (en_Counter env) r) (\<lambda>_ r.
      let (mk, next) = kdfChain C (case ra_recvChain r of Some c \<Rightarrow> c | None \<Rightarrow> [])
      in (r\<lparr>ra_recvChain := Some next, ra_receivingCounter := ra_receivingCounter r + 1\<rparr>, openWithKey C mk env))))"
    using skip_keys_buffer [OF assms] hmac_nonempty [OF assms(1)]
    by (intro then_st_inv [where P = buffer_ok]) (auto simp: buffer_ok_def ratchet_wf_def kdfChain_def)
  then show ?thesis using del assms(2) by (auto simp: openMessage_def Let_def split: option.splits)
qed

lemma Decrypt_buffer:
  assumes "e2e_ok C" "buffer_ok r"
  shows "buffer_ok (fst (Decrypt C env r))"
  unfolding Decrypt_def Let_def
  using assms recvRatchetStep_buffer openMessage_buffer by (intro then_st_inv [where P = buffer_ok]) (auto simp: copy32_def)

lemma Encrypt_buffer:
  assumes "e2e_ok C" "buffer_ok r" "\<forall>s. rnd = Some s \<longrightarrow> length s = 32"
  shows "buffer_ok (fst (Encrypt C rnd pt r))"
  unfolding Encrypt_def
proof (intro then_st_inv [where P = buffer_ok])
  show "buffer_ok (fst (ensureSendingChain C rnd r))"
    using assms hmac_nonempty [OF assms(1)]
    by (auto simp: ensureSendingChain_def buffer_ok_def ratchet_wf_def kdfRoot_def Let_def split: option.splits sum.splits)
  show "buffer_ok r \<Longrightarrow> buffer_ok (fst (start_envelope C r))" for r
    by (auto simp: start_envelope_def buffer_ok_def ratchet_wf_def Let_def split: sum.splits)
qed (use hmac_nonempty [OF assms(1)] in \<open>auto simp: buffer_ok_def ratchet_wf_def kdfChain_def Let_def split: sum.splits\<close>)

text \<open>An envelope with a new key moves the ratchet before its body is checked.\<close>

lemma Decrypt_unauthenticated:
  assumes "copy32 (en_RatchetPub env) \<noteq> ra_recvPub r" "en_PrevCount env = 0" "en_Counter env = 0"
    and "ra_sendingDH r = Some k" "dh C k (copy32 (en_RatchetPub env)) = Inr out"
  shows "ra_recvPub (fst (Decrypt C env r)) = copy32 (en_RatchetPub env) \<and> ra_sendingChain (fst (Decrypt C env r)) = None"
proof -
  have skip: "skip_keys C pub pn 0 r = (r, Inr ())" for pub pn r by (simp add: skip_keys.simps)
  then have "\<exists>r1. recvRatchetStep C (copy32 (en_RatchetPub env)) 0 r = (r1, Inr ()) \<and>
      ra_recvPub r1 = copy32 (en_RatchetPub env) \<and> ra_sendingChain r1 = None"
    using assms(4,5) by (cases "ra_sendingChain r") (auto simp: recvRatchetStep_def Let_def case_prod_beta)
  then show ?thesis using assms(1-3) skip
    by (auto simp: Decrypt_def openMessage_def Let_def case_prod_beta split: option.splits)
qed

subsection \<open>Properties\<close>

text \<open>A stand-in for the primitives that keeps their promises, for the examples.\<close>

definition toy_e2e :: E2eCrypto where
  "toy_e2e = \<lparr>c_sha256 = (\<lambda>m. take 32 (m @ replicate 32 0)), c_hmac = (\<lambda>k m. take 32 (m @ k @ replicate 32 0)),
     c_seal = (\<lambda>k n p a. p @ [7]), c_open = (\<lambda>k n x a. if x = [] then None else Some (butlast x)),
     c_pub = (\<lambda>s. take 32 (s @ replicate 32 0)), c_dh = (\<lambda>a b. Some [sum_list a + sum_list b]),
     e_sign = (\<lambda>s m. replicate 64 (sum_list s)), e_signpub = (\<lambda>s. replicate 32 (sum_list s)),
     e_verify = (\<lambda>k m sig. take 1 k = take 1 sig), e_cbc_enc = (\<lambda>k x. x), e_cbc_dec = (\<lambda>k x. x)\<rparr>"

lemma toy_e2e_ok: "e2e_ok toy_e2e"
  by (auto simp: e2e_ok_def toy_e2e_def hmac_ok_def HashSize_def add.commute)

lemma NewBobKeys_Inr:
  assumes "NewBobKeys C (Some d) (Some g) (Some reg) (Some spk) (Some sid) (Some opk) (Some oid) = Inr (keys, bundle)"
  shows "keys = \<lparr>bk_Identity = \<lparr>id_DH = d, id_signSeed = g, id_RegID = be_u32 reg\<rparr>, bk_SignedPreKey = spk, bk_SignedPreID = be_u32 sid,
      bk_OneTimeKey = Some opk, bk_OneTimeKeyID = be_u32 oid\<rparr>"
    "bundle = BuildBundle C \<lparr>id_DH = d, id_signSeed = g, id_RegID = be_u32 reg\<rparr> spk (be_u32 sid) [(be_u32 oid, c_pub C opk)]"
  using assms by (auto simp: NewBobKeys_def NewIdentity_def)

lemma established:
  assumes "e2e_ok C" "NewBobKeys C (Some d) (Some g) (Some reg) (Some spk) (Some sid) (Some opk) (Some oid) = Inr (keys, bundle)"
    and "length d = 32" "length spk = 32" "length opk = 32" "length (id_DH alice) = 32" "length eph = 32" "length pt < 2 ^ 63"
    and "first_flight C keys bundle alice eph info pt = Inr ((a, b), pt)"
  shows "linked C {c_pub C eph} a b"
  using first_flight_linked [OF assms(1,6) _ assms(7,4,5,8) NewBobKeys_Inr [OF assms(2)], of info] assms(3,9) by auto

definition toy_alice :: Identity where
  "toy_alice = \<lparr>id_DH = replicate 32 7, id_signSeed = replicate 32 8, id_RegID = 11\<rparr>"

definition toy_keys :: BobKeys where
  "toy_keys = \<lparr>bk_Identity = \<lparr>id_DH = replicate 32 1, id_signSeed = replicate 32 2, id_RegID = be_u32 [0, 0, 0, 9]\<rparr>,
     bk_SignedPreKey = replicate 32 3, bk_SignedPreID = be_u32 [0, 0, 0, 5], bk_OneTimeKey = Some (replicate 32 4),
     bk_OneTimeKeyID = be_u32 [0, 0, 0, 6]\<rparr>"

definition toy_bundle :: PreKeyBundle where
  "toy_bundle = BuildBundle toy_e2e (bk_Identity toy_keys) (replicate 32 3) (be_u32 [0, 0, 0, 5])
     [(be_u32 [0, 0, 0, 6], c_pub toy_e2e (replicate 32 4))]"

lemma toy_bob: "NewBobKeys toy_e2e (Some (replicate 32 1)) (Some (replicate 32 2)) (Some [0, 0, 0, 9]) (Some (replicate 32 3))
    (Some [0, 0, 0, 5]) (Some (replicate 32 4)) (Some [0, 0, 0, 6]) = Inr (toy_keys, toy_bundle)"
  by (simp add: NewBobKeys_def NewIdentity_def toy_keys_def toy_bundle_def)

lemma toy_pubs: "length s = 32 \<Longrightarrow> c_pub toy_e2e s = s"
  by (simp add: toy_e2e_def)

lemma toy_flight:
  "\<exists>a b. first_flight toy_e2e toy_keys toy_bundle toy_alice (replicate 32 9) [] [104, 105] = Inr ((a, b), [104, 105]) \<and>
    ra_sendingCounter b = 0"
  using first_flight_linked [OF toy_e2e_ok _ _ _ _ _ _ NewBobKeys_Inr [OF toy_bob], of toy_alice "replicate 32 9" "[104, 105]" "[]"]
  by (fastforce simp: toy_alice_def)

text \<open>
  A session is established by its first message. When the responder's keys and
  bundle come from \<open>NewBobKeys\<close> and every secret is 32 bytes, \<open>AliceSession\<close> accepts the
  bundle, its first envelope survives the wire, \<open>BobSession\<close> accepts it and returns
  exactly the text that was sent; the two ratchets then hold the same root key, and
  each names the other's identity keys and registration id as its peer.
\<close>

theorem e2e_session_established:
  assumes "e2e_ok C" "NewBobKeys C (Some d) (Some g) (Some reg) (Some spk) (Some sid) (Some opk) (Some oid) = Inr (keys, bundle)"
    and "length d = 32" "length spk = 32" "length opk = 32" "length (id_DH alice) = 32" "length eph = 32" "length pt < 2 ^ 63"
  shows "\<exists>a b. first_flight C keys bundle alice eph info pt = Inr ((a, b), pt) \<and> ra_rootKey a = ra_rootKey b \<and>
    PeerIdentity a = (c_pub C d, e_signpub C g, be_u32 reg) \<and>
    PeerIdentity b = (c_pub C (id_DH alice), e_signpub C (id_signSeed alice), id_RegID alice)"
  using first_flight_linked [OF assms(1,6) _ assms(7,4,5,8) NewBobKeys_Inr [OF assms(2)], of info] assms(3)
  by (fastforce simp: linked_def SignPub_def)

lemma e2e_session_established_witness:
  "\<exists>a b. first_flight toy_e2e toy_keys toy_bundle toy_alice (replicate 32 9) [] [104, 105] = Inr ((a, b), [104, 105]) \<and>
    ra_rootKey a = ra_rootKey b \<and> PeerIdentity b = (replicate 32 7, e_signpub toy_e2e (replicate 32 8), 11)"
  using e2e_session_established [OF toy_e2e_ok toy_bob, of toy_alice "replicate 32 9" "[104, 105]" "[]"]
  by (auto simp: toy_alice_def toy_pubs)

text \<open>
  C3 (functional). Conversations never fall out of step. After that first flight, let the two sides
  speak in any order, each as often as it likes, and be stored and restored at any
  point: every message, sent over the wire format, is opened to exactly the text that
  was spoken, provided the key pairs the ratchets draw are fresh and of 32 bytes.
\<close>

theorem e2e_conversation:
  assumes "e2e_ok C" "NewBobKeys C (Some d) (Some g) (Some reg) (Some spk) (Some sid) (Some opk) (Some oid) = Inr (keys, bundle)"
    and "length d = 32" "length spk = 32" "length opk = 32" "length (id_DH alice) = 32" "length eph = 32" "length pt < 2 ^ 63"
    and "first_flight C keys bundle alice eph info pt = Inr ((a, b), pt)"
    and "list_all (\<lambda>s. length s = 32) (seeds ts)" "list_all (\<lambda>pt. length pt < 2 ^ 63) (spoken ts)"
    and "distinct (map (c_pub C) (eph # seeds ts))"
  shows "\<exists>a' b'. converse C ts a b = (a', b', map Inr (spoken ts)) \<and> ra_rootKey a' = ra_rootKey b'"
proof -
  have "linked C {c_pub C eph} a b" by (rule established [OF assms(1-9)])
  then show ?thesis using converse_linked [OF assms(1), of "{c_pub C eph}" a b ts] assms(10-12)
    by (fastforce simp: linked_def)
qed

lemma e2e_conversation_witness:
  "\<exists>a b a' b'. first_flight toy_e2e toy_keys toy_bundle toy_alice (replicate 32 9) [] [104, 105] = Inr ((a, b), [104, 105]) \<and>
    converse toy_e2e [Answer (replicate 32 10) [1], RestartA, Answer (replicate 32 11) [2], Ask (replicate 32 12) []] a b
      = (a', b', [Inr [1], Inr [2], Inr []])"
proof -
  obtain a b where f: "first_flight toy_e2e toy_keys toy_bundle toy_alice (replicate 32 9) [] [104, 105] = Inr ((a, b), [104, 105])"
    using toy_flight by blast
  have "\<exists>a' b'. converse toy_e2e [Answer (replicate 32 10) [1], RestartA, Answer (replicate 32 11) [2], Ask (replicate 32 12) []] a b
      = (a', b', map Inr (spoken [Answer (replicate 32 10) [1], RestartA, Answer (replicate 32 11) [2], Ask (replicate 32 12) []])) \<and>
      ra_rootKey a' = ra_rootKey b'"
    by (rule e2e_conversation [OF toy_e2e_ok toy_bob _ _ _ _ _ _ f]) (simp_all add: toy_alice_def toy_pubs)
  then show ?thesis using f by auto
qed

text \<open>
  C8 (safety). Order and repetition on the wire do not matter. At any point of a conversation,
  let either side send up to 1001 messages in a row, and let the network deliver them
  in any order, drop some and repeat some: each message gives its text the first time
  it arrives and the error of an old message every later time.
\<close>

theorem e2e_any_order:
  assumes "e2e_ok C" "NewBobKeys C (Some d) (Some g) (Some reg) (Some spk) (Some sid) (Some opk) (Some oid) = Inr (keys, bundle)"
    and "length d = 32" "length spk = 32" "length opk = 32" "length (id_DH alice) = 32" "length eph = 32" "length pt < 2 ^ 63"
    and "first_flight C keys bundle alice eph info pt = Inr ((a, b), pt)"
    and "list_all (\<lambda>s. length s = 32) (seed # seeds ts)" "list_all (\<lambda>pt. length pt < 2 ^ 63) (spoken ts)"
    and "distinct (map (c_pub C) (seed # eph # seeds ts))" "converse C ts a b = (a', b', res)" "(x, y) \<in> {(a', b'), (b', a')}"
    and "list_all (\<lambda>pt. length pt < 2 ^ 63) pts" "length pts \<le> Suc MaxSkippedMessageKeys"
      "unat (ra_sendingCounter x) + length pts < 2 ^ 32" "\<forall>i \<in> set js. i < length pts"
  shows "\<exists>wire. snd (send_all C seed pts x) = map Inr wire \<and> length wire = length pts \<and>
    snd (receive_all C (map ((!) wire) js) y) = expected pts {} js"
proof -
  let ?used = "{c_pub C eph} \<union> set (map (c_pub C) (seeds ts))"
  have "linked C {c_pub C eph} a b" by (rule established [OF assms(1-9)])
  then have "linked C ?used a' b'"
    using converse_linked [OF assms(1), of "{c_pub C eph}" a b ts] assms(10-13) by auto
  then have "linked C ?used x y" using assms(14) linked_sym [of C ?used] by auto
  then show ?thesis using any_order_linked [OF assms(1) _ _ _ assms(15-18), of ?used y seed] assms(10,12) by auto
qed

lemma e2e_any_order_witness:
  "\<exists>a b wire. first_flight toy_e2e toy_keys toy_bundle toy_alice (replicate 32 9) [] [104, 105] = Inr ((a, b), [104, 105]) \<and>
    snd (send_all toy_e2e (replicate 32 12) [[1], [2], [3]] b) = map Inr wire \<and> length wire = 3 \<and>
    snd (receive_all toy_e2e [wire ! 2, wire ! 0, wire ! 2] a) = [Inr [3], Inr [1], Inl TooOld]"
proof -
  obtain a b where f: "first_flight toy_e2e toy_keys toy_bundle toy_alice (replicate 32 9) [] [104, 105] = Inr ((a, b), [104, 105])"
    and sc: "ra_sendingCounter b = 0"
    using toy_flight by blast
  have "\<exists>wire. snd (send_all toy_e2e (replicate 32 12) [[1], [2], [3]] b) = map Inr wire \<and> length wire = length [[1], [2], [3 :: byte]] \<and>
    snd (receive_all toy_e2e (map ((!) wire) [2, 0, 2]) a) = expected [[1], [2], [3]] {} [2, 0, 2]"
    by (rule e2e_any_order [OF toy_e2e_ok toy_bob _ _ _ _ _ _ f, where ts = "[]" and a' = a and b' = b and res = "[]"])
      (simp_all add: toy_alice_def toy_pubs sc MaxSkippedMessageKeys_def)
  then show ?thesis using f by auto
qed

text \<open>Any sequence of incoming envelopes and outgoing texts.\<close>

fun operate :: "E2eCrypto \<Rightarrow> (Envelope + bytes \<times> bytes) list \<Rightarrow> Ratchet \<Rightarrow> Ratchet" where
  "operate C [] r = r"
| "operate C (Inl env # ops) r = operate C ops (fst (Decrypt C env r))"
| "operate C (Inr (seed, pt) # ops) r = operate C ops (fst (Encrypt C (Some seed) pt r))"

lemma operate_buffer:
  assumes "e2e_ok C" "buffer_ok r" "\<forall>seed pt. Inr (seed, pt) \<in> set ops \<longrightarrow> length seed = 32"
  shows "buffer_ok (operate C ops r)"
  using assms
proof (induction C ops r rule: operate.induct)
  case (2 C env ops r)
  then show ?case using Decrypt_buffer [OF 2(2,3)] by simp
next
  case (3 C seed pt ops r)
  then show ?case using Encrypt_buffer [OF 3(2,3), of "Some seed" pt] by auto
qed simp

text \<open>
  C40 (invariant). A peer cannot exhaust the ratchet. Whatever envelopes arrive, forged ones
  included, and whatever is sent in between, the ratchet stays well-formed and keeps at
  most 1000 skipped keys; so its stored state always restores to it.
\<close>

theorem e2e_buffer_bounded:
  assumes "e2e_ok C" "NewBobKeys C (Some d) (Some g) (Some reg) (Some spk) (Some sid) (Some opk) (Some oid) = Inr (keys, bundle)"
    and "length d = 32" "length spk = 32" "length opk = 32" "length (id_DH alice) = 32" "length eph = 32" "length pt < 2 ^ 63"
    and "first_flight C keys bundle alice eph info pt = Inr ((a, b), pt)" "r \<in> {a, b}"
    and "\<forall>seed pt. Inr (seed, pt) \<in> set ops \<longrightarrow> length seed = 32"
  shows "length (ra_skipped (operate C ops r)) \<le> MaxSkippedMessageKeys \<and>
    RestoreRatchet (MarshalState (operate C ops r)) = Inr ((operate C ops r)\<lparr>ra_signer := None\<rparr>)"
proof -
  have "linked C {c_pub C eph} a b" by (rule established [OF assms(1-9)])
  then have "buffer_ok r" using assms(10) by (auto simp: linked_def side_ok_def buffer_ok_def)
  then have "buffer_ok (operate C ops r)" by (rule operate_buffer [OF assms(1) _ assms(11)])
  then show ?thesis by (simp add: buffer_ok_def Restore_Marshal)
qed

lemma e2e_buffer_bounded_witness:
  "\<exists>a b. first_flight toy_e2e toy_keys toy_bundle toy_alice (replicate 32 9) [] [104, 105] = Inr ((a, b), [104, 105]) \<and>
    length (ra_skipped (operate toy_e2e [Inl (no_envelope\<lparr>en_Counter := 5000\<rparr>), Inr (replicate 32 3, [1])] b)) \<le> MaxSkippedMessageKeys"
proof -
  obtain a b where f: "first_flight toy_e2e toy_keys toy_bundle toy_alice (replicate 32 9) [] [104, 105] = Inr ((a, b), [104, 105])"
    using toy_flight by blast
  have "length (ra_skipped (operate toy_e2e [Inl (no_envelope\<lparr>en_Counter := 5000\<rparr>), Inr (replicate 32 3, [1])] b)) \<le> MaxSkippedMessageKeys"
    by (rule e2e_buffer_bounded [OF toy_e2e_ok toy_bob _ _ _ _ _ _ f, THEN conjunct1]) (simp_all add: toy_alice_def)
  then show ?thesis using f by blast
qed

end
