(* ===== verification/Session.thy ===== *)
theory Session
  imports Codec Wacert Noise StateMachine Storage EventTypes
begin

text \<open>
  The connection engine of one device, \<^verbatim>\<open>session/session.go\<close>,
  \<^verbatim>\<open>session/helpers.go\<close> and \<^verbatim>\<open>session/authpolicy.go\<close>. The mutable fields of
  \<open>Session\<close>, its store, what it handed to the transport and to the event bus are one
  record; \<open>s_now\<close> is the clock. A channel that is only ever closed is a boolean, the
  one-place channel of a request an option, the frame queue a list. JSON, the
  inflater, the texts of errors and the primitives are fields of the options; the transport is the error of
  its \<open>n\<close>-th send and the answer to the frames sent so far. Contexts and timers are the
  environment: a wait ends with any of the cases that are ready.
\<close>

subsection \<open>Options, credentials, state\<close>

datatype auth_error = PinRejected | CertRejected cert_error

datatype session_error = ErrStopped | ErrNotOnline | ErrTimeout | ErrNoDialer | EmptyID | ServerRejected string
  | SessionStore kv_error | CorruptCredentials string | SessionRand | SessionNoise noise_error | HelloRejected noise_error
  | NoAuthPolicy | ServerAuthFailed auth_error | DuplicateRequest string | TransportFailed | DialFailed | FrameDecrypt noise_error
  | InboundSilence | CtxDone | Canceled | ConnectIQ session_error | MoveRefused ErrTransition | TaskExited

record Credentials =
  cr_NoiseKeySeed :: bytes
  cr_IdentitySeed :: bytes
  cr_IdentitySigSeed :: bytes
  cr_RegistrationID :: u32
  cr_DeviceID :: string
  cr_AccountJID :: string
  cr_ServerStatic :: bytes

text \<open>A policy gets the server's static key and certificate, and the variable a pinning policy points to.\<close>

type_synonym ServerAuth = "bytes \<Rightarrow> bytes \<Rightarrow> bytes option \<Rightarrow> bytes option \<times> (auth_error + unit)"

record finish_info =
  fi_device_id :: string
  fi_name :: string
  fi_platform :: string
  fi_reg_id :: u32
  fi_noise_pub :: string

record 's Options =
  o_ID :: string
  o_Dict :: Dictionary
  o_Store :: "'s KV"
  o_Platform :: string
  o_DeviceName :: string
  o_StaleAfter :: int
  o_ServerAuth :: "ServerAuth option"
  o_crypto :: Crypto
  o_inflate :: "bytes \<Rightarrow> bytes option"
  o_marshal :: "Credentials \<Rightarrow> bytes"
  o_unmarshal :: "bytes \<Rightarrow> string + Credentials"
  o_finish_json :: "finish_info \<Rightarrow> bytes"
  o_errtext :: "session_error \<Rightarrow> string"

record transport =
  tr_header :: bytes
  tr_send :: "nat \<Rightarrow> session_error option"
  tr_recv :: "bytes list \<Rightarrow> session_error + bytes"

datatype ev_data = DState State | DNode node | DError session_error | DDevice string

type_synonym ses_event = "string \<times> ev_data"

text \<open>Where the connection task is.\<close>

datatype task = TNone | TDial | THandshake | TRequest string | TOnline | TDone "session_error option"

record 's Session =
  s_store :: 's
  s_mach :: Machine
  s_creds :: "Credentials option"
  s_conn :: bool
  s_connClosed :: bool
  s_sent :: "bytes list"
  s_broken :: "session_error option"
  s_online :: bool
  s_send :: "Cipher option"
  s_recv :: "Cipher option"
  s_requests :: "(string \<times> node option) list"
  s_frames :: "bytes list"
  s_serving :: bool
  s_consuming :: bool
  s_pinging :: bool
  s_lastIn :: int
  s_stopRequested :: bool
  s_stopping :: bool
  s_stopped :: bool
  s_pin :: "bytes option"
  s_task :: task
  s_now :: int
  s_events :: "ses_event list"

text \<open>\<open>New\<close>, after its defaults for nil options: the memory store, the default dictionary and the periods.\<close>

definition New :: "'s Options \<Rightarrow> bool \<Rightarrow> 's \<Rightarrow> int \<Rightarrow> session_error + 's Session" where
  "New opts dialer st now =
     (if o_ID opts = '''' then Inl EmptyID
      else if \<not> dialer then Inl ErrNoDialer
      else Inr \<lparr>s_store = st, s_mach = NewMachine, s_creds = None, s_conn = False, s_connClosed = False, s_sent = [],
             s_broken = None, s_online = False, s_send = None, s_recv = None, s_requests = [], s_frames = [], s_serving = False, s_consuming = False,
             s_pinging = False, s_lastIn = now,
             s_stopRequested = False, s_stopping = False, s_stopped = False, s_pin = None, s_task = TNone, s_now = now,
             s_events = []\<rparr>)"

definition emit :: "string \<Rightarrow> ev_data \<Rightarrow> 's Session \<Rightarrow> 's Session" where
  "emit typ d s = s\<lparr>s_events := s_events s @ [(typ, d)]\<rparr>"


text \<open>\<open>s.mach.Move\<close> at the current time.\<close>

definition ses_move :: "State \<Rightarrow> string \<Rightarrow> 's Session \<Rightarrow> 's Session \<times> ErrTransition option" where
  "ses_move dest reason s = (case Move (s_now s) dest reason (s_mach s) of (m, e) \<Rightarrow> (s\<lparr>s_mach := m\<rparr>, e))"

definition emit_state :: "'s Session \<Rightarrow> 's Session" where
  "emit_state s = emit ConnectionState (DState (m_state (s_mach s))) s"

subsection \<open>Base32 and ids\<close>

definition byte_bits :: "byte \<Rightarrow> bool list" where
  "byte_bits b = map (bit b) [7, 6, 5, 4, 3, 2, 1, 0]"

definition b32_alphabet :: string where
  "b32_alphabet = ''ABCDEFGHIJKLMNOPQRSTUVWXYZ234567''"

text \<open>\<open>base32.StdEncoding\<close> without padding: five bits a character, the last group filled with zeros.\<close>

function b32_groups :: "bool list \<Rightarrow> string" where
  "b32_groups bs =
     (if bs = [] then []
      else b32_alphabet ! foldl (\<lambda>n b. 2 * n + (if b then 1 else 0)) 0 (take 5 (bs @ replicate 4 False)) # b32_groups (drop 5 bs))"
  by pat_completeness auto
termination
  by (relation "measure length") (auto simp: length_greater_0_conv [symmetric] simp del: length_greater_0_conv)

declare b32_groups.simps [simp del]

definition base32_encode :: "bytes \<Rightarrow> string" where
  "base32_encode bs = b32_groups (concat (map byte_bits bs))"

definition sha1Short :: "Crypto \<Rightarrow> bytes \<Rightarrow> string" where
  "sha1Short C data = base32_encode (take 10 (c_sha256 C data))"

definition DeviceID :: "'s Options \<Rightarrow> string" where
  "DeviceID opts = sha1Short (o_crypto opts) (bytes_of_string (o_ID opts))"

text \<open>Random bytes, or the nanoseconds of the clock when there are none.\<close>

definition NewRequestID :: "bytes option \<Rightarrow> int \<Rightarrow> string" where
  "NewRequestID rand nanos = (case rand of Some b \<Rightarrow> base32_encode b | None \<Rightarrow> int_to_dec nanos)"

subsection \<open>Credentials\<close>

definition no_credentials :: Credentials where
  "no_credentials = \<lparr>cr_NoiseKeySeed = [], cr_IdentitySeed = [], cr_IdentitySigSeed = [], cr_RegistrationID = 0, cr_DeviceID = [],
     cr_AccountJID = [], cr_ServerStatic = []\<rparr>"

definition credsSnapshot :: "'s Session \<Rightarrow> Credentials" where
  "credsSnapshot s = (case s_creds s of None \<Rightarrow> no_credentials | Some c \<Rightarrow> c)"

definition setCredentials :: "Credentials \<Rightarrow> 's Session \<Rightarrow> 's Session" where
  "setCredentials c s = s\<lparr>s_creds := Some c\<rparr>"

text \<open>The four random inputs in the order they are drawn.\<close>

definition generateCredentials :: "bytes option \<Rightarrow> bytes option \<Rightarrow> bytes option \<Rightarrow> bytes option \<Rightarrow> session_error + Credentials" where
  "generateCredentials noise ident sig reg =
     (case noise of None \<Rightarrow> Inl SessionRand | Some k \<Rightarrow>
      case ident of None \<Rightarrow> Inl SessionRand | Some i \<Rightarrow>
      case sig of None \<Rightarrow> Inl SessionRand | Some g \<Rightarrow>
      case reg of None \<Rightarrow> Inl SessionRand | Some r \<Rightarrow>
        Inr (no_credentials\<lparr>cr_NoiseKeySeed := k, cr_IdentitySeed := i, cr_IdentitySigSeed := g, cr_RegistrationID := be_u32 r\<rparr>))"

definition credsKey :: "'s Options \<Rightarrow> string" where
  "credsKey opts = ''session/'' @ o_ID opts @ ''/credentials''"

definition saveCredentials :: "'s Options \<Rightarrow> 's Session \<Rightarrow> 's Session \<times> (session_error + unit)" where
  "saveCredentials opts s =
     (case kv_Set (o_Store opts) (credsKey opts) (o_marshal opts (credsSnapshot s)) (s_store s) of
        Inl e \<Rightarrow> (s, Inl (SessionStore e))
      | Inr st \<Rightarrow> (s\<lparr>s_store := st\<rparr>, Inr ()))"

definition loadCredentials :: "'s Options \<Rightarrow> session_error + Credentials \<Rightarrow> 's Session \<Rightarrow> 's Session \<times> (session_error + unit)" where
  "loadCredentials opts gen s =
     (case kv_Get (o_Store opts) (credsKey opts) (s_store s) of
        Inl ErrNotFound \<Rightarrow>
          (case gen of Inl e \<Rightarrow> (s, Inl e) | Inr c \<Rightarrow> saveCredentials opts (setCredentials c s))
      | Inl e \<Rightarrow> (s, Inl (SessionStore e))
      | Inr raw \<Rightarrow>
          (case o_unmarshal opts raw of
             Inl e \<Rightarrow> (s, Inl (CorruptCredentials e))
           | Inr c \<Rightarrow> (setCredentials c s, Inr ())))"

subsection \<open>Server authentication\<close>

definition TrustedRootAuth :: "ed25519 \<Rightarrow> bytes \<Rightarrow> Time \<Rightarrow> ServerAuth" where
  "TrustedRootAuth ed root now staticPub certBlob pin = (pin, wrap_err CertRejected (Verify ed certBlob staticPub root now))"

definition PinFirstContact :: ServerAuth where
  "PinFirstContact staticPub certBlob pin =
     (case pin of
        None \<Rightarrow> (Some staticPub, Inr ())
      | Some p \<Rightarrow>
          if length staticPub \<noteq> length p then (pin, Inl PinRejected)
          else if \<exists>i < length staticPub. staticPub ! i \<noteq> p ! i then (pin, Inl PinRejected)
          else (pin, Inr ()))"

subsection \<open>Handshake\<close>

definition SendBinary :: "transport \<Rightarrow> bytes \<Rightarrow> 's Session \<Rightarrow> 's Session \<times> (session_error + unit)" where
  "SendBinary T frame s =
     (case tr_send T (length (s_sent s)) of
        Some e \<Rightarrow> (s, Inl e)
      | None \<Rightarrow> (s\<lparr>s_sent := s_sent s @ [frame]\<rparr>, Inr ()))"

definition finishPayload :: "'s Options \<Rightarrow> 's Session \<Rightarrow> bytes" where
  "finishPayload opts s =
     (let creds = credsSnapshot s
      in o_finish_json opts \<lparr>fi_device_id = DeviceID opts, fi_name = o_DeviceName opts, fi_platform = o_Platform opts,
           fi_reg_id = cr_RegistrationID creds, fi_noise_pub = base32_encode (take 32 (cr_NoiseKeySeed creds))\<rparr>)"

definition noise_call :: "('x \<times> (noise_error + 'a)) \<Rightarrow> (noise_error \<Rightarrow> session_error) \<Rightarrow> session_error + 'x \<times> 'a" where
  "noise_call r f = (case r of (x, Inl e) \<Rightarrow> Inl (f e) | (x, Inr a) \<Rightarrow> Inr (x, a))"

definition server_hello :: "bytes \<Rightarrow> session_error + ServerHello" where
  "server_hello resp =
     (case UnwrapTop resp HSFieldServerHello of
        Inl _ \<Rightarrow> Inl (ServerRejected ''missing server hello'')
      | Inr shMsg \<Rightarrow>
          if shMsg = [] then Inl (ServerRejected ''missing server hello'')
          else
            let sh = ParseServerHello shMsg
            in if length (sh_Ephemeral sh) \<noteq> 32 \<or> length (sh_Static sh) = 0 then Inl (ServerRejected ''malformed server hello'')
               else Inr sh)"

text \<open>The policy decides on the key and the certificate the server hello carried; none configured means reject.\<close>

definition authenticate_server :: "'s Options \<Rightarrow> XX \<Rightarrow> bytes \<Rightarrow> 's Session \<Rightarrow> 's Session \<times> (session_error + unit)" where
  "authenticate_server opts xx certPlain s =
     (case o_ServerAuth opts of
        None \<Rightarrow> (s, Inl NoAuthPolicy)
      | Some auth \<Rightarrow>
          (case auth (xx_remoteStatic xx) certPlain (s_pin s) of
             (pin, Inl e) \<Rightarrow> (s\<lparr>s_pin := pin\<rparr>, Inl (ServerAuthFailed e))
           | (pin, Inr _) \<Rightarrow> (s\<lparr>s_pin := pin\<rparr>, Inr ())))"

text \<open>After the policy: the key is stored, the finish sent, the ciphers installed.\<close>

definition finish_handshake :: "'s Options \<Rightarrow> transport \<Rightarrow> XX \<Rightarrow> 's Session \<Rightarrow> 's Session \<times> (session_error + unit)" where
  "finish_handshake opts T xx s =
     (let C = o_crypto opts
      in then_st (saveCredentials opts (setCredentials ((credsSnapshot s)\<lparr>cr_ServerStatic := xx_remoteStatic xx\<rparr>) s)) (\<lambda>_ s.
         case noise_call (WriteClientFinish C (finishPayload opts s) xx) SessionNoise of
           Inl e \<Rightarrow> (s, Inl e)
         | Inr (xx, clientStaticCT, clientPayloadCT) \<Rightarrow>
             then_st (SendBinary T (WrapTop HSFieldClientFinish
                (ClientFinish_Build \<lparr>cf_Static = clientStaticCT, cf_Payload = clientPayloadCT\<rparr>)) s) (\<lambda>_ s.
               case SendCipher C xx of
                 Inl e \<Rightarrow> (s, Inl (SessionNoise e))
               | Inr (send, recvCipher) \<Rightarrow> (s\<lparr>s_send := Some send, s_recv := Some recvCipher\<rparr>, Inr ()))))"

text \<open>From the receipt of the server hello on.\<close>

definition answer_hello :: "'s Options \<Rightarrow> transport \<Rightarrow> XX \<Rightarrow> 's Session \<Rightarrow> 's Session \<times> (session_error + unit)" where
  "answer_hello opts T xx s =
     (case and_then (tr_recv T (s_sent s)) server_hello of
        Inl e \<Rightarrow> (s, Inl e)
      | Inr sh \<Rightarrow>
          (case noise_call (ReadServerHello (o_crypto opts) (sh_Ephemeral sh) (sh_Static sh) (sh_Payload sh) xx) HelloRejected of
             Inl e \<Rightarrow> (s, Inl e)
           | Inr (xx, _, certPlain) \<Rightarrow>
               then_st (authenticate_server opts xx certPlain s) (\<lambda>_ s. finish_handshake opts T xx s)))"

definition handshake :: "'s Options \<Rightarrow> transport \<Rightarrow> bytes option \<Rightarrow> 's Session \<Rightarrow> 's Session \<times> (session_error + unit)" where
  "handshake opts T rand s =
     (let C = o_crypto opts
      in case KeyPairFromSeed (cr_NoiseKeySeed (credsSnapshot s)) of
           Inl e \<Rightarrow> (s, Inl (SessionNoise e))
         | Inr noiseKP \<Rightarrow>
             (case noise_call (ClientHello1 C rand (NewXXClient C noiseKP (tr_header T))) SessionNoise of
                Inl e \<Rightarrow> (s, Inl e)
              | Inr (xx, ephC) \<Rightarrow>
                  then_st (SendBinary T (WrapTop HSFieldClientHello (ClientHello_Build \<lparr>ch_Ephemeral = ephC, ch_Payload = []\<rparr>)) s)
                    (\<lambda>_ s. answer_hello opts T xx s)))"

subsection \<open>Sending and requests\<close>

definition Send :: "'s Options \<Rightarrow> transport \<Rightarrow> node \<Rightarrow> 's Session \<Rightarrow> 's Session \<times> (session_error + unit)" where
  "Send opts T n s =
     (case s_send s of
        None \<Rightarrow> (s, Inl ErrNotOnline)
      | Some c \<Rightarrow>
          if \<not> s_conn s then (s, Inl ErrNotOnline)
          else
            let plain = MarshalDict n (o_Dict opts)
            in case Cipher_Seal (o_crypto opts) plain c of (c, ct) \<Rightarrow> SendBinary T ct (s\<lparr>s_send := Some c\<rparr>))"

definition request_id :: "string \<Rightarrow> node \<Rightarrow> string" where
  "request_id fresh n = (case StringAttr n ''id'' of None \<Rightarrow> fresh | Some i \<Rightarrow> if i = '''' then fresh else i)"

definition with_id :: "string \<Rightarrow> node \<Rightarrow> node" where
  "with_id fresh n =
     (case StringAttr n ''id'' of
        Some (c # i) \<Rightarrow> n
      | _ \<Rightarrow> Node (Tag n) (AList.update ''id'' (VStr fresh) (Attrs n)) (Content n))"

text \<open>\<open>Request\<close> up to its wait: on success the id it waits under. A failed send removes the entry again.\<close>

definition Request :: "'s Options \<Rightarrow> transport \<Rightarrow> string \<Rightarrow> node \<Rightarrow> 's Session \<Rightarrow> 's Session \<times> (session_error + string)" where
  "Request opts T fresh n s =
     (let i = request_id fresh n
      in if i \<in> fst ` set (s_requests s) then (s, Inl (DuplicateRequest i))
         else
           case Send opts T (with_id fresh n) (s\<lparr>s_requests := AList.update i None (s_requests s)\<rparr>) of
             (s, Inl e) \<Rightarrow> (s\<lparr>s_requests := AList.delete i (s_requests s)\<rparr>, Inl e)
           | (s, Inr _) \<Rightarrow> (s, Inr i))"

text \<open>The cases of the wait; \<open>None\<close> where the case is not ready.\<close>

datatype wake = GotResponse | TimedOut | CtxCancelled | StopClosed | BrokenClosed

definition Request_wait :: "wake \<Rightarrow> string \<Rightarrow> 's Session \<Rightarrow> ('s Session \<times> (session_error + node)) option" where
  "Request_wait w i s =
     (let finish = (\<lambda>res. Some (s\<lparr>s_requests := AList.delete i (s_requests s)\<rparr>, res))
      in case w of
           GotResponse \<Rightarrow> (case map_of (s_requests s) i of Some (Some resp) \<Rightarrow> finish (Inr resp) | _ \<Rightarrow> None)
         | TimedOut \<Rightarrow> finish (Inl ErrTimeout)
         | CtxCancelled \<Rightarrow> finish (Inl CtxDone)
         | StopClosed \<Rightarrow> if s_stopRequested s then finish (Inl ErrStopped) else None
         | BrokenClosed \<Rightarrow> if s_broken s \<noteq> None then finish (Inl ErrNotOnline) else None)"

subsection \<open>Failure and shutdown\<close>

definition fail :: "'s Options \<Rightarrow> session_error \<Rightarrow> 's Session \<Rightarrow> 's Session" where
  "fail opts err s =
     (let s = (if s_broken s = None then s\<lparr>s_broken := Some err\<rparr> else s);
          s = fst (ses_move Error (o_errtext opts err) s)
      in emit ConnectionError (DError err) s)"

definition shutdownOK :: "'s Session \<Rightarrow> 's Session" where
  "shutdownOK s = (if s_broken s = None then s\<lparr>s_broken := Some ErrStopped\<rparr> else s)"

definition abort :: "'s Session \<Rightarrow> 's Session" where
  "abort s =
     (if s_stopRequested s then s
      else s\<lparr>s_stopRequested := True, s_conn := False, s_connClosed := (s_conn s \<or> s_connClosed s)\<rparr>)"

text \<open>\<open>Stop\<close> up to its wait for the broken channel or its context, and after it.\<close>

definition Stop_begin :: "'s Options \<Rightarrow> transport \<Rightarrow> 's Session \<Rightarrow> 's Session" where
  "Stop_begin opts T s =
     (if s_stopped s then s
      else
        let s = s\<lparr>s_stopped := True\<rparr>;
            s = fst (ses_move Stopping ''stop'' s);
            s = (case ses_move Stopping ''stop'' s of
                   (s, Some _) \<Rightarrow> s\<lparr>s_mach := Force (s_now s) Stopping ''stop'' (s_mach s)\<rparr>
                 | (s, None) \<Rightarrow> s);
            s = fst (Send opts T (Node ''xmlstreamend'' [] VNil) s)
        in abort s)"

definition Stop_end :: "'s Session \<Rightarrow> 's Session" where
  "Stop_end s = emit_state (fst (ses_move Stopped ''stopped'' s))"

subsection \<open>Dispatch\<close>

definition handle_child :: "node \<Rightarrow> 's Session \<Rightarrow> 's Session" where
  "handle_child child s =
     (if Tag child = ''ack'' then
        let s = (if m_state (s_mach s) = Degraded then emit_state (fst (ses_move Online ''ib/ack'' s)) else s)
        in emit MessageAck (DNode child) s
      else if Tag child = ''pair-device'' then emit SessionReady (DNode child) s
      else emit ChatUpdated (DNode child) s)"

definition handleInband :: "node \<Rightarrow> 's Session \<Rightarrow> 's Session" where
  "handleInband n s = fold handle_child (Children n) s"

text \<open>The channel of a request holds one node; a second one is dropped.\<close>

definition answers :: "node \<Rightarrow> string option" where
  "answers n =
     (let i = (case StringAttr n ''id'' of Some i \<Rightarrow> i | None \<Rightarrow> '''');
          typ = (case StringAttr n ''type'' of Some t \<Rightarrow> t | None \<Rightarrow> '''')
      in if i \<noteq> '''' \<and> (typ = ''result'' \<or> typ = ''error'') then Some i else None)"

definition dispatch :: "node \<Rightarrow> 's Session \<Rightarrow> 's Session" where
  "dispatch n s =
     (if Tag n = ''iq'' then
        (case answers n of
           Some i \<Rightarrow>
             (case map_of (s_requests s) i of
                Some None \<Rightarrow> s\<lparr>s_requests := AList.update i (Some n) (s_requests s)\<rparr>
              | Some (Some _) \<Rightarrow> s
              | None \<Rightarrow> emit ChatUpdated (DNode n) s)
         | None \<Rightarrow> emit ChatUpdated (DNode n) s)
      else if Tag n = ''message'' then emit MessageReceived (DNode n) s
      else if Tag n = ''receipt'' \<or> Tag n = ''ack'' then emit MessageAck (DNode n) s
      else if Tag n = ''presence'' then emit ContactUpdated (DNode n) s
      else if Tag n = ''ib'' then handleInband n s
      else s)"

subsection \<open>Goroutines\<close>

definition markInbound :: "'s Session \<Rightarrow> 's Session" where
  "markInbound s = s\<lparr>s_lastIn := s_now s\<rparr>"

text \<open>One turn of each loop. \<open>serveFrames\<close> gets what the transport returned and whether the context is done.\<close>

definition serveFrames :: "'s Options \<Rightarrow> bool \<Rightarrow> session_error + bytes \<Rightarrow> 's Session \<Rightarrow> 's Session" where
  "serveFrames opts ctxDone res s =
     (case res of
        Inl e \<Rightarrow>
          (if \<not> ctxDone \<and> \<not> s_stopping s then (fail opts TransportFailed s)\<lparr>s_serving := False\<rparr>
           else (shutdownOK s)\<lparr>s_serving := False\<rparr>)
      | Inr raw \<Rightarrow>
          let s = markInbound s
          in if length (s_frames s) < 64 then s\<lparr>s_frames := s_frames s @ [raw]\<rparr> else s)"

definition frameConsumer :: "'s Options \<Rightarrow> 's Session \<Rightarrow> 's Session" where
  "frameConsumer opts s =
     (case s_frames s of
        [] \<Rightarrow> s
      | raw # rest \<Rightarrow>
          let s = s\<lparr>s_frames := rest\<rparr>
          in case s_recv s of
               None \<Rightarrow> s
             | Some rc \<Rightarrow>
                 (case Cipher_Open (o_crypto opts) raw rc of
                    (rc, Inl e) \<Rightarrow> (fail opts (FrameDecrypt e) (s\<lparr>s_recv := Some rc\<rparr>))\<lparr>s_consuming := False\<rparr>
                  | (rc, Inr plain) \<Rightarrow>
                      (case Decode (o_inflate opts) (o_Dict opts) plain of
                         Inl _ \<Rightarrow> s\<lparr>s_recv := Some rc\<rparr>
                       | Inr n \<Rightarrow> dispatch n (s\<lparr>s_recv := Some rc\<rparr>))))"

definition ping_node :: "string \<Rightarrow> node" where
  "ping_node i = Node ''a'' [(''passive'', VStr ''true''), (''xmlns'', VStr ''urn:xmpp:whatsapp:ping''), (''id'', VStr i)] VNil"

definition keepAliveLoop :: "'s Options \<Rightarrow> transport \<Rightarrow> string \<Rightarrow> 's Session \<Rightarrow> 's Session" where
  "keepAliveLoop opts T fresh s =
     (let st = m_state (s_mach s)
      in if st = Error \<or> st = Stopping then s\<lparr>s_pinging := False\<rparr>
         else if st \<noteq> Online \<and> st \<noteq> Degraded then s
         else if s_now s - s_lastIn s > o_StaleAfter opts then
           let s = emit_state (fst (ses_move Degraded ''inbound silence'' s))
           in (fail opts InboundSilence s)\<lparr>s_pinging := False\<rparr>
         else
           case Send opts T (ping_node fresh) s of
             (s, Inl e) \<Rightarrow> s\<lparr>s_pinging := False\<rparr>
           | (s, Inr _) \<Rightarrow> s)"

subsection \<open>The connection task\<close>

fun is_stopped :: "session_error \<Rightarrow> bool" where
  "is_stopped ErrStopped = True"
| "is_stopped (ConnectIQ e) = is_stopped e"
| "is_stopped _ = False"

definition Start :: "'s Options \<Rightarrow> session_error + Credentials \<Rightarrow> 's Session \<Rightarrow> 's Session \<times> (session_error + unit)" where
  "Start opts gen s =
     (if s_stopped s \<or> s_stopping s then (s, Inl ErrStopped)
      else then_st (loadCredentials opts gen s) (\<lambda>_ s.
        case ses_move Starting ''start'' s of
          (s, Some e) \<Rightarrow> (s, Inl (MoveRefused e))
        | (s, None) \<Rightarrow> ((emit_state s)\<lparr>s_task := TDial\<rparr>, Inr ())))"

text \<open>The deferred end of the task, and its stations.\<close>

definition task_end :: "'s Options \<Rightarrow> bool \<Rightarrow> session_error \<Rightarrow> 's Session \<Rightarrow> 's Session" where
  "task_end opts ctxDone err s =
     (let s = (if \<not> is_stopped err \<and> \<not> ctxDone then fail opts err s else shutdownOK s)
      in (abort s)\<lparr>s_task := TDone (Some err)\<rparr>)"

definition task_dial :: "'s Options \<Rightarrow> bool \<Rightarrow> bool \<Rightarrow> 's Session \<Rightarrow> 's Session" where
  "task_dial opts ctxDone dialed s =
     (let s = emit_state (fst (ses_move Connecting ''dial'' s))
      in if \<not> dialed then task_end opts ctxDone DialFailed s else s\<lparr>s_conn := True, s_task := THandshake\<rparr>)"

definition connectIQ_node :: "'s Options \<Rightarrow> string \<Rightarrow> node" where
  "connectIQ_node opts i =
     Node ''iq'' [(''id'', VStr i), (''type'', VStr ''set''), (''to'', VStr ''s.whatsapp.net'')]
       (VNodes [Node ''config'' [] (VNodes [Node ''device''
          [(''platform'', VStr (o_Platform opts)), (''device_name'', VStr (o_DeviceName opts))] VNil])])"

definition task_handshake :: "'s Options \<Rightarrow> transport \<Rightarrow> bool \<Rightarrow> bytes option \<Rightarrow> string \<Rightarrow> 's Session \<Rightarrow> 's Session" where
  "task_handshake opts T ctxDone rand fresh s =
     (let s = emit_state (fst (ses_move Authenticating ''noise'' s))
      in case handshake opts T rand s of
           (s, Inl e) \<Rightarrow> task_end opts ctxDone e s
         | (s, Inr _) \<Rightarrow>
             let s = emit_state (fst (ses_move Syncing ''connect-iq'' s));
                 s = s\<lparr>s_serving := True, s_consuming := True\<rparr>
             in case Request opts T fresh (connectIQ_node opts fresh) s of
                  (s, Inl e) \<Rightarrow> task_end opts ctxDone (ConnectIQ e) s
                | (s, Inr i) \<Rightarrow> s\<lparr>s_task := TRequest i\<rparr>)"

definition connectIQ :: "'s Options \<Rightarrow> node \<Rightarrow> 's Session \<Rightarrow> 's Session" where
  "connectIQ opts resp s =
     (case StringAttr resp ''account'' of
        None \<Rightarrow> s
      | Some acct \<Rightarrow>
          if acct = '''' then s
          else fst (saveCredentials opts (setCredentials ((credsSnapshot s)\<lparr>cr_AccountJID := acct\<rparr>) s)))"

definition task_connected :: "'s Options \<Rightarrow> bool \<Rightarrow> session_error + node \<Rightarrow> 's Session \<Rightarrow> 's Session" where
  "task_connected opts ctxDone res s =
     (case res of
        Inl e \<Rightarrow> task_end opts ctxDone (ConnectIQ e) s
      | Inr resp \<Rightarrow>
          (case ses_move Online ''connected'' (connectIQ opts resp s) of
             (s, Some e) \<Rightarrow> task_end opts ctxDone (MoveRefused e) s
           | (s, None) \<Rightarrow>
               let s = emit SessionReady (DDevice (DeviceID opts)) (emit_state (markInbound s))
               in s\<lparr>s_online := True, s_pinging := True, s_task := TOnline\<rparr>))"

definition task_watch :: "'s Options \<Rightarrow> bool \<Rightarrow> 's Session \<Rightarrow> 's Session" where
  "task_watch opts ctxDone s =
     (case s_broken s of
        Some be \<Rightarrow> task_end opts ctxDone be s
      | None \<Rightarrow> if ctxDone then task_end opts ctxDone CtxDone s else s)"

end
