(* ===== verification/SessionRun.thy ===== *)
theory SessionRun
  imports Session
begin

text \<open>
  Sessions in motion: every interleaving of the connection task, the reading,
  consuming and pinging loops, API calls, \<open>Stop\<close> and the passing of time, over a
  network that answers whatever it likes. A session is started once (\<open>Start\<close> is
  enabled while its task has not begun).
\<close>

subsection \<open>Steps\<close>

inductive ses_step :: "'s Options \<Rightarrow> 's Session \<Rightarrow> 's Session \<Rightarrow> bool" for opts :: "'s Options" where
  start: "s_task s = TNone \<Longrightarrow> ses_step opts s (fst (Start opts gen s))"
| dial: "s_task s = TDial \<Longrightarrow> ses_step opts s (task_dial opts ctxDone dialed s)"
| hand: "s_task s = THandshake \<Longrightarrow> ses_step opts s (task_handshake opts T ctxDone rand fresh s)"
| connect: "s_task s = TRequest i \<Longrightarrow> Request_wait w i s = Some (s', res) \<Longrightarrow> ses_step opts s (task_connected opts ctxDone res s')"
| watch: "s_task s = TOnline \<Longrightarrow> ses_step opts s (task_watch opts ctxDone s)"
| serve: "s_serving s \<Longrightarrow> ses_step opts s (serveFrames opts ctxDone got s)"
| consume: "s_consuming s \<Longrightarrow> ses_step opts s (frameConsumer opts s)"
| consume_end: "ses_step opts s (s\<lparr>s_consuming := False\<rparr>)"
| ping: "s_pinging s \<Longrightarrow> ses_step opts s (keepAliveLoop opts T fresh s)"
| ping_end: "ses_step opts s (s\<lparr>s_pinging := False\<rparr>)"
| send: "ses_step opts s (fst (Send opts T n s))"
| request: "ses_step opts s (fst (Request opts T fresh n s))"
| wait: "Request_wait w i s = Some (s', res) \<Longrightarrow> ses_step opts s s'"
| stop: "ses_step opts s (Stop_begin opts T s)"
| stop_end: "s_stopped s \<Longrightarrow> ses_step opts s (Stop_end s)"
| give_up: "ses_step opts s (abort s)"
| time: "s_now s \<le> t \<Longrightarrow> ses_step opts s (s\<lparr>s_now := t\<rparr>)"

inductive ses_reach :: "'s Options \<Rightarrow> 's Session \<Rightarrow> bool" for opts :: "'s Options" where
  fresh: "New opts dialer st now = Inr s \<Longrightarrow> ses_reach opts s"
| more: "ses_reach opts s \<Longrightarrow> ses_step opts s s' \<Longrightarrow> ses_reach opts s'"

subsection \<open>What the parts change\<close>

text \<open>The part of a session the invariants look at, and the operations that leave all of it alone.\<close>

lemma ses_move_sel [simp]:
  "s_creds (fst (ses_move d r s)) = s_creds s" "s_send (fst (ses_move d r s)) = s_send s" "s_recv (fst (ses_move d r s)) = s_recv s"
  "s_sent (fst (ses_move d r s)) = s_sent s" "s_online (fst (ses_move d r s)) = s_online s" "s_task (fst (ses_move d r s)) = s_task s"
  "s_requests (fst (ses_move d r s)) = s_requests s" "s_broken (fst (ses_move d r s)) = s_broken s" "s_now (fst (ses_move d r s)) = s_now s"
  "s_stopRequested (fst (ses_move d r s)) = s_stopRequested s" "s_pin (fst (ses_move d r s)) = s_pin s" "s_store (fst (ses_move d r s)) = s_store s"
  "s_conn (fst (ses_move d r s)) = s_conn s" "s_events (fst (ses_move d r s)) = s_events s" "s_stopped (fst (ses_move d r s)) = s_stopped s"
  "s_connClosed (fst (ses_move d r s)) = s_connClosed s"
  by (simp_all add: ses_move_def split: prod.split)

lemma emit_sel [simp]:
  "s_creds (emit t d s) = s_creds s" "s_send (emit t d s) = s_send s" "s_recv (emit t d s) = s_recv s"
  "s_sent (emit t d s) = s_sent s" "s_online (emit t d s) = s_online s" "s_task (emit t d s) = s_task s"
  "s_requests (emit t d s) = s_requests s" "s_broken (emit t d s) = s_broken s" "s_now (emit t d s) = s_now s"
  "s_stopRequested (emit t d s) = s_stopRequested s" "s_pin (emit t d s) = s_pin s" "s_store (emit t d s) = s_store s"
  "s_conn (emit t d s) = s_conn s" "s_mach (emit t d s) = s_mach s" "s_stopped (emit t d s) = s_stopped s"
  "s_connClosed (emit t d s) = s_connClosed s"
  by (simp_all add: emit_def)

lemma move_state: "m_state (s_mach (fst (ses_move d r s))) = (if d \<in> set (table (m_state (s_mach s))) then d else m_state (s_mach s))"
  by (simp add: ses_move_def case_prod_beta Move_state)

definition calm :: "'s Session \<Rightarrow> 's Session \<Rightarrow> bool" where
  "calm s s' \<longleftrightarrow> s_creds s' = s_creds s \<and> s_task s' = s_task s \<and> (s_send s' = None \<longleftrightarrow> s_send s = None) \<and>
     (s_recv s' = None \<longleftrightarrow> s_recv s = None) \<and> s_online s' = s_online s \<and> (s_sent s' = s_sent s \<or> s_send s \<noteq> None) \<and>
     (past_auth (m_state (s_mach s')) \<longrightarrow> past_auth (m_state (s_mach s)))"

named_theorems calm_intros

lemma calm_refl [calm_intros]: "calm s s"
  by (simp add: calm_def)

lemma calm_trans: "calm s s' \<Longrightarrow> calm s' s'' \<Longrightarrow> calm s s''"
  by (auto simp: calm_def)

lemma calm_emit [calm_intros]: "calm s s' \<Longrightarrow> calm s (emit t d s')"
  by (simp add: calm_def)

lemma calm_emit_state [calm_intros]: "calm s s' \<Longrightarrow> calm s (emit_state s')"
  by (simp add: emit_state_def calm_emit)

lemma calm_move [calm_intros]: "calm s s' \<Longrightarrow> \<not> past_auth d \<Longrightarrow> calm s (fst (ses_move d r s'))"
  by (simp add: calm_def move_state)

lemma calm_move_past: "calm s s' \<Longrightarrow> past_auth (m_state (s_mach s')) \<Longrightarrow> calm s (fst (ses_move d r s'))"
  by (simp add: calm_def)

lemma calm_upd [calm_intros]:
  "calm s s' \<Longrightarrow> calm s (s'\<lparr>s_consuming := b\<rparr>)" "calm s s' \<Longrightarrow> calm s (s'\<lparr>s_pinging := b\<rparr>)"
  "calm s s' \<Longrightarrow> calm s (s'\<lparr>s_serving := b\<rparr>)" "calm s s' \<Longrightarrow> calm s (s'\<lparr>s_frames := f\<rparr>)"
  "calm s s' \<Longrightarrow> calm s (s'\<lparr>s_requests := q\<rparr>)" "calm s s' \<Longrightarrow> calm s (s'\<lparr>s_now := t\<rparr>)" "calm s s' \<Longrightarrow> calm s (s'\<lparr>s_lastIn := t\<rparr>)"
  "calm s s' \<Longrightarrow> calm s (s'\<lparr>s_broken := x\<rparr>)" "calm s s' \<Longrightarrow> calm s (s'\<lparr>s_stopped := b\<rparr>)" "calm s s' \<Longrightarrow> calm s (s'\<lparr>s_pin := p\<rparr>)"
  "calm s s' \<Longrightarrow> calm s (s'\<lparr>s_stopRequested := b, s_conn := c, s_connClosed := e\<rparr>)"
  by (simp_all add: calm_def)

lemma past_auth_simps [simp]: "\<not> past_auth Error" "\<not> past_auth Stopping" "\<not> past_auth Stopped" "\<not> past_auth Starting"
  "\<not> past_auth Connecting" "\<not> past_auth Authenticating" "past_auth Online" "past_auth Degraded" "past_auth Syncing"
  by (simp_all add: past_auth_def)

lemma calm_fail [calm_intros]: "calm s s' \<Longrightarrow> calm s (fail opts e s')"
  by (auto simp: fail_def Let_def intro!: calm_intros)

lemma calm_shutdownOK [calm_intros]: "calm s s' \<Longrightarrow> calm s (shutdownOK s')"
  by (auto simp: shutdownOK_def intro!: calm_intros)

lemma calm_abort [calm_intros]: "calm s s' \<Longrightarrow> calm s (abort s')"
  by (auto simp: abort_def intro!: calm_intros)

lemma calm_Send [calm_intros]: "calm s s' \<Longrightarrow> calm s (fst (Send opts T n s'))"
  by (rule calm_trans) (auto simp: calm_def Send_def SendBinary_def Let_def split: option.splits prod.splits)

lemma calm_Request [calm_intros]: "calm s s' \<Longrightarrow> calm s (fst (Request opts T fresh n s'))"
proof (rule calm_trans)
  have "calm s' (fst (Send opts T m (s'\<lparr>s_requests := q\<rparr>)))" for m q by (intro calm_intros)
  then show "calm s' (fst (Request opts T fresh n s'))"
    by (auto simp: Request_def Let_def split: prod.splits sum.splits intro!: calm_intros dest!: arg_cong [where f = fst])
qed

lemma calm_wait: "Request_wait w i s = Some (s', res) \<Longrightarrow> calm s s'"
  by (auto simp: Request_wait_def Let_def split: wake.splits option.splits if_splits intro!: calm_intros)

lemma Force_state: "m_state (Force now d r m) = d"
  by (auto simp: Force_def notify_def applyLocked_def Let_def)

lemma calm_force [calm_intros]: "calm s s' \<Longrightarrow> \<not> past_auth d \<Longrightarrow> calm s (s'\<lparr>s_mach := Force now d r m\<rparr>)"
  by (simp add: calm_def Force_state)

lemma calm_Stop_begin: "calm s (Stop_begin opts T s)"
  by (auto simp: Stop_begin_def Let_def case_prod_beta split: option.split intro!: calm_intros)

lemma calm_handle_child: "calm s (handle_child c s)"
  by (auto simp: handle_child_def Let_def intro!: calm_intros calm_move_past)

lemma calm_handleInband: "calm s (handleInband n s)"
proof -
  have "calm s (fold handle_child cs s)" for cs
    by (induction cs arbitrary: s) (use calm_refl calm_trans calm_handle_child in \<open>fastforce+\<close>)
  then show ?thesis by (simp add: handleInband_def)
qed

lemma calm_dispatch: "calm s (dispatch n s)"
  by (auto simp: dispatch_def Let_def split: option.splits intro!: calm_intros calm_handleInband)

lemma calm_serveFrames: "calm s (serveFrames opts c got s)"
  by (auto simp: serveFrames_def markInbound_def Let_def split: sum.splits intro!: calm_intros)

lemma calm_recv [calm_intros]: "calm s s' \<Longrightarrow> s_recv s' \<noteq> None \<Longrightarrow> calm s (s'\<lparr>s_recv := Some c\<rparr>)"
  by (auto simp: calm_def)

lemma calm_frameConsumer: "calm s (frameConsumer opts s)"
proof (cases "s_frames s")
  case (Cons raw rest)
  have "calm s (s\<lparr>s_frames := rest, s_recv := Some c\<rparr>)" if "s_recv s \<noteq> None" for c using that by (intro calm_intros) simp
  then show ?thesis using Cons calm_trans [OF _ calm_dispatch]
    by (auto simp: frameConsumer_def Let_def split: option.splits prod.splits sum.splits intro!: calm_intros)
qed (simp add: frameConsumer_def calm_refl)

lemma calm_keepAlive: "calm s (keepAliveLoop opts T fresh s)"
proof -
  have "calm s (fst (Send opts T n s))" for n by (intro calm_intros)
  then show ?thesis
    by (auto simp: keepAliveLoop_def Let_def case_prod_beta split: sum.splits intro!: calm_intros calm_move_past)
qed

subsection \<open>No server without the policy's consent\<close>

text \<open>The policy accepted this key, on some certificate.\<close>

definition accepted :: "'s Options \<Rightarrow> bytes \<Rightarrow> bool" where
  "accepted opts key \<longleftrightarrow> (\<exists>auth cert pin pin'. o_ServerAuth opts = Some auth \<and> auth key cert pin = (pin', Inr ()))"

definition key_accepted :: "'s Options \<Rightarrow> 's Session \<Rightarrow> bool" where
  "key_accepted opts s \<longleftrightarrow> accepted opts (cr_ServerStatic (credsSnapshot s))"

text \<open>A session that trusts its server: it has ciphers, has sent more than its hello, or is past authentication.\<close>

definition trusting :: "'s Session \<Rightarrow> bool" where
  "trusting s \<longleftrightarrow> s_send s \<noteq> None \<or> s_recv s \<noteq> None \<or> s_online s \<or> length (s_sent s) \<ge> 2 \<or> past_auth (m_state (s_mach s)) \<or>
     (\<exists>i. s_task s = TRequest i) \<or> s_task s = TOnline"

definition auth_inv :: "'s Options \<Rightarrow> 's Session \<Rightarrow> bool" where
  "auth_inv opts s \<longleftrightarrow> (trusting s \<longrightarrow> key_accepted opts s) \<and>
     (s_task s \<in> {TNone, TDial, THandshake} \<longrightarrow> \<not> trusting s \<and> s_sent s = [])"

lemma trusting_calm:
  assumes "calm s s'" "trusting s'"
  shows "trusting s"
proof (cases "s_send s")
  case None
  then have "s_sent s' = s_sent s" using assms(1) by (simp add: calm_def)
  then show ?thesis using assms by (auto simp: calm_def trusting_def)
qed (simp add: trusting_def)

lemma auth_inv_calm:
  assumes "auth_inv opts s" "calm s s'"
  shows "auth_inv opts s'"
proof -
  have "key_accepted opts s' \<longleftrightarrow> key_accepted opts s" "s_task s' = s_task s" and sent: "s_sent s' = s_sent s \<or> s_send s \<noteq> None"
    using assms(2) by (simp_all add: calm_def key_accepted_def credsSnapshot_def)
  moreover have "s_send s = None" if "\<not> trusting s" using that by (simp add: trusting_def)
  ultimately show ?thesis using assms(1) trusting_calm [OF assms(2)] unfolding auth_inv_def by metis
qed

lemma saveCredentials_sel [simp]:
  "s_creds (fst (saveCredentials opts s)) = s_creds s" "s_send (fst (saveCredentials opts s)) = s_send s"
  "s_recv (fst (saveCredentials opts s)) = s_recv s" "s_sent (fst (saveCredentials opts s)) = s_sent s"
  "s_online (fst (saveCredentials opts s)) = s_online s" "s_task (fst (saveCredentials opts s)) = s_task s"
  "s_mach (fst (saveCredentials opts s)) = s_mach s" "s_requests (fst (saveCredentials opts s)) = s_requests s"
  "s_broken (fst (saveCredentials opts s)) = s_broken s"
  by (simp_all add: saveCredentials_def split: sum.split)

lemma setCredentials_sel [simp]:
  "s_creds (setCredentials c s) = Some c" "s_send (setCredentials c s) = s_send s" "s_recv (setCredentials c s) = s_recv s"
  "s_sent (setCredentials c s) = s_sent s" "s_online (setCredentials c s) = s_online s" "s_task (setCredentials c s) = s_task s"
  "s_mach (setCredentials c s) = s_mach s" "s_requests (setCredentials c s) = s_requests s" "s_broken (setCredentials c s) = s_broken s"
  by (simp_all add: setCredentials_def)

text \<open>What the handshake touches: the credentials, the pin, the store, the frames sent, the ciphers.\<close>

definition same_frame :: "'s Session \<Rightarrow> 's Session \<Rightarrow> bool" where
  "same_frame s s' \<longleftrightarrow> s_task s' = s_task s \<and> s_mach s' = s_mach s \<and> s_online s' = s_online s \<and> s_requests s' = s_requests s \<and>
     s_broken s' = s_broken s"

lemma finish_handshake_cases:
  assumes "finish_handshake opts T xx s = (s', res)"
  obtains s1 where "s_creds s1 = Some ((credsSnapshot s)\<lparr>cr_ServerStatic := xx_remoteStatic xx\<rparr>)" "same_frame s s1"
    "(s' = s1 \<or> (\<exists>fr. s' = s1\<lparr>s_sent := fr\<rparr>)) \<and> res \<noteq> Inr () \<or>
     (\<exists>fr snd rcv. s' = s1\<lparr>s_sent := fr, s_send := Some snd, s_recv := Some rcv\<rparr> \<and> res = Inr ())"
proof -
  let ?c = "(credsSnapshot s)\<lparr>cr_ServerStatic := xx_remoteStatic xx\<rparr>"
  obtain s1 r where s1: "saveCredentials opts (setCredentials ?c s) = (s1, r)" by force
  then have "s_creds s1 = Some ?c" "same_frame s s1"
    using saveCredentials_sel [of opts "setCredentials ?c s"] by (simp_all add: same_frame_def)
  moreover have "(s' = s1 \<or> (\<exists>fr. s' = s1\<lparr>s_sent := fr\<rparr>)) \<and> res \<noteq> Inr () \<or>
     (\<exists>fr snd rcv. s' = s1\<lparr>s_sent := fr, s_send := Some snd, s_recv := Some rcv\<rparr> \<and> res = Inr ())"
    using assms by (cases r) (auto simp: finish_handshake_def s1 SendBinary_def Let_def split: sum.splits prod.splits option.splits)
  ultimately show thesis by (rule that)
qed

definition hs_ok :: "'s Options \<Rightarrow> 's Session \<Rightarrow> 's Session \<times> (session_error + unit) \<Rightarrow> bool" where
  "hs_ok opts s r \<longleftrightarrow> same_frame s (fst r) \<and>
     (s_send (fst r) \<noteq> None \<or> s_recv (fst r) \<noteq> None \<or> length (s_sent (fst r)) \<ge> 2 \<or> snd r = Inr () \<longrightarrow> key_accepted opts (fst r))"

lemma finish_handshake_ok:
  assumes "accepted opts (xx_remoteStatic xx)"
  shows "hs_ok opts s (finish_handshake opts T xx (s\<lparr>s_pin := pin\<rparr>))"
proof -
  obtain s' res where f: "finish_handshake opts T xx (s\<lparr>s_pin := pin\<rparr>) = (s', res)" by force
  then show ?thesis
  proof (cases rule: finish_handshake_cases)
    case (1 s1)
    then show ?thesis using assms f by (auto simp: hs_ok_def same_frame_def key_accepted_def credsSnapshot_def)
  qed
qed

lemma answer_hello_ok:
  assumes "s_send s = None" "s_recv s = None" "length (s_sent s) \<le> 1"
  shows "hs_ok opts s (answer_hello opts T xx s)"
proof -
  have err: "hs_ok opts s (s, Inl e)" "hs_ok opts s (s\<lparr>s_pin := p\<rparr>, Inl e)" for e p
    using assms by (auto simp: hs_ok_def same_frame_def)
  have fin: "hs_ok opts s (finish_handshake opts T xx (s\<lparr>s_pin := p\<rparr>))"
    if "o_ServerAuth opts = Some auth" "auth (xx_remoteStatic xx) cert pin = (p, Inr ())" for xx auth cert pin p
    using that by (intro finish_handshake_ok) (auto simp: accepted_def)
  show ?thesis by (auto simp: answer_hello_def authenticate_server_def err split: sum.split prod.split option.split intro: fin)
qed

lemma handshake_ok:
  assumes "\<not> trusting s" "s_sent s = []"
  shows "hs_ok opts s (handshake opts T rand s)"
proof -
  have s: "s_send s = None" "s_recv s = None" using assms(1) by (simp_all add: trusting_def)
  have err: "hs_ok opts s (s, Inl e)" for e using s assms(2) by (auto simp: hs_ok_def same_frame_def)
  have "hs_ok opts s (answer_hello opts T xx (s\<lparr>s_sent := [f]\<rparr>))" for xx f
    using answer_hello_ok [of "s\<lparr>s_sent := [f]\<rparr>" opts T xx] s by (simp add: hs_ok_def same_frame_def)
  then show ?thesis using assms(2) by (auto simp: handshake_def SendBinary_def err Let_def split: sum.split prod.split option.split)
qed

lemma auth_inv_task_end:
  assumes "trusting s \<longrightarrow> key_accepted opts s"
  shows "auth_inv opts (task_end opts c e s)"
proof -
  let ?s = "abort (if \<not> is_stopped e \<and> \<not> c then fail opts e s else shutdownOK s)"
  have calm: "calm s ?s" by (auto intro!: calm_intros)
  have "task_end opts c e s = ?s\<lparr>s_task := TDone (Some e)\<rparr>" by (simp add: task_end_def)
  moreover have "trusting (?s\<lparr>s_task := TDone (Some e)\<rparr>) \<Longrightarrow> trusting ?s" by (auto simp: trusting_def)
  moreover have "key_accepted opts (?s\<lparr>s_task := TDone (Some e)\<rparr>) \<longleftrightarrow> key_accepted opts s"
    using calm by (simp add: calm_def key_accepted_def credsSnapshot_def)
  ultimately show ?thesis using assms trusting_calm [OF calm] by (simp add: auth_inv_def)
qed

lemma auth_inv_trusted: "key_accepted opts s \<Longrightarrow> s_task s \<notin> {TNone, TDial, THandshake} \<Longrightarrow> auth_inv opts s"
  by (simp add: auth_inv_def)

lemma untrusting_move:
  "\<not> trusting s \<Longrightarrow> \<not> past_auth d \<Longrightarrow> \<not> trusting (emit_state (fst (ses_move d r s)))"
  using trusting_calm [OF calm_emit_state [OF calm_move [OF calm_refl]]] by blast

lemma auth_inv_Start:
  assumes "auth_inv opts s" "s_task s = TNone"
  shows "auth_inv opts (fst (Start opts gen s))"
proof -
  have s: "\<not> trusting s" "s_sent s = []" using assms by (simp_all add: auth_inv_def)
  obtain s1 r where l: "loadCredentials opts gen s = (s1, r)" by force
  then have s1: "s_send s1 = s_send s \<and> s_recv s1 = s_recv s \<and> s_sent s1 = s_sent s \<and> s_online s1 = s_online s \<and> s_mach s1 = s_mach s \<and>
      s_task s1 = s_task s"
    by (auto simp: loadCredentials_def split: sum.splits kv_error.splits dest!: arg_cong [where f = fst])
  then have "\<not> trusting s1" "\<not> trusting (s1\<lparr>s_task := TDial\<rparr>)" using s(1) by (simp_all add: trusting_def)
  then show ?thesis using s s1 assms(2) untrusting_move [of s1 Starting "''start''"] l
    by (cases r) (auto simp: Start_def auth_inv_def trusting_def emit_state_def case_prod_beta split: option.splits)
qed

lemma auth_inv_dial:
  assumes "auth_inv opts s" "s_task s = TDial"
  shows "auth_inv opts (task_dial opts c d s)"
proof -
  have s: "\<not> trusting s" "s_sent s = []" using assms by (simp_all add: auth_inv_def)
  then have "\<not> trusting (emit_state (fst (ses_move Connecting ''dial'' s)))" by (intro untrusting_move) simp_all
  then show ?thesis using s(2) auth_inv_task_end [where s = "emit_state (fst (ses_move Connecting ''dial'' s))"]
    by (auto simp: task_dial_def Let_def auth_inv_def trusting_def emit_state_def)
qed

lemma auth_inv_handshake:
  assumes "auth_inv opts s" "s_task s = THandshake"
  shows "auth_inv opts (task_handshake opts T c rand fresh s)"
proof -
  let ?s = "emit_state (fst (ses_move Authenticating ''noise'' s))"
  have s: "\<not> trusting ?s" "s_sent ?s = []" and task: "s_task ?s = THandshake"
    using assms untrusting_move [of s Authenticating "''noise''"] by (simp_all add: auth_inv_def emit_state_def)
  obtain s1 res where h: "handshake opts T rand ?s = (s1, res)" by force
  then have ok: "hs_ok opts ?s (s1, res)" using handshake_ok [OF s] by metis
  then have t1: "trusting s1 \<longrightarrow> key_accepted opts s1"
    using s(1) task by (auto simp: hs_ok_def same_frame_def trusting_def)
  show ?thesis
  proof (cases res)
    case (Inl e)
    then show ?thesis using h auth_inv_task_end [OF t1] by (simp add: task_handshake_def)
  next
    case (Inr u)
    then have k: "key_accepted opts s1" using ok by (simp add: hs_ok_def)
    let ?s2 = "(emit_state (fst (ses_move Syncing ''connect-iq'' s1)))\<lparr>s_serving := True, s_consuming := True\<rparr>"
    obtain s3 r where q: "Request opts T fresh (connectIQ_node opts fresh) ?s2 = (s3, r)" by force
    then have "calm ?s2 s3" using calm_Request [OF calm_refl, where s = ?s2 and opts = opts and T = T and fresh = fresh and n = "connectIQ_node opts fresh"] by simp
    then have "key_accepted opts s3" using k by (simp add: calm_def key_accepted_def credsSnapshot_def emit_state_def)
    then show ?thesis using h q Inr auth_inv_task_end [where s = s3 and opts = opts]
      by (cases r) (auto simp: task_handshake_def Let_def auth_inv_def key_accepted_def credsSnapshot_def)
  qed
qed

lemma auth_inv_connected:
  assumes "auth_inv opts s" "s_task s = TRequest i" "Request_wait w i s = Some (s', res)"
  shows "auth_inv opts (task_connected opts c res s')"
proof -
  have calm: "calm s s'" by (rule calm_wait [OF assms(3)])
  then have k: "key_accepted opts s'" using auth_inv_calm [OF assms(1) calm] assms(2) by (simp add: auth_inv_def trusting_def calm_def)
  then have k2: "key_accepted opts (connectIQ opts resp s')" for resp
    by (auto simp: connectIQ_def key_accepted_def credsSnapshot_def split: option.split)
  have "key_accepted opts (fst (ses_move Online r (connectIQ opts resp s')))" for r resp
    using k2 by (simp add: key_accepted_def credsSnapshot_def)
  then show ?thesis using k
    by (auto simp: task_connected_def Let_def case_prod_beta key_accepted_def credsSnapshot_def markInbound_def emit_state_def
        intro!: auth_inv_task_end auth_inv_trusted split: sum.split option.split)
qed

lemma auth_inv_watch:
  assumes "auth_inv opts s"
  shows "auth_inv opts (task_watch opts c s)"
  using assms auth_inv_task_end [where s = s and opts = opts] by (auto simp: task_watch_def auth_inv_def split: option.split)

lemma auth_inv_step:
  assumes "ses_step opts s s'" "auth_inv opts s"
  shows "auth_inv opts s'"
  using assms(1)
proof cases
  case (start gen)
  then show ?thesis using auth_inv_Start assms(2) by blast
next
  case (dial c d)
  then show ?thesis using auth_inv_dial assms(2) by blast
next
  case (hand T c rand fresh)
  then show ?thesis using auth_inv_handshake assms(2) by blast
next
  case (connect i w s' res c)
  then show ?thesis using auth_inv_connected assms(2) by blast
next
  case (watch c)
  then show ?thesis using auth_inv_watch assms(2) by blast
qed (auto intro!: auth_inv_calm [OF assms(2)] calm_intros calm_serveFrames calm_frameConsumer calm_keepAlive calm_Stop_begin
    simp: Stop_end_def dest: calm_wait)

lemma auth_inv_reach: "ses_reach opts s \<Longrightarrow> auth_inv opts s"
proof (induction rule: ses_reach.induct)
  case (fresh dialer st now s)
  then show ?case by (auto simp: New_def auth_inv_def trusting_def NewMachine_def split: if_splits)
next
  case (more s s')
  then show ?case using auth_inv_step by blast
qed

subsection \<open>Requests and the first failure\<close>

text \<open>
  \<open>sound s s'\<close>: the first failure stays, and if every filled request channel held an
  answer to its id, so it does afterwards, the ids being distinct.
\<close>

definition requests_ok :: "'s Session \<Rightarrow> bool" where
  "requests_ok s \<longleftrightarrow> distinct (map fst (s_requests s)) \<and>
     (\<forall>(i, c) \<in> set (s_requests s). \<forall>n. c = Some n \<longrightarrow> Tag n = ''iq'' \<and> answers n = Some i)"

definition sound :: "'s Session \<Rightarrow> 's Session \<Rightarrow> bool" where
  "sound s s' \<longleftrightarrow> (\<forall>e. s_broken s = Some e \<longrightarrow> s_broken s' = Some e) \<and> (requests_ok s \<longrightarrow> requests_ok s')"

named_theorems sound_intros

lemma sound_refl [sound_intros]: "sound s s"
  by (simp add: sound_def)

lemma sound_trans: "sound s s' \<Longrightarrow> sound s' s'' \<Longrightarrow> sound s s''"
  by (auto simp: sound_def)

lemma sound_same: "sound s s' \<Longrightarrow> s_broken s'' = s_broken s' \<Longrightarrow> s_requests s'' = s_requests s' \<Longrightarrow> sound s s''"
  by (auto simp: sound_def requests_ok_def)

lemma sound_upd [sound_intros]:
  "sound s s' \<Longrightarrow> sound s (emit ty d s')" "sound s s' \<Longrightarrow> sound s (emit_state s')" "sound s s' \<Longrightarrow> sound s (fst (ses_move st r s'))"
  "sound s s' \<Longrightarrow> sound s (s'\<lparr>s_mach := m\<rparr>)" "sound s s' \<Longrightarrow> sound s (s'\<lparr>s_consuming := b\<rparr>)" "sound s s' \<Longrightarrow> sound s (s'\<lparr>s_pinging := b\<rparr>)"
  "sound s s' \<Longrightarrow> sound s (s'\<lparr>s_serving := b\<rparr>)" "sound s s' \<Longrightarrow> sound s (s'\<lparr>s_serving := b, s_consuming := b\<rparr>)"
  "sound s s' \<Longrightarrow> sound s (s'\<lparr>s_frames := f\<rparr>)" "sound s s' \<Longrightarrow> sound s (s'\<lparr>s_now := t\<rparr>)" "sound s s' \<Longrightarrow> sound s (s'\<lparr>s_lastIn := t\<rparr>)"
  "sound s s' \<Longrightarrow> sound s (s'\<lparr>s_stopped := b\<rparr>)" "sound s s' \<Longrightarrow> sound s (s'\<lparr>s_pin := p\<rparr>)" "sound s s' \<Longrightarrow> sound s (s'\<lparr>s_task := k\<rparr>)"
  "sound s s' \<Longrightarrow> sound s (s'\<lparr>s_recv := rc\<rparr>)" "sound s s' \<Longrightarrow> sound s (s'\<lparr>s_conn := b, s_task := k\<rparr>)"
  "sound s s' \<Longrightarrow> sound s (s'\<lparr>s_stopRequested := b, s_conn := c, s_connClosed := e\<rparr>)"
  "sound s s' \<Longrightarrow> sound s (s'\<lparr>s_online := b, s_pinging := b, s_task := k\<rparr>)"
  by ((erule sound_same; simp add: emit_state_def)+)

lemma sound_fail [sound_intros]: "sound s s' \<Longrightarrow> sound s (fail opts e s')"
  by (erule sound_trans) (auto simp: fail_def Let_def sound_def requests_ok_def)

lemma sound_shutdownOK [sound_intros]: "sound s s' \<Longrightarrow> sound s (shutdownOK s')"
  by (erule sound_trans) (auto simp: shutdownOK_def sound_def requests_ok_def)

lemma sound_abort [sound_intros]: "sound s s' \<Longrightarrow> sound s (abort s')"
  by (auto simp: abort_def intro: sound_intros)

lemma sound_Send [sound_intros]: "sound s s' \<Longrightarrow> sound s (fst (Send opts T n s'))"
  by (erule sound_same) (simp_all add: Send_def SendBinary_def Let_def split: option.splits prod.splits)

lemma sound_delete [sound_intros]: "sound s s' \<Longrightarrow> sound s (s'\<lparr>s_requests := AList.delete i (s_requests s')\<rparr>)"
  by (erule sound_trans) (use set_delete_subset in \<open>fastforce simp: sound_def requests_ok_def distinct_delete\<close>)

lemma sound_insert:
  assumes "sound s s'" "\<forall>n. c = Some n \<longrightarrow> Tag n = ''iq'' \<and> answers n = Some i"
  shows "sound s (s'\<lparr>s_requests := AList.update i c (s_requests s')\<rparr>)"
proof (rule sound_trans [OF assms(1)])
  have "set (AList.update i c m) \<subseteq> insert (i, c) (set m)" for m :: "(string \<times> node option) list" by (induction m) auto
  then show "sound s' (s'\<lparr>s_requests := AList.update i c (s_requests s')\<rparr>)"
    using assms(2) by (fastforce simp: sound_def requests_ok_def distinct_update)
qed

lemma sound_Request [sound_intros]: "sound s s' \<Longrightarrow> sound s (fst (Request opts T fresh n s'))"
proof (rule sound_trans)
  have "sound s' (fst (Send opts T m (s'\<lparr>s_requests := AList.update i None (s_requests s')\<rparr>)))" for m i
    by (intro sound_intros sound_insert) simp
  then show "sound s' (fst (Request opts T fresh n s'))"
    by (auto simp: Request_def Let_def case_prod_beta split: sum.split intro: sound_intros)
qed

lemma sound_wait: "Request_wait w i s = Some (s', res) \<Longrightarrow> sound s s'"
  by (auto simp: Request_wait_def Let_def split: wake.splits option.splits if_splits intro: sound_intros)

lemma sound_Stop_begin: "sound s (Stop_begin opts T s)"
  by (auto simp: Stop_begin_def Let_def case_prod_beta split: option.split intro!: sound_intros)

lemma sound_handleInband: "sound s (handleInband n s)"
proof -
  have "sound s (handle_child c s)" for c and s :: "'a Session" by (auto simp: handle_child_def Let_def intro!: sound_intros)
  then have "sound s (fold handle_child cs s)" for cs
    by (induction cs arbitrary: s) (use sound_refl sound_trans in \<open>fastforce+\<close>)
  then show ?thesis by (simp add: handleInband_def)
qed

lemma sound_dispatch: "sound s (dispatch n s)"
  by (auto simp: dispatch_def split: option.split intro!: sound_intros sound_handleInband sound_insert)

lemma sound_frameConsumer: "sound s (frameConsumer opts s)"
proof (cases "s_frames s")
  case (Cons raw rest)
  have "sound s (s\<lparr>s_frames := rest, s_recv := Some c\<rparr>)" for c by (intro sound_intros)
  then show ?thesis using Cons sound_trans [OF _ sound_dispatch]
    by (auto simp: frameConsumer_def Let_def split: option.split prod.split sum.split intro!: sound_intros)
qed (simp add: frameConsumer_def sound_refl)

lemma sound_serveFrames: "sound s (serveFrames opts c got s)"
  by (auto simp: serveFrames_def markInbound_def Let_def split: sum.splits intro!: sound_intros)

lemma sound_keepAlive: "sound s (keepAliveLoop opts T fresh s)"
proof -
  have "sound s (fst (Send opts T n s))" for n by (intro sound_intros)
  then show ?thesis by (auto simp: keepAliveLoop_def Let_def case_prod_beta split: sum.splits intro!: sound_intros)
qed

lemma sound_task_end [sound_intros]: "sound s s' \<Longrightarrow> sound s (task_end opts c e s')"
  by (auto simp: task_end_def Let_def intro!: sound_intros)

lemma sound_saveCredentials [sound_intros]: "sound s s' \<Longrightarrow> sound s (fst (saveCredentials opts s'))"
  by (erule sound_same) simp_all

lemma sound_setCredentials [sound_intros]: "sound s s' \<Longrightarrow> sound s (setCredentials c s')"
  by (erule sound_same) simp_all

lemma sound_Start: "sound s (fst (Start opts gen s))"
proof -
  obtain s1 r where l: "loadCredentials opts gen s = (s1, r)" by force
  then have "s1 = fst (loadCredentials opts gen s)" by simp
  then have "sound s s1" by (auto simp: loadCredentials_def split: sum.splits kv_error.splits intro!: sound_intros)
  then show ?thesis using l
    by (cases r) (auto simp: Start_def case_prod_beta split: option.split intro!: sound_intros)
qed

lemma sound_handshake:
  assumes "auth_inv opts s" "s_task s = THandshake"
  shows "sound s (task_handshake opts T c rand fresh s)"
proof -
  let ?s = "emit_state (fst (ses_move Authenticating ''noise'' s))"
  have "\<not> trusting ?s" "s_sent ?s = []"
    using assms untrusting_move [of s Authenticating "''noise''"] by (simp_all add: auth_inv_def emit_state_def)
  then have "same_frame ?s (fst (handshake opts T rand ?s))" using handshake_ok [of ?s opts T rand] by (simp add: hs_ok_def)
  moreover have "sound s ?s" by (intro sound_intros)
  ultimately have h: "sound s (fst (handshake opts T rand ?s))" by (auto simp: same_frame_def intro: sound_same)
  let ?s2 = "(emit_state (fst (ses_move Syncing ''connect-iq'' (fst (handshake opts T rand ?s)))))\<lparr>s_serving := True, s_consuming := True\<rparr>"
  have "sound s (fst (Request opts T fresh (connectIQ_node opts fresh) ?s2))" using h by (intro sound_intros)
  then show ?thesis using h
    by (auto simp: task_handshake_def Let_def case_prod_beta split: sum.split intro!: sound_intros)
qed

lemma sound_connected: "sound s s' \<Longrightarrow> sound s (task_connected opts c res s')"
  by (auto simp: task_connected_def connectIQ_def markInbound_def Let_def case_prod_beta split: sum.split option.split intro!: sound_intros)

lemma sound_step:
  assumes "ses_step opts s s'" "auth_inv opts s"
  shows "sound s s'"
  using assms(1)
proof cases
  case (connect i w s' res c)
  then show ?thesis using sound_connected [OF sound_wait] by blast
next
  case (hand T c rand fresh)
  then show ?thesis using sound_handshake [OF assms(2)] by blast
qed (auto simp: Stop_end_def task_dial_def task_watch_def Let_def split: option.split dest: sound_wait intro!: sound_intros sound_Start
    sound_serveFrames sound_frameConsumer sound_keepAlive sound_Stop_begin)

lemma requests_ok_reach: "ses_reach opts s \<Longrightarrow> requests_ok s"
proof (induction rule: ses_reach.induct)
  case (fresh dialer st now s)
  then show ?case by (auto simp: New_def requests_ok_def split: if_splits)
next
  case (more s s')
  then show ?case using sound_step [OF more(2) auth_inv_reach [OF more(1)]] by (simp add: sound_def)
qed

end
