(* ===== verification/Mockserver.thy ===== *)
theory Mockserver
  imports Session Ratchet
begin

text \<open>
  The protocol-level server of \<^verbatim>\<open>internal/mockserver/mockserver.go\<close>, the peer the
  engine is run against: handshake and registration, the decrypted node loop with its
  handlers, the relay of end-to-end messages. Pointers to device sessions are
  indices into the list of all sessions ever opened; the frames a session sent are in
  its record. The JSON of a registration and the clock are arguments.
\<close>

subsection \<open>State\<close>

definition ProtocolInfoV1 :: bytes where "ProtocolInfoV1 = bytes_of_string ''baturwhatsapi-e2e-v1''"

record Registration =
  rg_DeviceID :: string
  rg_Name :: string
  rg_Platform :: string
  rg_NoisePub :: string
  rg_AccountJID :: string

record deviceSession =
  ds_reg :: Registration
  ds_resumed :: bool
  ds_send :: Cipher
  ds_recv :: Cipher
  ds_reqCount :: nat
  ds_closed :: bool
  ds_out :: "bytes list"

record Server =
  sv_Dict :: Dictionary
  sv_registry :: "(string \<times> Registration) list"
  sv_devices :: "(string \<times> nat) list"
  sv_sessions :: "deviceSession list"
  sv_e2eKeys :: BobKeys
  sv_e2eRatchet :: "(string \<times> Ratchet) list"
  sv_e2eBundle :: PreKeyBundle
  sv_static :: bytes
  sv_rootPub :: bytes
  sv_certChain :: bytes
  sv_dropAfterRequests :: int
  sv_IgnoreAcks :: bool

text \<open>
  The static key pair, the responder keys, the two generated signing pairs (public key
  and signature), and the three dates computed from the clock are what \<open>New\<close> draws.
\<close>

definition NewServer :: "Crypto \<Rightarrow> E2eCrypto \<Rightarrow> Dictionary \<Rightarrow> bytes \<Rightarrow> BobKeys \<Rightarrow> bytes \<times> (bytes \<Rightarrow> bytes) \<Rightarrow>
    bytes \<times> (bytes \<Rightarrow> bytes) \<Rightarrow> Time \<Rightarrow> Time \<Rightarrow> Time \<Rightarrow> Server" where
  "NewServer C E dict kp bk root im hourAgo inOneYear inTwoYears =
     (let leafDetails = BuildDetails 7 3 (c_pub C kp) hourAgo inOneYear;
          interDetails = BuildDetails 3 0 (fst im) hourAgo inTwoYears;
          leafSig = snd im leafDetails;
          interSig = snd root interDetails
      in \<lparr>sv_Dict = dict, sv_registry = [], sv_devices = [], sv_sessions = [], sv_e2eKeys = bk, sv_e2eRatchet = [],
          sv_e2eBundle = BuildBundle E (bk_Identity bk) (bk_SignedPreKey bk) (bk_SignedPreID bk)
            [(bk_OneTimeKeyID bk, case bk_OneTimeKey bk of Some k \<Rightarrow> c_pub E k | None \<Rightarrow> [])],
          sv_static = kp, sv_rootPub = fst root, sv_certChain = BuildChain leafDetails leafSig interDetails interSig,
          sv_dropAfterRequests = 0, sv_IgnoreAcks = False\<rparr>)"

definition DeviceCount :: "Server \<Rightarrow> nat" where
  "DeviceCount sv = length (sv_devices sv)"

definition SetDropAfterRequests :: "int \<Rightarrow> Server \<Rightarrow> Server" where
  "SetDropAfterRequests n sv = sv\<lparr>sv_dropAfterRequests := n\<rparr>"

definition registerDevice :: "nat \<Rightarrow> Server \<Rightarrow> Server" where
  "registerDevice d sv = sv\<lparr>sv_devices := AList.update (rg_AccountJID (ds_reg (sv_sessions sv ! d))) d (sv_devices sv)\<rparr>"

definition unregisterDevice :: "string \<Rightarrow> nat \<Rightarrow> Server \<Rightarrow> Server" where
  "unregisterDevice account d sv =
     (if map_of (sv_devices sv) account = Some d then sv\<lparr>sv_devices := AList.delete account (sv_devices sv)\<rparr> else sv)"

definition upd_session :: "nat \<Rightarrow> (deviceSession \<Rightarrow> deviceSession) \<Rightarrow> Server \<Rightarrow> Server" where
  "upd_session d f sv = sv\<lparr>sv_sessions := (sv_sessions sv)[d := f (sv_sessions sv ! d)]\<rparr>"

subsection \<open>Numbers in texts\<close>

text \<open>The verb \<open>%0wd\<close> of \<open>fmt\<close>: the sign counts towards the width.\<close>

definition zero_pad :: "nat \<Rightarrow> string \<Rightarrow> string" where
  "zero_pad w ds = replicate (w - length ds) (CHR ''0'') @ ds"

definition fmt_0d :: "nat \<Rightarrow> int \<Rightarrow> string" where
  "fmt_0d w i = (if i < 0 then CHR ''-'' # zero_pad (w - 1) (nat_to_dec (nat (- i))) else zero_pad w (nat_to_dec (nat i)))"

text \<open>\<open>fmt.Sscanf\<close> with \<open>%d\<close> into a variable that holds 0: blanks, a sign, digits; a failed scan leaves it.\<close>

definition scan_digits :: "string \<Rightarrow> int" where
  "scan_digits ds =
     (let n = takeWhile (\<lambda>c. c \<in> set ''0123456789'') ds
      in case parse_dec_acc 0 n of Some v \<Rightarrow> if n = [] then 0 else int v | None \<Rightarrow> 0)"

definition scan_int :: "string \<Rightarrow> int" where
  "scan_int s =
     (let v = (case dropWhile (\<lambda>c. c \<in> {CHR '' '', CHR 0x09, CHR 0x0D, CHR 0x0B, CHR 0x0C}) s of
                 [] \<Rightarrow> 0
               | c # cs \<Rightarrow> if c = CHR ''-'' then - scan_digits cs else if c = CHR ''+'' then scan_digits cs else scan_digits (c # cs))
      in if - (2 ^ 63) \<le> v \<and> v < 2 ^ 63 then v else 0)"

text \<open>Go's remainder takes the sign of its first operand.\<close>

definition rem4 :: "int \<Rightarrow> int" where
  "rem4 i = (if i < 0 then - (- i mod 4) else i mod 4)"

subsection \<open>Sending\<close>

definition push :: "Crypto \<Rightarrow> nat \<Rightarrow> node \<Rightarrow> Server \<Rightarrow> Server" where
  "push C d n sv =
     upd_session d (\<lambda>ds.
       case Cipher_Seal C (MarshalDict n (sv_Dict sv)) (ds_send ds) of
         (c, ct) \<Rightarrow> ds\<lparr>ds_send := c, ds_out := (if ds_closed ds then ds_out ds else ds_out ds @ [ct])\<rparr>) sv"

definition pushMessage :: "Crypto \<Rightarrow> int \<Rightarrow> nat \<Rightarrow> string \<Rightarrow> Server \<Rightarrow> Server" where
  "pushMessage C nanos d text_msg sv =
     push C d (Node ''message''
       [(''from'', VStr (rg_AccountJID (ds_reg (sv_sessions sv ! d)))), (''id'', VStr (''MOCK'' @ fmt_0d 6 (nanos mod 1000000))),
        (''type'', VStr ''text'')]
       (VNodes [Node ''plain'' [] (VStr text_msg)])) sv"

definition pushMediaMessage :: "Crypto \<Rightarrow> int \<Rightarrow> nat \<Rightarrow> string \<Rightarrow> (string \<times> val) list \<Rightarrow> Server \<Rightarrow> Server" where
  "pushMediaMessage C nanos d kind attrs sv =
     push C d (Node ''message''
       [(''from'', VStr (rg_AccountJID (ds_reg (sv_sessions sv ! d)))), (''id'', VStr (''MOCK'' @ fmt_0d 6 (nanos mod 1000000))),
        (''type'', VStr kind)]
       (VNodes [Node kind attrs VNil])) sv"

subsection \<open>Pages for the synchronisation\<close>

definition sync_jid :: "int \<Rightarrow> string" where
  "sync_jid k = ''628120000'' @ fmt_0d 3 k @ ''@s.whatsapp.net''"

definition sync_item :: "string \<Rightarrow> int \<Rightarrow> node" where
  "sync_item stage k =
     (if stage = ''contacts'' then Node ''contact'' [(''jid'', VStr (sync_jid k)), (''name'', VStr (''Contact '' @ int_to_dec k))] VNil
      else Node ''chat'' [(''jid'', VStr (sync_jid k)), (''unread'', VStr (int_to_dec (rem4 k)))] VNil)"

fun sync_items :: "nat \<Rightarrow> string \<Rightarrow> int \<Rightarrow> int \<Rightarrow> node list \<times> int" where
  "sync_items 0 stage tot next_i = ([], next_i)"
| "sync_items (Suc k) stage tot next_i =
     (if next_i < tot then (case sync_items k stage tot (next_i + 1) of (items, e) \<Rightarrow> (sync_item stage next_i # items, e))
      else ([], next_i))"

definition syncPage :: "string \<Rightarrow> string \<Rightarrow> string \<Rightarrow> node" where
  "syncPage iqID stage cursor =
     (let start = (if cursor \<noteq> '''' then scan_int cursor else 0);
          tot = (if stage = ''chats'' then 7 else 10);
          (items, e) = sync_items 3 stage tot start
      in Node ''iq'' [(''id'', VStr iqID), (''type'', VStr ''result'')]
           (VNodes [Node ''sync'' [(''stage'', VStr stage), (''cursor'', VStr (if e < tot then int_to_dec e else ''''))] (VNodes items)]))"

subsection \<open>Handshake and registration\<close>

datatype mock_error = MockBadHello | MockMalformedHello | MockBadFinish | MockNoise noise_error | MockFinishRejected noise_error
  | MockBadRegistration

text \<open>\<open>ServeConn\<close> up to its answer to the client hello, and from the client finish to the loop.\<close>

definition ServeConn_hello :: "Crypto \<Rightarrow> Server \<Rightarrow> bytes \<Rightarrow> bytes option \<Rightarrow> bytes \<Rightarrow> mock_error + (XX \<times> bytes)" where
  "ServeConn_hello C sv header rand frame =
     (case UnwrapTop frame HSFieldClientHello of
        Inl _ \<Rightarrow> Inl MockBadHello
      | Inr chMsg \<Rightarrow>
          if chMsg = [] then Inl MockBadHello
          else
            let ch = ParseClientHello chMsg
            in if length (ch_Ephemeral ch) \<noteq> 32 then Inl MockMalformedHello
               else
                 (case ServerHello1 C rand (ch_Ephemeral ch) (sv_certChain sv) (NewXXServer C (sv_static sv) header) of
                    (xx, Inl e) \<Rightarrow> Inl (MockNoise e)
                  | (xx, Inr (serverEph, staticCT, certCT)) \<Rightarrow>
                      Inr (xx, WrapTop HSFieldServerHello
                        (ServerHello_Build \<lparr>sh_Ephemeral = serverEph, sh_Static = staticCT, sh_Payload = certCT\<rparr>))))"

definition mock_register :: "Registration \<Rightarrow> Server \<Rightarrow> Server \<times> Registration \<times> bool" where
  "mock_register reg sv =
     (let existed = map_of (sv_registry sv) (rg_DeviceID reg) \<noteq> None;
          reg = (if rg_AccountJID reg = ''''
                 then reg\<lparr>rg_AccountJID := ''62'' @ fmt_0d 9 (int (length (sv_registry sv)) + 1001) @ ''@s.whatsapp.net''\<rparr> else reg)
      in (sv\<lparr>sv_registry := AList.update (rg_DeviceID reg) reg (sv_registry sv)\<rparr>, reg, existed))"

definition ServeConn_finish :: "Crypto \<Rightarrow> (bytes \<Rightarrow> Registration option) \<Rightarrow> XX \<Rightarrow> bytes \<Rightarrow> Server \<Rightarrow> mock_error + (Server \<times> nat)" where
  "ServeConn_finish C json xx frame sv =
     (case UnwrapTop frame HSFieldClientFinish of
        Inl _ \<Rightarrow> Inl MockBadFinish
      | Inr cfMsg \<Rightarrow>
          if cfMsg = [] then Inl MockBadFinish
          else
            let cf = ParseClientFinish cfMsg
            in case AcceptFinish C (cf_Static cf) (cf_Payload cf) xx of
                 (xx, Inl e) \<Rightarrow> Inl (MockFinishRejected e)
               | (xx, Inr (remoteStatic, blob)) \<Rightarrow>
                   (case SendCipher C xx of
                      Inl e \<Rightarrow> Inl (MockNoise e)
                    | Inr (send, recv) \<Rightarrow>
                        (case json blob of
                           None \<Rightarrow> Inl MockBadRegistration
                         | Some reg \<Rightarrow>
                             let (sv, reg, known) = mock_register reg sv;
                                 d = length (sv_sessions sv);
                                 ds = \<lparr>ds_reg = reg, ds_resumed = known, ds_send = send, ds_recv = recv, ds_reqCount = 0,
                                       ds_closed = False, ds_out = []\<rparr>
                             in Inr (registerDevice d (sv\<lparr>sv_sessions := sv_sessions sv @ [ds]\<rparr>), d))))"

subsection \<open>The node loop\<close>

definition relayE2E :: "Crypto \<Rightarrow> E2eCrypto \<Rightarrow> int \<Rightarrow> nat \<Rightarrow> node \<Rightarrow> Server \<Rightarrow> Server" where
  "relayE2E C E nanos sender n sv =
     (let account = rg_AccountJID (ds_reg (sv_sessions sv ! sender));
          forward = (\<lambda>plain sv.
            case map_of (sv_devices sv) (MustStringAttr n ''to'') of
              None \<Rightarrow> sv
            | Some target \<Rightarrow>
                push C target (Node ''message''
                  [(''id'', VStr (''E2E'' @ fmt_0d 6 (nanos mod 1000000))), (''from'', VStr account),
                   (''to'', VStr (rg_AccountJID (ds_reg (sv_sessions sv ! target)))), (''type'', VStr ''text'')]
                  (VNodes [Node ''plain'' [] (VStr (string_of_bytes plain))])) sv)
      in case ChildByTag n ''e2e'' of None \<Rightarrow> sv | Some child \<Rightarrow>
         case BytesContent child of None \<Rightarrow> sv | Some raw \<Rightarrow>
         case ParseEnvelope raw of Inl _ \<Rightarrow> sv | Inr env \<Rightarrow>
         (case (if en_Type env = EnvInit then None else map_of (sv_e2eRatchet sv) account) of
            None \<Rightarrow>
              (case BobSession E (sv_e2eKeys sv) env ProtocolInfoV1 of
                 Inl _ \<Rightarrow> sv
               | Inr (rt, plain) \<Rightarrow> forward plain (sv\<lparr>sv_e2eRatchet := AList.update account rt (sv_e2eRatchet sv)\<rparr>))
          | Some rt \<Rightarrow>
              (case Decrypt E env rt of
                 (rt, Inl _) \<Rightarrow> sv\<lparr>sv_e2eRatchet := AList.update account rt (sv_e2eRatchet sv)\<rparr>
               | (rt, Inr plain) \<Rightarrow> forward plain (sv\<lparr>sv_e2eRatchet := AList.update account rt (sv_e2eRatchet sv)\<rparr>))))"

definition echo_of :: "node \<Rightarrow> node list" where
  "echo_of n = map (\<lambda>c. Node ''echo'' [(''msg'', VStr (MustStringAttr c ''msg''))] VNil) (filter (\<lambda>c. Tag c = ''echo'') (Children n))"

definition handle_iq :: "Crypto \<Rightarrow> nat \<Rightarrow> node \<Rightarrow> Server \<Rightarrow> Server" where
  "handle_iq C d n sv =
     (let i = MustStringAttr n ''id''; typ = MustStringAttr n ''type''
      in if typ = ''get'' \<and> MustStringAttr n ''xmlns'' = ''batur.demo'' then
           push C d (Node ''iq'' [(''id'', VStr i), (''type'', VStr ''result'')] (VNodes (echo_of n))) sv
         else if typ = ''get'' \<and> MustStringAttr n ''xmlns'' = ''batur.sync'' then
           push C d (syncPage i (MustStringAttr n ''stage'') (MustStringAttr n ''cursor'')) sv
         else
           push C d (Node ''iq'' [(''id'', VStr i), (''type'', VStr ''result''),
             (''account'', VStr (rg_AccountJID (ds_reg (sv_sessions sv ! d))))] VNil) sv)"

text \<open>The result says whether the loop ends.\<close>

definition handle :: "Crypto \<Rightarrow> E2eCrypto \<Rightarrow> int \<Rightarrow> nat \<Rightarrow> node \<Rightarrow> Server \<Rightarrow> Server \<times> bool" where
  "handle C E nanos d n sv =
     (let sv = upd_session d (\<lambda>ds. ds\<lparr>ds_reqCount := ds_reqCount ds + 1\<rparr>) sv;
          drop_conn = (sv_dropAfterRequests sv > 0 \<and> int (ds_reqCount (sv_sessions sv ! d)) mod sv_dropAfterRequests sv = 0)
      in if drop_conn \<and> Tag n \<noteq> ''xmlstreamend'' then (upd_session d (\<lambda>ds. ds\<lparr>ds_closed := True\<rparr>) sv, True)
         else if Tag n = ''xmlstreamend'' then (sv, True)
         else if Tag n = ''message'' then (relayE2E C E nanos d n sv, False)
         else if Tag n = ''a'' then
           (if sv_IgnoreAcks sv then (sv, False)
            else (push C d (Node ''ib'' [(''from'', VStr (rg_AccountJID (ds_reg (sv_sessions sv ! d))))]
                    (VNodes [Node ''ack'' (Attrs n) VNil])) sv, False))
         else if Tag n = ''iq'' then (handle_iq C d n sv, False)
         else (sv, False))"

text \<open>One turn of the loop on a received frame; an error ends the connection.\<close>

definition sessionLoop :: "Crypto \<Rightarrow> E2eCrypto \<Rightarrow> (bytes \<Rightarrow> bytes option) \<Rightarrow> int \<Rightarrow> nat \<Rightarrow> bytes \<Rightarrow> Server \<Rightarrow> Server \<times> (noise_error + bool)" where
  "sessionLoop C E inflate nanos d raw sv =
     (case Cipher_Open C raw (ds_recv (sv_sessions sv ! d)) of
        (c, Inl e) \<Rightarrow> (upd_session d (\<lambda>ds. ds\<lparr>ds_recv := c\<rparr>) sv, Inl e)
      | (c, Inr plain) \<Rightarrow>
          let sv = upd_session d (\<lambda>ds. ds\<lparr>ds_recv := c\<rparr>) sv
          in case Decode inflate (sv_Dict sv) plain of
               Inl _ \<Rightarrow> (sv, Inr False)
             | Inr n \<Rightarrow> (case handle C E nanos d n sv of (sv, quit) \<Rightarrow> (sv, Inr quit)))"

end
