(* ===== verification/Link.thy ===== *)
theory Link
  imports SessionRun Mockserver Conversation
begin

text \<open>
  The engine and its peer together: the session's handshake against the server's two
  handshake steps over a faithful transport, and nodes in both directions afterwards,
  from \<open>Send\<close> to the server's loop and from the server's \<open>push\<close> to the session's dispatch.
\<close>

subsection \<open>Hello messages over the wire\<close>

text \<open>Public keys have 32 bytes; a sealed text is longer than the text, by at most the tag.\<close>

definition wire_sizes :: "Crypto \<Rightarrow> bool" where
  "wire_sizes C \<longleftrightarrow> (\<forall>s. length s = 32 \<longrightarrow> length (c_pub C s) = 32) \<and>
     (\<forall>k n p a. length p < length (c_seal C k n p a) \<and> length (c_seal C k n p a) \<le> length p + 16)"

lemma encrypt_length: "wire_sizes C \<Longrightarrow> length p < length (snd (encrypt C p nh)) \<and> length (snd (encrypt C p nh)) \<le> length p + 16"
  by (simp add: encrypt_def wire_sizes_def Let_def)

lemma on_nh_encrypt_length:
  "on_nh (encrypt C p) xx = (xx', ct) \<Longrightarrow> wire_sizes C \<Longrightarrow> length p < length ct \<and> length ct \<le> length p + 16"
  using encrypt_length [of C p "xx_nh xx"] by (auto simp: on_nh_encrypt)

lemma ClientHello1_eph: "ClientHello1 C (Some ce) xx = (xx', Inr eph) \<Longrightarrow> eph = c_pub C ce"
  by (auto simp: ClientHello1_def Let_def split: if_splits)

lemma mix_static: "mix C priv pub xx = (xx', r) \<Longrightarrow> xx_static xx' = xx_static xx \<and> xx_remoteStatic xx' = xx_remoteStatic xx"
  by (auto simp: mix_def on_nh_def split: option.splits prod.splits)

lemma encrypt_static:
  assumes "wire_sizes C" "length st = 32"
  shows "snd (encrypt C (c_pub C st) nh) \<noteq> []" "length (snd (encrypt C (c_pub C st) nh)) \<le> 48"
proof -
  have "length (c_pub C st) = 32" using assms by (simp add: wire_sizes_def)
  then show "snd (encrypt C (c_pub C st) nh) \<noteq> []" "length (snd (encrypt C (c_pub C st) nh)) \<le> 48"
    using encrypt_length [OF assms(1), of "c_pub C st" nh] by auto
qed

lemma ServerHello1_sizes:
  assumes "ServerHello1 C (Some se) eph cert xx = (xx', Inr (seph, sct, pct))" "wire_sizes C" "length (xx_static xx) = 32"
  shows "seph = c_pub C se \<and> sct \<noteq> [] \<and> length sct \<le> 48 \<and> length pct \<le> length cert + 16"
  using assms(1) encrypt_length [OF assms(2)] encrypt_static [OF assms(2,3)]
  by (auto simp: ServerHello1_def then_st_eq_Inr on_nh_encrypt Let_def xx_update_def split: if_splits dest!: mix_static)

lemma WriteClientFinish_sizes:
  assumes "WriteClientFinish C data xx = (xx', Inr (sct, pct))" "wire_sizes C" "length (xx_static xx) = 32"
  shows "length sct \<le> 48 \<and> length pct \<le> length data + 16"
  using assms(1) encrypt_length [OF assms(2)] encrypt_static [OF assms(2,3)]
  by (auto simp: WriteClientFinish_def then_st_eq_Inr on_nh_encrypt split: if_splits dest!: mix_static)

lemma ReadServerHello_static:
  "ReadServerHello C seph sct pct xx = (xx', Inr (remote, cert)) \<Longrightarrow> xx_remoteStatic xx' = remote \<and> xx_static xx' = xx_static xx"
  by (auto simp: ReadServerHello_def then_st_eq_Inr on_nh_def xx_update_def Let_def case_prod_beta split: if_splits dest!: mix_static)

lemma UnwrapTop_hellos:
  "length (ch_Ephemeral c) + length (ch_Payload c) < 2 ^ 63 \<Longrightarrow>
     UnwrapTop (WrapTop HSFieldClientHello (ClientHello_Build c)) HSFieldClientHello = Inr (ClientHello_fields c)"
  "length (sh_Ephemeral h) + length (sh_Static h) + length (sh_Payload h) < 2 ^ 63 \<Longrightarrow>
     UnwrapTop (WrapTop HSFieldServerHello (ServerHello_Build h)) HSFieldServerHello = Inr (ServerHello_fields h)"
  "length (cf_Static g) + length (cf_Payload g) < 2 ^ 63 \<Longrightarrow>
     UnwrapTop (WrapTop HSFieldClientFinish (ClientFinish_Build g)) HSFieldClientFinish = Inr (ClientFinish_fields g)"
  using hello_fields_small(1) [of c] hello_fields_small(2) [of h] hello_fields_small(3) [of g] unfolding ClientHello_Build_def ServerHello_Build_def ClientFinish_Build_def
  by (auto intro!: UnwrapTop_WrapTop simp: wapb_fields)

lemma hello_fields_nonempty: "ClientHello_fields c \<noteq> []" "ServerHello_fields h \<noteq> []" "ClientFinish_fields g \<noteq> []"
  by (simp_all add: ClientHello_fields_def ServerHello_fields_def ClientFinish_fields_def builder_defs Let_def)

lemma server_hello_wrapped:
  "length (sh_Ephemeral h) = 32 \<Longrightarrow> sh_Static h \<noteq> [] \<Longrightarrow> length (sh_Ephemeral h) + length (sh_Static h) + length (sh_Payload h) < 2 ^ 63 \<Longrightarrow>
   server_hello (WrapTop HSFieldServerHello (ServerHello_Build h)) = Inr h"
  by (simp add: server_hello_def UnwrapTop_hellos hello_fields_nonempty Let_def)

subsection \<open>The handshake\<close>

text \<open>A transport without failures to a server that draws the ephemeral \<open>se\<close>.\<close>

definition mock_transport :: "Crypto \<Rightarrow> Server \<Rightarrow> bytes \<Rightarrow> bytes \<Rightarrow> transport" where
  "mock_transport C sv header se =
     \<lparr>tr_header = header, tr_send = (\<lambda>_. None),
      tr_recv = (\<lambda>frames. case ServeConn_hello C sv header (Some se) (last frames) of
                            Inl _ \<Rightarrow> Inl TransportFailed | Inr (_, answer) \<Rightarrow> Inr answer)\<rparr>"

definition mirrored :: "'s Session \<Rightarrow> deviceSession \<Rightarrow> bool" where
  "mirrored s ds \<longleftrightarrow> s_send s = Some (ds_recv ds) \<and> s_recv s = Some (ds_send ds)"

text \<open>The server with the device registered and its connection the last session.\<close>

definition new_device :: "Registration \<Rightarrow> Cipher \<Rightarrow> Cipher \<Rightarrow> Server \<Rightarrow> Server \<times> nat" where
  "new_device reg send recv sv =
     (case mock_register reg sv of (sv, reg, known) \<Rightarrow>
        (registerDevice (length (sv_sessions sv)) (sv\<lparr>sv_sessions := sv_sessions sv @
           [\<lparr>ds_reg = reg, ds_resumed = known, ds_send = send, ds_recv = recv, ds_reqCount = 0, ds_closed = False, ds_out = []\<rparr>]\<rparr>),
         length (sv_sessions sv)))"

lemma handshake_with_server:
  assumes C: "C = o_crypto opts" "crypto_ok C" "dh_ok C" "wire_sizes C"
    and len: "length (cr_NoiseKeySeed (credsSnapshot s)) = 32" "length ce = 32" "length (sv_static sv) = 32" "length se = 32"
    and auth: "o_ServerAuth opts = Some auth" "auth (c_pub C (sv_static sv)) (sv_certChain sv) (s_pin s) = (pin, Inr ())"
    and sz: "length (sv_certChain sv) < 2 ^ 62" "length (finishPayload opts s) < 2 ^ 62"
    and st: "\<And>v. \<exists>st'. kv_Set (o_Store opts) (credsKey opts) v (s_store s) = Inr st'"
    and json: "json (finishPayload opts s) = Some reg"
  shows "\<exists>s' hello fin xx answer send recv st'. handshake opts (mock_transport C sv header se) (Some ce) s = (s', Inr ()) \<and>
    s' = s\<lparr>s_sent := s_sent s @ [hello, fin], s_pin := pin,
      s_creds := Some ((credsSnapshot s)\<lparr>cr_ServerStatic := c_pub C (sv_static sv)\<rparr>), s_store := st', s_send := Some send, s_recv := Some recv\<rparr> \<and>
    kv_Set (o_Store opts) (credsKey opts) (o_marshal opts ((credsSnapshot s)\<lparr>cr_ServerStatic := c_pub C (sv_static sv)\<rparr>)) (s_store s) = Inr st' \<and>
    ServeConn_hello C sv header (Some se) hello = Inr (xx, answer) \<and>
    ServeConn_finish C json xx fin sv = Inr (new_device reg recv send sv)"
proof -
  obtain c1 c2 c3 x1 x2 eph seph sct pct csct cpct send recv where xx:
    "ClientHello1 C (Some ce) (NewXXClient C (cr_NoiseKeySeed (credsSnapshot s)) header) = (c1, Inr eph)"
    "ServerHello1 C (Some se) eph (sv_certChain sv) (NewXXServer C (sv_static sv) header) = (x1, Inr (seph, sct, pct))"
    "ReadServerHello C seph sct pct c1 = (c2, Inr (c_pub C (sv_static sv), sv_certChain sv))"
    "WriteClientFinish C (finishPayload opts s) c2 = (c3, Inr (csct, cpct))"
    "AcceptFinish C csct cpct x1 = (x2, Inr (c_pub C (cr_NoiseKeySeed (credsSnapshot s)), finishPayload opts s))"
    "SendCipher C c3 = Inr (send, recv)" "SendCipher C x2 = Inr (recv, send)"
    using xx_agreement [OF C(2,3) len(1,3,2,4), of header "sv_certChain sv" "finishPayload opts s"] by metis
  let ?hello = "WrapTop HSFieldClientHello (ClientHello_Build \<lparr>ch_Ephemeral = eph, ch_Payload = []\<rparr>)"
  let ?answer = "WrapTop HSFieldServerHello (ServerHello_Build \<lparr>sh_Ephemeral = seph, sh_Static = sct, sh_Payload = pct\<rparr>)"
  let ?fin = "WrapTop HSFieldClientFinish (ClientFinish_Build \<lparr>cf_Static = csct, cf_Payload = cpct\<rparr>)"
  have eph: "length eph = 32" using ClientHello1_eph [OF xx(1)] len(2) C(4) by (simp add: wire_sizes_def)
  have seph: "length seph = 32" "sct \<noteq> []" "length sct \<le> 48" "length pct \<le> length (sv_certChain sv) + 16"
    using ServerHello1_sizes [OF xx(2) C(4)] len(3,4) C(4) by (simp_all add: wire_sizes_def NewXXServer_def NewXX_def)
  have c1: "xx_static c1 = cr_NoiseKeySeed (credsSnapshot s)" using xx(1)
    by (auto simp: ClientHello1_def NewXXClient_def NewXX_def xx_update_def)
  have c2: "xx_remoteStatic c2 = c_pub C (sv_static sv)" "xx_static c2 = cr_NoiseKeySeed (credsSnapshot s)"
    using ReadServerHello_static [OF xx(3)] c1 by simp_all
  have fin: "length csct \<le> 48" "length cpct \<le> length (finishPayload opts s) + 16"
    using WriteClientFinish_sizes [OF xx(4) C(4)] c2(2) len(1) by simp_all
  have sh: "ServeConn_hello C sv header (Some se) ?hello = Inr (x1, ?answer)"
    using eph xx(2) by (simp add: ServeConn_hello_def UnwrapTop_hellos hello_fields_nonempty)
  have answer: "server_hello ?answer = Inr \<lparr>sh_Ephemeral = seph, sh_Static = sct, sh_Payload = pct\<rparr>"
    using seph sz(1) by (intro server_hello_wrapped) simp_all
  define creds where "creds = (credsSnapshot s)\<lparr>cr_ServerStatic := c_pub C (sv_static sv)\<rparr>"
  let ?s = "s\<lparr>s_sent := s_sent s @ [?hello], s_pin := pin, s_creds := Some creds\<rparr>"
  obtain st' where st': "kv_Set (o_Store opts) (credsKey opts) (o_marshal opts creds) (s_store s) = Inr st'" using st by blast
  let ?s' = "?s\<lparr>s_store := st', s_sent := s_sent s @ [?hello, ?fin], s_send := Some send, s_recv := Some recv\<rparr>"
  have pay: "finishPayload opts (?s\<lparr>s_store := st'\<rparr>) = finishPayload opts s"
    by (simp add: finishPayload_def credsSnapshot_def creds_def Let_def)
  have cr: "(credsSnapshot (s\<lparr>s_sent := s_sent s @ [?hello], s_pin := pin\<rparr>))\<lparr>cr_ServerStatic := xx_remoteStatic c2\<rparr> = creds"
    by (simp add: creds_def c2(1) credsSnapshot_def)
  have save: "saveCredentials opts (setCredentials creds (s\<lparr>s_sent := s_sent s @ [?hello], s_pin := pin\<rparr>)) = (?s\<lparr>s_store := st'\<rparr>, Inr ())"
    using st' by (simp add: saveCredentials_def setCredentials_def credsSnapshot_def)
  have fh: "finish_handshake opts (mock_transport C sv header se) c2 (s\<lparr>s_sent := s_sent s @ [?hello], s_pin := pin\<rparr>) = (?s', Inr ())"
    unfolding finish_handshake_def Let_def cr save
    using xx(4,6) pay C(1) by (simp add: noise_call_def SendBinary_def mock_transport_def)
  have ah: "answer_hello opts (mock_transport C sv header se) c1 (s\<lparr>s_sent := s_sent s @ [?hello]\<rparr>) = (?s', Inr ())"
    using sh answer xx(3) C(1) auth c2(1) fh
    by (simp add: answer_hello_def noise_call_def authenticate_server_def mock_transport_def)
  have hs: "handshake opts (mock_transport C sv header se) (Some ce) s = (?s', Inr ())"
    using len(1) xx(1) C(1) ah
    by (simp add: handshake_def KeyPairFromSeed_def noise_call_def SendBinary_def mock_transport_def)
  have "ServeConn_finish C json x1 ?fin sv = Inr (new_device reg recv send sv)"
    using fin sz(2) xx(5,7) json
    by (simp add: ServeConn_finish_def UnwrapTop_hellos hello_fields_nonempty new_device_def case_prod_beta Let_def)
  then show ?thesis using hs sh st' unfolding creds_def
    by (intro exI [of _ ?s'] exI [of _ ?hello] exI [of _ ?fin] exI [of _ x1] exI [of _ ?answer] exI [of _ send] exI [of _ recv] exI [of _ st'])
      (simp add: creds_def)
qed

text \<open>The certificate the server draws up passes the production policy for its trust root.\<close>

definition signs :: "ed25519 \<Rightarrow> bytes \<times> (bytes \<Rightarrow> bytes) \<Rightarrow> bool" where
  "signs ed kp \<longleftrightarrow> length (fst kp) = 32 \<and> (\<forall>m. length (snd kp m) = 64 \<and> ed (fst kp) m (snd kp m))"

lemma NewServer_trusted:
  assumes "signs ed root" "signs ed im" "length (c_pub C kp) = 32"
    and "sint (t_sec hourAgo) \<le> sint (t_sec now)" "sint (t_sec now) < sint (t_sec y1)" "sint (t_sec now) < sint (t_sec y2)"
  shows "TrustedRootAuth ed (fst root) now (c_pub C kp) (sv_certChain (NewServer C E dict kp bk root im hourAgo y1 y2)) pin = (pin, Inr ())"
    "length (sv_certChain (NewServer C E dict kp bk root im hourAgo y1 y2)) < 2 ^ 62"
proof -
  let ?leaf = "BuildDetails 7 3 (c_pub C kp) hourAgo y1" and ?im = "BuildDetails 3 0 (fst im) hourAgo y2"
  have chain: "sv_certChain (NewServer C E dict kp bk root im hourAgo y1 y2) = BuildChain ?leaf (snd im ?leaf) ?im (snd root ?im)"
    by (simp add: NewServer_def Let_def)
  have "Verify ed (BuildChain ?leaf (snd im ?leaf) ?im (snd root ?im)) (c_pub C kp) (fst root) now = Inr ()"
    using assms by (subst Verify_built) (simp_all add: signs_def RootSerial_def valid_at_def Unix_of_def)
  then show "TrustedRootAuth ed (fst root) now (c_pub C kp) (sv_certChain (NewServer C E dict kp bk root im hourAgo y1 y2)) pin = (pin, Inr ())"
    by (simp add: TrustedRootAuth_def chain)
  have "length ?leaf \<le> 132" "length ?im \<le> 132" using BuildDetails_length [of 7 3 "c_pub C kp" hourAgo y1]
      BuildDetails_length [of 3 0 "fst im" hourAgo y2] assms by (simp_all add: signs_def)
  moreover have "length (snd im ?leaf) = 64" "length (snd root ?im) = 64" using assms by (simp_all add: signs_def)
  ultimately show "length (sv_certChain (NewServer C E dict kp bk root im hourAgo y1 y2)) < 2 ^ 62"
    using two_fields_length [where a = ?leaf and b = "snd im ?leaf"] two_fields_length [where a = ?im and b = "snd root ?im"]
      two_fields_length [where a = "Build (addBytes 2 (snd im ?leaf) (addBytes 1 ?leaf NewBuilder))"
        and b = "Build (addBytes 2 (snd root ?im) (addBytes 1 ?im NewBuilder))"]
    by (simp add: chain BuildChain_def Let_def)
qed

subsection \<open>Nodes both ways\<close>

text \<open>A run of sends, and what the server's loop hands to its handler on the resulting frames.\<close>

fun send_nodes :: "'s Options \<Rightarrow> transport \<Rightarrow> node list \<Rightarrow> 's Session \<Rightarrow> 's Session \<times> (session_error + unit) list" where
  "send_nodes opts T [] s = (s, [])"
| "send_nodes opts T (n # ns) s =
     (case Send opts T n s of (s, r) \<Rightarrow> case send_nodes opts T ns s of (s, rs) \<Rightarrow> (s, r # rs))"

fun open_nodes :: "Crypto \<Rightarrow> (bytes \<Rightarrow> bytes option) \<Rightarrow> Dictionary \<Rightarrow> bytes list \<Rightarrow> Cipher \<Rightarrow> (dec_error + node) option list" where
  "open_nodes C inflate D [] c = []"
| "open_nodes C inflate D (f # fs) c =
     (case Cipher_Open C f c of
        (c, Inl e) \<Rightarrow> None # open_nodes C inflate D fs c
      | (c, Inr plain) \<Rightarrow> Some (Decode inflate D plain) # open_nodes C inflate D fs c)"

lemma Open_Seal: "crypto_ok C \<Longrightarrow> Cipher_Open C (snd (Cipher_Seal C p c)) c = (fst (Cipher_Seal C p c), Inr p)"
  by (simp add: Cipher_Open_def Cipher_Seal_def crypto_ok_def)

lemma send_nodes_open:
  assumes C: "C = o_crypto opts" "crypto_ok C" "dict_ok (o_Dict opts)" and ns: "\<forall>n \<in> set ns. wire_node n"
    and s: "s_send s = Some c" "s_conn s" and T: "\<And>i. tr_send T i = None"
  shows "\<exists>s' fs. send_nodes opts T ns s = (s', replicate (length ns) (Inr ())) \<and> s_sent s' = s_sent s @ fs \<and>
    open_nodes C inflate (o_Dict opts) fs c = map (\<lambda>n. Some (Inr (norm_node n))) ns"
  using ns s
proof (induction ns arbitrary: s c)
  case (Cons n ns)
  obtain c' ct where seal: "Cipher_Seal C (MarshalDict n (o_Dict opts)) c = (c', ct)" by force
  let ?s = "s\<lparr>s_send := Some c', s_sent := s_sent s @ [ct]\<rparr>"
  have send: "Send opts T n s = (?s, Inr ())" using Cons.prems(2,3) seal T C(1) by (simp add: Send_def SendBinary_def)
  obtain s' fs where ih: "send_nodes opts T ns ?s = (s', replicate (length ns) (Inr ()))" "s_sent s' = s_sent ?s @ fs"
    "open_nodes C inflate (o_Dict opts) fs c' = map (\<lambda>n. Some (Inr (norm_node n))) ns"
    using Cons.IH [of ?s c'] Cons.prems by auto
  have "Cipher_Open C ct c = (c', Inr (MarshalDict n (o_Dict opts)))"
    using Open_Seal [OF C(2), of "MarshalDict n (o_Dict opts)" c] seal by simp
  moreover have "Decode inflate (o_Dict opts) (MarshalDict n (o_Dict opts)) = Inr (norm_node n)"
    using Decode_MarshalDict [OF C(3), of n inflate] Cons.prems(1) by auto
  ultimately show ?case using send ih by (intro exI [of _ s'] exI [of _ "ct # fs"]) simp
qed simp

text \<open>Text attributes survive the wire.\<close>

lemma map_of_countable:
  assumes "distinct (map fst (Attrs n))"
  shows "map_of (countableAttrs n) k = (case map_of (Attrs n) k of Some v \<Rightarrow> if countable_val v then Some v else None | None \<Rightarrow> None)"
proof -
  have "map_of (countableAttrs n) k = Some v \<longleftrightarrow> map_of (Attrs n) k = Some v \<and> countable_val v" for v
    using assms countableAttrs_distinct [OF assms] by (auto simp: map_of_eq_Some_iff countableAttrs_def)
  note iff = this
  show ?thesis
  proof (cases "map_of (Attrs n) k")
    case None
    then have "map_of (countableAttrs n) k \<noteq> Some v" for v by (simp add: iff)
    then show ?thesis using None by (metis option.case(1) option.exhaust)
  next
    case (Some v)
    then have "map_of (countableAttrs n) k = Some w \<longleftrightarrow> w = v \<and> countable_val v" for w by (auto simp: iff)
    then show ?thesis using Some by (cases "countable_val v") (simp_all, metis not_None_eq)
  qed
qed

lemma map_of_map_snd: "map_of (map (\<lambda>kv. (fst kv, f (snd kv))) m) k = map_option f (map_of m k)"
  by (induction m) auto

lemma StringAttr_norm:
  assumes "distinct (map fst (Attrs n))" "Tag n \<noteq> ''0''"
  shows "map_of (Attrs n) k = Some (VStr s) \<Longrightarrow> s \<noteq> '''' \<Longrightarrow> StringAttr (norm_node n) k = Some s"
    "map_of (Attrs n) k = None \<Longrightarrow> StringAttr (norm_node n) k = None"
proof -
  have m: "map_of (Attrs (norm_node n)) k = map_option norm_val (map_of (countableAttrs n) k)"
    using assms(2) by (simp add: norm_node.simps map_of_map_snd)
  show "map_of (Attrs n) k = Some (VStr s) \<Longrightarrow> s \<noteq> '''' \<Longrightarrow> StringAttr (norm_node n) k = Some s"
    using m by (simp add: map_of_countable [OF assms(1)] countable_val_def StringAttr_def norm_str_def blob_val_def)
  show "map_of (Attrs n) k = None \<Longrightarrow> StringAttr (norm_node n) k = None"
    using m by (simp add: map_of_countable [OF assms(1)] StringAttr_def)
qed

lemma Tag_norm: "Tag n \<noteq> ''0'' \<Longrightarrow> Tag (norm_node n) = Tag n"
  by (simp add: norm_node.simps)

lemma wire_node_strs:
  assumes "Tag n \<noteq> ''0''" "length (Tag n) < 100" "distinct (map fst (Attrs n))" "length (Attrs n) < 100"
    and "\<forall>(k, v) \<in> set (Attrs n). length k < 100 \<and> (\<exists>s. v = VStr s \<and> length s < 2 ^ 30)" "wire_val (Content n)"
  shows "wire_node n"
proof -
  have "set (countableAttrs n) \<subseteq> set (Attrs n)" "length (countableAttrs n) \<le> length (Attrs n)"
    by (auto simp: countableAttrs_def)
  then show ?thesis using assms by (fastforce simp: wire_node.simps [of n])
qed

lemma wire_connectIQ:
  assumes "length i < 2 ^ 30" "length (o_Platform opts) < 2 ^ 30" "length (o_DeviceName opts) < 2 ^ 30"
  shows "wire_node (connectIQ_node opts i)"
proof -
  have dev: "wire_node (Node ''device'' [(''platform'', VStr (o_Platform opts)), (''device_name'', VStr (o_DeviceName opts))] VNil)"
    using assms by (intro wire_node_strs) auto
  have "wire_node (Node ''config'' [] (VNodes [Node ''device'' [(''platform'', VStr (o_Platform opts)), (''device_name'', VStr (o_DeviceName opts))] VNil]))"
    using dev by (intro wire_node_strs) auto
  then show ?thesis using assms unfolding connectIQ_node_def by (intro wire_node_strs) auto
qed

definition iq_result :: "string \<Rightarrow> string \<Rightarrow> node" where
  "iq_result i account = Node ''iq'' [(''id'', VStr i), (''type'', VStr ''result''), (''account'', VStr account)] VNil"

lemma wire_iq_result: "length i < 2 ^ 30 \<Longrightarrow> length account < 2 ^ 30 \<Longrightarrow> wire_node (iq_result i account)"
  unfolding iq_result_def by (intro wire_node_strs) auto

lemma norm_iq_result:
  assumes "i \<noteq> ''''" "account \<noteq> ''''"
  shows "Tag (norm_node (iq_result i account)) = ''iq''" "answers (norm_node (iq_result i account)) = Some i"
    "StringAttr (norm_node (iq_result i account)) ''account'' = Some account"
proof -
  have a: "StringAttr (norm_node (iq_result i account)) ''id'' = Some i" "StringAttr (norm_node (iq_result i account)) ''type'' = Some ''result''"
    by (rule StringAttr_norm(1); use assms in \<open>simp add: iq_result_def\<close>)+
  then show "answers (norm_node (iq_result i account)) = Some i" using assms by (simp add: answers_def)
  show "StringAttr (norm_node (iq_result i account)) ''account'' = Some account"
    by (rule StringAttr_norm(1); use assms in \<open>simp add: iq_result_def\<close>)
  show "Tag (norm_node (iq_result i account)) = ''iq''" by (simp add: Tag_norm iq_result_def)
qed

subsection \<open>Going online\<close>

text \<open>The whole of it: start, dial, handshake, the connect request through the server's loop, its answer through the session's.\<close>

definition connect_run :: "'s Options \<Rightarrow> Server \<Rightarrow> E2eCrypto \<Rightarrow> (bytes \<Rightarrow> Registration option) \<Rightarrow> session_error + Credentials \<Rightarrow>
    bytes \<Rightarrow> bytes \<Rightarrow> bytes \<Rightarrow> string \<Rightarrow> int \<Rightarrow> 's Session \<Rightarrow> ('s Session \<times> Server \<times> nat) option" where
  "connect_run opts sv E json gen header ce se fresh nanos s =
     (let C = o_crypto opts;
          s = fst (Start opts gen s);
          s = task_dial opts False True s;
          s = task_handshake opts (mock_transport C sv header se) False (Some ce) fresh s
      in case s_sent s of
           [hello, fin, iq] \<Rightarrow>
             (case ServeConn_hello C sv header (Some se) hello of Inl _ \<Rightarrow> None | Inr (xx, _) \<Rightarrow>
              case ServeConn_finish C json xx fin sv of Inl _ \<Rightarrow> None | Inr (sv, d) \<Rightarrow>
              case sessionLoop C E (o_inflate opts) nanos d iq sv of
                (sv, Inr False) \<Rightarrow>
                  (case ds_out (sv_sessions sv ! d) of
                     [frame] \<Rightarrow>
                       (case Request_wait GotResponse fresh (frameConsumer opts (serveFrames opts False (Inr frame) s)) of
                          Some (s, res) \<Rightarrow> Some (task_connected opts False res s, sv, d)
                        | None \<Rightarrow> None)
                   | _ \<Rightarrow> None)
              | _ \<Rightarrow> None)
         | _ \<Rightarrow> None)"

lemma account_nonempty: "mock_register reg sv = (sv', reg', known) \<Longrightarrow> rg_AccountJID reg' \<noteq> ''''"
  by (auto simp: mock_register_def Let_def split: if_splits)

text \<open>The server's answer to the connect request.\<close>

lemma server_connect:
  assumes C: "crypto_ok C" "dict_ok (sv_Dict sv)" and n: "wire_node n" "Tag n = ''iq''" "distinct (map fst (Attrs n))"
      "map_of (Attrs n) ''id'' = Some (VStr i)" "i \<noteq> ''''" "map_of (Attrs n) ''type'' = Some (VStr ''set'')"
    and sv: "sv_dropAfterRequests sv \<le> 0" "d < length (sv_sessions sv)" "ds_recv (sv_sessions sv ! d) = c" "ds_out (sv_sessions sv ! d) = []"
      "\<not> ds_closed (sv_sessions sv ! d)"
    and ct: "Cipher_Seal C (MarshalDict n (sv_Dict sv)) c = (c', ct)"
    and bk: "Cipher_Seal C (MarshalDict (iq_result i (rg_AccountJID (ds_reg (sv_sessions sv ! d)))) (sv_Dict sv)) (ds_send (sv_sessions sv ! d)) = (e', fr)"
  shows "\<exists>sv'. sessionLoop C E inflate nanos d ct sv = (sv', Inr False) \<and> sv_sessions sv' ! d = (sv_sessions sv ! d)\<lparr>ds_recv := c',
    ds_reqCount := ds_reqCount (sv_sessions sv ! d) + 1, ds_send := e', ds_out := [fr]\<rparr> \<and> d < length (sv_sessions sv')"
proof -
  have op: "Cipher_Open C ct (ds_recv (sv_sessions sv ! d)) = (c', Inr (MarshalDict n (sv_Dict sv)))"
    using Open_Seal [OF C(1), of "MarshalDict n (sv_Dict sv)" c] ct sv(3) by simp
  have dec: "Decode inflate (sv_Dict sv) (MarshalDict n (sv_Dict sv)) = Inr (norm_node n)"
    using Decode_MarshalDict [OF C(2) n(1), of inflate] by auto
  have a: "MustStringAttr (norm_node n) ''id'' = i" "MustStringAttr (norm_node n) ''type'' = ''set''" "Tag (norm_node n) = ''iq''"
    using StringAttr_norm(1) [OF n(3) _ n(4,5)] StringAttr_norm(1) [OF n(3) _ n(6)] n(2) by (simp_all add: MustStringAttr_def Tag_norm)
  let ?sv = "upd_session d (\<lambda>ds. ds\<lparr>ds_reqCount := ds_reqCount ds + 1\<rparr>) (upd_session d (\<lambda>ds. ds\<lparr>ds_recv := c'\<rparr>) sv)"
  let ?sv' = "push C d (iq_result i (rg_AccountJID (ds_reg (sv_sessions ?sv ! d)))) ?sv"
  have "handle C E nanos d (norm_node n) (upd_session d (\<lambda>ds. ds\<lparr>ds_recv := c'\<rparr>) sv) = (?sv', False)"
    using a sv(1) by (simp add: handle_def handle_iq_def iq_result_def upd_session_def Let_def)
  then have "sessionLoop C E inflate nanos d ct sv = (?sv', Inr False)"
    using op dec by (simp add: sessionLoop_def upd_session_def)
  moreover have "sv_sessions ?sv' ! d = (sv_sessions sv ! d)\<lparr>ds_recv := c',
      ds_reqCount := ds_reqCount (sv_sessions sv ! d) + 1, ds_send := e', ds_out := [fr]\<rparr> \<and> d < length (sv_sessions ?sv')"
    using sv bk by (simp add: push_def upd_session_def)
  ultimately show ?thesis by blast
qed

lemma ses_move_ok:
  assumes "d \<in> set (table (m_state (s_mach s)))"
  obtains m where "ses_move d r s = (s\<lparr>s_mach := m\<rparr>, None)" "m_state m = d"
proof -
  obtain m e where mv: "Move (s_now s) d r (s_mach s) = (m, e)" by force
  then have "e = None" "m_state m = d" using assms Move_state [of "s_now s" d r "s_mach s"]
    by (auto simp: Move_def canLocked_def split: if_splits)
  then show thesis using mv by (intro that [of m]) (simp_all add: ses_move_def)
qed

text \<open>The request of the connect IQ, on a session that has its ciphers.\<close>

lemma Request_ok:
  assumes "s_send s = Some c" "s_conn s" "s_requests s = []" "\<And>i. tr_send T i = None" "StringAttr n ''id'' = Some i" "i \<noteq> ''''"
    and "Cipher_Seal (o_crypto opts) (MarshalDict n (o_Dict opts)) c = (c', ct)"
  shows "Request opts T fresh n s = (s\<lparr>s_requests := [(i, None)], s_send := Some c', s_sent := s_sent s @ [ct]\<rparr>, Inr i)"
proof -
  have "with_id fresh n = n" "request_id fresh n = i" using assms(5,6) by (cases i; simp add: with_id_def request_id_def)+
  then show ?thesis using assms by (simp add: Request_def Send_def SendBinary_def Let_def)
qed

text \<open>The session's side of the answer.\<close>

lemma session_connect:
  assumes C: "crypto_ok (o_crypto opts)" "dict_ok (o_Dict opts)" and n: "wire_node (iq_result i account)" "i \<noteq> ''''" "account \<noteq> ''''"
    and s: "s_requests s = [(i, None)]" "s_frames s = []" "s_recv s = Some c"
    and fr: "Cipher_Seal (o_crypto opts) (MarshalDict (iq_result i account) (o_Dict opts)) c = (c', fr)"
  shows "Request_wait GotResponse i (frameConsumer opts (serveFrames opts False (Inr fr) s))
    = Some (s\<lparr>s_lastIn := s_now s, s_recv := Some c', s_requests := []\<rparr>, Inr (norm_node (iq_result i account)))"
proof -
  have op: "Cipher_Open (o_crypto opts) fr c = (c', Inr (MarshalDict (iq_result i account) (o_Dict opts)))"
    using Open_Seal [OF C(1), of "MarshalDict (iq_result i account) (o_Dict opts)" c] fr by simp
  have dec: "Decode (o_inflate opts) (o_Dict opts) (MarshalDict (iq_result i account) (o_Dict opts)) = Inr (norm_node (iq_result i account))"
    using Decode_MarshalDict [OF C(2) n(1), of "o_inflate opts"] by auto
  have "frameConsumer opts (serveFrames opts False (Inr fr) s)
      = s\<lparr>s_lastIn := s_now s, s_recv := Some c', s_requests := [(i, Some (norm_node (iq_result i account)))]\<rparr>"
    using s op dec norm_iq_result [OF n(2,3)] by (simp add: serveFrames_def frameConsumer_def markInbound_def dispatch_def)
  then show ?thesis by (simp add: Request_wait_def)
qed

lemma Start_dial:
  assumes "New opts True st now = Inr s" "loadCredentials opts gen s = (s\<lparr>s_creds := Some cr, s_store := st1\<rparr>, Inr ())"
  obtains m ev where "task_dial opts False True (fst (Start opts gen s))
      = s\<lparr>s_creds := Some cr, s_store := st1, s_mach := m, s_events := ev, s_conn := True, s_task := THandshake\<rparr>"
    "m_state m = Connecting" "s_task (fst (Start opts gen s)) = TDial"
proof -
  let ?s = "s\<lparr>s_creds := Some cr, s_store := st1\<rparr>"
  have s: "m_state (s_mach s) = Stopped" "\<not> s_stopped s" "\<not> s_stopping s" using assms(1) by (auto simp: New_def NewMachine_def split: if_splits)
  obtain m1 where m1: "ses_move Starting ''start'' ?s = (?s\<lparr>s_mach := m1\<rparr>, None)" "m_state m1 = Starting"
    using s(1) by (auto simp: table_def intro: ses_move_ok [of Starting ?s "''start''"])
  let ?s1 = "(emit_state (?s\<lparr>s_mach := m1\<rparr>))\<lparr>s_task := TDial\<rparr>"
  obtain m2 where m2: "ses_move Connecting ''dial'' ?s1 = (?s1\<lparr>s_mach := m2\<rparr>, None)" "m_state m2 = Connecting"
    using m1(2) by (auto simp: table_def emit_state_def intro: ses_move_ok [of Connecting ?s1 "''dial''"])
  have "Start opts gen s = (?s1, Inr ())" using assms(2) s m1 by (simp add: Start_def)
  then show thesis using m2 that [where m = m2 and ev = "s_events s @ [(ConnectionState, DState Starting), (ConnectionState, DState Connecting)]"] m1(2)
    by (simp add: task_dial_def emit_state_def emit_def Let_def)
qed

definition account_of :: "Registration \<Rightarrow> Server \<Rightarrow> string" where
  "account_of reg sv = rg_AccountJID (fst (snd (mock_register reg sv)))"

lemma new_device_session:
  assumes "new_device reg send recv sv = (sv', d)"
  shows "d < length (sv_sessions sv')" "ds_recv (sv_sessions sv' ! d) = recv" "ds_send (sv_sessions sv' ! d) = send"
    "ds_out (sv_sessions sv' ! d) = []" "\<not> ds_closed (sv_sessions sv' ! d)" "rg_AccountJID (ds_reg (sv_sessions sv' ! d)) = account_of reg sv"
    "sv_Dict sv' = sv_Dict sv" "sv_dropAfterRequests sv' = sv_dropAfterRequests sv"
  using assms by (auto simp: new_device_def mock_register_def registerDevice_def account_of_def Let_def)

text \<open>The handshake station of the task: ciphers shared with the server's new device, the connect request sent.\<close>

lemma handshake_station:
  assumes C: "C = o_crypto opts" "crypto_ok C" "dh_ok C" "wire_sizes C"
    and s: "m_state (s_mach s) = Connecting" "s_creds s = Some cr" "s_conn s" "s_requests s = []" "s_sent s = []" "s_frames s = []"
    and len: "length (cr_NoiseKeySeed cr) = 32" "length ce = 32" "length (sv_static sv) = 32" "length se = 32"
    and auth: "o_ServerAuth opts = Some auth" "\<And>pin. auth (c_pub C (sv_static sv)) (sv_certChain sv) pin = (pin, Inr ())"
    and sz: "length (sv_certChain sv) < 2 ^ 62" "length (finishPayload opts s) < 2 ^ 62"
    and store: "\<And>k v st. \<exists>st'. kv_Set (o_Store opts) k v st = Inr st'"
    and json: "json (finishPayload opts s) = Some reg" and i: "i \<noteq> ''''"
  obtains s' hello fin iq xx answer send send' recv where
    "task_handshake opts (mock_transport C sv header se) False (Some ce) i s = s'" "s_sent s' = [hello, fin, iq]"
    "ServeConn_hello C sv header (Some se) hello = Inr (xx, answer)" "ServeConn_finish C json xx fin sv = Inr (new_device reg recv send sv)"
    "Cipher_Seal C (MarshalDict (connectIQ_node opts i) (o_Dict opts)) send = (send', iq)"
    "s_send s' = Some send'" "s_recv s' = Some recv" "s_requests s' = [(i, None)]" "s_frames s' = []" "m_state (s_mach s') = Syncing"
    "s_task s' = TRequest i" "s_conn s'" "s_serving s'" "s_consuming s'" "s_creds s' = Some (cr\<lparr>cr_ServerStatic := c_pub C (sv_static sv)\<rparr>)"
proof -
  obtain m1 where m1: "ses_move Authenticating ''noise'' s = (s\<lparr>s_mach := m1\<rparr>, None)" "m_state m1 = Authenticating"
    using s(1) by (auto simp: table_def intro: ses_move_ok [of Authenticating s "''noise''"])
  define s1 where "s1 = emit_state (s\<lparr>s_mach := m1\<rparr>)"
  have s1: "s_creds s1 = Some cr" "s_sent s1 = []" "credsSnapshot s1 = cr" "finishPayload opts s1 = finishPayload opts s"
    using s by (simp_all add: s1_def emit_state_def emit_def credsSnapshot_def finishPayload_def)
  obtain s2 hello fin xx answer send recv st' where h: "handshake opts (mock_transport C sv header se) (Some ce) s1 = (s2, Inr ())"
    "s2 = s1\<lparr>s_sent := s_sent s1 @ [hello, fin], s_pin := s_pin s1,
      s_creds := Some ((credsSnapshot s1)\<lparr>cr_ServerStatic := c_pub C (sv_static sv)\<rparr>), s_store := st', s_send := Some send, s_recv := Some recv\<rparr>"
    "ServeConn_hello C sv header (Some se) hello = Inr (xx, answer)" "ServeConn_finish C json xx fin sv = Inr (new_device reg recv send sv)"
    using handshake_with_server [OF C _ len(2-4) auth(1,2) sz(1), of s1 json reg header] len(1) s1 sz(2) store json by auto
  have "m_state (s_mach s2) = Authenticating" by (simp add: h(2) s1_def emit_state_def emit_def m1)
  then obtain m2 where m2: "ses_move Syncing ''connect-iq'' s2 = (s2\<lparr>s_mach := m2\<rparr>, None)" "m_state m2 = Syncing"
    by (auto simp: table_def intro: ses_move_ok [of Syncing s2 "''connect-iq''"])
  let ?s3 = "(emit_state (s2\<lparr>s_mach := m2\<rparr>))\<lparr>s_serving := True, s_consuming := True\<rparr>"
  obtain send' iq where seal: "Cipher_Seal C (MarshalDict (connectIQ_node opts i) (o_Dict opts)) send = (send', iq)" by force
  have "StringAttr (connectIQ_node opts i) ''id'' = Some i" by (simp add: connectIQ_node_def StringAttr_def)
  then have q: "Request opts (mock_transport C sv header se) i (connectIQ_node opts i) ?s3
      = (?s3\<lparr>s_requests := [(i, None)], s_send := Some send', s_sent := s_sent ?s3 @ [iq]\<rparr>, Inr i)"
    using seal i s(3,4) C(1) by (intro Request_ok) (simp_all add: h(2) s1_def emit_state_def emit_def mock_transport_def)
  show thesis
  proof (rule that [OF refl _ h(3,4) seal])
  qed (use m1 m2 h(1) q s s1 in \<open>simp_all add: task_handshake_def s1_def [symmetric] Let_def\<close>,
      simp_all add: h(2) s1_def emit_state_def emit_def s m2 credsSnapshot_def)
qed

text \<open>The last station: the answer to the connect request puts the session online and stores its account.\<close>

lemma connected_station:
  assumes "m_state (s_mach s) = Syncing" "StringAttr resp ''account'' = Some account" "account \<noteq> ''''"
    and "\<And>k v st. \<exists>st'. kv_Set (o_Store opts) k v st = Inr st'"
  obtains s' where "task_connected opts False (Inr resp) s = s'" "m_state (s_mach s') = Online" "s_online s'" "s_task s' = TOnline"
    "s_conn s' = s_conn s" "s_send s' = s_send s" "s_recv s' = s_recv s" "s_requests s' = s_requests s"
    "credsSnapshot s' = (credsSnapshot s)\<lparr>cr_AccountJID := account\<rparr>" "s_frames s' = s_frames s" "s_serving s' = s_serving s"
    "s_consuming s' = s_consuming s"
proof -
  let ?c = "(credsSnapshot s)\<lparr>cr_AccountJID := account\<rparr>"
  obtain st' where "kv_Set (o_Store opts) (credsKey opts) (o_marshal opts ?c) (s_store s) = Inr st'" using assms(4) by blast
  then have iq: "connectIQ opts resp s = s\<lparr>s_creds := Some ?c, s_store := st'\<rparr>"
    using assms(2,3) by (simp add: connectIQ_def saveCredentials_def setCredentials_def credsSnapshot_def)
  obtain m where m: "ses_move Online ''connected'' (s\<lparr>s_creds := Some ?c, s_store := st'\<rparr>)
      = (s\<lparr>s_creds := Some ?c, s_store := st', s_mach := m\<rparr>, None)" "m_state m = Online"
    using assms(1) by (auto simp: table_def intro: ses_move_ok [of Online "s\<lparr>s_creds := Some ?c, s_store := st'\<rparr>" "''connected''"])
  show thesis
    by (rule that [OF refl]) (simp_all add: task_connected_def iq m emit_state_def emit_def markInbound_def Let_def, simp add: credsSnapshot_def)
qed

lemma connect_steps:
  assumes s: "s_task (fst (Start opts gen s)) = TDial" "task_dial opts False True (fst (Start opts gen s)) = s1"
      "s_task s1 = THandshake" "task_handshake opts T False rand i s1 = s2"
    and s2: "s_serving s2" "s_consuming s2" "s_task s2 = TRequest i"
    and w: "Request_wait w i (frameConsumer opts (serveFrames opts False (Inr frame) s2)) = Some (s3, res)"
  shows "(ses_step opts)\<^sup>*\<^sup>* (fst (Start opts gen s)) (task_connected opts False res s3)"
proof -
  let ?sf = "serveFrames opts False (Inr frame) s2" and ?fc = "frameConsumer opts (serveFrames opts False (Inr frame) s2)"
  have "(ses_step opts)\<^sup>*\<^sup>* (fst (Start opts gen s)) s1" using ses_step.dial [OF s(1), of opts False True] s(2) by auto
  also have "ses_step opts s1 s2" using ses_step.hand [OF s(3)] s(4) by metis
  also have "ses_step opts s2 ?sf" by (rule ses_step.serve [OF s2(1)])
  also have "ses_step opts ?sf ?fc" using s2(2) by (intro ses_step.consume) (simp add: serveFrames_def markInbound_def Let_def)
  also have "s_task ?fc = TRequest i"
    using calm_frameConsumer [of ?sf opts] calm_serveFrames [of s2 opts False "Inr frame"] s2(3) by (simp add: calm_def)
  then have "ses_step opts ?fc (task_connected opts False res s3)" by (rule ses_step.connect [OF _ w])
  finally show ?thesis .
qed

lemma reach_steps: "(ses_step opts)\<^sup>*\<^sup>* s s' \<Longrightarrow> ses_reach opts s \<Longrightarrow> ses_reach opts s'"
  by (induction rule: rtranclp_induct) (auto intro: ses_reach.more)

lemma Start_reach: "New opts dialer st now = Inr s \<Longrightarrow> ses_reach opts (fst (Start opts gen s))"
proof -
  assume n: "New opts dialer st now = Inr s"
  then have "s_task s = TNone" by (auto simp: New_def split: if_splits)
  then show ?thesis by (rule ses_reach.more [OF ses_reach.fresh [OF n] ses_step.start])
qed

text \<open>No request pending, no frame queued, both loops running.\<close>

definition idle :: "'s Session \<Rightarrow> bool" where
  "idle s \<longleftrightarrow> s_requests s = [] \<and> s_frames s = [] \<and> s_serving s \<and> s_consuming s"

lemma go_online:
  assumes N: "New opts True st now = Inr s" "loadCredentials opts gen s = (s\<lparr>s_creds := Some cr, s_store := st1\<rparr>, Inr ())"
    and C: "C = o_crypto opts" "crypto_ok C" "dh_ok C" "wire_sizes C" and D: "dict_ok (o_Dict opts)" "sv_Dict sv = o_Dict opts"
    and len: "length (cr_NoiseKeySeed cr) = 32" "length ce = 32" "length (sv_static sv) = 32" "length se = 32"
    and auth: "o_ServerAuth opts = Some auth" "\<And>pin. auth (c_pub C (sv_static sv)) (sv_certChain sv) pin = (pin, Inr ())"
    and sz: "length (sv_certChain sv) < 2 ^ 62" "length (finishPayload opts (s\<lparr>s_creds := Some cr\<rparr>)) < 2 ^ 62"
    and store: "\<And>k v st. \<exists>st'. kv_Set (o_Store opts) k v st = Inr st'"
    and json: "json (finishPayload opts (s\<lparr>s_creds := Some cr\<rparr>)) = Some reg"
    and tx: "fresh \<noteq> ''''" "length fresh < 2 ^ 30" "length (o_Platform opts) < 2 ^ 30" "length (o_DeviceName opts) < 2 ^ 30"
      "length (account_of reg sv) < 2 ^ 30"
    and dr: "sv_dropAfterRequests sv \<le> 0"
  shows "\<exists>s' sv' d. connect_run opts sv E json gen header ce se fresh nanos s = Some (s', sv', d) \<and> m_state (s_mach s') = Online \<and>
    s_online s' \<and> s_task s' = TOnline \<and> s_conn s' \<and> d < length (sv_sessions sv') \<and> mirrored s' (sv_sessions sv' ! d) \<and>
    cr_ServerStatic (credsSnapshot s') = c_pub C (sv_static sv) \<and> cr_AccountJID (credsSnapshot s') = account_of reg sv \<and>
    rg_AccountJID (ds_reg (sv_sessions sv' ! d)) = account_of reg sv \<and> idle s' \<and> (ses_step opts)\<^sup>*\<^sup>* (fst (Start opts gen s)) s' \<and> ses_reach opts s'"
proof -
  obtain m ev where dial: "task_dial opts False True (fst (Start opts gen s))
      = s\<lparr>s_creds := Some cr, s_store := st1, s_mach := m, s_events := ev, s_conn := True, s_task := THandshake\<rparr>" "m_state m = Connecting"
    "s_task (fst (Start opts gen s)) = TDial"
    by (rule Start_dial [OF N])
  define s1 where "s1 = s\<lparr>s_creds := Some cr, s_store := st1, s_mach := m, s_events := ev, s_conn := True, s_task := THandshake\<rparr>"
  have s1: "m_state (s_mach s1) = Connecting" "s_creds s1 = Some cr" "s_conn s1" "s_requests s1 = []" "s_sent s1 = []" "s_frames s1 = []"
    "finishPayload opts s1 = finishPayload opts (s\<lparr>s_creds := Some cr\<rparr>)"
    using N(1) dial(2) by (auto simp: s1_def New_def finishPayload_def credsSnapshot_def split: if_splits)
  obtain s2 hello fin iq xx answer send send' recv where
    h: "task_handshake opts (mock_transport C sv header se) False (Some ce) fresh s1 = s2" "s_sent s2 = [hello, fin, iq]"
    "ServeConn_hello C sv header (Some se) hello = Inr (xx, answer)" "ServeConn_finish C json xx fin sv = Inr (new_device reg recv send sv)"
    "Cipher_Seal C (MarshalDict (connectIQ_node opts fresh) (o_Dict opts)) send = (send', iq)"
    "s_send s2 = Some send'" "s_recv s2 = Some recv" "s_requests s2 = [(fresh, None)]" "s_frames s2 = []" "m_state (s_mach s2) = Syncing"
    "s_task s2 = TRequest fresh" "s_conn s2" "s_serving s2" "s_consuming s2" "s_creds s2 = Some (cr\<lparr>cr_ServerStatic := c_pub C (sv_static sv)\<rparr>)"
    using handshake_station [OF C s1(1-6) len auth sz(1) _ store _ tx(1), of json reg header] sz(2) json s1(7) by metis
  obtain sv1 d where nd: "new_device reg recv send sv = (sv1, d)" by force
  note dev = new_device_session [OF nd]
  have acct: "account_of reg sv \<noteq> ''''" using account_nonempty by (metis account_of_def prod.collapse)
  obtain recv' frame where bk: "Cipher_Seal C (MarshalDict (iq_result fresh (account_of reg sv)) (o_Dict opts)) recv = (recv', frame)" by force
  have wn: "wire_node (connectIQ_node opts fresh)" "wire_node (iq_result fresh (account_of reg sv))"
    using tx by (simp_all add: wire_connectIQ wire_iq_result)
  have at: "Tag (connectIQ_node opts fresh) = ''iq''" "distinct (map fst (Attrs (connectIQ_node opts fresh)))"
    "map_of (Attrs (connectIQ_node opts fresh)) ''id'' = Some (VStr fresh)"
    "map_of (Attrs (connectIQ_node opts fresh)) ''type'' = Some (VStr ''set'')"
    by (simp_all add: connectIQ_node_def)
  obtain sv2 where sl: "sessionLoop C E (o_inflate opts) nanos d iq sv1 = (sv2, Inr False)"
    "sv_sessions sv2 ! d = (sv_sessions sv1 ! d)\<lparr>ds_recv := send', ds_reqCount := ds_reqCount (sv_sessions sv1 ! d) + 1, ds_send := recv', ds_out := [frame]\<rparr>"
    "d < length (sv_sessions sv2)"
    using server_connect [OF C(2) _ wn(1) at(1-3) tx(1) at(4) _ dev(1,2,4,5), of send' iq recv' frame E "o_inflate opts" nanos] D dr dev h(5) bk
    by auto
  define s3 where "s3 = s2\<lparr>s_lastIn := s_now s2, s_recv := Some recv', s_requests := []\<rparr>"
  have w: "Request_wait GotResponse fresh (frameConsumer opts (serveFrames opts False (Inr frame) s2))
      = Some (s3, Inr (norm_node (iq_result fresh (account_of reg sv))))"
    unfolding s3_def using C D(1) wn(2) tx(1) acct h(7-9) bk by (intro session_connect) simp_all
  have "m_state (s_mach s3) = Syncing" by (simp add: s3_def h(10))
  then obtain s4 where c: "task_connected opts False (Inr (norm_node (iq_result fresh (account_of reg sv)))) s3 = s4"
    "m_state (s_mach s4) = Online" "s_online s4" "s_task s4 = TOnline"
    "s_conn s4 = s_conn s3" "s_send s4 = s_send s3" "s_recv s4 = s_recv s3" "s_requests s4 = s_requests s3"
    "credsSnapshot s4 = (credsSnapshot s3)\<lparr>cr_AccountJID := account_of reg sv\<rparr>" "s_frames s4 = s_frames s3" "s_serving s4 = s_serving s3"
    "s_consuming s4 = s_consuming s3"
    using connected_station [OF _ norm_iq_result(3) [OF tx(1) acct] acct store] by metis
  have "connect_run opts sv E json gen header ce se fresh nanos s = Some (s4, sv2, d)"
    using dial(1) h(1-4) nd sl w c(1) C(1) by (simp add: connect_run_def s1_def Let_def)
  moreover have "mirrored s4 (sv_sessions sv2 ! d)" using c(6,7) sl(2) h(6) by (simp add: mirrored_def s3_def)
  moreover have steps: "(ses_step opts)\<^sup>*\<^sup>* (fst (Start opts gen s)) s4"
    unfolding c(1) [symmetric] by (rule connect_steps [OF dial(3) dial(1) [folded s1_def] _ h(1) h(13,14,11) w]) (simp add: s1_def)
  moreover have "ses_reach opts s4" by (rule reach_steps [OF steps Start_reach [OF N(1)]])
  ultimately show ?thesis using c sl dev h(9,12-15) by (simp add: s3_def credsSnapshot_def idle_def)
qed

subsection \<open>Pushed nodes\<close>

lemma handle_child_frame:
  "handle_child n (s\<lparr>s_recv := r, s_lastIn := t\<rparr>) = (handle_child n s)\<lparr>s_recv := r, s_lastIn := t\<rparr>"
  "s_now (handle_child n s) = s_now s" "s_frames (handle_child n s) = s_frames s"
  "s_recv (handle_child n s) = s_recv s" "s_lastIn (handle_child n s) = s_lastIn s"
  by (simp_all add: handle_child_def emit_state_def emit_def ses_move_def Let_def split: prod.split)

lemma handleInband_frame:
  "handleInband n (s\<lparr>s_recv := r, s_lastIn := t\<rparr>) = (handleInband n s)\<lparr>s_recv := r, s_lastIn := t\<rparr>"
  "s_now (handleInband n s) = s_now s" "s_frames (handleInband n s) = s_frames s"
  "s_recv (handleInband n s) = s_recv s" "s_lastIn (handleInband n s) = s_lastIn s"
proof -
  have "fold handle_child cs (s\<lparr>s_recv := r, s_lastIn := t\<rparr>) = (fold handle_child cs s)\<lparr>s_recv := r, s_lastIn := t\<rparr> \<and>
      s_now (fold handle_child cs s) = s_now s \<and> s_frames (fold handle_child cs s) = s_frames s \<and>
      s_recv (fold handle_child cs s) = s_recv s \<and> s_lastIn (fold handle_child cs s) = s_lastIn s" for cs
    by (induction cs arbitrary: s) (simp_all add: handle_child_frame)
  then show "handleInband n (s\<lparr>s_recv := r, s_lastIn := t\<rparr>) = (handleInband n s)\<lparr>s_recv := r, s_lastIn := t\<rparr>"
    "s_now (handleInband n s) = s_now s" "s_frames (handleInband n s) = s_frames s"
    "s_recv (handleInband n s) = s_recv s" "s_lastIn (handleInband n s) = s_lastIn s" by (simp_all add: handleInband_def)
qed

lemma dispatch_frame:
  "dispatch n (s\<lparr>s_recv := r, s_lastIn := t\<rparr>) = (dispatch n s)\<lparr>s_recv := r, s_lastIn := t\<rparr>"
  "s_now (dispatch n s) = s_now s" "s_frames (dispatch n s) = s_frames s"
  by (simp_all add: dispatch_def handleInband_frame emit_def split: option.split)

definition read_frame :: "'s Options \<Rightarrow> bytes \<Rightarrow> 's Session \<Rightarrow> 's Session" where
  "read_frame opts f s = frameConsumer opts (serveFrames opts False (Inr f) s)"

lemma read_frame_node:
  assumes "crypto_ok (o_crypto opts)" "dict_ok (o_Dict opts)" "wire_node n" "s_frames s = []" "s_recv s = Some c"
  shows "read_frame opts (snd (Cipher_Seal (o_crypto opts) (MarshalDict n (o_Dict opts)) c)) s
    = (dispatch (norm_node n) s)\<lparr>s_recv := Some (fst (Cipher_Seal (o_crypto opts) (MarshalDict n (o_Dict opts)) c)), s_lastIn := s_now s\<rparr>"
proof -
  let ?p = "MarshalDict n (o_Dict opts)"
  have "Decode (o_inflate opts) (o_Dict opts) ?p = Inr (norm_node n)"
    using Decode_MarshalDict [OF assms(2,3), of "o_inflate opts"] by auto
  then have "read_frame opts (snd (Cipher_Seal (o_crypto opts) ?p c)) s
      = dispatch (norm_node n) (s\<lparr>s_lastIn := s_now s, s_frames := [], s_recv := Some (fst (Cipher_Seal (o_crypto opts) ?p c))\<rparr>)"
    using assms(4,5) Open_Seal [OF assms(1), of ?p c] by (simp add: read_frame_def serveFrames_def frameConsumer_def markInbound_def)
  also have "s\<lparr>s_lastIn := s_now s, s_frames := [], s_recv := r\<rparr> = s\<lparr>s_recv := r, s_lastIn := s_now s\<rparr>" for r
    using assms(4) by (cases s) simp
  finally show ?thesis by (simp only: dispatch_frame(1))
qed

lemma dispatch_all_frame:
  "fold (\<lambda>n. dispatch (norm_node n)) ns (s\<lparr>s_recv := r, s_lastIn := t\<rparr>) = (fold (\<lambda>n. dispatch (norm_node n)) ns s)\<lparr>s_recv := r, s_lastIn := t\<rparr>"
  by (induction ns arbitrary: s) (simp_all add: dispatch_frame)

lemma read_frames_nodes:
  assumes "crypto_ok (o_crypto opts)" "dict_ok (o_Dict opts)" "\<forall>n \<in> set ns. wire_node n" "s_frames s = []" "s_recv s = Some c"
  shows "fold (read_frame opts) (snd (seal_all (o_crypto opts) (map (\<lambda>n. MarshalDict n (o_Dict opts)) ns) c)) s
    = (fold (\<lambda>n. dispatch (norm_node n)) ns s)\<lparr>s_recv := Some (fst (seal_all (o_crypto opts) (map (\<lambda>n. MarshalDict n (o_Dict opts)) ns) c)),
        s_lastIn := (if ns = [] then s_lastIn s else s_now s)\<rparr>"
  using assms(3-)
proof (induction ns arbitrary: s c)
  case (Cons n ns)
  let ?c = "fst (Cipher_Seal (o_crypto opts) (MarshalDict n (o_Dict opts)) c)"
  let ?s = "(dispatch (norm_node n) s)\<lparr>s_recv := Some ?c, s_lastIn := s_now s\<rparr>"
  have "read_frame opts (snd (Cipher_Seal (o_crypto opts) (MarshalDict n (o_Dict opts)) c)) s = ?s"
    using Cons.prems by (intro read_frame_node assms) simp_all
  then show ?case using Cons.IH [of ?s ?c] Cons.prems
    by (simp add: seal_all_Cons dispatch_frame dispatch_all_frame del: seal_all.simps)
qed simp

lemma push_all:
  assumes "d < length (sv_sessions sv)" "\<not> ds_closed (sv_sessions sv ! d)"
  shows "let sv' = fold (push C d) ns sv; fr = seal_all C (map (\<lambda>n. MarshalDict n (sv_Dict sv)) ns) (ds_send (sv_sessions sv ! d))
    in ds_out (sv_sessions sv' ! d) = ds_out (sv_sessions sv ! d) @ snd fr \<and> ds_send (sv_sessions sv' ! d) = fst fr"
  using assms
proof (induction ns arbitrary: sv)
  case (Cons n ns)
  let ?sv = "push C d n sv"
  have "sv_sessions ?sv ! d = (sv_sessions sv ! d)\<lparr>ds_send := fst (Cipher_Seal C (MarshalDict n (sv_Dict sv)) (ds_send (sv_sessions sv ! d))),
      ds_out := ds_out (sv_sessions sv ! d) @ [snd (Cipher_Seal C (MarshalDict n (sv_Dict sv)) (ds_send (sv_sessions sv ! d)))]\<rparr>"
    "sv_Dict ?sv = sv_Dict sv" "d < length (sv_sessions ?sv)"
    using Cons.prems by (simp_all add: push_def upd_session_def case_prod_beta)
  then show ?case using Cons.IH [of ?sv] Cons.prems by (simp add: seal_all_Cons Let_def del: seal_all.simps)
qed simp

subsection \<open>Properties\<close>

text \<open>
  C2 (liveness). A session comes online. Against the server with a certificate from its
  own trust root, under the production policy for that root, and with a store that
  takes its credentials, \<open>Start\<close>, the dial, the Noise handshake, the connect request and
  its answer put the machine into ONLINE; the session then holds the server's certified
  key and the account the server registered for it, its ciphers are those of the
  server's device with the directions exchanged, and the state is one of the
  interleavings of the engine.
\<close>

theorem session_goes_online:
  assumes "New opts True st now = Inr s" "loadCredentials opts gen s = (s\<lparr>s_creds := Some cr, s_store := st1\<rparr>, Inr ())"
    and "o_crypto opts = C" "crypto_ok C" "dh_ok C" "wire_sizes C" "dict_ok (o_Dict opts)"
    and "sv = NewServer C E (o_Dict opts) kp bk root im hourAgo y1 y2" "signs ed root" "signs ed im"
      "o_ServerAuth opts = Some (TrustedRootAuth ed (fst root) t)"
    and "sint (t_sec hourAgo) \<le> sint (t_sec t)" "sint (t_sec t) < sint (t_sec y1)" "sint (t_sec t) < sint (t_sec y2)"
    and "length (cr_NoiseKeySeed cr) = 32" "length ce = 32" "length kp = 32" "length se = 32"
    and "\<forall>k v st. \<exists>st'. kv_Set (o_Store opts) k v st = Inr st'"
    and "json (finishPayload opts (s\<lparr>s_creds := Some cr\<rparr>)) = Some reg" "length (finishPayload opts (s\<lparr>s_creds := Some cr\<rparr>)) < 2 ^ 62"
    and "fresh \<noteq> ''''" "length fresh < 2 ^ 30" "length (o_Platform opts) < 2 ^ 30" "length (o_DeviceName opts) < 2 ^ 30"
      "length (account_of reg sv) < 2 ^ 30"
  shows "\<exists>s' sv' d. connect_run opts sv E json gen header ce se fresh nanos s = Some (s', sv', d) \<and> m_state (s_mach s') = Online \<and>
    s_online s' \<and> s_task s' = TOnline \<and> s_conn s' \<and> d < length (sv_sessions sv') \<and> mirrored s' (sv_sessions sv' ! d) \<and>
    cr_ServerStatic (credsSnapshot s') = c_pub C kp \<and> cr_AccountJID (credsSnapshot s') = account_of reg sv \<and>
    rg_AccountJID (ds_reg (sv_sessions sv' ! d)) = account_of reg sv \<and> idle s' \<and> ses_reach opts s'"
proof -
  have pub: "length (c_pub C kp) = 32" using assms(6,17) by (simp add: wire_sizes_def)
  have sv: "sv_static sv = kp" "sv_Dict sv = o_Dict opts" "sv_dropAfterRequests sv \<le> 0" by (simp_all add: assms(8) NewServer_def Let_def)
  note cert = NewServer_trusted [OF assms(9,10) pub assms(12-14), of E "o_Dict opts" bk, folded assms(8)]
  have "\<exists>s' sv' d. connect_run opts sv E json gen header ce se fresh nanos s = Some (s', sv', d) \<and> m_state (s_mach s') = Online \<and>
    s_online s' \<and> s_task s' = TOnline \<and> s_conn s' \<and> d < length (sv_sessions sv') \<and> mirrored s' (sv_sessions sv' ! d) \<and>
    cr_ServerStatic (credsSnapshot s') = c_pub C (sv_static sv) \<and> cr_AccountJID (credsSnapshot s') = account_of reg sv \<and>
    rg_AccountJID (ds_reg (sv_sessions sv' ! d)) = account_of reg sv \<and> idle s' \<and> (ses_step opts)\<^sup>*\<^sup>* (fst (Start opts gen s)) s' \<and> ses_reach opts s'"
    by (rule go_online [where auth = "TrustedRootAuth ed (fst root) t"]) (use assms sv cert in simp_all)
  then show ?thesis unfolding sv(1) by blast
qed

definition toy_options :: "Memory Options" where
  "toy_options = \<lparr>o_ID = ''dev'', o_Dict = sample_dict, o_Store = Memory_KV, o_Platform = ''web'', o_DeviceName = ''x'', o_StaleAfter = 40,
     o_ServerAuth = Some (TrustedRootAuth toy_ed25519 (replicate 32 20) (time_Unix 150)), o_crypto = toy_crypto, o_inflate = (\<lambda>_. None),
     o_marshal = (\<lambda>c. cr_NoiseKeySeed c), o_unmarshal = (\<lambda>b. Inl ''''), o_finish_json = (\<lambda>_. [1]), o_errtext = (\<lambda>_. ''error'')\<rparr>"

definition toy_session :: "Memory Session" where
  "toy_session = projr (New toy_options True NewMemory 7)"

definition toy_creds :: Credentials where
  "toy_creds = no_credentials\<lparr>cr_NoiseKeySeed := replicate 32 1\<rparr>"

definition toy_server :: Server where
  "toy_server = NewServer toy_crypto toy_e2e sample_dict (replicate 32 2) toy_keys (replicate 32 20, \<lambda>_. replicate 64 20)
     (replicate 32 21, \<lambda>_. replicate 64 21) (time_Unix 50) (time_Unix 200) (time_Unix 300)"

definition toy_reg :: Registration where
  "toy_reg = \<lparr>rg_DeviceID = ''d'', rg_Name = ''x'', rg_Platform = ''web'', rg_NoisePub = '''', rg_AccountJID = ''a@b''\<rparr>"

lemma toy_setup:
  "New toy_options True NewMemory 7 = Inr toy_session"
  "loadCredentials toy_options (Inr toy_creds) toy_session
     = (toy_session\<lparr>s_creds := Some toy_creds, s_store := \<lparr>mem_data = [(''session/dev/credentials'', replicate 32 1)]\<rparr>\<rparr>, Inr ())"
  "wire_sizes toy_crypto" "signs toy_ed25519 (replicate 32 20, \<lambda>_. replicate 64 20)" "signs toy_ed25519 (replicate 32 21, \<lambda>_. replicate 64 21)"
  "account_of toy_reg toy_server = ''a@b''"
  by (simp_all add: toy_session_def toy_options_def New_def loadCredentials_def Memory_Get_def NewMemory_def credsKey_def saveCredentials_def
      setCredentials_def Memory_Set_def credsSnapshot_def toy_creds_def wire_sizes_def toy_crypto_def signs_def toy_ed25519_def account_of_def
      mock_register_def toy_reg_def Let_def)

lemma session_goes_online_witness:
  "\<exists>s' sv' d. connect_run toy_options toy_server toy_e2e (\<lambda>_. Some toy_reg) (Inr toy_creds) [87] (replicate 32 3) (replicate 32 4) ''id'' 5 toy_session
      = Some (s', sv', d) \<and> m_state (s_mach s') = Online \<and> mirrored s' (sv_sessions sv' ! d) \<and> ses_reach toy_options s'"
proof -
  have sv: "toy_server = NewServer toy_crypto toy_e2e (o_Dict toy_options) (replicate 32 2) toy_keys (replicate 32 20, \<lambda>_. replicate 64 20)
     (replicate 32 21, \<lambda>_. replicate 64 21) (time_Unix 50) (time_Unix 200) (time_Unix 300)" by (simp add: toy_server_def toy_options_def)
  show ?thesis
    using session_goes_online [OF toy_setup(1,2) _ toy_crypto_ok toy_setup(3) _ sv toy_setup(4,5), of "time_Unix 150" "replicate 32 3" "replicate 32 4"
      "\<lambda>_. Some toy_reg" toy_reg "''id''" "[87]" 5] sample_dict_ok toy_setup(6)
    by (auto simp: toy_options_def toy_creds_def Memory_Set_def finishPayload_def time_Unix_def unixToInternal_def)
qed

subsection \<open>Authentication policies\<close>

text \<open>
  What the engine asks of a policy: an accepted key is one it trusts, given the certificate
  and what it had pinned. A session under such a policy has a trusted server key.
\<close>

locale auth_policy =
  fixes auth :: ServerAuth
    and trusts :: "bytes \<Rightarrow> bytes \<Rightarrow> bytes option \<Rightarrow> bool"
  assumes sound: "auth key cert pin = (pin', Inr ()) \<Longrightarrow> trusts key cert pin"
begin

lemma trusted_key:
  assumes "ses_reach opts s" "o_ServerAuth opts = Some auth" "trusting s"
  shows "\<exists>cert pin. trusts (cr_ServerStatic (credsSnapshot s)) cert pin"
proof -
  have "key_accepted opts s" using auth_inv_reach [OF assms(1)] assms(3) by (simp add: auth_inv_def)
  then show ?thesis using sound assms(2) by (fastforce simp: key_accepted_def accepted_def)
qed

end

interpretation root_auth: auth_policy "TrustedRootAuth ed root now" "\<lambda>key cert pin. Verify ed cert key root now = Inr ()" for ed root now
  by unfold_locales (auto simp: TrustedRootAuth_def wrap_err_def split: sum.splits)

interpretation pin_auth: auth_policy PinFirstContact "\<lambda>key cert pin. pin = None \<or> pin = Some key"
  by unfold_locales (auto simp: PinFirstContact_def nth_equalityI split: option.splits if_splits)

text \<open>
  C1 (safety). The engine fails closed. In every interleaving, a session that holds a
  traffic cipher, has come online, has sent anything past its hello, or whose
  machine is past authentication has a server-authentication policy, and the policy
  accepted the very key stored as the server's, on some certificate; without a policy
  none of this ever happens. Under the policy of the trusted root the stored key is the key
  of a leaf that an intermediate issued, which the root issued, both valid at that time.
\<close>

theorem session_fail_closed:
  assumes "ses_reach opts s"
    and "s_send s \<noteq> None \<or> s_recv s \<noteq> None \<or> s_online s \<or> length (s_sent s) \<ge> 2 \<or> m_state (s_mach s) \<in> {Syncing, Online, Degraded}"
  shows "(\<exists>auth cert pin pin'. o_ServerAuth opts = Some auth \<and> auth (cr_ServerStatic (credsSnapshot s)) cert pin = (pin', Inr ())) \<and>
    (\<forall>ed root now. o_ServerAuth opts = Some (TrustedRootAuth ed root now) \<longrightarrow>
       (\<exists>interRaw leafRaw interD leafD. issued ed root RootSerial now interRaw interD \<and>
          issued ed (de_Key interD) (de_Serial interD) now leafRaw leafD \<and> de_Key leafD = cr_ServerStatic (credsSnapshot s)))"
proof -
  have t: "trusting s" using assms(2) by (auto simp: trusting_def)
  then have "key_accepted opts s" using auth_inv_reach [OF assms(1)] by (simp add: auth_inv_def)
  moreover have "\<exists>interRaw leafRaw interD leafD. issued ed root RootSerial now interRaw interD \<and>
      issued ed (de_Key interD) (de_Serial interD) now leafRaw leafD \<and> de_Key leafD = cr_ServerStatic (credsSnapshot s)"
    if "o_ServerAuth opts = Some (TrustedRootAuth ed root now)" for ed root now
    using root_auth.trusted_key [OF assms(1) that t] unfolding Verify_iff by blast
  ultimately show ?thesis unfolding key_accepted_def accepted_def by blast
qed

lemma toy_online:
  obtains s' sv' d where "connect_run toy_options toy_server toy_e2e (\<lambda>_. Some toy_reg) (Inr toy_creds) [87] (replicate 32 3) (replicate 32 4) ''id'' 5 toy_session
      = Some (s', sv', d)" "s_online s'" "s_conn s'" "mirrored s' (sv_sessions sv' ! d)" "idle s'" "ses_reach toy_options s'"
    "(ses_step toy_options)\<^sup>*\<^sup>* (fst (Start toy_options (Inr toy_creds) toy_session)) s'"
proof -
  have sv: "toy_server = NewServer toy_crypto toy_e2e sample_dict (replicate 32 2) toy_keys (replicate 32 20, \<lambda>_. replicate 64 20)
     (replicate 32 21, \<lambda>_. replicate 64 21) (time_Unix 50) (time_Unix 200) (time_Unix 300)" by (rule toy_server_def)
  have auth: "TrustedRootAuth toy_ed25519 (replicate 32 20) (time_Unix 150) (c_pub toy_crypto (replicate 32 2)) (sv_certChain toy_server) pin = (pin, Inr ())"
    "length (sv_certChain toy_server) < 2 ^ 62" for pin
    using NewServer_trusted [OF toy_setup(4,5), of toy_crypto "replicate 32 2" "time_Unix 50" "time_Unix 150" "time_Unix 200" "time_Unix 300" toy_e2e sample_dict
      toy_keys] sv toy_setup(3) by (simp_all add: wire_sizes_def time_Unix_def unixToInternal_def)
  have s: "sv_static toy_server = replicate 32 2" "sv_Dict toy_server = sample_dict" "sv_dropAfterRequests toy_server \<le> 0"
    by (simp_all add: sv NewServer_def Let_def)
  have "\<exists>s' sv' d. connect_run toy_options toy_server toy_e2e (\<lambda>_. Some toy_reg) (Inr toy_creds) [87] (replicate 32 3) (replicate 32 4) ''id'' 5 toy_session
      = Some (s', sv', d) \<and> m_state (s_mach s') = Online \<and>
    s_online s' \<and> s_task s' = TOnline \<and> s_conn s' \<and> d < length (sv_sessions sv') \<and> mirrored s' (sv_sessions sv' ! d) \<and>
    cr_ServerStatic (credsSnapshot s') = c_pub toy_crypto (sv_static toy_server) \<and> cr_AccountJID (credsSnapshot s') = account_of toy_reg toy_server \<and>
    rg_AccountJID (ds_reg (sv_sessions sv' ! d)) = account_of toy_reg toy_server \<and> idle s' \<and> (ses_step toy_options)\<^sup>*\<^sup>* (fst (Start toy_options (Inr toy_creds) toy_session)) s' \<and> ses_reach toy_options s'"
    by (rule go_online [OF toy_setup(1,2), where auth = "TrustedRootAuth toy_ed25519 (replicate 32 20) (time_Unix 150)"])
      (use sample_dict_ok toy_setup toy_crypto_ok auth s in \<open>simp_all add: toy_options_def toy_creds_def Memory_Set_def finishPayload_def\<close>)
  then show thesis using that by blast
qed

lemma session_fail_closed_witness:
  "\<exists>s'. ses_reach toy_options s' \<and> s_online s' \<and>
     (\<exists>auth cert pin pin'. o_ServerAuth toy_options = Some auth \<and> auth (cr_ServerStatic (credsSnapshot s')) cert pin = (pin', Inr ()))"
proof -
  obtain s' where s: "s_online s'" "ses_reach toy_options s'" using toy_online by metis
  then show ?thesis using session_fail_closed [of toy_options s'] by blast
qed

text \<open>
  C17 (invariant). Requests get their own answers. In every interleaving, an answer handed to a
  waiting request is an \<^verbatim>\<open>iq\<close> of type \<^verbatim>\<open>result\<close> or \<^verbatim>\<open>error\<close> with exactly the id
  the request waits under; whichever way the wait ends the id is free again; and the
  first failure of a connection is never replaced by a later one.
\<close>

theorem session_requests:
  assumes "ses_reach opts s"
  shows "(\<forall>w i s' res. Request_wait w i s = Some (s', res) \<longrightarrow>
      i \<notin> fst ` set (s_requests s') \<and>
      (\<forall>n. res = Inr n \<longrightarrow> Tag n = ''iq'' \<and> StringAttr n ''id'' = Some i \<and> StringAttr n ''type'' \<in> {Some ''result'', Some ''error''})) \<and>
    (\<forall>s' e. ses_step opts s s' \<and> s_broken s = Some e \<longrightarrow> s_broken s' = Some e)"
proof -
  have q: "requests_ok s" by (rule requests_ok_reach [OF assms])
  have "StringAttr n ''id'' = Some i \<and> StringAttr n ''type'' \<in> {Some ''result'', Some ''error''}" if "answers n = Some i" for n i
    using that by (auto simp: answers_def Let_def split: option.splits if_splits)
  then have "Tag n = ''iq'' \<and> StringAttr n ''id'' = Some i \<and> StringAttr n ''type'' \<in> {Some ''result'', Some ''error''}"
    if "map_of (s_requests s) i = Some (Some n)" for n i
    using q map_of_SomeD [OF that] by (fastforce simp: requests_ok_def)
  moreover have "(i, b) \<notin> set (AList.delete i (s_requests s))" for i b using delete_notin_dom by (force simp: image_iff)
  ultimately have "i \<notin> fst ` set (s_requests s') \<and>
      (\<forall>n. res = Inr n \<longrightarrow> Tag n = ''iq'' \<and> StringAttr n ''id'' = Some i \<and> StringAttr n ''type'' \<in> {Some ''result'', Some ''error''})"
    if "Request_wait w i s = Some (s', res)" for w i s' res
    using that by (auto simp: Request_wait_def Let_def split: wake.splits option.splits if_splits)
  moreover have "s_broken s' = Some e" if "ses_step opts s s'" "s_broken s = Some e" for s' e
    using sound_step [OF that(1) auth_inv_reach [OF assms]] that(2) by (simp add: sound_def)
  ultimately show ?thesis by blast
qed

definition open_transport :: transport where
  "open_transport = \<lparr>tr_header = [], tr_send = (\<lambda>_. None), tr_recv = (\<lambda>_. Inl TransportFailed)\<rparr>"

lemma session_requests_witness:
  "\<exists>s s' n. ses_reach toy_options s \<and> Request_wait GotResponse ''q'' s = Some (s', Inr n) \<and> StringAttr n ''id'' = Some ''q'' \<and>
     ''q'' \<notin> fst ` set (s_requests s')"
proof -
  obtain s c c2 where s: "ses_reach toy_options s" "s_conn s" "s_send s = Some c" "s_recv s = Some c2" "idle s"
    using toy_online by (metis mirrored_def)
  obtain c' ct where seal: "Cipher_Seal (o_crypto toy_options) (MarshalDict (connectIQ_node toy_options ''q'') (o_Dict toy_options)) c = (c', ct)" by force
  obtain c2' fr where fr: "Cipher_Seal (o_crypto toy_options) (MarshalDict (iq_result ''q'' ''a'') (o_Dict toy_options)) c2 = (c2', fr)" by force
  let ?s1 = "s\<lparr>s_requests := [(''q'', None)], s_send := Some c', s_sent := s_sent s @ [ct]\<rparr>"
  have "Request toy_options open_transport [] (connectIQ_node toy_options ''q'') s = (?s1, Inr ''q'')"
    using s seal by (intro Request_ok) (simp_all add: open_transport_def connectIQ_node_def StringAttr_def idle_def)
  then have "ses_reach toy_options ?s1" using ses_reach.more [OF s(1) ses_step.request] by (metis fst_conv)
  moreover have "s_serving ?s1" using s(5) by (simp add: idle_def)
  ultimately have "ses_reach toy_options (serveFrames toy_options False (Inr fr) ?s1)" using ses_reach.more ses_step.serve by blast
  moreover have "s_consuming (serveFrames toy_options False (Inr fr) ?s1)"
    using s(5) by (simp add: idle_def serveFrames_def markInbound_def Let_def)
  ultimately have r: "ses_reach toy_options (frameConsumer toy_options (serveFrames toy_options False (Inr fr) ?s1))"
    using ses_reach.more ses_step.consume by blast
  have w: "Request_wait GotResponse ''q'' (frameConsumer toy_options (serveFrames toy_options False (Inr fr) ?s1))
    = Some (?s1\<lparr>s_lastIn := s_now ?s1, s_recv := Some c2', s_requests := []\<rparr>, Inr (norm_node (iq_result ''q'' ''a'')))"
    using s fr toy_crypto_ok sample_dict_ok by (intro session_connect) (simp_all add: wire_iq_result toy_options_def idle_def)
  show ?thesis using session_requests [OF r, THEN conjunct1, rule_format, OF w] r w by metis
qed

text \<open>
  C7 (functional). Nodes cross the link in order and intact, both ways. Once a session and the server's
  device share their ciphers, the nodes the session sends decrypt and decode on the
  server's side to the same nodes in the normal form of the wire, in the order they were
  sent; and the nodes the server pushes are dispatched by the session one by one, in
  their order, to the effect of \<open>dispatch\<close> on their normal forms, after which the ciphers
  still agree.
\<close>

theorem session_messages:
  assumes C: "crypto_ok (o_crypto opts)" "dict_ok (o_Dict opts)" and ns: "\<forall>n \<in> set ns. wire_node n"
    and s: "s_conn s" "mirrored s (sv_sessions sv ! d)" "s_frames s = []" and T: "\<forall>i. tr_send T i = None"
    and sv: "sv_Dict sv = o_Dict opts" "d < length (sv_sessions sv)" "\<not> ds_closed (sv_sessions sv ! d)"
  shows "(\<exists>s' fs. send_nodes opts T ns s = (s', replicate (length ns) (Inr ())) \<and> s_sent s' = s_sent s @ fs \<and>
      open_nodes (o_crypto opts) (o_inflate opts) (o_Dict opts) fs (ds_recv (sv_sessions sv ! d)) = map (\<lambda>n. Some (Inr (norm_node n))) ns) \<and>
    (\<exists>fs. let sv' = fold (push (o_crypto opts) d) ns sv; t = (if ns = [] then s_lastIn s else s_now s)
      in ds_out (sv_sessions sv' ! d) = ds_out (sv_sessions sv ! d) @ fs \<and>
         fold (read_frame opts) fs s = (fold (\<lambda>n. dispatch (norm_node n)) ns s)\<lparr>s_recv := Some (ds_send (sv_sessions sv' ! d)), s_lastIn := t\<rparr>)"
proof
  have m: "s_send s = Some (ds_recv (sv_sessions sv ! d))" "s_recv s = Some (ds_send (sv_sessions sv ! d))"
    using s(2) by (simp_all add: mirrored_def)
  show "\<exists>s' fs. send_nodes opts T ns s = (s', replicate (length ns) (Inr ())) \<and> s_sent s' = s_sent s @ fs \<and>
      open_nodes (o_crypto opts) (o_inflate opts) (o_Dict opts) fs (ds_recv (sv_sessions sv ! d)) = map (\<lambda>n. Some (Inr (norm_node n))) ns"
    using send_nodes_open [OF refl C ns m(1) s(1)] T by blast
  show "\<exists>fs. let sv' = fold (push (o_crypto opts) d) ns sv; t = (if ns = [] then s_lastIn s else s_now s)
      in ds_out (sv_sessions sv' ! d) = ds_out (sv_sessions sv ! d) @ fs \<and>
         fold (read_frame opts) fs s = (fold (\<lambda>n. dispatch (norm_node n)) ns s)\<lparr>s_recv := Some (ds_send (sv_sessions sv' ! d)), s_lastIn := t\<rparr>"
    using push_all [OF sv(2,3), of "o_crypto opts" ns] read_frames_nodes [OF C ns s(3) m(2)] sv(1) by (simp add: Let_def)
qed

lemma session_messages_witness:
  "\<exists>s (sv :: Server) d. ses_reach toy_options s \<and> mirrored s (sv_sessions sv ! d) \<and>
     (\<exists>s' fs. send_nodes toy_options open_transport [Node ''message'' [] VNil, Node ''a'' [] VNil] s = (s', replicate 2 (Inr ())) \<and> s_sent s' = s_sent s @ fs \<and>
      open_nodes toy_crypto (\<lambda>_. None) sample_dict fs (ds_recv (sv_sessions sv ! d))
        = [Some (Inr (norm_node (Node ''message'' [] VNil))), Some (Inr (norm_node (Node ''a'' [] VNil)))])"
proof -
  obtain s d and sv :: Server where s: "ses_reach toy_options s" "s_conn s" "mirrored s (sv_sessions sv ! d)" "idle s" by (rule toy_online)
  let ?sv = "toy_server\<lparr>sv_sessions := [(sv_sessions sv ! d)\<lparr>ds_closed := False\<rparr>]\<rparr>"
  have "wire_node (Node ''message'' [] VNil)" "wire_node (Node ''a'' [] VNil)" by (intro wire_node_strs; simp)+
  then have "\<exists>s' fs. send_nodes toy_options open_transport [Node ''message'' [] VNil, Node ''a'' [] VNil] s = (s', replicate 2 (Inr ())) \<and>
      s_sent s' = s_sent s @ fs \<and> open_nodes toy_crypto (\<lambda>_. None) sample_dict fs (ds_recv (sv_sessions ?sv ! 0))
        = [Some (Inr (norm_node (Node ''message'' [] VNil))), Some (Inr (norm_node (Node ''a'' [] VNil)))]"
    using session_messages [where opts = toy_options and ns = "[Node ''message'' [] VNil, Node ''a'' [] VNil]" and T = open_transport
        and s = s and sv = ?sv and d = 0] s(2-4) toy_crypto_ok sample_dict_ok
    by (simp add: toy_options_def open_transport_def idle_def mirrored_def toy_server_def NewServer_def Let_def numeral_2_eq_2)
  then show ?thesis using s(1,3) by (intro exI [of _ s] exI [of _ sv] exI [of _ d]) (simp del: send_nodes.simps)
qed

end
