(* ===== verification/ApiMessage.thy ===== *)
theory ApiMessage
  imports Node Gotime EventTypes
begin

text \<open>
  The public message model of \<^verbatim>\<open>api/api.go\<close> and the mapping of a protocol node to
  it. The clock is an argument; a Go map of strings is an association list in the
  order of the node's attributes.
\<close>

record Target =
  tg_JID :: string

record Media =
  md_Kind :: string
  md_URL :: string
  md_MIME :: string
  md_Caption :: string
  md_Width :: string
  md_Height :: string
  md_Name :: string
  md_Size :: string
  md_Thumb :: string

record Message =
  mg_ID :: string
  mg_Chat :: Target
  mg_Sender :: Target
  mg_Text :: string
  mg_Type :: string
  mg_Stamp :: Time
  mg_FromMe :: bool
  mg_Media :: "Media option"
  mg_RawAttrs :: "(string \<times> string) list"

definition media_tags :: "string list" where
  "media_tags = [''image'', ''video'', ''audio'', ''document'', ''location'', ''contact'', ''sticker'', ''app'']"

text \<open>The first of the attributes with a nonempty text.\<close>

definition first_attr :: "node \<Rightarrow> string list \<Rightarrow> string" where
  "first_attr n ks = fold (\<lambda>k s. if s = '''' then MustStringAttr n k else s) ks ''''"

definition toMedia :: "string \<Rightarrow> node \<Rightarrow> Media" where
  "toMedia tag child =
     (let media = \<lparr>md_Kind = tag, md_URL = MustStringAttr child ''url'', md_MIME = first_attr child [''mimetype'', ''mime'', ''media''],
            md_Caption = MustStringAttr child ''caption'', md_Width = MustStringAttr child ''width'', md_Height = MustStringAttr child ''height'',
            md_Name = MustStringAttr child ''name'', md_Size = MustStringAttr child ''file-length'', md_Thumb = MustStringAttr child ''jpegThumbnail''\<rparr>
      in if tag = ''location'' then
           (case (StringAttr child ''latitude'', StringAttr child ''longitude'') of
              (Some lat, Some lon) \<Rightarrow> media\<lparr>md_URL := lat @ '','' @ lon\<rparr>
            | _ \<Rightarrow> media)
         else media)"

fun find_media :: "node \<Rightarrow> string list \<Rightarrow> Media option" where
  "find_media n [] = None"
| "find_media n (tag # tags) = (case ChildByTag n tag of None \<Rightarrow> find_media n tags | Some child \<Rightarrow> Some (toMedia tag child))"

definition message_text :: "node \<Rightarrow> string" where
  "message_text n =
     (case ChildByTag n ''plain'' of
        Some child \<Rightarrow> (case TextContent child of Some t \<Rightarrow> t | None \<Rightarrow> '''')
      | None \<Rightarrow> (case TextContent n of Some t \<Rightarrow> t | None \<Rightarrow> ''''))"

definition toMessage :: "Time \<Rightarrow> node \<Rightarrow> string \<Rightarrow> Message" where
  "toMessage now n sessID =
     (let chat = MustStringAttr n ''from''; sender = MustStringAttr n ''participant''
      in \<lparr>mg_ID = MustStringAttr n ''id'', mg_Chat = \<lparr>tg_JID = chat\<rparr>, mg_Sender = \<lparr>tg_JID = (if sender = '''' then chat else sender)\<rparr>,
          mg_Text = message_text n, mg_Type = MustStringAttr n ''type'', mg_Stamp = now, mg_FromMe = False,
          mg_Media = find_media n media_tags, mg_RawAttrs = map (\<lambda>kv. (fst kv, MustStringAttr n (fst kv))) (Attrs n)\<rparr>)"

text \<open>What an event of the bus carries for the handlers of this layer.\<close>

datatype payload_data = PNode node | PMessage Message | POther

lemma find_media_kind: "find_media n tags = Some m \<Longrightarrow> md_Kind m \<in> set tags \<and> ChildByTag n (md_Kind m) \<noteq> None"
  by (induction tags) (auto simp: toMedia_def Let_def split: option.splits if_splits)

text \<open>The kinds before the one found have no child of their tag.\<close>

lemma find_media_first:
  "find_media n tags = (case find (\<lambda>t. ChildByTag n t \<noteq> None) tags of
     None \<Rightarrow> None | Some t \<Rightarrow> Some (toMedia t (the (ChildByTag n t))))"
  by (induction tags) (auto split: option.splits)

end
