(* ===== verification/History.thy ===== *)
theory History
  imports ApiMessage Storage Delimited
begin

text \<open>
  The bounded message logs of \<^verbatim>\<open>api/history.go\<close>: one log per chat under a key of the
  engine's store, updated by four handlers of the event bus, each of which runs under
  the store's mutex. The JSON of a log and the clock are parameters; the store is any
  backend of the interface \<open>KV\<close>. A log that cannot be read or parsed counts as empty,
  as in the code.
\<close>

subsection \<open>Data\<close>

definition AckPending :: string where "AckPending = ''pending''"
definition AckSent :: string where "AckSent = ''sent''"
definition AckDelivered :: string where "AckDelivered = ''delivered''"
definition AckRead :: string where "AckRead = ''read''"
definition AckReceived :: string where "AckReceived = ''received''"
definition AckFailed :: string where "AckFailed = ''failed''"

lemmas ack_defs = AckPending_def AckSent_def AckDelivered_def AckRead_def AckReceived_def AckFailed_def

record StoredMessage =
  sm_ID :: string
  sm_Chat :: string
  sm_Sender :: string
  sm_Text :: string
  sm_Type :: string
  sm_FromMe :: bool
  sm_Ack :: string
  sm_Timestamp :: u64
  sm_Media :: "Media option"

definition HistoryWindow :: nat where "HistoryWindow = 256"

definition historyPrefix :: "string \<Rightarrow> string" where
  "historyPrefix sessionID = ''session/'' @ sessionID @ ''/history/''"

definition historyKey :: "string \<Rightarrow> string \<Rightarrow> string" where
  "historyKey sessionID chat = historyPrefix sessionID @ chat"

text \<open>The backend, \<open>encoding/json\<close> on logs, and the clock of \<open>msgTS\<close>.\<close>

record 's HistoryStore =
  hs_ops :: "'s KV"
  hs_marshal :: "StoredMessage list \<Rightarrow> bytes"
  hs_unmarshal :: "bytes \<Rightarrow> StoredMessage list option"
  hs_now :: u64

subsection \<open>Loading and saving\<close>

definition loadLocked :: "'s HistoryStore \<Rightarrow> string \<Rightarrow> string \<Rightarrow> 's \<Rightarrow> StoredMessage list" where
  "loadLocked h sessionID chat s =
     (case kv_Get (hs_ops h) (historyKey sessionID chat) s of
        Inl _ \<Rightarrow> []
      | Inr raw \<Rightarrow> (case hs_unmarshal h raw of None \<Rightarrow> [] | Some l \<Rightarrow> l))"

definition saveLocked :: "'s HistoryStore \<Rightarrow> string \<Rightarrow> string \<Rightarrow> StoredMessage list \<Rightarrow> 's \<Rightarrow> 's \<times> (kv_error + unit)" where
  "saveLocked h sessionID chat l s =
     (case kv_Set (hs_ops h) (historyKey sessionID chat) (hs_marshal h l) s of Inl e \<Rightarrow> (s, Inl e) | Inr s \<Rightarrow> (s, Inr ()))"

subsection \<open>Updating\<close>

text \<open>The loop of \<open>upsert\<close>: the first entry with the id is replaced; an empty ack keeps the old one.\<close>

fun replace_first :: "StoredMessage \<Rightarrow> StoredMessage list \<Rightarrow> StoredMessage list option" where
  "replace_first m [] = None"
| "replace_first m (x # xs) =
     (if sm_ID x = sm_ID m then Some ((if sm_Ack m = '''' then m\<lparr>sm_Ack := sm_Ack x\<rparr> else m) # xs)
      else map_option ((#) x) (replace_first m xs))"

definition upsert_log :: "StoredMessage \<Rightarrow> StoredMessage list \<Rightarrow> StoredMessage list" where
  "upsert_log m l =
     (let l = (case replace_first m l of Some l' \<Rightarrow> l' | None \<Rightarrow> l @ [m])
      in if length l > HistoryWindow then drop (length l - HistoryWindow) l else l)"

definition upsert :: "'s HistoryStore \<Rightarrow> string \<Rightarrow> StoredMessage \<Rightarrow> 's \<Rightarrow> 's \<times> (kv_error + unit)" where
  "upsert h sessionID m s =
     (if sm_Chat m = '''' then (s, Inr ())
      else saveLocked h sessionID (sm_Chat m) (upsert_log m (loadLocked h sessionID (sm_Chat m) s)) s)"

definition ackRank :: "string \<Rightarrow> int" where
  "ackRank a =
     (if a = AckFailed then -1 else if a = '''' \<or> a = AckReceived then 0 else if a = AckSent then 1
      else if a = AckDelivered then 2 else if a = AckRead then 3 else 0)"

definition raises :: "string \<Rightarrow> string \<Rightarrow> StoredMessage \<Rightarrow> bool" where
  "raises msgID ack m \<longleftrightarrow> sm_ID m = msgID \<and> sm_FromMe m \<and> ackRank ack \<ge> ackRank (sm_Ack m)"

definition ack_log :: "string \<Rightarrow> string \<Rightarrow> StoredMessage list \<Rightarrow> StoredMessage list" where
  "ack_log msgID ack l = map (\<lambda>m. if raises msgID ack m then m\<lparr>sm_Ack := ack\<rparr> else m) l"

text \<open>The chats in the order the store lists them, until one changes.\<close>

fun set_ack_chats :: "'s HistoryStore \<Rightarrow> string \<Rightarrow> string \<Rightarrow> string \<Rightarrow> string list \<Rightarrow> 's \<Rightarrow> 's \<times> (kv_error + unit)" where
  "set_ack_chats h sessionID msgID ack [] s = (s, Inr ())"
| "set_ack_chats h sessionID msgID ack (k # ks) s =
     (let chat = drop (length (historyPrefix sessionID)) k;
          l = loadLocked h sessionID chat s
      in if \<exists>m \<in> set l. raises msgID ack m then saveLocked h sessionID chat (ack_log msgID ack l) s
         else set_ack_chats h sessionID msgID ack ks s)"

definition setAck :: "'s HistoryStore \<Rightarrow> string \<Rightarrow> string \<Rightarrow> string \<Rightarrow> 's \<Rightarrow> 's \<times> (kv_error + unit)" where
  "setAck h sessionID msgID ack s =
     (if sessionID = '''' \<or> msgID = '''' then (s, Inr ())
      else case kv_List (hs_ops h) (historyPrefix sessionID) s of
             Inl e \<Rightarrow> (s, Inl e)
           | Inr chats \<Rightarrow> set_ack_chats h sessionID msgID ack chats s)"

subsection \<open>Handlers\<close>

definition is_digit :: "char \<Rightarrow> bool" where
  "is_digit c \<longleftrightarrow> CHR ''0'' \<le> c \<and> c \<le> CHR ''9''"

text \<open>An \<open>int64\<close> accumulated with wrap-around.\<close>

definition msgTS :: "u64 \<Rightarrow> node \<Rightarrow> u64" where
  "msgTS now n =
     (case StringAttr n ''t'' of
        None \<Rightarrow> now
      | Some t \<Rightarrow>
          if list_all is_digit t then foldl (\<lambda>v c. v * 10 + (of_char c - of_char (CHR ''0''))) 0 t else now)"

definition inbound_message :: "'s HistoryStore \<Rightarrow> Time \<Rightarrow> string \<Rightarrow> node \<Rightarrow> StoredMessage" where
  "inbound_message h now sessionID n =
     (let msg = toMessage now n sessionID
      in \<lparr>sm_ID = mg_ID msg, sm_Chat = tg_JID (mg_Chat msg), sm_Sender = tg_JID (mg_Sender msg), sm_Text = mg_Text msg,
          sm_Type = mg_Type msg, sm_FromMe = False, sm_Ack = AckReceived, sm_Timestamp = msgTS (hs_now h) n, sm_Media = mg_Media msg\<rparr>)"

definition onInbound :: "'s HistoryStore \<Rightarrow> Time \<Rightarrow> string \<Rightarrow> payload_data \<Rightarrow> 's \<Rightarrow> 's" where
  "onInbound h now sessionID d s =
     (case d of
        PNode n \<Rightarrow>
          if mg_ID (toMessage now n sessionID) = '''' then s else fst (upsert h sessionID (inbound_message h now sessionID n) s)
      | _ \<Rightarrow> s)"

definition sent_message :: "Message \<Rightarrow> StoredMessage" where
  "sent_message msg =
     \<lparr>sm_ID = mg_ID msg, sm_Chat = tg_JID (mg_Chat msg), sm_Sender = '''', sm_Text = mg_Text msg, sm_Type = mg_Type msg,
      sm_FromMe = True, sm_Ack = AckSent, sm_Timestamp = Unix_of (mg_Stamp msg), sm_Media = None\<rparr>"

definition onSent :: "'s HistoryStore \<Rightarrow> string \<Rightarrow> payload_data \<Rightarrow> 's \<Rightarrow> 's" where
  "onSent h sessionID d s = (case d of PMessage msg \<Rightarrow> fst (upsert h sessionID (sent_message msg) s) | _ \<Rightarrow> s)"

text \<open>\<open>strings.ToLower\<close> on the ASCII letters; its other values are not compared.\<close>

definition ascii_lower :: "string \<Rightarrow> string" where
  "ascii_lower = map (\<lambda>c. if CHR ''A'' \<le> c \<and> c \<le> CHR ''Z'' then char_of (of_char c + 32 :: nat) else c)"

definition ack_of :: "node \<Rightarrow> string" where
  "ack_of n = (let t = ascii_lower (MustStringAttr n ''type'') in if t = ''read'' \<or> t = ''played'' then AckRead else AckDelivered)"

definition onAck :: "'s HistoryStore \<Rightarrow> string \<Rightarrow> payload_data \<Rightarrow> 's \<Rightarrow> 's" where
  "onAck h sessionID d s =
     (case d of
        PNode n \<Rightarrow> let i = MustStringAttr n ''id'' in if i = '''' then s else fst (setAck h sessionID i (ack_of n) s)
      | _ \<Rightarrow> s)"

definition onUpdated :: "'s HistoryStore \<Rightarrow> string \<Rightarrow> payload_data \<Rightarrow> 's \<Rightarrow> 's" where
  "onUpdated h sessionID d s =
     (case d of
        PNode n \<Rightarrow> let i = MustStringAttr n ''id'' in if i = '''' then s else fst (setAck h sessionID i AckRead s)
      | _ \<Rightarrow> s)"

text \<open>The four subscriptions of \<open>AttachHistory\<close>: which handler an event of the bus reaches.\<close>

definition AttachHistory :: "'s HistoryStore \<Rightarrow> Time \<Rightarrow> string \<Rightarrow> string \<Rightarrow> payload_data \<Rightarrow> 's \<Rightarrow> 's" where
  "AttachHistory h now typ sessionID d s =
     (if typ = MessageReceived then onInbound h now sessionID d s
      else if typ = MessageSent then onSent h sessionID d s
      else if typ = MessageAck then onAck h sessionID d s
      else if typ = MessageUpdated then onUpdated h sessionID d s
      else s)"

subsection \<open>Queries\<close>

text \<open>The engine's \<open>history\<close> field is nil unless the option attached it.\<close>

datatype history_error = HistoryDisabled | ErrUnknownMessage | HistoryStoreError kv_error

definition History :: "'s HistoryStore option \<Rightarrow> string \<Rightarrow> string \<Rightarrow> int \<Rightarrow> 's \<Rightarrow> history_error + StoredMessage list" where
  "History hist sessionID chat limit s =
     (case hist of
        None \<Rightarrow> Inl HistoryDisabled
      | Some h \<Rightarrow>
          let l = loadLocked h sessionID chat s
          in Inr (if limit \<le> 0 \<or> limit \<ge> int (length l) then l else drop (length l - nat limit) l))"

definition RecentChats :: "'s HistoryStore option \<Rightarrow> string \<Rightarrow> 's \<Rightarrow> history_error + string list" where
  "RecentChats hist sessionID s =
     (case hist of
        None \<Rightarrow> Inl HistoryDisabled
      | Some h \<Rightarrow>
          (case kv_List (hs_ops h) (historyPrefix sessionID) s of
             Inl e \<Rightarrow> Inl (HistoryStoreError e)
           | Inr keys \<Rightarrow> Inr (sort (map (drop (length (historyPrefix sessionID))) keys))))"

fun find_in_chats :: "'s HistoryStore \<Rightarrow> string \<Rightarrow> string \<Rightarrow> string list \<Rightarrow> 's \<Rightarrow> history_error + StoredMessage" where
  "find_in_chats h sessionID msgID [] s = Inl ErrUnknownMessage"
| "find_in_chats h sessionID msgID (c # cs) s =
     (case find (\<lambda>m. sm_ID m = msgID) (loadLocked h sessionID c s) of
        Some m \<Rightarrow> Inr m
      | None \<Rightarrow> find_in_chats h sessionID msgID cs s)"

definition HistoryOne :: "'s HistoryStore option \<Rightarrow> string \<Rightarrow> string \<Rightarrow> string \<Rightarrow> 's \<Rightarrow> history_error + StoredMessage" where
  "HistoryOne hist sessionID msgID chat s =
     (case hist of
        None \<Rightarrow> Inl HistoryDisabled
      | Some h \<Rightarrow>
          if chat \<noteq> '''' then find_in_chats h sessionID msgID [chat] s
          else and_then (RecentChats hist sessionID s) (\<lambda>chats. find_in_chats h sessionID msgID chats s))"

subsection \<open>Logs\<close>

lemma replace_first_ids: "replace_first m l = Some l' \<Longrightarrow> map sm_ID l' = map sm_ID l"
  by (induction l arbitrary: l') (auto split: if_splits)

lemma replace_first_None: "replace_first m l = None \<longleftrightarrow> sm_ID m \<notin> sm_ID ` set l"
  by (induction l) auto

lemma replace_first_set: "replace_first m l = Some l' \<Longrightarrow> set l' \<subseteq> set l \<union> {m} \<union> (\<lambda>x. m\<lparr>sm_Ack := sm_Ack x\<rparr>) ` set l"
  by (induction l arbitrary: l') (fastforce split: if_splits)+

lemma map_drop_distinct: "distinct (map f l) \<Longrightarrow> distinct (map f (drop k l))"
  by (simp add: drop_map [symmetric])

lemma upsert_log_bounded: "length l \<le> HistoryWindow \<Longrightarrow> length (upsert_log m l) \<le> HistoryWindow"
  by (auto simp: upsert_log_def Let_def)

lemma upsert_log_distinct: "distinct (map sm_ID l) \<Longrightarrow> distinct (map sm_ID (upsert_log m l))"
proof -
  assume d: "distinct (map sm_ID l)"
  let ?l = "case replace_first m l of Some l' \<Rightarrow> l' | None \<Rightarrow> l @ [m]"
  have "distinct (map sm_ID ?l)"
  proof (cases "replace_first m l")
    case None
    then show ?thesis using d replace_first_None [of m l] by simp
  next
    case (Some l')
    then show ?thesis using d replace_first_ids [OF Some] by simp
  qed
  then show ?thesis by (simp add: upsert_log_def Let_def map_drop_distinct)
qed

lemma upsert_log_set: "set (upsert_log m l) \<subseteq> set l \<union> {m} \<union> (\<lambda>x. m\<lparr>sm_Ack := sm_Ack x\<rparr>) ` set l"
proof -
  let ?l = "case replace_first m l of Some l' \<Rightarrow> l' | None \<Rightarrow> l @ [m]"
  have "set ?l \<subseteq> set l \<union> {m} \<union> (\<lambda>x. m\<lparr>sm_Ack := sm_Ack x\<rparr>) ` set l"
    using replace_first_set by (auto split: option.split)
  then show ?thesis using set_drop_subset [of "length ?l - HistoryWindow" ?l] by (simp add: upsert_log_def Let_def) blast
qed

text \<open>A message that has an ack of its own is there afterwards, with that ack.\<close>

lemma upsert_log_mem:
  assumes "sm_Ack m \<noteq> ''''" "length l \<le> HistoryWindow"
  shows "m \<in> set (upsert_log m l)"
proof (cases "replace_first m l")
  case None
  then show ?thesis using assms(2) by (simp add: upsert_log_def Let_def HistoryWindow_def)
next
  case (Some l')
  then have "m \<in> set l'" using assms(1) by (induction l arbitrary: l') (auto split: if_splits)
  moreover have "length l' = length l" using replace_first_ids [OF Some] by (metis length_map)
  ultimately show ?thesis using Some assms(2) by (simp add: upsert_log_def)
qed

lemma ack_log_ids [simp]: "map sm_ID (ack_log i a l) = map sm_ID l"
  by (simp add: ack_log_def)

lemma ack_log_id: "\<not> (\<exists>m \<in> set l. raises i a m) \<Longrightarrow> ack_log i a l = l"
  unfolding ack_log_def by (rule map_idI) auto

subsection \<open>Over a store that keeps its contract\<close>

text \<open>
  \<open>encoding/json\<close> returns what it encoded when every text is valid UTF-8 (it replaces
  invalid bytes); \<open>text_ok\<close> says so of a message.
\<close>

definition media_ok :: "Media \<Rightarrow> bool" where
  "media_ok m \<longleftrightarrow> list_all utf8 [md_Kind m, md_URL m, md_MIME m, md_Caption m, md_Width m, md_Height m, md_Name m, md_Size m, md_Thumb m]"

definition text_ok :: "StoredMessage \<Rightarrow> bool" where
  "text_ok m \<longleftrightarrow> list_all utf8 [sm_ID m, sm_Chat m, sm_Sender m, sm_Text m, sm_Type m, sm_Ack m] \<and> pred_option media_ok (sm_Media m)"

definition log_json :: "'s HistoryStore \<Rightarrow> bool" where
  "log_json h \<longleftrightarrow> (\<forall>l. list_all text_ok l \<longrightarrow> hs_unmarshal h (hs_marshal h l) = Some l)"

text \<open>What a log promises: bounded, one entry per id, entries of its chat.\<close>

definition log_ok :: "string \<Rightarrow> StoredMessage list \<Rightarrow> bool" where
  "log_ok chat l \<longleftrightarrow> length l \<le> HistoryWindow \<and> distinct (map sm_ID l) \<and> list_all (\<lambda>m. text_ok m \<and> sm_Chat m = chat) l"

definition hist_inv :: "'s HistoryStore \<Rightarrow> string \<Rightarrow> 's \<Rightarrow> bool" where
  "hist_inv h sess s \<longleftrightarrow> (\<forall>chat. log_ok chat (loadLocked h sess chat s))"

lemma historyKey_inject [simp]: "historyKey sess c = historyKey sess c' \<longleftrightarrow> c = c'"
  by (simp add: historyKey_def)

lemma text_ok_ack: "text_ok m \<Longrightarrow> utf8 a \<Longrightarrow> text_ok (m\<lparr>sm_Ack := a\<rparr>)"
  by (simp add: text_ok_def)

lemma upsert_log_ok:
  assumes "log_ok (sm_Chat m) l" "text_ok m"
  shows "log_ok (sm_Chat m) (upsert_log m l)"
proof -
  have "text_ok x \<and> sm_Chat x = sm_Chat m" if mem: "x \<in> set (upsert_log m l)" for x
  proof -
    consider "x \<in> set l" | "x = m" | y where "y \<in> set l" "x = m\<lparr>sm_Ack := sm_Ack y\<rparr>" using mem upsert_log_set [of m l] by blast
    then show ?thesis
    proof cases
      case (3 y)
      then have "utf8 (sm_Ack y)" using assms(1) by (auto simp: log_ok_def list_all_iff text_ok_def)
      then show ?thesis using 3(2) assms(2) text_ok_ack by simp
    qed (use assms in \<open>auto simp: log_ok_def list_all_iff\<close>)
  qed
  then show ?thesis using assms(1) upsert_log_bounded upsert_log_distinct by (simp add: log_ok_def list_all_iff)
qed

lemma ack_log_ok: "log_ok chat l \<Longrightarrow> utf8 a \<Longrightarrow> log_ok chat (ack_log i a l)"
  using text_ok_ack by (auto simp: log_ok_def list_all_iff ack_log_def comp_def if_distrib cong: if_cong)

text \<open>The logs of a session, and what an ack does to them: the first chat with an entry it raises.\<close>

definition logs :: "'s HistoryStore \<Rightarrow> string \<Rightarrow> 's \<Rightarrow> string \<Rightarrow> StoredMessage list" where
  "logs h sess s = (\<lambda>chat. loadLocked h sess chat s)"

definition ack_view :: "string \<Rightarrow> string \<Rightarrow> (string \<Rightarrow> StoredMessage list) \<Rightarrow> string \<Rightarrow> StoredMessage list" where
  "ack_view i a V =
     (let R = {c. \<exists>m \<in> set (V c). raises i a m} in if R = {} then V else V(Min R := ack_log i a (V (Min R))))"

lemma find_sorted: "sorted xs \<Longrightarrow> find P xs = (if {x \<in> set xs. P x} = {} then None else Some (Min {x \<in> set xs. P x}))"
proof (induction xs)
  case (Cons x xs)
  have "Min {y \<in> set (x # xs). P y} = x" if "P x" using Cons.prems that by (intro Min_eqI) auto
  moreover have "{y \<in> set (x # xs). P y} = {y \<in> set xs. P y}" if "\<not> P x" using that by auto
  ultimately show ?case using Cons by auto
qed simp

lemma append_le_iff: "p @ a \<le> p @ b \<longleftrightarrow> a \<le> (b :: string)"
  by (induction p) simp_all

lemma sorted_drop_prefix:
  fixes p :: string
  assumes "sorted ks" "\<forall>k \<in> set ks. prefix p k"
  shows "sorted (map (drop (length p)) ks)"
proof -
  have "drop (length p) x \<le> drop (length p) y" if "x \<le> y" "prefix p x" "prefix p y" for x y
    using that by (auto simp: prefix_def append_le_iff)
  then show ?thesis using assms by (induction ks) auto
qed

lemma log_ok_text: "log_ok chat l \<Longrightarrow> list_all text_ok l"
  by (auto simp: log_ok_def list_all_iff)

context kv
begin

lemma load_contents_log:
  assumes "hs_ops h = ops" "inv s" "admits (historyKey sess chat)"
  shows "loadLocked h sess chat s = (case contents s (historyKey sess chat) of None \<Rightarrow> [] | Some raw \<Rightarrow> (case hs_unmarshal h raw of None \<Rightarrow> [] | Some l \<Rightarrow> l))"
  using assms by (simp add: loadLocked_def get split: option.split)

lemma save_log:
  assumes "hs_ops h = ops" "inv s" "\<And>c. admits (historyKey sess c)" "log_json h" "list_all text_ok l"
  obtains s' where "saveLocked h sess chat l s = (s', Inr ())" "inv s'" "contents s' = (contents s)(historyKey sess chat \<mapsto> hs_marshal h l)"
    "\<And>c. loadLocked h sess c s' = (if c = chat then l else loadLocked h sess c s)"
proof -
  obtain s' where s': "kv_Set ops (historyKey sess chat) (hs_marshal h l) s = Inr s'" "inv s'"
    "contents s' = (contents s)(historyKey sess chat \<mapsto> hs_marshal h l)"
    using set_ok [OF assms(2,3)] by blast
  have "hs_unmarshal h (hs_marshal h l) = Some l" using assms(4,5) by (simp add: log_json_def)
  then have "loadLocked h sess c s' = (if c = chat then l else loadLocked h sess c s)" for c
    using s'(3) by (simp add: load_contents_log [OF assms(1) s'(2) assms(3)] load_contents_log [OF assms(1,2,3)])
  then show thesis using s' assms(1) by (intro that [of s']) (simp_all add: saveLocked_def)
qed

lemma upsert_view:
  assumes "hs_ops h = ops" "inv s" "\<And>c. admits (historyKey sess c)" "log_json h" "hist_inv h sess s" "text_ok m" "sm_Chat m \<noteq> ''''"
  obtains s' where "upsert h sess m s = (s', Inr ())" "inv s'" "hist_inv h sess s'"
    "\<And>c. loadLocked h sess c s' = (if c = sm_Chat m then upsert_log m (loadLocked h sess c s) else loadLocked h sess c s)"
proof -
  let ?l = "upsert_log m (loadLocked h sess (sm_Chat m) s)"
  have ok: "log_ok (sm_Chat m) ?l" using assms(5,6) upsert_log_ok by (simp add: hist_inv_def)
  obtain s' where s': "saveLocked h sess (sm_Chat m) ?l s = (s', Inr ())" "inv s'"
    "\<And>c. loadLocked h sess c s' = (if c = sm_Chat m then ?l else loadLocked h sess c s)"
    using save_log [OF assms(1-4) log_ok_text [OF ok]] by blast
  have "hist_inv h sess s'" using assms(5) ok s'(3) by (simp add: hist_inv_def)
  then show thesis using s' assms(7) by (intro that [of s']) (simp_all add: upsert_def)
qed

lemma set_ack_chats_view:
  assumes "hs_ops h = ops" "inv s" "\<And>c. admits (historyKey sess c)" "log_json h" "hist_inv h sess s" "utf8 a"
  shows "\<exists>s'. set_ack_chats h sess i a ks s = (s', Inr ()) \<and> inv s' \<and> hist_inv h sess s' \<and>
    (\<forall>c. loadLocked h sess c s' =
      (if Some c = find (\<lambda>c. \<exists>m \<in> set (loadLocked h sess c s). raises i a m) (map (drop (length (historyPrefix sess))) ks)
       then ack_log i a (loadLocked h sess c s) else loadLocked h sess c s))"
proof (induction ks)
  case Nil
  then show ?case using assms by simp
next
  case (Cons k ks)
  let ?c = "drop (length (historyPrefix sess)) k"
  show ?case
  proof (cases "\<exists>m \<in> set (loadLocked h sess ?c s). raises i a m")
    case True
    have ok: "log_ok ?c (ack_log i a (loadLocked h sess ?c s))" using assms(5,6) ack_log_ok by (simp add: hist_inv_def)
    obtain s' where s': "saveLocked h sess ?c (ack_log i a (loadLocked h sess ?c s)) s = (s', Inr ())" "inv s'"
      "\<And>c. loadLocked h sess c s' = (if c = ?c then ack_log i a (loadLocked h sess ?c s) else loadLocked h sess c s)"
      using save_log [OF assms(1-4) log_ok_text [OF ok]] by blast
    have "hist_inv h sess s'" using assms(5) ok s'(3) by (simp add: hist_inv_def)
    then show ?thesis using True s' by (auto simp: Let_def)
  next
    case False
    then show ?thesis using Cons by (auto simp: Let_def)
  qed
qed

lemma setAck_view:
  assumes "hs_ops h = ops" "inv s" "\<And>c. admits (historyKey sess c)" "log_json h" "hist_inv h sess s" "utf8 a" "sess \<noteq> ''''" "i \<noteq> ''''"
  shows "\<exists>s'. setAck h sess i a s = (s', Inr ()) \<and> inv s' \<and> hist_inv h sess s' \<and> logs h sess s' = ack_view i a (logs h sess s)"
proof -
  let ?p = "historyPrefix sess"
  define ks where "ks = sorted_list_of_set {k \<in> dom (contents s). prefix ?p k}"
  have fin: "finite {k \<in> dom (contents s). prefix ?p k}" using finite_contents [OF assms(2)] by simp
  have list: "kv_List ops ?p s = Inr ks" unfolding ks_def by (rule list_ok [OF assms(2)])
  let ?cs = "map (drop (length ?p)) ks" and ?P = "\<lambda>c. \<exists>m \<in> set (loadLocked h sess c s). raises i a m"
  have srt: "sorted ?cs" using fin by (intro sorted_drop_prefix) (simp_all add: ks_def)
  have R: "{c. ?P c} = {c \<in> set ?cs. ?P c}"
  proof -
    have "c \<in> set ?cs" if "?P c" for c
    proof -
      have "contents s (historyKey sess c) \<noteq> None" using that load_contents_log [OF assms(1,2,3), of c] by (auto split: option.splits)
      then have "historyKey sess c \<in> set ks" using fin by (auto simp: ks_def historyKey_def)
      then show ?thesis by (force simp: historyKey_def image_iff)
    qed
    then show ?thesis by blast
  qed
  obtain s' where s': "set_ack_chats h sess i a ks s = (s', Inr ())" "inv s'" "hist_inv h sess s'"
    "\<forall>c. loadLocked h sess c s' = (if Some c = find ?P ?cs then ack_log i a (loadLocked h sess c s) else loadLocked h sess c s)"
    using set_ack_chats_view [OF assms(1-6)] by blast
  have "logs h sess s' = ack_view i a (logs h sess s)"
    unfolding logs_def ack_view_def Let_def R
    using s'(4) find_sorted [OF srt, of ?P] by (auto simp: fun_eq_iff)
  then show ?thesis using s' list assms(1,7,8) by (simp add: setAck_def)
qed

end

subsection \<open>Events\<close>

definition put_view :: "StoredMessage \<Rightarrow> (string \<Rightarrow> StoredMessage list) \<Rightarrow> string \<Rightarrow> StoredMessage list" where
  "put_view m V = (if sm_Chat m = '''' then V else V(sm_Chat m := upsert_log m (V (sm_Chat m))))"

text \<open>What an event means for the logs, as a map from chats to lists.\<close>

definition event_view :: "'s HistoryStore \<Rightarrow> string \<Rightarrow> Time \<times> string \<times> payload_data \<Rightarrow> (string \<Rightarrow> StoredMessage list) \<Rightarrow> string \<Rightarrow> StoredMessage list" where
  "event_view h sess ev V =
     (case ev of (now, typ, d) \<Rightarrow>
      case d of
        PNode n \<Rightarrow>
          let i = MustStringAttr n ''id''
          in if i = '''' then V
             else if typ = MessageReceived then put_view (inbound_message h now sess n) V
             else if typ = MessageAck then ack_view i (ack_of n) V
             else if typ = MessageUpdated then ack_view i AckRead V
             else V
      | PMessage m \<Rightarrow> if typ = MessageSent then put_view (sent_message m) V else V
      | POther \<Rightarrow> V)"

definition event_text :: "'s HistoryStore \<Rightarrow> string \<Rightarrow> Time \<times> string \<times> payload_data \<Rightarrow> bool" where
  "event_text h sess ev =
     (case ev of (now, typ, d) \<Rightarrow>
      case d of PNode n \<Rightarrow> text_ok (inbound_message h now sess n) | PMessage m \<Rightarrow> text_ok (sent_message m) | POther \<Rightarrow> True)"

definition run_history :: "'s HistoryStore \<Rightarrow> string \<Rightarrow> (Time \<times> string \<times> payload_data) list \<Rightarrow> 's \<Rightarrow> 's" where
  "run_history h sess evs s = fold (\<lambda>(now, typ, d). AttachHistory h now typ sess d) evs s"

lemma types_distinct [simp]:
  "MessageReceived \<noteq> MessageSent" "MessageReceived \<noteq> MessageAck" "MessageReceived \<noteq> MessageUpdated" "MessageSent \<noteq> MessageAck"
  "MessageSent \<noteq> MessageUpdated" "MessageAck \<noteq> MessageUpdated"
  "MessageSent \<noteq> MessageReceived" "MessageAck \<noteq> MessageReceived" "MessageUpdated \<noteq> MessageReceived" "MessageAck \<noteq> MessageSent"
  "MessageUpdated \<noteq> MessageSent" "MessageUpdated \<noteq> MessageAck"
  by (simp_all add: MessageReceived_def MessageSent_def MessageAck_def MessageUpdated_def)

lemma utf8_acks [simp]: "utf8 AckRead" "utf8 (ack_of n)"
  by (simp_all add: utf8_def ack_defs ack_of_def Let_def byte_of_char_def)

lemma inbound_id: "sm_ID (inbound_message h now sess n) = MustStringAttr n ''id''" "mg_ID (toMessage now n sess) = MustStringAttr n ''id''"
  by (simp_all add: inbound_message_def toMessage_def Let_def)

context kv
begin

lemma put_step:
  assumes "hs_ops h = ops" "inv s" "\<And>c. admits (historyKey sess c)" "log_json h" "hist_inv h sess s" "text_ok m"
  shows "inv (fst (upsert h sess m s)) \<and> hist_inv h sess (fst (upsert h sess m s)) \<and> logs h sess (fst (upsert h sess m s)) = put_view m (logs h sess s)"
proof (cases "sm_Chat m = ''''")
  case True
  then show ?thesis using assms(2,5) by (simp add: upsert_def put_view_def)
next
  case False
  obtain s' where "upsert h sess m s = (s', Inr ())" "inv s'" "hist_inv h sess s'"
    "\<And>c. loadLocked h sess c s' = (if c = sm_Chat m then upsert_log m (loadLocked h sess c s) else loadLocked h sess c s)"
    using upsert_view [OF assms False] by blast
  then show ?thesis using False by (auto simp: put_view_def logs_def)
qed

lemma event_step:
  assumes "hs_ops h = ops" "inv s" "\<And>c. admits (historyKey sess c)" "log_json h" "hist_inv h sess s" "sess \<noteq> ''''" "event_text h sess (now, typ, d)"
  shows "inv (AttachHistory h now typ sess d s) \<and> hist_inv h sess (AttachHistory h now typ sess d s) \<and>
    logs h sess (AttachHistory h now typ sess d s) = event_view h sess (now, typ, d) (logs h sess s)"
proof (cases d)
  case (PNode n)
  have ack: "inv (fst (setAck h sess (MustStringAttr n ''id'') a s)) \<and> hist_inv h sess (fst (setAck h sess (MustStringAttr n ''id'') a s)) \<and>
      logs h sess (fst (setAck h sess (MustStringAttr n ''id'') a s)) = ack_view (MustStringAttr n ''id'') a (logs h sess s)"
    if "utf8 a" "MustStringAttr n ''id'' \<noteq> ''''" for a
    using setAck_view [OF assms(1-5) that(1) assms(6) that(2)] by auto
  have "text_ok (inbound_message h now sess n)" using assms(7) PNode by (simp add: event_text_def)
  note put = put_step [OF assms(1-5) this]
  show ?thesis using PNode put ack assms(2,5)
    by (auto simp: AttachHistory_def onInbound_def onAck_def onUpdated_def onSent_def event_view_def inbound_id Let_def)
next
  case (PMessage m)
  then have "text_ok (sent_message m)" using assms(7) by (simp add: event_text_def)
  note put = put_step [OF assms(1-5) this]
  show ?thesis using PMessage put assms(2,5)
    by (auto simp: AttachHistory_def onInbound_def onAck_def onUpdated_def onSent_def event_view_def)
qed (use assms(2,5) in \<open>simp add: AttachHistory_def onInbound_def onAck_def onUpdated_def onSent_def event_view_def\<close>)

lemma run_steps:
  assumes "hs_ops h = ops" "inv s" "\<And>c. admits (historyKey sess c)" "log_json h" "hist_inv h sess s" "sess \<noteq> ''''" "\<forall>ev \<in> set evs. event_text h sess ev"
  shows "inv (run_history h sess evs s) \<and> hist_inv h sess (run_history h sess evs s) \<and>
    logs h sess (run_history h sess evs s) = fold (event_view h sess) evs (logs h sess s)"
  using assms(2,5,7)
proof (induction evs arbitrary: s)
  case (Cons ev evs)
  obtain now ty d where ev: "ev = (now, ty, d)" by (cases ev)
  note step = event_step [OF assms(1) Cons.prems(1) assms(3,4) Cons.prems(2) assms(6), of now ty d]
  show ?case using step Cons.IH [of "AttachHistory h now ty sess d s"] Cons.prems(3) ev by (simp add: run_history_def)
qed (simp add: run_history_def)

end

subsection \<open>A codec for logs\<close>

definition to_fields :: "StoredMessage \<Rightarrow> string list" where
  "to_fields m =
     [sm_ID m, sm_Chat m, sm_Sender m, sm_Text m, sm_Type m, if sm_FromMe m then ''t'' else '''', sm_Ack m, replicate (unat (sm_Timestamp m)) CHR ''x''] @
     (case sm_Media m of
        None \<Rightarrow> []
      | Some d \<Rightarrow> [md_Kind d, md_URL d, md_MIME d, md_Caption d, md_Width d, md_Height d, md_Name d, md_Size d, md_Thumb d])"

definition of_fields :: "string list \<Rightarrow> StoredMessage" where
  "of_fields f =
     \<lparr>sm_ID = f ! 0, sm_Chat = f ! 1, sm_Sender = f ! 2, sm_Text = f ! 3, sm_Type = f ! 4, sm_FromMe = (f ! 5 = ''t''), sm_Ack = f ! 6,
      sm_Timestamp = of_nat (length (f ! 7)), sm_Media =
        (case drop 8 f of
           [] \<Rightarrow> None
         | g \<Rightarrow> Some \<lparr>md_Kind = g ! 0, md_URL = g ! 1, md_MIME = g ! 2, md_Caption = g ! 3, md_Width = g ! 4, md_Height = g ! 5, md_Name = g ! 6,
                     md_Size = g ! 7, md_Thumb = g ! 8\<rparr>)\<rparr>"

lemma of_to_fields [simp]: "of_fields (to_fields m) = m"
  by (cases m) (simp add: of_fields_def to_fields_def nth_Cons' split: option.split)

definition sample_history :: "Memory HistoryStore" where
  "sample_history = \<lparr>hs_ops = Memory_KV, hs_marshal = (\<lambda>l. enc_many (enc_many enc_str) (map to_fields l)),
     hs_unmarshal = (\<lambda>b. Some (map of_fields (fst (dec_many (dec_many dec_str) b)))), hs_now = 0\<rparr>"

lemma sample_log_json: "log_json sample_history"
  by (simp add: log_json_def sample_history_def dec_enc_many_end dec_enc_strs comp_def)

lemma sample_empty: "hist_inv sample_history sess NewMemory" "logs sample_history sess NewMemory = (\<lambda>_. [])"
  by (simp_all add: hist_inv_def logs_def loadLocked_def sample_history_def Memory_Get_def NewMemory_def log_ok_def)

subsection \<open>Properties\<close>


definition sample_inbound :: node where
  "sample_inbound = Node ''message'' [(''id'', VStr ''a''), (''from'', VStr ''c''), (''t'', VStr ''12'')] (VNodes [Node ''plain'' [] (VStr ''hi'')])"

definition sample_sent :: Message where
  "sample_sent = \<lparr>mg_ID = ''b'', mg_Chat = \<lparr>tg_JID = ''c''\<rparr>, mg_Sender = \<lparr>tg_JID = ''''\<rparr>, mg_Text = ''yo'', mg_Type = ''text'', mg_Stamp = time_Unix 13,
     mg_FromMe = True, mg_Media = None, mg_RawAttrs = []\<rparr>"

definition sample_events :: "(Time \<times> string \<times> payload_data) list" where
  "sample_events = [(time_Unix 12, MessageReceived, PNode sample_inbound), (time_Unix 13, MessageSent, PMessage sample_sent),
     (time_Unix 14, MessageAck, PNode (Node ''receipt'' [(''id'', VStr ''b''), (''type'', VStr ''read'')] VNil))]"

lemma sample_fields:
  "sm_ID (inbound_message h now sess sample_inbound) = ''a''" "sm_Chat (inbound_message h now sess sample_inbound) = ''c''"
  "sm_Text (inbound_message h now sess sample_inbound) = ''hi''" "sm_Ack (inbound_message h now sess sample_inbound) = AckReceived"
  "\<not> sm_FromMe (inbound_message h now sess sample_inbound)" "MustStringAttr sample_inbound ''id'' = ''a''"
  "sm_ID (sent_message sample_sent) = ''b''" "sm_Chat (sent_message sample_sent) = ''c''" "sm_Text (sent_message sample_sent) = ''yo''"
  "sm_Ack (sent_message sample_sent) = AckSent" "sm_FromMe (sent_message sample_sent)"
  "MustStringAttr (Node t [(''id'', VStr i), (''type'', VStr y)] c) ''id'' = i" "MustStringAttr (Node t [(''id'', VStr i), (''type'', VStr y)] c) ''type'' = y"
  by (simp_all add: inbound_message_def toMessage_def sample_inbound_def MustStringAttr_def StringAttr_def message_text_def ChildByTag_def
      Children_def TextContent_def Let_def sent_message_def sample_sent_def)


text \<open>How an entry may look after a receipt.\<close>

definition ack_raised :: "string \<Rightarrow> string \<Rightarrow> StoredMessage \<Rightarrow> StoredMessage \<Rightarrow> bool" where
  "ack_raised i a m m' \<longleftrightarrow> m' = m \<or> raises i a m \<and> m' = m\<lparr>sm_Ack := a\<rparr>"

lemma ack_log_raised: "list_all2 (ack_raised i a) l (ack_log i a l)"
  by (simp add: ack_log_def list_all2_map2 list_all2_same ack_raised_def)

lemma ack_view_cases: "ack_view i a V c = V c \<or> ack_view i a V c = ack_log i a (V c)"
proof -
  have "(V(d := ack_log i a (V d))) c \<in> {V c, ack_log i a (V c)}" for d by (cases "c = d") simp_all
  then show ?thesis unfolding ack_view_def Let_def by auto
qed

lemma ack_view_raised: "list_all2 (ack_raised i a) (V c) (ack_view i a V c)"
  using ack_view_cases [of i a V c] ack_log_raised [of i a "V c"] by (auto simp: list_all2_same ack_raised_def)

lemma ack_view_reaches:
  assumes "m \<in> set (V c)" "sm_ID m = i" "sm_FromMe m" "\<And>c' m'. m' \<in> set (V c') \<Longrightarrow> sm_ID m' = i \<Longrightarrow> sm_FromMe m' \<Longrightarrow> c' = c"
  shows "\<exists>m' \<in> set (ack_view i a V c). sm_ID m' = i \<and> sm_FromMe m' \<and> ackRank (sm_Ack m') = max (ackRank (sm_Ack m)) (ackRank a)"
proof (cases "raises i a m")
  case True
  have "c' = c" if "x \<in> set (V c')" "raises i a x" for x c'
    using that by (intro assms(4) [of x]) (simp_all add: raises_def)
  then have "{c'. \<exists>m \<in> set (V c'). raises i a m} = {c}" using True assms(1) by blast
  then have "ack_view i a V c = ack_log i a (V c)" by (simp add: ack_view_def)
  moreover have "(if raises i a m then m\<lparr>sm_Ack := a\<rparr> else m) \<in> set (ack_log i a (V c))"
    unfolding ack_log_def set_map by (rule imageI) (rule assms(1))
  ultimately show ?thesis using True assms(2,3) by (intro bexI [of _ "m\<lparr>sm_Ack := a\<rparr>"]) (simp_all add: raises_def)
next
  case False
  then have r: "ackRank a < ackRank (sm_Ack m)" using assms(2,3) by (auto simp: raises_def)
  have "(if raises i a m then m\<lparr>sm_Ack := a\<rparr> else m) \<in> set (ack_log i a (V c))"
    unfolding ack_log_def set_map by (rule imageI) (rule assms(1))
  then have "m \<in> set (ack_log i a (V c))" using False by simp
  then have "m \<in> set (ack_view i a V c)" using assms(1) ack_view_cases [of i a V c] by auto
  then show ?thesis using r assms(2,3) by (intro bexI [of _ m]) simp_all
qed

text \<open>
  Receipts only raise acks. Over any store that keeps its contract, a receipt leaves
  every log as it was except for acks of own messages with its id, which never go down
  in rank; and when such a message is stored in one chat only, its ack afterwards has the
  higher of the two ranks.
\<close>

theorem history_acks:
  fixes h :: "'s HistoryStore"
  assumes "kv (hs_ops h) contents I admits" "\<forall>c. admits (historyKey sess c)" "log_json h" "sess \<noteq> ''''"
    and "I s" "hist_inv h sess s" "i \<noteq> ''''" "utf8 a"
  shows "\<exists>s'. setAck h sess i a s = (s', Inr ()) \<and>
    (\<forall>c. list_all2 (\<lambda>m m'. m' = m \<or> sm_ID m = i \<and> sm_FromMe m \<and> ackRank (sm_Ack m) \<le> ackRank a \<and> m' = m\<lparr>sm_Ack := a\<rparr>)
       (logs h sess s c) (logs h sess s' c)) \<and>
    (\<forall>c m. m \<in> set (logs h sess s c) \<and> sm_ID m = i \<and> sm_FromMe m \<and>
       (\<forall>c' m'. m' \<in> set (logs h sess s c') \<and> sm_ID m' = i \<and> sm_FromMe m' \<longrightarrow> c' = c) \<longrightarrow>
       (\<exists>m' \<in> set (logs h sess s' c). sm_ID m' = i \<and> ackRank (sm_Ack m') = max (ackRank (sm_Ack m)) (ackRank a)))"
proof -
  obtain s' where s': "setAck h sess i a s = (s', Inr ())" "logs h sess s' = ack_view i a (logs h sess s)"
    using kv.setAck_view [OF assms(1) refl assms(5) _ assms(3,6,8,4,7)] assms(2) by blast
  have "list_all2 (\<lambda>m m'. m' = m \<or> sm_ID m = i \<and> sm_FromMe m \<and> ackRank (sm_Ack m) \<le> ackRank a \<and> m' = m\<lparr>sm_Ack := a\<rparr>)
       (logs h sess s c) (logs h sess s' c)" for c
    using ack_view_raised [of i a "logs h sess s" c] unfolding s'(2) by (rule list_all2_mono) (auto simp: ack_raised_def raises_def)
  moreover have "\<exists>m' \<in> set (logs h sess s' c). sm_ID m' = i \<and> ackRank (sm_Ack m') = max (ackRank (sm_Ack m)) (ackRank a)"
    if "m \<in> set (logs h sess s c)" "sm_ID m = i" "sm_FromMe m"
      "\<forall>c' m'. m' \<in> set (logs h sess s c') \<and> sm_ID m' = i \<and> sm_FromMe m' \<longrightarrow> c' = c" for c m
    using ack_view_reaches [of m "logs h sess s" c i a] that unfolding s'(2) by blast
  ultimately show ?thesis using s'(1) by blast
qed

lemma history_acks_witness:
  "\<exists>s'. setAck sample_history ''s'' ''b'' AckRead (run_history sample_history ''s'' [(time_Unix 13, MessageSent, PMessage sample_sent)] NewMemory) = (s', Inr ()) \<and>
     (\<exists>m \<in> set (logs sample_history ''s'' s' ''c''). sm_ID m = ''b'' \<and> ackRank (sm_Ack m) = 3)"
proof -
  let ?s = "run_history sample_history ''s'' [(time_Unix 13, MessageSent, PMessage sample_sent)] NewMemory"
  have ops: "hs_ops sample_history = Memory_KV" by (simp add: sample_history_def)
  have "event_text sample_history ''s'' (time_Unix 13, MessageSent, PMessage sample_sent)"
    by (simp add: event_text_def sample_sent_def sent_message_def text_ok_def utf8_def ack_defs byte_of_char_def)
  moreover have "mem_inv NewMemory" by (simp add: mem_inv_def NewMemory_def)
  ultimately have run: "mem_inv ?s" "hist_inv sample_history ''s'' ?s" "logs sample_history ''s'' ?s = (\<lambda>_. [])(''c'' := [sent_message sample_sent])"
    using mem.run_steps [OF ops _ _ sample_log_json sample_empty(1), of "''s''" "[(time_Unix 13, MessageSent, PMessage sample_sent)]"]
    by (simp_all add: sample_empty event_view_def put_view_def upsert_log_def HistoryWindow_def sample_fields)
  have "kv (hs_ops sample_history) mem_contents mem_inv (\<lambda>_. True)" using mem.kv_axioms by (simp add: sample_history_def)
  from history_acks [OF this _ sample_log_json _ run(1,2), of "''b''" AckRead]
  obtain s' where s': "setAck sample_history ''s'' ''b'' AckRead ?s = (s', Inr ())"
    "\<forall>c m. m \<in> set (logs sample_history ''s'' ?s c) \<and> sm_ID m = ''b'' \<and> sm_FromMe m \<and>
       (\<forall>c' m'. m' \<in> set (logs sample_history ''s'' ?s c') \<and> sm_ID m' = ''b'' \<and> sm_FromMe m' \<longrightarrow> c' = c) \<longrightarrow>
       (\<exists>m' \<in> set (logs sample_history ''s'' s' c). sm_ID m' = ''b'' \<and> ackRank (sm_Ack m') = max (ackRank (sm_Ack m)) (ackRank AckRead))"
    by auto
  have "max (ackRank AckSent) (ackRank AckRead) = 3" by (simp add: ackRank_def ack_defs)
  then have "\<exists>m \<in> set (logs sample_history ''s'' s' ''c''). sm_ID m = ''b'' \<and> ackRank (sm_Ack m) = 3"
    using s'(2) [rule_format, of "sent_message sample_sent" "''c''"] by (simp add: run(3) sample_fields split: if_splits)
  then show ?thesis using s'(1) by blast
qed

text \<open>
  The same does not hold of a \<open>message.sent\<close> event that arrives after the receipt: the four
  subscriptions have their own workers, and \<open>upsert\<close> puts the ack back to \<open>sent\<close>.
\<close>

lemma late_sent_lowers_ack:
  assumes "sm_Chat m \<noteq> ''''" "sm_Ack m = AckSent"
  shows "put_view m (ack_view (sm_ID m) AckRead ((\<lambda>_. [])(sm_Chat m := [m\<lparr>sm_FromMe := True\<rparr>]))) (sm_Chat m) = [m]"
proof -
  have "{c. \<exists>x \<in> set (((\<lambda>_. [])(sm_Chat m := [m\<lparr>sm_FromMe := True\<rparr>])) c). raises (sm_ID m) AckRead x} = {sm_Chat m}"
    using assms(2) by (auto simp: raises_def ackRank_def ack_defs)
  then have "ack_view (sm_ID m) AckRead ((\<lambda>_. [])(sm_Chat m := [m\<lparr>sm_FromMe := True\<rparr>])) (sm_Chat m)
      = ack_log (sm_ID m) AckRead [m\<lparr>sm_FromMe := True\<rparr>]" by (simp add: ack_view_def)
  then show ?thesis using assms by (simp add: put_view_def ack_log_def upsert_log_def Let_def HistoryWindow_def ack_defs)
qed

end
