(* ===== verification/Supervisor.thy ===== *)
theory Supervisor
  imports SessionRun "HOL-Library.Log_Nat"
begin

text \<open>
  The fleet runtime of \<^verbatim>\<open>supervisor/supervisor.go\<close>: registration, one manage loop per
  session with its attempts, backoff and watchdog, and the health view. A \<open>managed\<close>
  is an object, addressed by its place in an allocation list, since a removed one may
  still have a loop; it holds the session of its last attempt as the engine's own
  record. Goroutines are steps, a \<open>select\<close> takes any of its ready cases, durations are
  nanoseconds. The jitter only moves the moment a timer fires and is left to the
  environment, like the logger.
\<close>

subsection \<open>Options and backoff\<close>

record 's SupOptions =
  vo_Store :: "'s KV"
  vo_BaseBackoff :: int
  vo_MaxBackoff :: int
  vo_StableReset :: int
  vo_DialTimeout :: int
  vo_StuckThreshold :: int

definition second :: int where "second = 1000000000"

definition withDefaults :: "'s SupOptions \<Rightarrow> 's SupOptions" where
  "withDefaults vo =
     (let d = (\<lambda>v dflt. if v \<le> 0 then dflt else v)
      in vo\<lparr>vo_BaseBackoff := d (vo_BaseBackoff vo) second, vo_MaxBackoff := d (vo_MaxBackoff vo) (60 * second),
           vo_StableReset := d (vo_StableReset vo) (120 * second), vo_DialTimeout := d (vo_DialTimeout vo) (30 * second),
           vo_StuckThreshold := d (vo_StuckThreshold vo) (120 * second)\<rparr>)"

text \<open>
  \<open>int64\<close> wrap-around, and the conversion of an \<open>int64\<close> to \<open>float64\<close>: 53 significant bits, ties
  to even. The value is an integer, so the minimum and the conversion back are exact.
\<close>

definition wrap64 :: "int \<Rightarrow> int" where
  "wrap64 i = (i + 2 ^ 63) mod 2 ^ 64 - 2 ^ 63"

definition round_even :: "int \<Rightarrow> int \<Rightarrow> int" where
  "round_even n d =
     (let q = n div d; r = n mod d
      in (if 2 * r < d then q else if 2 * r > d then q + 1 else if even q then q else q + 1) * d)"

definition f64_of_int :: "int \<Rightarrow> int" where
  "f64_of_int n = round_even n (2 ^ (nat (bitlen \<bar>n\<bar>) - 53))"

definition nextBackoff :: "'s SupOptions \<Rightarrow> int \<Rightarrow> int" where
  "nextBackoff vo cur = min (f64_of_int (wrap64 (cur * 2))) (f64_of_int (vo_MaxBackoff vo))"

text \<open>\<open>strings.Contains\<close>.\<close>

definition Contains :: "string \<Rightarrow> string \<Rightarrow> bool" where
  "Contains s t = list_ex (prefix t) (suffixes s)"

definition isFatalAuth :: "string \<Rightarrow> bool" where
  "isFatalAuth msg = list_ex (Contains msg) [''server auth'', ''rejected handshake'', ''registration'']"

subsection \<open>State\<close>

text \<open>Where the manage loop of a session is; \<open>LNone\<close> before it is spawned.\<close>

datatype loop_at = LNone | LTop | LNew | LStarting | LOnline int | LFailed string | LWait | LEnded

record 's managed =
  mg_opts :: "'s Options"
  mg_sess :: "'s Session option"
  mg_cancel :: "bool option"
  mg_at :: loop_at
  mg_backoff :: int

record 's Supervisor =
  vs_opts :: "'s SupOptions"
  vs_objs :: "'s managed list"
  vs_sessions :: "(string \<times> nat) list"
  vs_running :: bool
  vs_cancelled :: bool
  vs_retries :: "(string \<times> nat) list"
  vs_lastOnline :: "(string \<times> int) list"
  vs_phase :: "(string \<times> string) list"
  vs_actions :: "(string \<times> string \<times> string) list"
  vs_now :: int

datatype sup_error = SupNoID | SupDuplicate string | SupUnknown string | SupRunning | ErrNoSessions

definition NewSupervisor :: "'s SupOptions \<Rightarrow> int \<Rightarrow> 's Supervisor" where
  "NewSupervisor vo now = \<lparr>vs_opts = withDefaults vo, vs_objs = [], vs_sessions = [], vs_running = False, vs_cancelled = False, vs_retries = [],
     vs_lastOnline = [], vs_phase = [], vs_actions = [], vs_now = now\<rparr>"

definition upd_obj :: "nat \<Rightarrow> ('s managed \<Rightarrow> 's managed) \<Rightarrow> 's Supervisor \<Rightarrow> 's Supervisor" where
  "upd_obj i f sv = sv\<lparr>vs_objs := (vs_objs sv)[i := f (vs_objs sv ! i)]\<rparr>"

definition obj_id :: "'s managed \<Rightarrow> string" where
  "obj_id m = o_ID (mg_opts m)"

text \<open>The context of a loop: its own, under the supervisor's.\<close>

definition ctx_done :: "nat \<Rightarrow> 's Supervisor \<Rightarrow> bool" where
  "ctx_done i sv \<longleftrightarrow> mg_cancel (vs_objs sv ! i) = Some True \<or> vs_cancelled sv"

definition emitAction :: "string \<Rightarrow> string \<Rightarrow> string \<Rightarrow> 's Supervisor \<Rightarrow> 's Supervisor" where
  "emitAction i action reason sv = sv\<lparr>vs_actions := vs_actions sv @ [(i, action, reason)]\<rparr>"

definition noteOnline :: "string \<Rightarrow> 's Supervisor \<Rightarrow> 's Supervisor" where
  "noteOnline i sv = sv\<lparr>vs_lastOnline := AList.update i (vs_now sv) (vs_lastOnline sv)\<rparr>"

subsection \<open>Registration\<close>

definition spawn :: "'s Supervisor \<Rightarrow> 's managed \<Rightarrow> 's managed" where
  "spawn sv m = m\<lparr>mg_cancel := Some False, mg_at := LTop, mg_backoff := vo_BaseBackoff (vs_opts sv)\<rparr>"

text \<open>\<open>Add\<close>: the session's options with its policy; \<open>None\<close> for a nil store takes the shared one.\<close>

definition Add :: "'s Options \<Rightarrow> 's KV option \<Rightarrow> 's Supervisor \<Rightarrow> 's Supervisor \<times> (sup_error + unit)" where
  "Add opts store sv =
     (if o_ID opts = '''' then (sv, Inl SupNoID)
      else if o_ID opts \<in> fst ` set (vs_sessions sv) then (sv, Inl (SupDuplicate (o_ID opts)))
      else
        let opts = opts\<lparr>o_Store := (case store of Some k \<Rightarrow> k | None \<Rightarrow> vo_Store (vs_opts sv))\<rparr>;
            m = \<lparr>mg_opts = opts, mg_sess = None, mg_cancel = None, mg_at = LNone, mg_backoff = 0\<rparr>;
            m = (if vs_running sv then spawn sv m else m)
        in (sv\<lparr>vs_sessions := AList.update (o_ID opts) (length (vs_objs sv)) (vs_sessions sv), vs_objs := vs_objs sv @ [m]\<rparr>, Inr ()))"

definition stop_session :: "transport \<Rightarrow> 's managed \<Rightarrow> 's managed" where
  "stop_session T m = m\<lparr>mg_sess := map_option (Stop_begin (mg_opts m) T) (mg_sess m)\<rparr>"

definition cancel_loop :: "'s managed \<Rightarrow> 's managed" where
  "cancel_loop m = m\<lparr>mg_cancel := map_option (\<lambda>_. True) (mg_cancel m)\<rparr>"

definition Remove :: "transport \<Rightarrow> string \<Rightarrow> 's Supervisor \<Rightarrow> 's Supervisor \<times> (sup_error + unit)" where
  "Remove T i sv =
     (case map_of (vs_sessions sv) i of
        None \<Rightarrow> (sv, Inl (SupUnknown i))
      | Some k \<Rightarrow>
          (upd_obj k (\<lambda>m. stop_session T (cancel_loop m)) (sv\<lparr>vs_sessions := AList.delete i (vs_sessions sv)\<rparr>), Inr ()))"

definition SupStart :: "'s Supervisor \<Rightarrow> 's Supervisor \<times> (sup_error + unit)" where
  "SupStart sv =
     (if vs_running sv then (sv, Inl SupRunning)
      else if vs_sessions sv = [] then (sv, Inl ErrNoSessions)
      else (fold (\<lambda>(i, k). upd_obj k (spawn sv)) (vs_sessions sv) (sv\<lparr>vs_running := True\<rparr>), Inr ()))"

text \<open>\<open>Stop\<close> up to its bounded wait for the loops.\<close>

definition SupStop :: "transport \<Rightarrow> 's Supervisor \<Rightarrow> 's Supervisor" where
  "SupStop T sv =
     fold (\<lambda>(i, k). upd_obj k (\<lambda>m. stop_session T (cancel_loop m))) (vs_sessions sv)
       (sv\<lparr>vs_cancelled := (vs_running sv \<or> vs_cancelled sv)\<rparr>)"

subsection \<open>The manage loop\<close>

definition set_at :: "nat \<Rightarrow> loop_at \<Rightarrow> 's Supervisor \<Rightarrow> 's Supervisor" where
  "set_at i a = upd_obj i (\<lambda>m. m\<lparr>mg_at := a\<rparr>)"

text \<open>\<open>attempt\<close>: a new session, its start, what the start's wait ends with. A failed start may raise the backoff.\<close>

definition loop_top :: "bool \<Rightarrow> 's \<Rightarrow> nat \<Rightarrow> 's Supervisor \<Rightarrow> 's Supervisor" where
  "loop_top dialer st i sv =
     (if ctx_done i sv then set_at i LEnded sv
      else
        let opts = mg_opts (vs_objs sv ! i)
        in case New opts dialer st (vs_now sv) of
             Inl e \<Rightarrow> set_at i (LFailed (o_errtext opts e)) sv
           | Inr s \<Rightarrow> upd_obj i (\<lambda>m. m\<lparr>mg_sess := Some s, mg_at := LNew\<rparr>) sv)"

definition start_failed :: "nat \<Rightarrow> session_error \<Rightarrow> 's Supervisor \<Rightarrow> 's Supervisor" where
  "start_failed i e sv =
     (let msg = o_errtext (mg_opts (vs_objs sv ! i)) e;
          sv = (if isFatalAuth msg then upd_obj i (\<lambda>m. m\<lparr>mg_backoff := vo_MaxBackoff (vs_opts sv)\<rparr>) sv else sv)
      in set_at i (LFailed msg) sv)"

definition loop_start :: "session_error + Credentials \<Rightarrow> nat \<Rightarrow> 's Supervisor \<Rightarrow> 's Supervisor" where
  "loop_start gen i sv =
     (case mg_sess (vs_objs sv ! i) of
        None \<Rightarrow> sv
      | Some s \<Rightarrow>
          (case Start (mg_opts (vs_objs sv ! i)) gen s of
             (s, Inl e) \<Rightarrow> start_failed i e (upd_obj i (\<lambda>m. m\<lparr>mg_sess := Some s\<rparr>) sv)
           | (s, Inr _) \<Rightarrow> upd_obj i (\<lambda>m. m\<lparr>mg_sess := Some s, mg_at := LStarting\<rparr>) sv))"

datatype loop_wake = WOnline | WFailed | WCtx | WDone | WTick | WTimer

definition loop_started :: "loop_wake \<Rightarrow> nat \<Rightarrow> 's Supervisor \<Rightarrow> 's Supervisor option" where
  "loop_started w i sv =
     (case mg_sess (vs_objs sv ! i) of
        None \<Rightarrow> None
      | Some s \<Rightarrow>
          (case w of
             WOnline \<Rightarrow>
               if s_online s then Some (set_at i (LOnline (vs_now sv)) (noteOnline (obj_id (vs_objs sv ! i)) sv)) else None
           | WFailed \<Rightarrow>
               (case s_task s of
                  TDone err \<Rightarrow> Some (start_failed i (case err of Some e \<Rightarrow> e | None \<Rightarrow> TaskExited) sv)
                | _ \<Rightarrow> None)
           | WCtx \<Rightarrow>
               if ctx_done i sv then Some (start_failed i CtxDone (upd_obj i (\<lambda>m. m\<lparr>mg_sess := Some (abort s)\<rparr>) sv)) else None
           | _ \<Rightarrow> None))"

text \<open>How long the machine has been in a transient state.\<close>

definition stuckSince :: "int \<Rightarrow> 's Session \<Rightarrow> int" where
  "stuckSince now s =
     (let h = StateMachine.History (s_mach s)
      in if h = [] then 0
         else if tr_To (last h) \<in> {Starting, Connecting, Authenticating, Syncing} then now - tr_At (last h) else 0)"

definition loop_online :: "loop_wake \<Rightarrow> transport \<Rightarrow> int \<Rightarrow> nat \<Rightarrow> 's Supervisor \<Rightarrow> 's Supervisor option" where
  "loop_online w T onlineSince i sv =
     (case mg_sess (vs_objs sv ! i) of
        None \<Rightarrow> None
      | Some s \<Rightarrow>
          (case w of
             WCtx \<Rightarrow>
               if ctx_done i sv then Some (set_at i LEnded (upd_obj i (stop_session T) sv)) else None
           | WDone \<Rightarrow>
               if s_broken s \<noteq> None then
                 let sv = (if vs_now sv - onlineSince \<ge> vo_StableReset (vs_opts sv)
                           then upd_obj i (\<lambda>m. m\<lparr>mg_backoff := vo_BaseBackoff (vs_opts sv)\<rparr>) sv else sv)
                 in Some (set_at i (LFailed ''connection dropped'') (noteOnline (obj_id (vs_objs sv ! i)) sv))
               else None
           | WTick \<Rightarrow>
               if stuckSince (vs_now sv) s > vo_StuckThreshold (vs_opts sv) then
                 Some (set_at i (LFailed ''stuck state forced'') (upd_obj i (stop_session T)
                   (emitAction (obj_id (vs_objs sv ! i)) ''force-reconnect'' (state_name (m_state (s_mach s))) sv)))
               else None
           | _ \<Rightarrow> None))"

definition loop_failed :: "string \<Rightarrow> nat \<Rightarrow> 's Supervisor \<Rightarrow> 's Supervisor" where
  "loop_failed err i sv =
     (if ctx_done i sv then set_at i LEnded sv
      else
        let sid = obj_id (vs_objs sv ! i);
            sv = emitAction sid ''retry'' err sv;
            n = (case map_of (vs_retries sv) sid of Some n \<Rightarrow> n | None \<Rightarrow> 0);
            sv = sv\<lparr>vs_retries := AList.update sid (n + 1) (vs_retries sv), vs_phase := AList.update sid ''backoff'' (vs_phase sv)\<rparr>
        in upd_obj i (\<lambda>m. m\<lparr>mg_backoff := nextBackoff (vs_opts sv) (mg_backoff m), mg_at := LWait\<rparr>) sv)"

definition loop_wait :: "loop_wake \<Rightarrow> nat \<Rightarrow> 's Supervisor \<Rightarrow> 's Supervisor option" where
  "loop_wait w i sv =
     (case w of
        WTimer \<Rightarrow> Some (set_at i LTop (sv\<lparr>vs_phase := AList.delete (obj_id (vs_objs sv ! i)) (vs_phase sv)\<rparr>))
      | WCtx \<Rightarrow> if ctx_done i sv then Some (set_at i LEnded sv) else None
      | _ \<Rightarrow> None)"

subsection \<open>Health\<close>

record Status =
  hl_ID :: string
  hl_State :: State
  hl_Retries :: nat
  hl_LastOnline :: int
  hl_Creds :: Credentials

definition health_of :: "'s Supervisor \<Rightarrow> string \<Rightarrow> 's managed \<Rightarrow> Status" where
  "health_of sv i m =
     (let backoff = map_of (vs_phase sv) i = Some ''backoff''
      in case mg_sess m of
           Some s \<Rightarrow>
             \<lparr>hl_ID = i, hl_State = (if backoff then Reconnecting else m_state (s_mach s)),
              hl_Retries = (case map_of (vs_retries sv) i of Some n \<Rightarrow> n | None \<Rightarrow> 0),
              hl_LastOnline = (case map_of (vs_lastOnline sv) i of Some t \<Rightarrow> t | None \<Rightarrow> 0), hl_Creds = credsSnapshot s\<rparr>
         | None \<Rightarrow>
             \<lparr>hl_ID = i, hl_State = (if backoff then Reconnecting else Stopped), hl_Retries = 0, hl_LastOnline = 0, hl_Creds = no_credentials\<rparr>)"

definition Health :: "'s Supervisor \<Rightarrow> (string \<times> Status) list" where
  "Health sv = map (\<lambda>(i, k). (i, health_of sv i (vs_objs sv ! k))) (vs_sessions sv)"

definition SupSession :: "string \<Rightarrow> 's Supervisor \<Rightarrow> 's Session option" where
  "SupSession i sv = (case map_of (vs_sessions sv) i of Some k \<Rightarrow> mg_sess (vs_objs sv ! k) | None \<Rightarrow> None)"

definition Sessions :: "'s Supervisor \<Rightarrow> string list" where
  "Sessions sv = map fst (vs_sessions sv)"

end
