(* ===== verification/SessionHistory.thy ===== *)
theory SessionHistory
  imports SessionRun
begin

text \<open>
  The lifecycle machine inside a session: which moves the steps of the engine make, and
  where a session can be after it came online.
\<close>

subsection \<open>Moves to a set of states\<close>

inductive via :: "State set \<Rightarrow> Machine \<Rightarrow> Machine \<Rightarrow> bool" for D :: "State set" where
  stay: "via D m m"
| move: "via D m m' \<Longrightarrow> d \<in> D \<Longrightarrow> via D m (fst (Move now d r m'))"
| force: "via D m m' \<Longrightarrow> d \<in> D \<Longrightarrow> via D m (Force now d r m')"

lemma via_trans: "via D m' m'' \<Longrightarrow> via D m m' \<Longrightarrow> via D m m''"
  by (induction rule: via.induct) (auto intro: via.intros)

definition mvia :: "State set \<Rightarrow> 's Session \<Rightarrow> 's Session \<Rightarrow> bool" where
  "mvia D s s' \<longleftrightarrow> via D (s_mach s) (s_mach s')"

named_theorems via_intros

lemma mvia_refl [via_intros]: "mvia D s s"
  by (simp add: mvia_def via.stay)

lemma mvia_trans: "mvia D s s' \<Longrightarrow> mvia D s' s'' \<Longrightarrow> mvia D s s''"
  using via_trans by (auto simp: mvia_def)

lemma mvia_same: "mvia D s s' \<Longrightarrow> s_mach s'' = s_mach s' \<Longrightarrow> mvia D s s''"
  by (simp add: mvia_def)

lemma mvia_move [via_intros]: "mvia D s s' \<Longrightarrow> d \<in> D \<Longrightarrow> mvia D s (fst (ses_move d r s'))"
  by (simp add: mvia_def ses_move_def case_prod_beta via.move)

lemma mvia_upd [via_intros]:
  "mvia D s s' \<Longrightarrow> mvia D s (emit ty d s')" "mvia D s s' \<Longrightarrow> mvia D s (emit_state s')"
  "mvia D s s' \<Longrightarrow> mvia D s (s'\<lparr>s_consuming := b\<rparr>)" "mvia D s s' \<Longrightarrow> mvia D s (s'\<lparr>s_pinging := b\<rparr>)"
  "mvia D s s' \<Longrightarrow> mvia D s (s'\<lparr>s_serving := b\<rparr>)" "mvia D s s' \<Longrightarrow> mvia D s (s'\<lparr>s_serving := b, s_consuming := b\<rparr>)"
  "mvia D s s' \<Longrightarrow> mvia D s (s'\<lparr>s_frames := f\<rparr>)" "mvia D s s' \<Longrightarrow> mvia D s (s'\<lparr>s_now := t\<rparr>)" "mvia D s s' \<Longrightarrow> mvia D s (s'\<lparr>s_lastIn := t\<rparr>)"
  "mvia D s s' \<Longrightarrow> mvia D s (s'\<lparr>s_stopped := b\<rparr>)" "mvia D s s' \<Longrightarrow> mvia D s (s'\<lparr>s_pin := p\<rparr>)" "mvia D s s' \<Longrightarrow> mvia D s (s'\<lparr>s_task := k\<rparr>)"
  "mvia D s s' \<Longrightarrow> mvia D s (s'\<lparr>s_recv := rc\<rparr>)" "mvia D s s' \<Longrightarrow> mvia D s (s'\<lparr>s_conn := b, s_task := k\<rparr>)"
  "mvia D s s' \<Longrightarrow> mvia D s (s'\<lparr>s_stopRequested := b, s_conn := c, s_connClosed := e\<rparr>)"
  "mvia D s s' \<Longrightarrow> mvia D s (s'\<lparr>s_online := b, s_pinging := b, s_task := k\<rparr>)" "mvia D s s' \<Longrightarrow> mvia D s (s'\<lparr>s_requests := q\<rparr>)"
  "mvia D s s' \<Longrightarrow> mvia D s (s'\<lparr>s_broken := br\<rparr>)" "mvia D s s' \<Longrightarrow> mvia D s (shutdownOK s')" "mvia D s s' \<Longrightarrow> mvia D s (abort s')"
  by ((erule mvia_same; simp add: emit_state_def shutdownOK_def abort_def)+)

lemma mvia_fail [via_intros]: "mvia D s s' \<Longrightarrow> Error \<in> D \<Longrightarrow> mvia D s (fail opts e s')"
  by (auto simp: fail_def Let_def intro!: via_intros)

lemma mvia_Send [via_intros]: "mvia D s s' \<Longrightarrow> mvia D s (fst (Send opts T n s'))"
  by (erule mvia_same) (simp add: Send_def SendBinary_def Let_def split: option.splits prod.splits)

lemma mvia_Request [via_intros]: "mvia D s s' \<Longrightarrow> mvia D s (fst (Request opts T fresh n s'))"
  by (erule mvia_same) (simp add: Request_def Send_def SendBinary_def Let_def split: option.splits prod.splits sum.splits)

lemma mvia_wait: "Request_wait w i s = Some (s', res) \<Longrightarrow> mvia D s s'"
  by (auto simp: Request_wait_def Let_def split: wake.splits option.splits if_splits intro!: via_intros)

lemma mvia_force [via_intros]: "mvia D s s' \<Longrightarrow> d \<in> D \<Longrightarrow> mvia D s (s'\<lparr>s_mach := Force now d r (s_mach s')\<rparr>)"
  by (simp add: mvia_def via.force)

text \<open>Where a session may move once it has been online.\<close>

definition settled :: "State set" where
  "settled = {Online, Degraded, Error, Stopping, Stopped}"

lemma mvia_Stop_begin:
  assumes "Stopping \<in> D"
  shows "mvia D s (Stop_begin opts T s)"
  using assms by (auto simp: Stop_begin_def Let_def case_prod_beta split: option.split intro!: via_intros)

lemma mvia_handleInband:
  assumes "Online \<in> D"
  shows "mvia D s (handleInband n s)"
proof -
  have "mvia D s (handle_child c s)" for c and s :: "'a Session"
    using assms by (auto simp: handle_child_def Let_def intro!: via_intros)
  then have "mvia D s (fold handle_child cs s)" for cs
    by (induction cs arbitrary: s) (use mvia_refl mvia_trans in \<open>fastforce+\<close>)
  then show ?thesis by (simp add: handleInband_def)
qed

lemma mvia_dispatch: "Online \<in> D \<Longrightarrow> mvia D s (dispatch n s)"
  by (auto simp: dispatch_def split: option.split intro!: via_intros mvia_handleInband)

lemma mvia_dispatched [via_intros]: "mvia D s s' \<Longrightarrow> Online \<in> D \<Longrightarrow> mvia D s (dispatch n s')"
  using mvia_trans mvia_dispatch by blast

lemma mvia_frameConsumer:
  assumes "{Online, Error} \<subseteq> D"
  shows "mvia D s (frameConsumer opts s)"
proof (cases "s_frames s")
  case (Cons raw rest)
  have "mvia D s (s\<lparr>s_frames := rest, s_recv := Some c\<rparr>)" for c by (intro via_intros)
  then show ?thesis using Cons assms
    by (auto simp: frameConsumer_def Let_def split: option.split prod.split sum.split intro!: via_intros)
qed (simp add: frameConsumer_def mvia_refl)

lemma mvia_serveFrames: "Error \<in> D \<Longrightarrow> mvia D s (serveFrames opts c got s)"
  by (auto simp: serveFrames_def markInbound_def Let_def split: sum.splits intro!: via_intros)

lemma mvia_keepAlive:
  assumes "{Degraded, Error} \<subseteq> D"
  shows "mvia D s (keepAliveLoop opts T fresh s)"
proof -
  have "mvia D s (fst (Send opts T n s))" for n by (intro via_intros)
  then show ?thesis using assms by (auto simp: keepAliveLoop_def Let_def case_prod_beta split: sum.splits intro!: via_intros)
qed

lemma mvia_task_end [via_intros]: "mvia D s s' \<Longrightarrow> Error \<in> D \<Longrightarrow> mvia D s (task_end opts c e s')"
  by (auto simp: task_end_def Let_def intro!: via_intros)

lemma mvia_connected: "mvia D s s' \<Longrightarrow> {Online, Error} \<subseteq> D \<Longrightarrow> mvia D s (task_connected opts c res s')"
proof -
  assume "mvia D s s'" "{Online, Error} \<subseteq> D"
  moreover have "mvia D s' (connectIQ opts resp s')" for resp
    by (rule mvia_same [OF mvia_refl]) (simp add: connectIQ_def split: option.split)
  ultimately show ?thesis using mvia_trans
    by (fastforce simp: task_connected_def markInbound_def Let_def case_prod_beta split: sum.split option.split intro!: via_intros)
qed

text \<open>Once the task is at its end or watches, every step moves within \<open>settled\<close>.\<close>

lemma step_settled:
  assumes "ses_step opts s s'" "s_task s \<notin> {TNone, TDial, THandshake}" "\<nexists>i. s_task s = TRequest i"
  shows "mvia settled s s'"
  using assms(1)
proof cases
  case (watch c)
  then show ?thesis by (auto simp: task_watch_def settled_def split: option.split intro!: via_intros)
qed (use assms(2,3) in \<open>auto simp: settled_def Stop_end_def dest: mvia_wait intro!: via_intros mvia_serveFrames mvia_frameConsumer mvia_keepAlive mvia_Stop_begin\<close>)

lemma mvia_handshake:
  assumes "auth_inv opts s" "s_task s = THandshake"
  shows "mvia UNIV s (task_handshake opts T c rand fresh s)"
proof -
  let ?s = "emit_state (fst (ses_move Authenticating ''noise'' s))"
  have "\<not> trusting ?s" "s_sent ?s = []"
    using assms untrusting_move [of s Authenticating "''noise''"] by (simp_all add: auth_inv_def emit_state_def)
  then have "same_frame ?s (fst (handshake opts T rand ?s))" using handshake_ok [of ?s opts T rand] by (simp add: hs_ok_def)
  moreover have "mvia UNIV s ?s" by (intro via_intros) simp
  ultimately have h: "mvia UNIV s (fst (handshake opts T rand ?s))" by (auto simp: same_frame_def intro: mvia_same)
  let ?s2 = "(emit_state (fst (ses_move Syncing ''connect-iq'' (fst (handshake opts T rand ?s)))))\<lparr>s_serving := True, s_consuming := True\<rparr>"
  have "mvia UNIV s (fst (Request opts T fresh (connectIQ_node opts fresh) ?s2))" using h by (intro via_intros) simp_all
  then show ?thesis using h
    by (auto simp: task_handshake_def Let_def case_prod_beta split: sum.split intro!: via_intros)
qed

lemma mvia_Start: "mvia UNIV s (fst (Start opts gen s))"
proof -
  obtain s1 r where l: "loadCredentials opts gen s = (s1, r)" by force
  then have "s_mach s1 = s_mach s" by (auto simp: loadCredentials_def split: sum.splits kv_error.splits dest!: arg_cong [where f = fst])
  then have "mvia UNIV s s1" by (rule mvia_same [OF mvia_refl])
  then show ?thesis using l
    by (cases r) (auto simp: Start_def case_prod_beta split: option.split intro!: via_intros mvia_refl)
qed

lemma step_mvia:
  assumes "ses_step opts s s'" "auth_inv opts s"
  shows "mvia UNIV s s'"
  using assms(1)
proof cases
  case (hand T c rand fresh)
  then show ?thesis using mvia_handshake assms(2) by blast
next
  case (connect i w s'' res c)
  then show ?thesis using mvia_connected [OF mvia_wait] by blast
qed (auto simp: Stop_end_def task_dial_def task_watch_def Let_def split: option.split dest: mvia_wait
    intro!: via_intros mvia_serveFrames mvia_frameConsumer mvia_keepAlive mvia_Stop_begin mvia_Start)

lemma via_hist_ok: "via D m m' \<Longrightarrow> hist_ok m \<Longrightarrow> chans_ok m \<Longrightarrow> hist_ok m' \<and> chans_ok m'"
  by (induction rule: via.induct) (use sm_step_ok sm_step.step_Move sm_step.step_Force in blast)+

lemma via_state: "via D m m' \<Longrightarrow> m_state m \<in> D \<Longrightarrow> m_state m' \<in> D"
proof (induction rule: via.induct)
  case (move m m' d now r)
  then show ?case using Move_state [of now d r m'] by (auto split: if_splits)
qed (simp_all add: Force_state)

subsection \<open>After coming online\<close>

definition online_inv :: "'s Session \<Rightarrow> bool" where
  "online_inv s \<longleftrightarrow> hist_ok (s_mach s) \<and> chans_ok (s_mach s) \<and>
     (s_online s \<longrightarrow> (s_task s = TOnline \<or> (\<exists>e. s_task s = TDone e)) \<and> m_state (s_mach s) \<in> settled)"

lemma online_same_task_end [simp]: "s_online (task_end opts c e s) = s_online s" "s_task (task_end opts c e s) = TDone (Some e)"
  by (auto simp: task_end_def fail_def shutdownOK_def abort_def Let_def)

lemma step_calm:
  assumes "ses_step opts s s'"
  shows "calm s s' \<or> (\<exists>gen. s_task s = TNone \<and> s' = fst (Start opts gen s)) \<or> (\<exists>c d. s_task s = TDial \<and> s' = task_dial opts c d s) \<or>
    (\<exists>T c rand fresh. s_task s = THandshake \<and> s' = task_handshake opts T c rand fresh s) \<or>
    (\<exists>i w s'' res c. s_task s = TRequest i \<and> Request_wait w i s = Some (s'', res) \<and> s' = task_connected opts c res s'') \<or>
    (\<exists>c. s_task s = TOnline \<and> s' = task_watch opts c s)"
  using assms
proof cases
  case (start gen)
  then show ?thesis by blast
next
  case (dial c d)
  then show ?thesis by blast
next
  case (hand T c rand fresh)
  then show ?thesis by blast
next
  case (connect i w s'' res c)
  then show ?thesis by blast
next
  case (watch c)
  then show ?thesis by blast
qed (auto intro!: disjI1 calm_intros calm_serveFrames calm_frameConsumer calm_keepAlive calm_Stop_begin simp: Stop_end_def dest: calm_wait)

lemma step_task:
  assumes "ses_step opts s s'" "s_task s = TOnline \<or> (\<exists>e. s_task s = TDone e)"
  shows "s_task s' = TOnline \<or> (\<exists>e. s_task s' = TDone e)"
  using step_calm [OF assms(1)] assms(2) by (auto simp: calm_def task_watch_def split: option.splits)

lemma ses_move_None: "ses_move d r s = (s', None) \<Longrightarrow> m_state (s_mach s') = d"
proof -
  assume m: "ses_move d r s = (s', None)"
  then have "canLocked d (s_mach s)" by (auto simp: ses_move_def Move_def split: if_splits)
  then show ?thesis using move_state [of d r s] m by (auto simp: canLocked_def split: if_splits)
qed

lemma hand_online:
  assumes "auth_inv opts s" "s_task s = THandshake"
  shows "s_online (task_handshake opts T c rand fresh s) = s_online s"
proof -
  let ?s = "emit_state (fst (ses_move Authenticating ''noise'' s))"
  have "\<not> trusting ?s" "s_sent ?s = []"
    using assms untrusting_move [of s Authenticating "''noise''"] by (simp_all add: auth_inv_def emit_state_def)
  then have "same_frame ?s (fst (handshake opts T rand ?s))" using handshake_ok [of ?s opts T rand] by (simp add: hs_ok_def)
  then have h: "s_online (fst (handshake opts T rand ?s)) = s_online s" by (simp add: same_frame_def emit_state_def)
  have "s_online (fst (Request opts T fresh n s0)) = s_online s0" for n and s0 :: "'a Session"
    using calm_Request [OF calm_refl] unfolding calm_def by blast
  then show ?thesis using h by (auto simp: task_handshake_def Let_def case_prod_beta emit_state_def split: sum.split)
qed

lemma connect_online:
  assumes "Request_wait w i s = Some (s'', res)"
  shows "s_online (task_connected opts c res s'') \<longrightarrow> s_online s \<or> s_task (task_connected opts c res s'') = TOnline \<and> m_state (s_mach (task_connected opts c res s'')) = Online"
proof (cases res)
  case (Inl e)
  then show ?thesis using calm_wait [OF assms] by (simp add: task_connected_def calm_def)
next
  case (Inr resp)
  obtain s3 e where m: "ses_move Online ''connected'' (connectIQ opts resp s'') = (s3, e)" by force
  have on: "s_online s3 = s_online s"
    using calm_wait [OF assms] arg_cong [OF m, of "\<lambda>p. s_online (fst p)"] by (simp add: calm_def connectIQ_def split: option.splits if_splits)
  show ?thesis
  proof (cases e)
    case None
    then have "m_state (s_mach s3) = Online" using m ses_move_None by blast
    then show ?thesis using None Inr m by (simp add: task_connected_def Let_def markInbound_def emit_state_def)
  qed (use Inr m on in \<open>simp add: task_connected_def\<close>)
qed

lemma start_online: "s_online (fst (Start opts gen s)) = s_online s"
proof -
  obtain s1 r where l: "loadCredentials opts gen s = (s1, r)" by force
  then have "s_online s1 = s_online s" by (auto simp: loadCredentials_def split: sum.splits kv_error.splits dest!: arg_cong [where f = fst])
  then show ?thesis using l by (cases r) (auto simp: Start_def emit_state_def case_prod_beta split: option.splits)
qed

lemma step_online:
  assumes "ses_step opts s s'" "auth_inv opts s"
  shows "s_online s' \<longrightarrow> s_online s \<or> s_task s' = TOnline \<and> m_state (s_mach s') = Online"
  using step_calm [OF assms(1)]
proof (elim disjE exE conjE)
  fix i w s'' res c
  assume "s' = task_connected opts c res s''" "Request_wait w i s = Some (s'', res)"
  then show ?thesis using connect_online by blast
qed (use assms(2) in \<open>auto simp: hand_online start_online calm_def task_dial_def task_watch_def Let_def emit_state_def split: option.splits if_splits\<close>)

text \<open>Online once, online for good: the channel is closed and stays so.\<close>

lemma step_stays_online:
  assumes "ses_step opts s s'" "auth_inv opts s" "s_online s"
  shows "s_online s'"
  using step_calm [OF assms(1)]
proof (elim disjE exE conjE)
  fix i w s'' res c
  assume c: "s' = task_connected opts c res s''" "Request_wait w i s = Some (s'', res)"
  have "s_online s''" using calm_wait [OF c(2)] assms(3) by (simp add: calm_def)
  then show ?thesis unfolding c(1)
    by (auto simp: task_connected_def connectIQ_def markInbound_def emit_state_def Let_def case_prod_beta split: sum.split option.split)
qed (use assms(2,3) in \<open>auto simp: hand_online start_online calm_def task_dial_def task_watch_def Let_def emit_state_def split: option.splits if_splits\<close>)

lemma online_step:
  assumes "ses_step opts s s'" "auth_inv opts s" "online_inv s"
  shows "online_inv s'"
proof -
  have "hist_ok (s_mach s') \<and> chans_ok (s_mach s')"
    using via_hist_ok step_mvia [OF assms(1,2)] assms(3) by (simp add: online_inv_def mvia_def)
  moreover have "(s_task s' = TOnline \<or> (\<exists>e. s_task s' = TDone e)) \<and> m_state (s_mach s') \<in> settled" if "s_online s" 
  proof -
    have t: "s_task s = TOnline \<or> (\<exists>e. s_task s = TDone e)" "m_state (s_mach s) \<in> settled" using assms(3) that by (simp_all add: online_inv_def)
    then have "mvia settled s s'" using step_settled [OF assms(1)] by auto
    then show ?thesis using via_state t step_task [OF assms(1) t(1)] by (auto simp: mvia_def)
  qed
  ultimately show ?thesis using step_online [OF assms(1,2)] by (auto simp: online_inv_def settled_def)
qed

lemma online_reach: "ses_reach opts s \<Longrightarrow> online_inv s"
proof (induction rule: ses_reach.induct)
  case (fresh dialer st now s)
  then show ?case by (auto simp: New_def online_inv_def NewMachine_def hist_ok_def chans_ok_def split: if_splits)
next
  case (more s s')
  then show ?case using online_step [OF more(2) auth_inv_reach [OF more(1)]] by blast
qed

end
