(* ===== verification/Fleet.thy ===== *)
theory Fleet
  imports Supervisor SessionHistory Link
begin

text \<open>
  The supervisor in motion: every interleaving of registrations, manage loops, the
  sessions' own steps and time. Shown are the invariant of the fleet, the backoff
  schedule, and how a cancelled loop ends.
\<close>

subsection \<open>Steps\<close>

inductive loop_step :: "nat \<Rightarrow> 's Supervisor \<Rightarrow> 's Supervisor \<Rightarrow> bool" for i :: nat where
  top: "mg_at (vs_objs sv ! i) = LTop \<Longrightarrow> loop_step i sv (loop_top dialer st i sv)"
| new: "mg_at (vs_objs sv ! i) = LNew \<Longrightarrow> loop_step i sv (loop_start gen i sv)"
| starting: "mg_at (vs_objs sv ! i) = LStarting \<Longrightarrow> loop_started w i sv = Some sv' \<Longrightarrow> loop_step i sv sv'"
| online: "mg_at (vs_objs sv ! i) = LOnline t \<Longrightarrow> loop_online w T t i sv = Some sv' \<Longrightarrow> loop_step i sv sv'"
| failed: "mg_at (vs_objs sv ! i) = LFailed e \<Longrightarrow> loop_step i sv (loop_failed e i sv)"
| waiting: "mg_at (vs_objs sv ! i) = LWait \<Longrightarrow> loop_wait w i sv = Some sv' \<Longrightarrow> loop_step i sv sv'"

text \<open>A session moves on its own once its loop has started it.\<close>

inductive sup_step :: "'s Supervisor \<Rightarrow> 's Supervisor \<Rightarrow> bool" where
  add: "sup_step sv (fst (Add opts store sv))"
| remove: "sup_step sv (fst (Remove T i sv))"
| run: "sup_step sv (fst (SupStart sv))"
| halt: "sup_step sv (SupStop T sv)"
| loop: "k < length (vs_objs sv) \<Longrightarrow> loop_step k sv sv' \<Longrightarrow> sup_step sv sv'"
| session: "k < length (vs_objs sv) \<Longrightarrow> mg_sess (vs_objs sv ! k) = Some s \<Longrightarrow> s_task s \<noteq> TNone \<Longrightarrow>
    ses_step (mg_opts (vs_objs sv ! k)) s s' \<Longrightarrow> sup_step sv (upd_obj k (\<lambda>m. m\<lparr>mg_sess := Some s'\<rparr>) sv)"
| time: "vs_now sv \<le> t \<Longrightarrow> sup_step sv (sv\<lparr>vs_now := t\<rparr>)"

inductive sup_reach :: "'s SupOptions \<Rightarrow> 's Supervisor \<Rightarrow> bool" for vo :: "'s SupOptions" where
  fresh: "sup_reach vo (NewSupervisor vo now)"
| more: "sup_reach vo sv \<Longrightarrow> sup_step sv sv' \<Longrightarrow> sup_reach vo sv'"

subsection \<open>The schedule\<close>

lemma f64_exact: "\<bar>n\<bar> < 2 ^ 53 \<Longrightarrow> f64_of_int n = n"
proof -
  assume "\<bar>n\<bar> < 2 ^ 53"
  then have "bitlen \<bar>n\<bar> \<le> 53" by (simp add: bitlen_le_iff_power)
  then show ?thesis by (simp add: f64_of_int_def round_even_def)
qed

text \<open>The options a backoff stays exact for: 52 bits of nanoseconds, more than fifty days.\<close>

definition sane :: "'s SupOptions \<Rightarrow> bool" where
  "sane vo \<longleftrightarrow> 0 < vo_BaseBackoff vo \<and> vo_BaseBackoff vo \<le> vo_MaxBackoff vo \<and> vo_MaxBackoff vo < 2 ^ 52"

definition on_schedule :: "'s SupOptions \<Rightarrow> int \<Rightarrow> bool" where
  "on_schedule vo b \<longleftrightarrow> (\<exists>n. b = min (vo_BaseBackoff vo * 2 ^ n) (vo_MaxBackoff vo))"

lemma nextBackoff_schedule:
  assumes "sane vo"
  shows "nextBackoff vo (min (vo_BaseBackoff vo * 2 ^ n) (vo_MaxBackoff vo)) = min (vo_BaseBackoff vo * 2 ^ Suc n) (vo_MaxBackoff vo)"
proof -
  let ?b = "min (vo_BaseBackoff vo * 2 ^ n) (vo_MaxBackoff vo)"
  have b: "0 < ?b" "?b < 2 ^ 52" using assms by (auto simp: sane_def)
  then have "wrap64 (?b * 2) = ?b * 2" by (simp add: wrap64_def)
  moreover have "f64_of_int (?b * 2) = ?b * 2" "f64_of_int (vo_MaxBackoff vo) = vo_MaxBackoff vo"
    using b assms by (intro f64_exact; simp add: sane_def)+
  ultimately have "nextBackoff vo ?b = min (?b * 2) (vo_MaxBackoff vo)" by (simp add: nextBackoff_def)
  also have "\<dots> = min (vo_BaseBackoff vo * 2 ^ Suc n) (vo_MaxBackoff vo)" using b by (auto simp: min_def)
  finally show ?thesis .
qed

lemma on_schedule_base: "sane vo \<Longrightarrow> on_schedule vo (vo_BaseBackoff vo)"
  unfolding on_schedule_def sane_def by (intro exI [of _ 0]) simp

lemma on_schedule_next: "sane vo \<Longrightarrow> on_schedule vo b \<Longrightarrow> on_schedule vo (nextBackoff vo b)"
  using nextBackoff_schedule unfolding on_schedule_def by metis

lemma on_schedule_max:
  assumes "sane vo"
  shows "on_schedule vo (vo_MaxBackoff vo)"
proof -
  obtain n where "vo_MaxBackoff vo < 2 ^ n" using real_arch_pow [of 2 "real_of_int (vo_MaxBackoff vo)"] by (metis of_int_less_iff of_int_numeral of_int_power one_less_numeral_iff semiring_norm(76))
  moreover have "1 * 2 ^ n \<le> vo_BaseBackoff vo * 2 ^ n" using assms by (intro mult_right_mono) (simp_all add: sane_def)
  ultimately show ?thesis unfolding on_schedule_def by (intro exI [of _ n]) linarith
qed

lemma withDefaults_sane: "sane (withDefaults vo) \<longleftrightarrow> vo_BaseBackoff (withDefaults vo) \<le> vo_MaxBackoff (withDefaults vo) \<and> vo_MaxBackoff (withDefaults vo) < 2 ^ 52"
  by (auto simp: sane_def withDefaults_def Let_def second_def)

subsection \<open>Objects\<close>

text \<open>
  A managed session: its loop runs only with a context, its backoff is on the
  schedule, its session is one the engine can reach; it is new when the loop is about
  to start it, and has been online when the loop watches it.
\<close>

definition obj_ok :: "'s SupOptions \<Rightarrow> 's managed \<Rightarrow> bool" where
  "obj_ok vo m \<longleftrightarrow> (mg_cancel m = None \<longleftrightarrow> mg_at m = LNone) \<and>
     (sane vo \<and> mg_at m \<noteq> LNone \<longrightarrow> on_schedule vo (mg_backoff m)) \<and>
     (\<forall>s. mg_sess m = Some s \<longrightarrow> ses_reach (mg_opts m) s) \<and>
     (mg_at m = LNew \<longrightarrow> (\<exists>s. mg_sess m = Some s \<and> s_task s = TNone)) \<and>
     (mg_at m = LStarting \<longrightarrow> mg_sess m \<noteq> None) \<and>
     (\<forall>t. mg_at m = LOnline t \<longrightarrow> (\<exists>s. mg_sess m = Some s \<and> s_online s))"

definition objs_ok :: "'s Supervisor \<Rightarrow> bool" where
  "objs_ok sv \<longleftrightarrow> (\<forall>m \<in> set (vs_objs sv). obj_ok (vs_opts sv) m)"

lemma upd_obj_sel [simp]:
  "vs_sessions (upd_obj i f sv) = vs_sessions sv" "vs_running (upd_obj i f sv) = vs_running sv" "vs_cancelled (upd_obj i f sv) = vs_cancelled sv"
  "vs_opts (upd_obj i f sv) = vs_opts sv" "vs_retries (upd_obj i f sv) = vs_retries sv" "vs_actions (upd_obj i f sv) = vs_actions sv"
  "vs_now (upd_obj i f sv) = vs_now sv" "length (vs_objs (upd_obj i f sv)) = length (vs_objs sv)" "vs_phase (upd_obj i f sv) = vs_phase sv"
  "vs_lastOnline (upd_obj i f sv) = vs_lastOnline sv"
  by (simp_all add: upd_obj_def)

lemma upd_obj_nth: "k < length (vs_objs sv) \<Longrightarrow> vs_objs (upd_obj i f sv) ! k = (if k = i then f (vs_objs sv ! i) else vs_objs sv ! k)"
  by (simp add: upd_obj_def nth_list_update)

lemma objs_ok_upd:
  assumes "objs_ok sv" "i < length (vs_objs sv)" "obj_ok (vs_opts sv) (vs_objs sv ! i) \<Longrightarrow> obj_ok (vs_opts sv) (f (vs_objs sv ! i))"
  shows "objs_ok (upd_obj i f sv)"
proof -
  have "set ((vs_objs sv)[i := f (vs_objs sv ! i)]) \<subseteq> insert (f (vs_objs sv ! i)) (set (vs_objs sv))" by (rule set_update_subset_insert)
  then show ?thesis using assms unfolding objs_ok_def by (fastforce simp: upd_obj_def)
qed

lemma objs_okD: "objs_ok sv \<Longrightarrow> i < length (vs_objs sv) \<Longrightarrow> obj_ok (vs_opts sv) (vs_objs sv ! i)"
  by (simp add: objs_ok_def)

lemma objs_ok_same: "objs_ok sv \<Longrightarrow> vs_objs sv' = vs_objs sv \<Longrightarrow> vs_opts sv' = vs_opts sv \<Longrightarrow> objs_ok sv'"
  by (simp add: objs_ok_def)

text \<open>Stopping and cancelling a managed session.\<close>

lemma stop_task: "s_task (Stop_begin opts T s) = s_task s" "s_online (Stop_begin opts T s) = s_online s"
  using calm_Stop_begin [of s opts T] by (simp_all add: calm_def)

lemma stop_session_sel [simp]: "mg_opts (stop_session T m) = mg_opts m" "mg_cancel (stop_session T m) = mg_cancel m" "mg_at (stop_session T m) = mg_at m"
  by (simp_all add: stop_session_def)

lemma obj_ok_stop: "obj_ok vo m \<Longrightarrow> obj_ok vo (stop_session T m)"
  using ses_reach.more [OF _ ses_step.stop] by (fastforce simp: obj_ok_def stop_session_def stop_task)

lemma obj_ok_cancel: "obj_ok vo m \<Longrightarrow> obj_ok vo (cancel_loop m)"
  by (auto simp: obj_ok_def cancel_loop_def)

lemma obj_ok_spawn: "obj_ok (vs_opts sv) m \<Longrightarrow> obj_ok (vs_opts sv) (spawn sv m)"
  using on_schedule_base by (auto simp: obj_ok_def spawn_def)

lemma objs_ok_set_at:
  assumes "objs_ok sv" "i < length (vs_objs sv)" "mg_at (vs_objs sv ! i) \<noteq> LNone" "a \<notin> {LNone, LNew, LStarting}" "\<forall>t. a \<noteq> LOnline t"
  shows "objs_ok (set_at i a sv)"
  unfolding set_at_def using assms by (intro objs_ok_upd) (auto simp: obj_ok_def)

subsection \<open>Loop steps keep the objects\<close>

lemma start_failed_ok:
  assumes "objs_ok sv" "i < length (vs_objs sv)" "mg_at (vs_objs sv ! i) \<noteq> LNone"
  shows "objs_ok (start_failed i e sv)"
proof -
  have "objs_ok (upd_obj i (\<lambda>m. m\<lparr>mg_backoff := vo_MaxBackoff (vs_opts sv)\<rparr>) sv)"
    using assms on_schedule_max by (intro objs_ok_upd) (auto simp: obj_ok_def)
  then show ?thesis using assms by (auto simp: start_failed_def Let_def upd_obj_nth intro!: objs_ok_set_at)
qed

lemma loop_top_ok:
  assumes "objs_ok sv" "i < length (vs_objs sv)" "mg_at (vs_objs sv ! i) = LTop"
  shows "objs_ok (loop_top dialer st i sv)"
proof -
  have "objs_ok (upd_obj i (\<lambda>m. m\<lparr>mg_sess := Some s, mg_at := LNew\<rparr>) sv)" if n: "New (mg_opts (vs_objs sv ! i)) dialer st (vs_now sv) = Inr s" for s
  proof (rule objs_ok_upd [OF assms(1,2)])
    assume "obj_ok (vs_opts sv) (vs_objs sv ! i)"
    moreover have "s_task s = TNone" using n by (auto simp: New_def split: if_splits)
    ultimately show "obj_ok (vs_opts sv) ((vs_objs sv ! i)\<lparr>mg_sess := Some s, mg_at := LNew\<rparr>)"
      using assms(3) ses_reach.fresh [OF n] by (auto simp: obj_ok_def)
  qed
  then show ?thesis using assms by (auto simp: loop_top_def Let_def split: sum.split intro!: objs_ok_set_at)
qed

lemma loop_start_ok:
  assumes "objs_ok sv" "i < length (vs_objs sv)" "mg_at (vs_objs sv ! i) = LNew"
  shows "objs_ok (loop_start gen i sv)"
proof -
  obtain s where s: "mg_sess (vs_objs sv ! i) = Some s" "s_task s = TNone" "ses_reach (mg_opts (vs_objs sv ! i)) s"
    using objs_okD [OF assms(1,2)] assms(3) by (auto simp: obj_ok_def)
  have "ses_reach (mg_opts (vs_objs sv ! i)) (fst (Start (mg_opts (vs_objs sv ! i)) gen s))"
    by (rule ses_reach.more [OF s(3) ses_step.start [OF s(2)]])
  then have r: "ses_reach (mg_opts (vs_objs sv ! i)) s'" if "Start (mg_opts (vs_objs sv ! i)) gen s = (s', r)" for s' r using that by simp
  have "objs_ok (upd_obj i (\<lambda>m. m\<lparr>mg_sess := Some s', mg_at := LStarting\<rparr>) sv)" if "Start (mg_opts (vs_objs sv ! i)) gen s = (s', Inr ())" for s'
    using r [OF that] assms(3) by (intro objs_ok_upd assms) (auto simp: obj_ok_def)
  moreover have "objs_ok (start_failed i e (upd_obj i (\<lambda>m. m\<lparr>mg_sess := Some s', mg_at := LStarting\<rparr>) sv))" if "Start (mg_opts (vs_objs sv ! i)) gen s = (s', Inl e)" for s' e
    using r [OF that] assms by (intro start_failed_ok objs_ok_upd) (auto simp: obj_ok_def upd_obj_nth)
  moreover have "start_failed i e (upd_obj i (\<lambda>m. m\<lparr>mg_sess := Some s', mg_at := LStarting\<rparr>) sv) = start_failed i e (upd_obj i (\<lambda>m. m\<lparr>mg_sess := Some s'\<rparr>) sv)" for s' e
    using assms(2) by (auto simp: start_failed_def set_at_def upd_obj_def Let_def)
  ultimately show ?thesis using s(1) by (simp add: loop_start_def split: prod.split sum.split)
qed

lemma loop_started_ok:
  assumes "objs_ok sv" "i < length (vs_objs sv)" "mg_at (vs_objs sv ! i) = LStarting" "loop_started w i sv = Some sv'"
  shows "objs_ok sv'"
proof -
  obtain s where s: "mg_sess (vs_objs sv ! i) = Some s" using assms(4) by (auto simp: loop_started_def split: option.splits)
  have r: "ses_reach (mg_opts (vs_objs sv ! i)) s" using objs_okD [OF assms(1,2)] s by (simp add: obj_ok_def)
  have n: "objs_ok (noteOnline x sv)" "vs_objs (noteOnline x sv) = vs_objs sv" for x
    using assms(1) by (auto simp: noteOnline_def intro: objs_ok_same)
  have on: "objs_ok (set_at i (LOnline t) (noteOnline x sv))" if "s_online s" for t x
    unfolding set_at_def using n assms s that by (intro objs_ok_upd) (auto simp: obj_ok_def)
  have ab: "objs_ok (upd_obj i (\<lambda>m. m\<lparr>mg_sess := Some (abort s)\<rparr>) sv)"
    using ses_reach.more [OF r ses_step.give_up] assms(3) by (intro objs_ok_upd assms) (auto simp: obj_ok_def)
  show ?thesis using assms s on ab start_failed_ok [OF assms(1,2)] start_failed_ok [OF ab]
    by (auto simp: loop_started_def upd_obj_nth split: loop_wake.splits if_splits task.splits)
qed

lemma loop_online_ok:
  assumes "objs_ok sv" "i < length (vs_objs sv)" "mg_at (vs_objs sv ! i) = LOnline t" "loop_online w T t i sv = Some sv'"
  shows "objs_ok sv'"
proof -
  have stop: "objs_ok (set_at i a (upd_obj i (stop_session T) sv0))"
    if "objs_ok sv0" "vs_objs sv0 = vs_objs sv" "a \<notin> {LNone, LNew, LStarting}" "\<forall>t. a \<noteq> LOnline t" for a sv0
    using that assms(2,3) by (intro objs_ok_set_at objs_ok_upd) (auto simp: obj_ok_stop upd_obj_nth)
  have em: "objs_ok (emitAction x y z sv)" "vs_objs (emitAction x y z sv) = vs_objs sv" for x y z
    using assms(1) by (auto simp: emitAction_def intro: objs_ok_same)
  have reset: "objs_ok (upd_obj i (\<lambda>m. m\<lparr>mg_backoff := vo_BaseBackoff (vs_opts sv)\<rparr>) sv)"
    using assms(3) on_schedule_base by (intro objs_ok_upd assms) (auto simp: obj_ok_def)
  have drop: "objs_ok (set_at i (LFailed e) (noteOnline x sv0))" if "objs_ok sv0" "length (vs_objs sv0) = length (vs_objs sv)" "mg_at (vs_objs sv0 ! i) \<noteq> LNone" for e x sv0
    using that assms(2) by (intro objs_ok_set_at) (auto simp: noteOnline_def intro: objs_ok_same)
  show ?thesis using assms(1,2,3,4) reset em
    by (auto simp: loop_online_def upd_obj_nth Let_def split: option.splits loop_wake.splits if_splits intro!: stop drop)
qed

lemma loop_failed_ok:
  assumes "objs_ok sv" "i < length (vs_objs sv)" "mg_at (vs_objs sv ! i) = LFailed e"
  shows "objs_ok (loop_failed e i sv)"
proof -
  have "objs_ok (upd_obj i (\<lambda>m. m\<lparr>mg_backoff := nextBackoff (vs_opts sv0) (mg_backoff m), mg_at := LWait\<rparr>) sv0)"
    if "vs_objs sv0 = vs_objs sv" "vs_opts sv0 = vs_opts sv" for sv0
    using that assms on_schedule_next by (intro objs_ok_upd) (auto simp: obj_ok_def intro: objs_ok_same)
  then show ?thesis using assms by (auto simp: loop_failed_def emitAction_def Let_def intro!: objs_ok_set_at)
qed

lemma loop_wait_ok:
  assumes "objs_ok sv" "i < length (vs_objs sv)" "mg_at (vs_objs sv ! i) = LWait" "loop_wait w i sv = Some sv'"
  shows "objs_ok sv'"
proof -
  have "objs_ok (set_at i a sv0)" if "vs_objs sv0 = vs_objs sv" "vs_opts sv0 = vs_opts sv" "a \<notin> {LNone, LNew, LStarting}" "\<forall>t. a \<noteq> LOnline t" for a sv0
    using that assms objs_ok_same by (intro objs_ok_set_at) auto
  then show ?thesis using assms(4) by (auto simp: loop_wait_def split: loop_wake.splits if_splits)
qed

lemma loop_step_ok: "loop_step i sv sv' \<Longrightarrow> i < length (vs_objs sv) \<Longrightarrow> objs_ok sv \<Longrightarrow> objs_ok sv'"
  by (induction rule: loop_step.induct) (auto intro: loop_top_ok loop_start_ok loop_started_ok loop_online_ok loop_failed_ok loop_wait_ok)

subsection \<open>Registration\<close>

text \<open>What only registration changes.\<close>

definition same_reg :: "'s Supervisor \<Rightarrow> 's Supervisor \<Rightarrow> bool" where
  "same_reg sv sv' \<longleftrightarrow> vs_sessions sv' = vs_sessions sv \<and> vs_running sv' = vs_running sv \<and> vs_cancelled sv' = vs_cancelled sv \<and> vs_opts sv' = vs_opts sv \<and>
     map (\<lambda>m. (mg_opts m, mg_cancel m)) (vs_objs sv') = map (\<lambda>m. (mg_opts m, mg_cancel m)) (vs_objs sv)"

named_theorems reg_intros

lemma same_reg_refl [reg_intros]: "same_reg sv sv"
  by (simp add: same_reg_def)

lemma same_reg_upd:
  assumes "same_reg sv sv'" "i < length (vs_objs sv)" "\<And>m. mg_opts (f m) = mg_opts m" "\<And>m. mg_cancel (f m) = mg_cancel m"
  shows "same_reg sv (upd_obj i f sv')"
proof -
  have "map (\<lambda>m. (mg_opts m, mg_cancel m)) ((vs_objs sv')[i := f (vs_objs sv' ! i)]) = map (\<lambda>m. (mg_opts m, mg_cancel m)) (vs_objs sv')"
  proof (rule nth_equalityI)
    fix k
    assume "k < length (map (\<lambda>m. (mg_opts m, mg_cancel m)) ((vs_objs sv')[i := f (vs_objs sv' ! i)]))"
    then show "map (\<lambda>m. (mg_opts m, mg_cancel m)) ((vs_objs sv')[i := f (vs_objs sv' ! i)]) ! k = map (\<lambda>m. (mg_opts m, mg_cancel m)) (vs_objs sv') ! k"
      by (cases "k = i") (simp_all add: assms(3,4))
  qed simp
  then show ?thesis using assms(1) by (simp add: same_reg_def upd_obj_def)
qed

lemma same_reg_length: "same_reg sv sv' \<Longrightarrow> length (vs_objs sv') = length (vs_objs sv)"
  by (auto simp: same_reg_def dest: map_eq_imp_length_eq)

lemma same_reg_rec [reg_intros]:
  "same_reg sv sv' \<Longrightarrow> same_reg sv (noteOnline x sv')" "same_reg sv sv' \<Longrightarrow> same_reg sv (emitAction x y z sv')"
  "same_reg sv sv' \<Longrightarrow> same_reg sv (sv'\<lparr>vs_retries := r, vs_phase := p\<rparr>)" "same_reg sv sv' \<Longrightarrow> same_reg sv (sv'\<lparr>vs_phase := p\<rparr>)"
  "same_reg sv sv' \<Longrightarrow> same_reg sv (sv'\<lparr>vs_retries := r\<rparr>)"
  "same_reg sv sv' \<Longrightarrow> same_reg sv (sv'\<lparr>vs_now := t\<rparr>)"
  by (simp_all add: same_reg_def noteOnline_def emitAction_def)

lemma same_reg_set_at [reg_intros]: "same_reg sv sv' \<Longrightarrow> i < length (vs_objs sv) \<Longrightarrow> same_reg sv (set_at i a sv')"
  unfolding set_at_def by (rule same_reg_upd) simp_all

lemma same_reg_start_failed [reg_intros]: "same_reg sv sv' \<Longrightarrow> i < length (vs_objs sv) \<Longrightarrow> same_reg sv (start_failed i e sv')"
  by (auto simp: start_failed_def Let_def intro!: reg_intros same_reg_upd)

lemma loop_step_reg: "loop_step i sv sv' \<Longrightarrow> i < length (vs_objs sv) \<Longrightarrow> same_reg sv sv'"
  by (induction rule: loop_step.induct)
    (auto simp: loop_top_def loop_start_def loop_started_def loop_online_def loop_failed_def loop_wait_def Let_def
      split: sum.splits option.splits prod.splits loop_wake.splits if_splits task.splits intro!: reg_intros same_reg_upd)

text \<open>
  Each registered id stands for its own object, whose context is live until the
  supervisor stops; an object that is no longer registered has a cancelled context or
  never had one.
\<close>

definition reg_ok :: "'s Supervisor \<Rightarrow> bool" where
  "reg_ok sv \<longleftrightarrow> distinct (map fst (vs_sessions sv)) \<and>
     (\<forall>(i, k) \<in> set (vs_sessions sv). k < length (vs_objs sv) \<and> obj_id (vs_objs sv ! k) = i \<and>
        (mg_cancel (vs_objs sv ! k) = Some True \<longrightarrow> vs_cancelled sv)) \<and>
     (\<forall>k < length (vs_objs sv). k \<notin> snd ` set (vs_sessions sv) \<longrightarrow> mg_cancel (vs_objs sv ! k) \<noteq> Some False) \<and>
     (\<not> vs_running sv \<longrightarrow> (\<forall>k < length (vs_objs sv). mg_cancel (vs_objs sv ! k) = None))"

lemma same_reg_nth:
  assumes "same_reg sv sv'" "k < length (vs_objs sv)"
  shows "length (vs_objs sv') = length (vs_objs sv)" "mg_opts (vs_objs sv' ! k) = mg_opts (vs_objs sv ! k)"
    "mg_cancel (vs_objs sv' ! k) = mg_cancel (vs_objs sv ! k)"
proof -
  show l: "length (vs_objs sv') = length (vs_objs sv)" by (rule same_reg_length [OF assms(1)])
  have "map (\<lambda>m. (mg_opts m, mg_cancel m)) (vs_objs sv') ! k = map (\<lambda>m. (mg_opts m, mg_cancel m)) (vs_objs sv) ! k"
    using assms(1) by (simp add: same_reg_def)
  then show "mg_opts (vs_objs sv' ! k) = mg_opts (vs_objs sv ! k)" "mg_cancel (vs_objs sv' ! k) = mg_cancel (vs_objs sv ! k)"
    using l assms(2) by simp_all
qed

lemma reg_ok_same:
  assumes "reg_ok sv" "same_reg sv sv'"
  shows "reg_ok sv'"
proof -
  have l: "length (vs_objs sv') = length (vs_objs sv)" by (rule same_reg_length [OF assms(2)])
  have s: "vs_sessions sv' = vs_sessions sv" "vs_running sv' = vs_running sv" "vs_cancelled sv' = vs_cancelled sv" using assms(2) by (simp_all add: same_reg_def)
  show ?thesis using assms(1) unfolding reg_ok_def obj_id_def s l
    using same_reg_nth(2,3) [OF assms(2)] by fastforce
qed

subsection \<open>Registration steps\<close>

lemma fold_upd_sel:
  "vs_sessions (fold (\<lambda>(i, k). upd_obj k f) al sv) = vs_sessions sv" "vs_running (fold (\<lambda>(i, k). upd_obj k f) al sv) = vs_running sv"
  "vs_cancelled (fold (\<lambda>(i, k). upd_obj k f) al sv) = vs_cancelled sv" "vs_opts (fold (\<lambda>(i, k). upd_obj k f) al sv) = vs_opts sv"
  "vs_retries (fold (\<lambda>(i, k). upd_obj k f) al sv) = vs_retries sv" "vs_actions (fold (\<lambda>(i, k). upd_obj k f) al sv) = vs_actions sv"
  "length (vs_objs (fold (\<lambda>(i, k). upd_obj k f) al sv)) = length (vs_objs sv)"
  by (induction al arbitrary: sv) (auto split: prod.split)

lemma fold_upd_nth:
  assumes "distinct (map snd al)" "j < length (vs_objs sv)"
  shows "vs_objs (fold (\<lambda>(i, k). upd_obj k f) al sv) ! j = (if j \<in> snd ` set al then f (vs_objs sv ! j) else vs_objs sv ! j)"
  using assms
proof (induction al arbitrary: sv)
  case (Cons x al)
  obtain i k where x: "x = (i, k)" by force
  have "vs_objs (fold (\<lambda>(i, k). upd_obj k f) al (upd_obj k f sv)) ! j
      = (if j \<in> snd ` set al then f (vs_objs (upd_obj k f sv) ! j) else vs_objs (upd_obj k f sv) ! j)"
    using Cons by simp
  moreover have "k \<notin> snd ` set al" using Cons.prems(1) x by auto
  ultimately show ?case using Cons.prems(2) x by (auto simp: upd_obj_nth)
qed simp

lemma fold_upd_ok:
  assumes "objs_ok sv" "\<forall>(i, k) \<in> set al. k < length (vs_objs sv)" "\<And>m. obj_ok (vs_opts sv) m \<Longrightarrow> obj_ok (vs_opts sv) (f m)"
  shows "objs_ok (fold (\<lambda>(i, k). upd_obj k f) al sv)"
  using assms
proof (induction al arbitrary: sv)
  case (Cons x al)
  obtain i k where x: "x = (i, k)" by force
  have "objs_ok (upd_obj k f sv)" using Cons.prems x by (intro objs_ok_upd) auto
  then show ?case using Cons.IH [of "upd_obj k f sv"] Cons.prems x by simp
qed simp

lemma reg_okD:
  assumes "reg_ok sv" "(i, k) \<in> set (vs_sessions sv)"
  shows "k < length (vs_objs sv)" "obj_id (vs_objs sv ! k) = i" "mg_cancel (vs_objs sv ! k) = Some True \<Longrightarrow> vs_cancelled sv" "k \<in> snd ` set (vs_sessions sv)"
  using assms by (force simp: reg_ok_def)+

lemma reg_distinct:
  assumes "reg_ok sv"
  shows "distinct (map snd (vs_sessions sv))"
proof -
  have "map fst (vs_sessions sv) = map (\<lambda>k. obj_id (vs_objs sv ! k)) (map snd (vs_sessions sv))"
    using assms by (auto simp: reg_ok_def)
  then show ?thesis using assms by (metis reg_ok_def distinct_map)
qed

lemma Add_ok:
  assumes "reg_ok sv" "objs_ok sv"
  shows "reg_ok (fst (Add opts store sv)) \<and> objs_ok (fst (Add opts store sv))"
proof (cases "o_ID opts = '''' \<or> o_ID opts \<in> fst ` set (vs_sessions sv)")
  case True
  then show ?thesis using assms by (auto simp: Add_def)
next
  case False
  let ?o = "opts\<lparr>o_Store := (case store of Some k \<Rightarrow> k | None \<Rightarrow> vo_Store (vs_opts sv))\<rparr>"
  define m0 where "m0 = \<lparr>mg_opts = ?o, mg_sess = None, mg_cancel = None, mg_at = LNone, mg_backoff = 0\<rparr>"
  define m where "m = (if vs_running sv then spawn sv m0 else m0)"
  have add: "fst (Add opts store sv) = sv\<lparr>vs_sessions := vs_sessions sv @ [(o_ID opts, length (vs_objs sv))], vs_objs := vs_objs sv @ [m]\<rparr>"
    using False by (simp add: Add_def update_fresh Let_def m_def m0_def)
  have "obj_ok (vs_opts sv) m0" by (simp add: obj_ok_def m0_def)
  then have "obj_ok (vs_opts sv) m" unfolding m_def using obj_ok_spawn [of sv m0] by simp
  then have "objs_ok (fst (Add opts store sv))" using assms(2) by (simp add: add objs_ok_def)
  moreover have "obj_id m = o_ID opts" "mg_cancel m = (if vs_running sv then Some False else None)" by (simp_all add: obj_id_def spawn_def m_def m0_def)
  then have "reg_ok (fst (Add opts store sv))" using assms(1) False by (auto simp: add reg_ok_def nth_append less_Suc_eq)
  ultimately show ?thesis by blast
qed

lemma cancel_loop_sel [simp]:
  "mg_opts (cancel_loop m) = mg_opts m" "mg_cancel (cancel_loop m) = map_option (\<lambda>_. True) (mg_cancel m)" "mg_at (cancel_loop m) = mg_at m"
  by (simp_all add: cancel_loop_def)

lemma obj_id_sel [simp]: "obj_id (stop_session T m) = obj_id m" "obj_id (cancel_loop m) = obj_id m"
  by (simp_all add: obj_id_def)

lemma obj_ok_cancel_stop: "obj_ok vo m \<Longrightarrow> obj_ok vo (stop_session T (cancel_loop m))"
  by (intro obj_ok_stop obj_ok_cancel)

lemma Remove_ok:
  assumes "reg_ok sv" "objs_ok sv"
  shows "reg_ok (fst (Remove T i sv)) \<and> objs_ok (fst (Remove T i sv))"
proof (cases "map_of (vs_sessions sv) i")
  case None
  then show ?thesis using assms by (simp add: Remove_def)
next
  case (Some k)
  then have k: "(i, k) \<in> set (vs_sessions sv)" by (rule map_of_SomeD)
  have kl: "k < length (vs_objs sv)" "obj_id (vs_objs sv ! k) = i" using assms(1) k by (auto simp: reg_ok_def)
  have sub: "(j, l) \<in> set (AList.delete i (vs_sessions sv)) \<longleftrightarrow> (j, l) \<in> set (vs_sessions sv) \<and> j \<noteq> i" for j l
    by (auto simp: AList.delete_eq)
  have other: "l \<noteq> k" if "(j, l) \<in> set (vs_sessions sv)" "j \<noteq> i" for j l using assms(1) that kl(2) by (auto simp: reg_ok_def)
  have unreg: "l = k \<or> l \<notin> snd ` set (vs_sessions sv)" if "l \<notin> snd ` set (AList.delete i (vs_sessions sv))" for l
  proof (rule ccontr)
    assume "\<not> (l = k \<or> l \<notin> snd ` set (vs_sessions sv))"
    then obtain j where j: "(j, l) \<in> set (vs_sessions sv)" "l \<noteq> k" by auto
    moreover have "distinct (map fst (vs_sessions sv))" using assms(1) by (simp add: reg_ok_def)
    then have "j \<noteq> i" using j Some map_of_is_SomeI by fastforce
    ultimately show False using that sub [of j l] by force
  qed
  let ?sv = "upd_obj k (\<lambda>m. stop_session T (cancel_loop m)) (sv\<lparr>vs_sessions := AList.delete i (vs_sessions sv)\<rparr>)"
  have nth: "vs_objs ?sv ! l = (if l = k then stop_session T (cancel_loop (vs_objs sv ! k)) else vs_objs sv ! l)" if "l < length (vs_objs sv)" for l
    using that by (simp add: upd_obj_nth)
  have "reg_ok ?sv" unfolding reg_ok_def
  proof (intro conjI)
    show "distinct (map fst (vs_sessions ?sv))" using assms(1) by (simp add: reg_ok_def distinct_delete)
    show "\<forall>(j, l) \<in> set (vs_sessions ?sv). l < length (vs_objs ?sv) \<and> obj_id (vs_objs ?sv ! l) = j \<and> (mg_cancel (vs_objs ?sv ! l) = Some True \<longrightarrow> vs_cancelled ?sv)"
      using reg_okD [OF assms(1)] other by (auto simp: sub nth)
    show "\<forall>l < length (vs_objs ?sv). l \<notin> snd ` set (vs_sessions ?sv) \<longrightarrow> mg_cancel (vs_objs ?sv ! l) \<noteq> Some False"
    proof (intro allI impI)
      fix l
      assume l: "l < length (vs_objs ?sv)" "l \<notin> snd ` set (vs_sessions ?sv)"
      then show "mg_cancel (vs_objs ?sv ! l) \<noteq> Some False"
        using unreg [of l] assms(1) by (cases "l = k") (simp_all add: nth reg_ok_def)
    qed
    show "\<not> vs_running ?sv \<longrightarrow> (\<forall>l < length (vs_objs ?sv). mg_cancel (vs_objs ?sv ! l) = None)"
      using assms(1) kl(1) by (simp add: nth reg_ok_def)
  qed
  moreover have "objs_ok (upd_obj k (\<lambda>m. stop_session T (cancel_loop m)) (sv\<lparr>vs_sessions := AList.delete i (vs_sessions sv)\<rparr>))"
    using objs_ok_same [OF assms(2), of "sv\<lparr>vs_sessions := AList.delete i (vs_sessions sv)\<rparr>"] kl obj_ok_cancel_stop by (intro objs_ok_upd) simp_all
  ultimately show ?thesis using Some by (simp add: Remove_def)
qed

lemma SupStart_ok:
  assumes "reg_ok sv" "objs_ok sv"
  shows "reg_ok (fst (SupStart sv)) \<and> objs_ok (fst (SupStart sv))"
proof (cases "vs_running sv \<or> vs_sessions sv = []")
  case True
  then show ?thesis using assms by (auto simp: SupStart_def)
next
  case False
  define sv0 where "sv0 = sv\<lparr>vs_running := True\<rparr>"
  have sv0: "objs_ok sv0" "vs_objs sv0 = vs_objs sv" "vs_sessions sv0 = vs_sessions sv" "vs_opts sv0 = vs_opts sv" "vs_running sv0 = True" "vs_cancelled sv0 = vs_cancelled sv"
    using objs_ok_same [OF assms(2), of sv0] by (simp_all add: sv0_def)
  let ?sv = "fold (\<lambda>(i, k). upd_obj k (spawn sv)) (vs_sessions sv) sv0"
  have st: "fst (SupStart sv) = ?sv" using False by (simp add: SupStart_def sv0_def)
  have nth: "vs_objs ?sv ! j = (if j \<in> snd ` set (vs_sessions sv) then spawn sv (vs_objs sv ! j) else vs_objs sv ! j)" if "j < length (vs_objs sv)" for j
    using fold_upd_nth [OF reg_distinct [OF assms(1)], of j sv0 "spawn sv"] that sv0(2) by simp
  have nn: "mg_cancel (vs_objs sv ! j) = None" if "j < length (vs_objs sv)" for j using assms(1) that False by (auto simp: reg_ok_def)
  have sp: "obj_id (spawn sv m) = obj_id m" "mg_cancel (spawn sv m) = Some False" for m by (simp_all add: obj_id_def spawn_def)
  have "reg_ok ?sv" unfolding reg_ok_def fold_upd_sel sv0
  proof (intro conjI)
    show "\<forall>(i, k) \<in> set (vs_sessions sv). k < length (vs_objs sv) \<and> obj_id (vs_objs ?sv ! k) = i \<and> (mg_cancel (vs_objs ?sv ! k) = Some True \<longrightarrow> vs_cancelled sv)"
      using reg_okD [OF assms(1)] by (auto simp: nth sp nn)
  qed (use assms(1) in \<open>simp_all add: reg_ok_def nth sp nn\<close>)
  moreover have "objs_ok ?sv"
    using sv0 assms(1) obj_ok_spawn [of sv] by (intro fold_upd_ok) (auto simp: reg_ok_def)
  ultimately show ?thesis by (simp add: st)
qed

lemma SupStop_ok:
  assumes "reg_ok sv" "objs_ok sv"
  shows "reg_ok (SupStop T sv) \<and> objs_ok (SupStop T sv)"
proof -
  define sv0 where "sv0 = sv\<lparr>vs_cancelled := (vs_running sv \<or> vs_cancelled sv)\<rparr>"
  have sv0: "objs_ok sv0" "vs_objs sv0 = vs_objs sv" "vs_sessions sv0 = vs_sessions sv" "vs_opts sv0 = vs_opts sv" "vs_running sv0 = vs_running sv"
    "vs_cancelled sv0 = (vs_running sv \<or> vs_cancelled sv)"
    using objs_ok_same [OF assms(2), of sv0] by (simp_all add: sv0_def)
  let ?f = "\<lambda>m. stop_session T (cancel_loop m)"
  let ?sv = "fold (\<lambda>(i, k). upd_obj k ?f) (vs_sessions sv) sv0"
  have st: "SupStop T sv = ?sv" by (simp add: SupStop_def sv0_def)
  have nth: "vs_objs ?sv ! j = (if j \<in> snd ` set (vs_sessions sv) then ?f (vs_objs sv ! j) else vs_objs sv ! j)" if "j < length (vs_objs sv)" for j
    using fold_upd_nth [OF reg_distinct [OF assms(1)], of j sv0 ?f] that sv0(2) by simp
  have "reg_ok ?sv" unfolding reg_ok_def fold_upd_sel sv0
  proof (intro conjI)
    show "\<forall>(i, k) \<in> set (vs_sessions sv). k < length (vs_objs sv) \<and> obj_id (vs_objs ?sv ! k) = i \<and>
        (mg_cancel (vs_objs ?sv ! k) = Some True \<longrightarrow> vs_running sv \<or> vs_cancelled sv)"
    proof (clarify, intro conjI impI)
      fix i k
      assume ik: "(i, k) \<in> set (vs_sessions sv)"
      then have k: "k < length (vs_objs sv)" "obj_id (vs_objs sv ! k) = i" "k \<in> snd ` set (vs_sessions sv)" using reg_okD [OF assms(1)] by blast+
      then show "k < length (vs_objs sv)" "obj_id (vs_objs ?sv ! k) = i" by (simp_all add: nth)
      assume "mg_cancel (vs_objs ?sv ! k) = Some True"
      then have "mg_cancel (vs_objs sv ! k) \<noteq> None" using k by (simp add: nth)
      then show "vs_running sv \<or> vs_cancelled sv" using assms(1) k(1) by (auto simp: reg_ok_def)
    qed
  qed (use assms(1) in \<open>simp_all add: reg_ok_def nth\<close>)
  moreover have "objs_ok ?sv"
    using sv0 assms(1) obj_ok_cancel_stop by (intro fold_upd_ok) (auto simp: reg_ok_def)
  ultimately show ?thesis by (simp add: st)
qed

subsection \<open>Counting retries\<close>

definition retries_of :: "string \<Rightarrow> 's Supervisor \<Rightarrow> nat" where
  "retries_of i sv = (case map_of (vs_retries sv) i of Some n \<Rightarrow> n | None \<Rightarrow> 0)"

definition retry_actions :: "string \<Rightarrow> 's Supervisor \<Rightarrow> nat" where
  "retry_actions i sv = length (filter (\<lambda>(j, a, r). j = i \<and> a = ''retry'') (vs_actions sv))"

definition counted :: "'s Supervisor \<Rightarrow> bool" where
  "counted sv \<longleftrightarrow> (\<forall>i. retries_of i sv = retry_actions i sv)"

lemma counted_same: "counted sv \<Longrightarrow> vs_retries sv' = vs_retries sv \<Longrightarrow> vs_actions sv' = vs_actions sv \<Longrightarrow> counted sv'"
  by (simp add: counted_def retries_of_def retry_actions_def)

lemma counted_failed: "counted sv \<Longrightarrow> counted (loop_failed e i sv)"
  by (auto simp: counted_def loop_failed_def set_at_def emitAction_def retries_of_def retry_actions_def Let_def update_conv' split: option.splits)

lemma counted_loop:
  assumes "loop_step i sv sv'" "counted sv"
  shows "counted sv'"
  using assms
proof (induction rule: loop_step.induct)
  case (online sv t w T sv')
  have "counted (emitAction x ''force-reconnect'' z sv)" for x z
    using online(3) by (simp add: counted_def emitAction_def retries_of_def retry_actions_def)
  then have "counted (set_at i a (upd_obj i f (emitAction x ''force-reconnect'' z sv)))" for a f x z
    by (rule counted_same) (simp_all add: set_at_def)
  then show ?case using online
    by (auto simp: loop_online_def noteOnline_def set_at_def Let_def split: option.splits loop_wake.splits if_splits intro: counted_same)
next
  case (failed sv e)
  then show ?case using counted_failed by blast
qed (auto simp: loop_top_def loop_start_def loop_started_def loop_wait_def start_failed_def set_at_def noteOnline_def Let_def
    split: sum.splits option.splits prod.splits loop_wake.splits if_splits task.splits intro: counted_same)

subsection \<open>The fleet\<close>

definition fleet_inv :: "'s SupOptions \<Rightarrow> 's Supervisor \<Rightarrow> bool" where
  "fleet_inv vo sv \<longleftrightarrow> vs_opts sv = withDefaults vo \<and> reg_ok sv \<and> objs_ok sv \<and> counted sv"

lemma reg_only:
  "vs_opts (fst (Add opts store sv)) = vs_opts sv" "vs_retries (fst (Add opts store sv)) = vs_retries sv" "vs_actions (fst (Add opts store sv)) = vs_actions sv"
  "vs_opts (fst (Remove T i sv)) = vs_opts sv" "vs_retries (fst (Remove T i sv)) = vs_retries sv" "vs_actions (fst (Remove T i sv)) = vs_actions sv"
  "vs_opts (fst (SupStart sv)) = vs_opts sv" "vs_retries (fst (SupStart sv)) = vs_retries sv" "vs_actions (fst (SupStart sv)) = vs_actions sv"
  "vs_opts (SupStop T sv) = vs_opts sv" "vs_retries (SupStop T sv) = vs_retries sv" "vs_actions (SupStop T sv) = vs_actions sv"
  by (simp_all add: Add_def Remove_def SupStart_def SupStop_def fold_upd_sel Let_def split: option.split)

lemma session_step_ok:
  assumes "objs_ok sv" "k < length (vs_objs sv)" "mg_sess (vs_objs sv ! k) = Some s" "s_task s \<noteq> TNone" "ses_step (mg_opts (vs_objs sv ! k)) s s'"
  shows "objs_ok (upd_obj k (\<lambda>m. m\<lparr>mg_sess := Some s'\<rparr>) sv)"
proof (rule objs_ok_upd [OF assms(1,2)])
  assume ok: "obj_ok (vs_opts sv) (vs_objs sv ! k)"
  then have r: "ses_reach (mg_opts (vs_objs sv ! k)) s" using assms(3) by (simp add: obj_ok_def)
  then have "ses_reach (mg_opts (vs_objs sv ! k)) s'" by (rule ses_reach.more [OF _ assms(5)])
  then show "obj_ok (vs_opts sv) ((vs_objs sv ! k)\<lparr>mg_sess := Some s'\<rparr>)"
    using ok assms(3,4) step_stays_online [OF assms(5) auth_inv_reach [OF r]] by (auto simp: obj_ok_def)
qed

lemma fleet_step:
  assumes "sup_step sv sv'" "fleet_inv vo sv"
  shows "fleet_inv vo sv'"
  using assms(1)
proof cases
  case (add opts store)
  then show ?thesis using assms(2) Add_ok [of sv opts store] by (auto simp: fleet_inv_def reg_only intro: counted_same)
next
  case (remove T i)
  then show ?thesis using assms(2) Remove_ok [of sv T i] by (auto simp: fleet_inv_def reg_only intro: counted_same)
next
  case run
  then show ?thesis using assms(2) SupStart_ok [of sv] by (auto simp: fleet_inv_def reg_only intro: counted_same)
next
  case (halt T)
  then show ?thesis using assms(2) SupStop_ok [of sv T] by (auto simp: fleet_inv_def reg_only intro: counted_same)
next
  case (loop k)
  have sr: "same_reg sv sv'" by (rule loop_step_reg [OF loop(2,1)])
  then have "vs_opts sv' = vs_opts sv" by (simp add: same_reg_def)
  then show ?thesis using assms(2) loop_step_ok [OF loop(2,1)] counted_loop [OF loop(2)] reg_ok_same [OF _ sr] by (simp add: fleet_inv_def)
next
  case (session k s s')
  have sr: "same_reg sv sv'" unfolding session(1) using session(2) by (intro same_reg_upd same_reg_refl) simp_all
  then show ?thesis using assms(2) session_step_ok [OF _ session(2-5)] reg_ok_same [OF _ sr] counted_same [of sv sv']
    by (simp add: fleet_inv_def session(1))
next
  case (time t)
  then show ?thesis using assms(2) by (auto simp: fleet_inv_def reg_ok_def objs_ok_def intro: counted_same)
qed

lemma fleet_reach: "sup_reach vo sv \<Longrightarrow> fleet_inv vo sv"
proof (induction rule: sup_reach.induct)
  case (fresh now)
  then show ?case
    by (simp add: fleet_inv_def NewSupervisor_def reg_ok_def objs_ok_def counted_def retries_of_def retry_actions_def)
next
  case (more sv sv')
  then show ?case using fleet_step by blast
qed

subsection \<open>Ending\<close>

primrec loop_rank :: "loop_at \<Rightarrow> nat" where
  "loop_rank LNone = 0" | "loop_rank LEnded = 0" | "loop_rank (LFailed e) = 1" | "loop_rank LTop = 2" | "loop_rank LWait = 3"
| "loop_rank (LOnline t) = 4" | "loop_rank LStarting = 5" | "loop_rank LNew = 6"

lemma at_upd [simp]:
  "i < length (vs_objs sv) \<Longrightarrow> mg_at (vs_objs (set_at i a sv) ! i) = a"
  "i < length (vs_objs sv) \<Longrightarrow> vs_objs (upd_obj i f sv) ! i = f (vs_objs sv ! i)"
  by (simp_all add: set_at_def upd_obj_nth)

lemma start_failed_rank [simp]: "i < length (vs_objs sv) \<Longrightarrow> loop_rank (mg_at (vs_objs (start_failed i e sv) ! i)) = 1"
  by (auto simp: start_failed_def Let_def)

lemma noteOnline_objs [simp]: "vs_objs (noteOnline x sv) = vs_objs sv" "vs_objs (emitAction x y z sv) = vs_objs sv"
  by (simp_all add: noteOnline_def emitAction_def)

lemma rank_decreases:
  assumes "loop_step i sv sv'" "i < length (vs_objs sv)" "ctx_done i sv" "obj_ok vo (vs_objs sv ! i)"
  shows "loop_rank (mg_at (vs_objs sv' ! i)) < loop_rank (mg_at (vs_objs sv ! i))"
  using assms
proof (induction rule: loop_step.induct)
  case (new sv gen)
  then obtain s where "mg_sess (vs_objs sv ! i) = Some s" by (auto simp: obj_ok_def)
  then show ?case using new by (auto simp: loop_start_def split: prod.split sum.split)
next
  case (starting sv w sv')
  then show ?case by (auto simp: loop_started_def split: option.splits loop_wake.splits if_splits task.splits)
next
  case (online sv t w T sv')
  then show ?case by (auto simp: loop_online_def Let_def split: option.splits loop_wake.splits if_splits)
qed (auto simp: loop_top_def loop_failed_def loop_wait_def split: loop_wake.splits if_splits)

lemma ctx_done_reg: "same_reg sv sv' \<Longrightarrow> i < length (vs_objs sv) \<Longrightarrow> ctx_done i sv' = ctx_done i sv"
  using same_reg_nth [of sv sv' i] by (simp add: ctx_done_def same_reg_def)

lemma ending_enabled:
  assumes "obj_ok vo (vs_objs sv ! i)" "ctx_done i sv" "mg_at (vs_objs sv ! i) \<notin> {LNone, LEnded}"
  shows "\<exists>sv'. loop_step i sv sv'"
proof (cases "mg_at (vs_objs sv ! i)")
  case LStarting
  then obtain s where "mg_sess (vs_objs sv ! i) = Some s" using assms(1) by (auto simp: obj_ok_def)
  then have "\<exists>sv'. loop_started WCtx i sv = Some sv'" using assms(2) by (simp add: loop_started_def)
  then show ?thesis using loop_step.starting LStarting by blast
next
  case (LOnline t)
  then obtain s where "mg_sess (vs_objs sv ! i) = Some s" using assms(1) by (auto simp: obj_ok_def)
  then have "\<exists>sv'. loop_online WCtx T t i sv = Some sv'" for T using assms(2) by (simp add: loop_online_def)
  then show ?thesis using loop_step.online LOnline by blast
next
  case LWait
  have "\<exists>sv'. loop_wait WCtx i sv = Some sv'" using assms(2) by (simp add: loop_wait_def)
  then show ?thesis using loop_step.waiting LWait by blast
qed (use assms(3) in \<open>auto intro: loop_step.intros\<close>)

subsection \<open>A supervised session\<close>

lemma Start_not_TNone: "Start opts gen s = (s', Inr ()) \<Longrightarrow> s_task s' \<noteq> TNone"
  by (auto simp: Start_def case_prod_beta then_st_eq_Inr split: if_splits option.splits)

lemma step_not_TNone:
  assumes "ses_step opts s s'" "s_task s \<noteq> TNone"
  shows "s_task s' \<noteq> TNone"
  using step_calm [OF assms(1)] assms(2)
proof (elim disjE exE conjE)
  fix T c rand fresh
  assume "s' = task_handshake opts T c rand fresh s"
  then show ?thesis by (auto simp: task_handshake_def Let_def split: prod.split sum.split)
next
  fix i w s'' res c
  assume c: "s' = task_connected opts c res s''"
  show ?thesis unfolding c by (auto simp: task_connected_def Let_def split: sum.split prod.split option.split)
qed (auto simp: calm_def task_dial_def task_watch_def Let_def split: option.splits if_splits)

lemma session_runs:
  assumes "(ses_step (mg_opts (vs_objs sv ! k))) \<^sup>*\<^sup>* s s'" "sup_reach vo sv" "k < length (vs_objs sv)" "mg_sess (vs_objs sv ! k) = Some s" "s_task s \<noteq> TNone"
  shows "sup_reach vo (upd_obj k (\<lambda>m. m\<lparr>mg_sess := Some s'\<rparr>) sv) \<and> s_task s' \<noteq> TNone"
  using assms(1)
proof (induction rule: rtranclp_induct)
  case base
  have "(vs_objs sv ! k)\<lparr>mg_sess := Some s\<rparr> = vs_objs sv ! k" using assms(4) by (cases "vs_objs sv ! k") simp
  then have "upd_obj k (\<lambda>m. m\<lparr>mg_sess := Some s\<rparr>) sv = sv" by (cases sv) (simp add: upd_obj_def)
  then show ?case using assms(2,5) by simp
next
  case (step s1 s2)
  let ?sv = "upd_obj k (\<lambda>m. m\<lparr>mg_sess := Some s1\<rparr>) sv"
  have "sup_step ?sv (upd_obj k (\<lambda>m. m\<lparr>mg_sess := Some s2\<rparr>) ?sv)"
    using step assms(3) by (intro sup_step.session [of k ?sv s1]) simp_all
  moreover have "upd_obj k (\<lambda>m. m\<lparr>mg_sess := Some s2\<rparr>) ?sv = upd_obj k (\<lambda>m. m\<lparr>mg_sess := Some s2\<rparr>) sv"
    using assms(3) by (simp add: upd_obj_def)
  ultimately have "sup_reach vo (upd_obj k (\<lambda>m. m\<lparr>mg_sess := Some s2\<rparr>) sv)" using sup_reach.more step.IH by auto
  then show ?case using step_not_TNone [OF step.hyps(2)] step.IH by blast
qed

definition fleet_options :: "Memory SupOptions" where
  "fleet_options = \<lparr>vo_Store = Memory_KV, vo_BaseBackoff = 0, vo_MaxBackoff = 0, vo_StableReset = 0, vo_DialTimeout = 0, vo_StuckThreshold = 0\<rparr>"

definition fleet_started :: "Memory Supervisor" where
  "fleet_started = fst (SupStart (fst (Add toy_options None (NewSupervisor fleet_options 7))))"

lemma fleet_started: "sup_reach fleet_options fleet_started" "vs_now fleet_started = 7" "\<not> ctx_done 0 fleet_started"
  "vs_objs fleet_started = [\<lparr>mg_opts = toy_options, mg_sess = None, mg_cancel = Some False, mg_at = LTop, mg_backoff = 1000000000\<rparr>]"
proof -
  have "sup_reach fleet_options (fst (Add toy_options None (NewSupervisor fleet_options 7)))" by (rule sup_reach.more [OF sup_reach.fresh sup_step.add])
  then show "sup_reach fleet_options fleet_started" unfolding fleet_started_def by (rule sup_reach.more [OF _ sup_step.run])
  have eq: "fleet_started = \<lparr>vs_opts = withDefaults fleet_options,
      vs_objs = [\<lparr>mg_opts = toy_options, mg_sess = None, mg_cancel = Some False, mg_at = LTop, mg_backoff = 1000000000\<rparr>],
      vs_sessions = [(''dev'', 0)], vs_running = True, vs_cancelled = False, vs_retries = [], vs_lastOnline = [], vs_phase = [], vs_actions = [], vs_now = 7\<rparr>"
    by (simp add: fleet_started_def Add_def NewSupervisor_def toy_options_def SupStart_def fleet_options_def upd_obj_def spawn_def withDefaults_def
        second_def Let_def)
  then show "vs_now fleet_started = 7" "\<not> ctx_done 0 fleet_started"
    "vs_objs fleet_started = [\<lparr>mg_opts = toy_options, mg_sess = None, mg_cancel = Some False, mg_at = LTop, mg_backoff = 1000000000\<rparr>]"
    by (simp_all add: ctx_done_def eq)
qed

lemma fleet_online:
  obtains sv s where "sup_reach fleet_options sv" "length (vs_objs sv) = 1" "mg_at (vs_objs sv ! 0) = LOnline 7" "mg_sess (vs_objs sv ! 0) = Some s" "s_online s"
    "mg_cancel (vs_objs sv ! 0) = Some False" "obj_id (vs_objs sv ! 0) = ''dev''"
proof -
  obtain s' where s': "s_online s'" "(ses_step toy_options)\<^sup>*\<^sup>* (fst (Start toy_options (Inr toy_creds) toy_session)) s'" by (rule toy_online)
  define sv1 where "sv1 = loop_top True NewMemory 0 fleet_started"
  have r1: "sup_reach fleet_options sv1" unfolding sv1_def
    by (rule sup_reach.more [OF fleet_started(1) sup_step.loop [OF _ loop_step.top]]) (simp_all add: fleet_started)
  have o1: "vs_objs sv1 = [\<lparr>mg_opts = toy_options, mg_sess = Some toy_session, mg_cancel = Some False, mg_at = LNew, mg_backoff = 1000000000\<rparr>]" "vs_now sv1 = 7"
    using fleet_started toy_setup(1) by (simp_all add: sv1_def loop_top_def upd_obj_def)
  obtain s1 where st: "Start toy_options (Inr toy_creds) toy_session = (s1, Inr ())"
  proof -
    obtain m where "ses_move Starting ''start'' (toy_session\<lparr>s_creds := Some toy_creds, s_store := \<lparr>mem_data = [(''session/dev/credentials'', replicate 32 1)]\<rparr>\<rparr>)
        = (m, None)" by (simp add: ses_move_def Move_def canLocked_def toy_session_def New_def toy_options_def NewMachine_def table_def)
    moreover have "\<not> s_stopped toy_session" "\<not> s_stopping toy_session" by (simp_all add: toy_session_def New_def toy_options_def)
    ultimately show thesis using that toy_setup(2) by (simp add: Start_def)
  qed
  define sv2 where "sv2 = loop_start (Inr toy_creds) 0 sv1"
  have r2: "sup_reach fleet_options sv2" unfolding sv2_def
    by (rule sup_reach.more [OF r1 sup_step.loop [OF _ loop_step.new]]) (simp_all add: o1)
  have o2: "vs_objs sv2 = [\<lparr>mg_opts = toy_options, mg_sess = Some s1, mg_cancel = Some False, mg_at = LStarting, mg_backoff = 1000000000\<rparr>]" "vs_now sv2 = 7"
    using o1 st by (simp_all add: sv2_def loop_start_def upd_obj_def)
  define sv3 where "sv3 = upd_obj 0 (\<lambda>m. m\<lparr>mg_sess := Some s'\<rparr>) sv2"
  have r3: "sup_reach fleet_options sv3" unfolding sv3_def
    using session_runs [of sv2 0 s1 s'] r2 s'(2) o2 Start_not_TNone [OF st] st by simp
  have o3: "vs_objs sv3 = [\<lparr>mg_opts = toy_options, mg_sess = Some s', mg_cancel = Some False, mg_at = LStarting, mg_backoff = 1000000000\<rparr>]" "vs_now sv3 = 7"
    using o2 by (simp_all add: sv3_def upd_obj_def)
  obtain sv4 where on: "loop_started WOnline 0 sv3 = Some sv4" using o3 s'(1) by (simp add: loop_started_def)
  have "sup_reach fleet_options sv4"
    by (rule sup_reach.more [OF r3 sup_step.loop [OF _ loop_step.starting [OF _ on]]]) (simp_all add: o3)
  moreover have "vs_objs sv4 = [\<lparr>mg_opts = toy_options, mg_sess = Some s', mg_cancel = Some False, mg_at = LOnline 7, mg_backoff = 1000000000\<rparr>]"
    using on o3 s'(1) by (auto simp: loop_started_def set_at_def upd_obj_def noteOnline_def)
  ultimately show thesis using that [of sv4 s'] s'(1) by (simp add: obj_id_def toy_options_def)
qed

subsection \<open>Properties\<close>





text \<open>
  C29 (safety). The watchdog is idle. While the manage loop watches a session, that session
  has come online, and from then on its machine is only ever online, degraded,
  failed, stopping or stopped: the time in a transient state is zero, so the forced reconnect for a
  stuck state never happens.
\<close>

theorem watchdog_never_fires:
  assumes "sup_reach vo sv" "k < length (vs_objs sv)" "mg_at (vs_objs sv ! k) = LOnline t"
  shows "(\<exists>s. mg_sess (vs_objs sv ! k) = Some s \<and> m_state (s_mach s) \<in> {Online, Degraded, Error, Stopping, Stopped} \<and> stuckSince (vs_now sv) s = 0) \<and>
    loop_online WTick T t k sv = None"
proof -
  have inv: "vs_opts sv = withDefaults vo" "objs_ok sv" using fleet_reach [OF assms(1)] by (simp_all add: fleet_inv_def)
  obtain s where s: "mg_sess (vs_objs sv ! k) = Some s" "s_online s" "ses_reach (mg_opts (vs_objs sv ! k)) s"
    using objs_okD [OF inv(2) assms(2)] assms(3) by (auto simp: obj_ok_def)
  have on: "hist_ok (s_mach s)" "m_state (s_mach s) \<in> settled" using online_reach [OF s(3)] s(2) by (simp_all add: online_inv_def)
  then have "stuckSince (vs_now sv) s = 0" by (auto simp: stuckSince_def StateMachine.History_def hist_ok_def settled_def Let_def)
  moreover have "0 < vo_StuckThreshold (withDefaults vo)" by (simp add: withDefaults_def second_def Let_def)
  ultimately show ?thesis using s(1) on(2) inv(1) by (simp add: loop_online_def settled_def)
qed

lemma watchdog_never_fires_witness:
  "\<exists>sv. sup_reach fleet_options sv \<and> mg_at (vs_objs sv ! 0) = LOnline 7 \<and> loop_online WTick open_transport 7 0 sv = None"
proof -
  obtain sv where sv: "sup_reach fleet_options sv" "length (vs_objs sv) = 1" "mg_at (vs_objs sv ! 0) = LOnline 7" by (rule fleet_online)
  then show ?thesis using watchdog_never_fires [of fleet_options sv 0 7 open_transport] by auto
qed

text \<open>
  \<open>Remove\<close> leaves the \<open>backoff\<close> phase of an id behind: when the session is registered
  again, \<open>Health\<close> reports it as reconnecting whatever it does, until its next own wait has ended.
\<close>

lemma stale_phase:
  assumes "map_of (vs_phase sv) i = Some ''backoff''" "map_of (vs_sessions sv) i = Some k"
  shows "map_of (vs_phase (fst (Remove T i sv))) i = Some ''backoff''"
    and "vs_phase (fst (Add opts store sv')) = vs_phase sv'" "vs_phase (loop_top dialer st l sv') = vs_phase sv'"
      "vs_phase (loop_start gen l sv') = vs_phase sv'" "loop_started w l sv' = Some sv'' \<Longrightarrow> vs_phase sv'' = vs_phase sv'"
    and "hl_State (health_of sv i m) = Reconnecting"
  using assms
  by (auto simp: Remove_def Add_def loop_top_def loop_start_def loop_started_def start_failed_def set_at_def noteOnline_def health_of_def Let_def
      split: option.splits sum.split prod.split loop_wake.splits if_splits task.splits)

end
