(* ===== verification/Pipe.thy ===== *)
theory Pipe
  imports Transport
begin

text \<open>
  The in-memory pipe of \<^verbatim>\<open>transport/pipe.go\<close>, an implementation of the contract of a
  connection. The two ends share the closed flag and the done
  channel; each has a queue of frames. A send checks the flag and then waits in a
  \<open>select\<close>, so sends that passed the check are part of the state; closing stores the flag
  and then closes the channel. Callers' contexts may end at any moment.
\<close>

subsection \<open>The pipe\<close>

datatype side = ClientEnd | ServerEnd

fun peer :: "side \<Rightarrow> side" where
  "peer ClientEnd = ServerEnd"
| "peer ServerEnd = ClientEnd"

lemma peer_peer [simp]: "peer (peer x) = x"
  by (cases x) simp_all

text \<open>The channel of an end has room for 64 frames; \<open>pp_waiting\<close> are the sends in their \<open>select\<close>, by sender.\<close>

record pipe =
  pp_header :: bytes
  pp_recv :: "side \<Rightarrow> bytes list"
  pp_closed :: bool
  pp_done :: bool
  pp_waiting :: "(side \<times> bytes) list"
  pp_accepted :: "side \<Rightarrow> bytes list"
  pp_received :: "side \<Rightarrow> bytes list"

datatype pipe_error = ErrClosed | PipeCtx

definition Pipe :: "bytes \<Rightarrow> pipe" where
  "Pipe header = \<lparr>pp_header = header, pp_recv = (\<lambda>_. []), pp_closed = False, pp_done = False, pp_waiting = [],
     pp_accepted = (\<lambda>_. []), pp_received = (\<lambda>_. [])\<rparr>"

definition sendable :: "pipe \<Rightarrow> bool" where
  "sendable p \<longleftrightarrow> \<not> pp_closed p"

text \<open>\<open>SendBinary\<close> up to its \<open>select\<close>, with the copy of the frame; then the case it takes, \<open>None\<close> where that is not ready.\<close>

definition SendBinary_start :: "side \<Rightarrow> bytes \<Rightarrow> pipe \<Rightarrow> pipe \<times> (pipe_error + unit)" where
  "SendBinary_start x frame p =
     (if \<not> sendable p then (p, Inl ErrClosed) else (p\<lparr>pp_waiting := pp_waiting p @ [(x, frame)]\<rparr>, Inr ()))"

datatype select_case = OnFrame | OnCtx | OnDone

definition SendBinary_select :: "select_case \<Rightarrow> side \<Rightarrow> bytes \<Rightarrow> pipe \<Rightarrow> (pipe \<times> (pipe_error + unit)) option" where
  "SendBinary_select c x buf p =
     (let p' = p\<lparr>pp_waiting := remove1 (x, buf) (pp_waiting p)\<rparr>
      in case c of
           OnFrame \<Rightarrow>
             if length (pp_recv p (peer x)) < 64 then
               Some (p'\<lparr>pp_recv := (pp_recv p)(peer x := pp_recv p (peer x) @ [buf]), pp_accepted := (pp_accepted p)(x := pp_accepted p x @ [buf])\<rparr>, Inr ())
             else None
         | OnCtx \<Rightarrow> Some (p', Inl PipeCtx)
         | OnDone \<Rightarrow> if pp_done p then Some (p', Inl ErrClosed) else None)"

definition take_frame :: "side \<Rightarrow> pipe \<Rightarrow> (pipe \<times> (pipe_error + bytes)) option" where
  "take_frame x p =
     (case pp_recv p x of
        [] \<Rightarrow> None
      | f # fs \<Rightarrow> Some (p\<lparr>pp_recv := (pp_recv p)(x := fs), pp_received := (pp_received p)(x := pp_received p x @ [f])\<rparr>, Inr f))"

text \<open>On the done channel a second \<open>select\<close> prefers a buffered frame.\<close>

definition ReceiveBinary :: "select_case \<Rightarrow> side \<Rightarrow> pipe \<Rightarrow> (pipe \<times> (pipe_error + bytes)) option" where
  "ReceiveBinary c x p =
     (case c of
        OnFrame \<Rightarrow> take_frame x p
      | OnCtx \<Rightarrow> Some (p, Inl PipeCtx)
      | OnDone \<Rightarrow>
          if pp_done p then (case take_frame x p of Some r \<Rightarrow> Some r | None \<Rightarrow> Some (p, Inl ErrClosed)) else None)"

definition BindingHeader :: "pipe \<Rightarrow> bytes" where
  "BindingHeader p = pp_header p"

text \<open>\<open>Close\<close> in its two steps; only the first caller runs them, and a second one finds both done or waits for them.\<close>

definition Close_flag :: "pipe \<Rightarrow> pipe" where
  "Close_flag p = p\<lparr>pp_closed := True\<rparr>"

definition Close_done :: "pipe \<Rightarrow> pipe" where
  "Close_done p = p\<lparr>pp_done := True\<rparr>"

subsection \<open>Interleavings\<close>

inductive pipe_step :: "pipe \<Rightarrow> pipe \<Rightarrow> bool" where
  send: "pipe_step p (fst (SendBinary_start x frame p))"
| sent: "(x, buf) \<in> set (pp_waiting p) \<Longrightarrow> SendBinary_select c x buf p = Some (p', r) \<Longrightarrow> pipe_step p p'"
| receive: "ReceiveBinary c x p = Some (p', r) \<Longrightarrow> pipe_step p p'"
| close1: "pipe_step p (Close_flag p)"
| close2: "pp_closed p \<Longrightarrow> pipe_step p (Close_done p)"

inductive pipe_reach :: "bytes \<Rightarrow> pipe \<Rightarrow> bool" for header :: bytes where
  fresh: "pipe_reach header (Pipe header)"
| more: "pipe_reach header p \<Longrightarrow> pipe_step p p' \<Longrightarrow> pipe_reach header p'"

definition pipe_inv :: "bytes \<Rightarrow> pipe \<Rightarrow> bool" where
  "pipe_inv header p \<longleftrightarrow> pp_header p = header \<and> (pp_done p \<longrightarrow> pp_closed p) \<and>
     (\<forall>x. pp_accepted p x = pp_received p (peer x) @ pp_recv p (peer x) \<and> length (pp_recv p x) \<le> 64)"

lemma take_frame_inv:
  assumes "take_frame x p = Some (p', r)" "pipe_inv header p"
  shows "pipe_inv header p'"
proof -
  have "length fs \<le> 64" if "pp_recv p x = f # fs" for f fs
    using assms(2) that unfolding pipe_inv_def by (metis Suc_leD length_Cons)
  then show ?thesis using assms by (auto simp: take_frame_def pipe_inv_def split: list.splits)
qed

lemma SendBinary_select_inv:
  assumes "SendBinary_select c x buf p = Some (p', r)" "pipe_inv header p"
  shows "pipe_inv header p'"
proof -
  have ne: "peer x \<noteq> x" "peer y = peer x \<longleftrightarrow> y = x" for x y by (cases x; cases y; simp)+
  show ?thesis using assms by (auto simp: SendBinary_select_def pipe_inv_def ne Let_def split: select_case.splits if_splits)
qed

lemma pipe_inv_step: "pipe_step p p' \<Longrightarrow> pipe_inv header p \<Longrightarrow> pipe_inv header p'"
proof (induction rule: pipe_step.induct)
  case (sent x buf p c p' r)
  then show ?case using SendBinary_select_inv by blast
next
  case (receive c x p p' r)
  then show ?case using take_frame_inv by (auto simp: ReceiveBinary_def split: select_case.splits if_splits option.splits)
qed (auto simp: SendBinary_start_def Close_flag_def Close_done_def pipe_inv_def)

lemma pipe_inv_reach: "pipe_reach header p \<Longrightarrow> pipe_inv header p"
proof (induction rule: pipe_reach.induct)
  case fresh
  show ?case by (simp add: Pipe_def pipe_inv_def)
qed (rule pipe_inv_step)

text \<open>Both directions of a pipe keep the contract.\<close>

interpretation up: frame_channel "pipe_reach header" "\<lambda>p. pp_accepted p ClientEnd" "\<lambda>p. pp_received p ServerEnd" "\<lambda>p. pp_recv p ServerEnd" 64 for header
  by unfold_locales (use pipe_inv_reach in \<open>force simp: pipe_inv_def\<close>)+

interpretation down: frame_channel "pipe_reach header" "\<lambda>p. pp_accepted p ServerEnd" "\<lambda>p. pp_received p ClientEnd" "\<lambda>p. pp_recv p ClientEnd" 64 for header
  by unfold_locales (use pipe_inv_reach in \<open>force simp: pipe_inv_def\<close>)+

subsection \<open>Properties\<close>

text \<open>
  C28 (invariant). The pipe is a reliable ordered channel. However sends, receives, cancelled calls and
  \<open>Close\<close> interleave, each end receives a prefix of the frames the other end's sends were
  accepted with, at most 64 are under way, and both ends report the header the pipe was
  made with. After \<open>Close\<close> no new send is accepted, buffered frames can still be read, and
  \<open>ErrClosed\<close> is reported only once there are none: then everything accepted has been received.
\<close>

theorem pipe_channel:
  assumes "pipe_reach header p"
  shows "prefix (pp_received p x) (pp_accepted p (peer x)) \<and> length (pp_recv p x) \<le> 64 \<and> BindingHeader p = header \<and>
    (pp_closed p \<longrightarrow> SendBinary_start x frame p = (p, Inl ErrClosed)) \<and>
    (pp_recv p x \<noteq> [] \<longrightarrow> (\<exists>p'. ReceiveBinary OnFrame x p = Some (p', Inr (hd (pp_recv p x))))) \<and>
    (\<forall>c p'. ReceiveBinary c x p = Some (p', Inl ErrClosed) \<longrightarrow> pp_closed p \<and> pp_received p x = pp_accepted p (peer x))"
proof -
  note inv = pipe_inv_reach [OF assms]
  have "prefix (pp_received p x) (pp_accepted p (peer x))"
    using up.received_prefix [OF assms] down.received_prefix [OF assms] by (cases x) simp_all
  moreover have "pp_received p x = pp_accepted p (peer x)" if "pp_recv p x = []"
    using up.nothing_lost [OF assms] down.nothing_lost [OF assms] that by (cases x) simp_all
  moreover have "pp_closed p \<and> pp_recv p x = []" if "ReceiveBinary c x p = Some (p', Inl ErrClosed)" for c p'
    using that inv by (auto simp: ReceiveBinary_def take_frame_def pipe_inv_def split: select_case.splits if_splits option.splits list.splits)
  moreover have "\<exists>p'. ReceiveBinary OnFrame x p = Some (p', Inr (hd (pp_recv p x)))" if "pp_recv p x \<noteq> []"
    using that by (auto simp: ReceiveBinary_def take_frame_def split: list.split)
  ultimately show ?thesis
    using inv by (auto simp: pipe_inv_def BindingHeader_def SendBinary_start_def sendable_def)
qed

definition closed_pipe :: pipe where
  "closed_pipe = (let p = fst (SendBinary_start ClientEnd [1, 2] (Pipe [9]));
     p = fst (the (SendBinary_select OnFrame ClientEnd [1, 2] p)) in Close_done (Close_flag p))"

lemma closed_pipe_reach: "pipe_reach [9] closed_pipe"
proof -
  let ?p = "fst (SendBinary_start ClientEnd [1, 2] (Pipe [9]))"
  let ?q = "fst (the (SendBinary_select OnFrame ClientEnd [1, 2] ?p))"
  have "pipe_reach [9] ?p" by (rule pipe_reach.more [OF pipe_reach.fresh pipe_step.send])
  moreover have "pipe_step ?p ?q"
    by (rule pipe_step.sent [of ClientEnd "[1, 2]" _ OnFrame _ "Inr ()"]) (simp_all add: SendBinary_start_def Pipe_def sendable_def SendBinary_select_def)
  ultimately have "pipe_reach [9] ?q" by (rule pipe_reach.more)
  then have "pipe_reach [9] (Close_flag ?q)" by (rule pipe_reach.more) (rule pipe_step.close1)
  then have "pipe_reach [9] (Close_done (Close_flag ?q))" by (rule pipe_reach.more) (rule pipe_step.close2, simp add: Close_flag_def)
  then show ?thesis by (simp add: closed_pipe_def Let_def)
qed

lemma pipe_channel_witness:
  "SendBinary_start ServerEnd [3] closed_pipe = (closed_pipe, Inl ErrClosed) \<and> (\<exists>p'. ReceiveBinary OnFrame ServerEnd closed_pipe = Some (p', Inr [1, 2]))"
  using pipe_channel [OF closed_pipe_reach, of ServerEnd "[3]"]
  by (simp add: closed_pipe_def SendBinary_start_def Pipe_def sendable_def SendBinary_select_def Close_flag_def Close_done_def Let_def)

text \<open>
  A send that passed its check before \<open>Close\<close> may still be accepted after it, even after a
  reader was told that the pipe is closed.
\<close>

lemma late_send_accepted:
  "let p = Close_done (Close_flag (fst (SendBinary_start ClientEnd [1] (Pipe []))))
   in ReceiveBinary OnDone ServerEnd p = Some (p, Inl ErrClosed) \<and> (\<exists>p'. SendBinary_select OnFrame ClientEnd [1] p = Some (p', Inr ()))"
  by (simp add: SendBinary_start_def Pipe_def sendable_def SendBinary_select_def Close_flag_def Close_done_def ReceiveBinary_def take_frame_def Let_def)

end
