(* ===== verification/Batur.thy ===== *)
theory Batur
  imports Fleet SecureKV ApiMessage
begin

text \<open>
  The engine's facade of \<^verbatim>\<open>api/api.go\<close>: an instance over a store and a supervisor, the
  registration of sessions, status and raw requests. The values of the map of attached
  sessions are always nil, so it is the list of its keys. A session's options carry the
  device and the environment the engine runs against. What a request of a live session
  returns is an argument; the engine's own requests are the subject of \<open>Link\<close>.
\<close>

subsection \<open>State\<close>

datatype api_error = ErrUnknownSession | ErrAlreadyAttached | ApiNotOnline | ErrNoBundleSource | EmptySessionID
  | EmptyTarget | SupFailed sup_error | RequestFailed session_error

record SessionStatus =
  su_ID :: string
  su_State :: string
  su_Retries :: nat
  su_LastOnline :: int
  su_Account :: string

record 's Batur =
  bt_store :: "'s KV"
  bt_dict :: Dictionary
  bt_sup :: "'s Supervisor"
  bt_sess :: "string list"
  bt_owns :: bool
  bt_syncEnabled :: bool
  bt_syncSub :: bool
  bt_histSubs :: bool
  bt_busClosed :: bool

subsection \<open>Creating an instance\<close>

text \<open>The recovery options are handed to the supervisor, its other durations are zero and take their defaults.\<close>

definition NewBatur :: "'s KV \<Rightarrow> Dictionary \<Rightarrow> bool \<Rightarrow> bool \<Rightarrow> bool \<Rightarrow> int \<Rightarrow> int \<Rightarrow> int \<Rightarrow> int \<Rightarrow> 's Batur" where
  "NewBatur store dict busGiven syncEnabled history baseBackoff maxBackoff stableReset now =
     \<lparr>bt_store = store, bt_dict = dict,
      bt_sup = NewSupervisor \<lparr>vo_Store = store, vo_BaseBackoff = baseBackoff, vo_MaxBackoff = maxBackoff, vo_StableReset = stableReset,
        vo_DialTimeout = 0, vo_StuckThreshold = 0\<rparr> now,
      bt_sess = [], bt_owns = (\<not> busGiven), bt_syncEnabled = syncEnabled, bt_syncSub = False, bt_histSubs = history, bt_busClosed = False\<rparr>"

text \<open>With a master key the store is sealed first; a key of the wrong length is the error of \<open>New\<close>.\<close>

definition NewSealedBatur :: "AEAD \<Rightarrow> bytes \<Rightarrow> 's KV \<Rightarrow> 's \<Rightarrow> (nat \<Rightarrow> bytes option) \<Rightarrow> Dictionary \<Rightarrow> bool \<Rightarrow> bool \<Rightarrow> bool \<Rightarrow>
    int \<Rightarrow> int \<Rightarrow> int \<Rightarrow> int \<Rightarrow> ('s SecureKV Batur \<times> 's SecureKV) option" where
  "NewSealedBatur A masterKey store st rand dict busGiven syncEnabled history baseBackoff maxBackoff stableReset now =
     (case NewSecureKV masterKey st rand of
        None \<Rightarrow> None
      | Some sealed \<Rightarrow> Some (NewBatur (SecureKV_KV A store) dict busGiven syncEnabled history baseBackoff maxBackoff stableReset now, sealed))"

subsection \<open>Sessions\<close>

definition Attach :: "string \<Rightarrow> ServerAuth option \<Rightarrow> 's Options \<Rightarrow> 's Batur \<Rightarrow> 's Batur \<times> (api_error + unit)" where
  "Attach i auth device b =
     (if i = '''' then (b, Inl EmptySessionID)
      else if i \<in> set (bt_sess b) then (b, Inl ErrAlreadyAttached)
      else
        let sopts = device\<lparr>o_ID := i, o_Dict := bt_dict b, o_ServerAuth := auth\<rparr>
        in case Add sopts (Some (bt_store b)) (bt_sup b) of
             (sv, Inl e) \<Rightarrow> (b\<lparr>bt_sup := sv\<rparr>, Inl (SupFailed e))
           | (sv, Inr _) \<Rightarrow> (b\<lparr>bt_sup := sv, bt_sess := bt_sess b @ [i]\<rparr>, Inr ()))"

definition Detach :: "transport \<Rightarrow> string \<Rightarrow> 's Batur \<Rightarrow> 's Batur \<times> (api_error + unit)" where
  "Detach T i b =
     (if i \<notin> set (bt_sess b) then (b, Inl ErrUnknownSession)
      else case Remove T i (bt_sup b) of
             (sv, Inl e) \<Rightarrow> (b\<lparr>bt_sess := removeAll i (bt_sess b), bt_sup := sv\<rparr>, Inl (SupFailed e))
           | (sv, Inr _) \<Rightarrow> (b\<lparr>bt_sess := removeAll i (bt_sess b), bt_sup := sv\<rparr>, Inr ()))"

definition RequestNode :: "(node \<Rightarrow> session_error + node) \<Rightarrow> string \<Rightarrow> node \<Rightarrow> 's Batur \<Rightarrow> api_error + node" where
  "RequestNode request i n b =
     (case SupSession i (bt_sup b) of
        None \<Rightarrow> Inl ErrUnknownSession
      | Some sess \<Rightarrow> (case request n of Inl e \<Rightarrow> Inl (RequestFailed e) | Inr resp \<Rightarrow> Inr resp))"

definition BaturStart :: "'s Batur \<Rightarrow> 's Batur \<times> (api_error + unit)" where
  "BaturStart b =
     (let b = (if bt_syncEnabled b then b\<lparr>bt_syncSub := True\<rparr> else b)
      in case SupStart (bt_sup b) of
           (sv, Inl e) \<Rightarrow> (b\<lparr>bt_sup := sv\<rparr>, Inl (SupFailed e))
         | (sv, Inr _) \<Rightarrow> (b\<lparr>bt_sup := sv\<rparr>, Inr ()))"

definition BaturStop :: "transport \<Rightarrow> 's Batur \<Rightarrow> 's Batur" where
  "BaturStop T b = b\<lparr>bt_syncSub := False, bt_histSubs := False, bt_sup := SupStop T (bt_sup b), bt_busClosed := (bt_busClosed b \<or> bt_owns b)\<rparr>"

subsection \<open>Health\<close>

definition status_view :: "Supervisor.Status \<Rightarrow> SessionStatus" where
  "status_view h = \<lparr>su_ID = hl_ID h, su_State = state_name (hl_State h), su_Retries = hl_Retries h, su_LastOnline = hl_LastOnline h,
     su_Account = cr_AccountJID (hl_Creds h)\<rparr>"

definition BaturStatus :: "string \<Rightarrow> 's Batur \<Rightarrow> api_error + SessionStatus" where
  "BaturStatus i b = (case map_of (Health (bt_sup b)) i of None \<Rightarrow> Inl ErrUnknownSession | Some h \<Rightarrow> Inr (status_view h))"

definition BaturSessions :: "'s Batur \<Rightarrow> string list" where
  "BaturSessions b = Sessions (bt_sup b)"

text \<open>
  \<open>startAutoSync\<close>: a session that becomes ready is synced, and on every tick each session that is
  online, in turn; \<open>run\<close> is \<open>RunSync\<close> on the engine's state, its error dropped.
\<close>

definition auto_sync_ready :: "(string \<Rightarrow> 'e \<Rightarrow> 'e) \<Rightarrow> string \<Rightarrow> 's Batur \<Rightarrow> 'e \<Rightarrow> 'e" where
  "auto_sync_ready run evSession b e = (if bt_syncSub b then run evSession e else e)"

definition auto_sync_tick :: "(string \<Rightarrow> 'e \<Rightarrow> 'e) \<Rightarrow> 's Batur \<Rightarrow> 'e \<Rightarrow> 'e" where
  "auto_sync_tick run b e =
     fold (\<lambda>i e. case BaturStatus i b of Inl _ \<Rightarrow> e | Inr st \<Rightarrow> if su_State st = state_name Online then run i e else e) (BaturSessions b) e"

definition BaturHealth :: "'s Batur \<Rightarrow> (string \<times> SessionStatus) list" where
  "BaturHealth b = map (\<lambda>(i, h). (i, status_view h)) (Health (bt_sup b))"

subsection \<open>Subscriptions\<close>

text \<open>The handlers \<open>OnMessage\<close> and \<open>OnConnectionState\<close> install: what they hand to the callback for an event.\<close>

definition OnMessage :: "Time \<Rightarrow> string \<Rightarrow> string \<Rightarrow> payload_data \<Rightarrow> Message option" where
  "OnMessage now sessionID evSession d =
     (if sessionID \<noteq> '''' \<and> evSession \<noteq> sessionID then None
      else case d of PNode n \<Rightarrow> Some (toMessage now n evSession) | _ \<Rightarrow> None)"

definition OnConnectionState :: "string \<Rightarrow> string \<Rightarrow> ev_data \<Rightarrow> (string \<times> string) option" where
  "OnConnectionState sessionID evSession d =
     (if sessionID \<noteq> '''' \<and> evSession \<noteq> sessionID then None
      else case d of DState st \<Rightarrow> Some (evSession, state_name st) | _ \<Rightarrow> None)"

subsection \<open>The facade in motion\<close>

text \<open>Calls of the facade between any steps of the supervisor's own loops, sessions and clock.\<close>

inductive batur_step :: "'s Batur \<Rightarrow> 's Batur \<Rightarrow> bool" where
  attach: "batur_step b (fst (Attach i auth device b))"
| detach: "batur_step b (fst (Detach T i b))"
| start: "batur_step b (fst (BaturStart b))"
| stop: "batur_step b (BaturStop T b)"
| own: "k < length (vs_objs (bt_sup b)) \<Longrightarrow> loop_step k (bt_sup b) sv \<Longrightarrow> batur_step b (b\<lparr>bt_sup := sv\<rparr>)"
| session: "k < length (vs_objs (bt_sup b)) \<Longrightarrow> mg_sess (vs_objs (bt_sup b) ! k) = Some s \<Longrightarrow> s_task s \<noteq> TNone \<Longrightarrow>
    ses_step (mg_opts (vs_objs (bt_sup b) ! k)) s s' \<Longrightarrow>
    batur_step b (b\<lparr>bt_sup := upd_obj k (\<lambda>m. m\<lparr>mg_sess := Some s'\<rparr>) (bt_sup b)\<rparr>)"
| time: "vs_now (bt_sup b) \<le> t \<Longrightarrow> batur_step b (b\<lparr>bt_sup := (bt_sup b)\<lparr>vs_now := t\<rparr>\<rparr>)"

definition fresh_batur :: "'s Batur \<Rightarrow> bool" where
  "fresh_batur b \<longleftrightarrow> (\<exists>vo now. bt_sup b = NewSupervisor vo now) \<and> bt_sess b = []"

inductive batur_reach :: "'s Batur \<Rightarrow> bool" where
  fresh: "fresh_batur b \<Longrightarrow> batur_reach b"
| more: "batur_reach b \<Longrightarrow> batur_step b b' \<Longrightarrow> batur_reach b'"

text \<open>The facade and the fleet know the same ids.\<close>

definition same_ids :: "'s Batur \<Rightarrow> bool" where
  "same_ids b \<longleftrightarrow> fst ` set (vs_sessions (bt_sup b)) = set (bt_sess b)"

lemma Attach_cases:
  assumes "same_ids b"
  shows "Attach i auth device b =
    (if i = '''' then (b, Inl EmptySessionID) else if i \<in> set (bt_sess b) then (b, Inl ErrAlreadyAttached)
     else (b\<lparr>bt_sup := fst (Add (device\<lparr>o_ID := i, o_Dict := bt_dict b, o_ServerAuth := auth\<rparr>) (Some (bt_store b)) (bt_sup b)), bt_sess := bt_sess b @ [i]\<rparr>, Inr ()))"
  using assms by (auto simp: Attach_def Add_def same_ids_def Let_def)

lemma Detach_cases:
  assumes "same_ids b"
  shows "Detach T i b =
    (if i \<in> set (bt_sess b) then (b\<lparr>bt_sess := removeAll i (bt_sess b), bt_sup := fst (Remove T i (bt_sup b))\<rparr>, Inr ()) else (b, Inl ErrUnknownSession))"
proof (cases "i \<in> set (bt_sess b)")
  case True
  then obtain k where "map_of (vs_sessions (bt_sup b)) i = Some k"
    using assms by (metis map_of_eq_None_iff not_None_eq same_ids_def)
  then show ?thesis using True by (simp add: Detach_def Remove_def)
qed (simp add: Detach_def)

lemma same_ids_cong: "vs_sessions sv = vs_sessions (bt_sup b) \<Longrightarrow> same_ids b \<Longrightarrow> same_ids (b\<lparr>bt_sup := sv\<rparr>)"
  by (simp add: same_ids_def)

lemma vs_sessions_SupStart [simp]: "vs_sessions (fst (SupStart sv)) = vs_sessions sv"
  by (simp add: SupStart_def fold_upd_sel)

lemma vs_sessions_SupStop [simp]: "vs_sessions (SupStop T sv) = vs_sessions sv"
  by (simp add: SupStop_def fold_upd_sel)

lemma same_ids_step:
  assumes "batur_step b b'" "same_ids b"
  shows "same_ids b'"
  using assms
proof (induction rule: batur_step.induct)
  case (attach b i auth device)
  then show ?case unfolding Attach_cases [OF attach] by (auto simp: same_ids_def Add_def Let_def update_fresh)
next
  case (detach b T i)
  have del: "fst ` set (AList.delete i al) = fst ` set al - {i}" for al :: "(string \<times> nat) list" by (metis delete_keys list.set_map set_removeAll)
  show ?case unfolding Detach_cases [OF detach]
    using detach map_of_eq_None_iff [of "vs_sessions (bt_sup b)" i] by (auto simp: same_ids_def Remove_def del upd_obj_sel split: option.split)
next
  case (start b)
  moreover have "fst (BaturStart b) = b\<lparr>bt_syncSub := (bt_syncEnabled b \<or> bt_syncSub b), bt_sup := fst (SupStart (bt_sup b))\<rparr>"
    by (simp add: BaturStart_def Let_def split: prod.split sum.split)
  ultimately show ?case by (simp add: same_ids_def)
next
  case (own k b sv)
  then show ?case using loop_step_reg [OF own(2,1)] by (simp add: same_ids_def same_reg_def)
qed (simp_all add: same_ids_def BaturStop_def upd_obj_sel)

lemma same_ids_reach: "batur_reach b \<Longrightarrow> same_ids b"
proof (induction rule: batur_reach.induct)
  case (fresh b)
  then show ?case by (auto simp: fresh_batur_def same_ids_def NewSupervisor_def)
qed (rule same_ids_step)

text \<open>Status reads the registry.\<close>

lemma map_of_Health:
  "map_of (Health sv) i = map_option (\<lambda>k. health_of sv i (vs_objs sv ! k)) (map_of (vs_sessions sv) i)"
proof -
  have "map_of (map (\<lambda>(i, k). (i, f i k)) al) i = map_option (f i) (map_of al i)" for al :: "(string \<times> nat) list" and f :: "string \<Rightarrow> nat \<Rightarrow> Status"
    by (induction al) auto
  then show ?thesis by (simp add: Health_def)
qed

lemma status_unknown: "same_ids b \<Longrightarrow> i \<notin> set (bt_sess b) \<Longrightarrow> BaturStatus i b = Inl ErrUnknownSession"
  using map_of_eq_None_iff [of "vs_sessions (bt_sup b)" i] by (simp add: BaturStatus_def map_of_Health same_ids_def)

lemma status_known: "same_ids b \<Longrightarrow> i \<in> set (bt_sess b) \<Longrightarrow> \<exists>st. BaturStatus i b = Inr st \<and> su_ID st = i"
  using map_of_eq_None_iff [of "vs_sessions (bt_sup b)" i]
  by (cases "map_of (vs_sessions (bt_sup b)) i")
    (auto simp: BaturStatus_def status_view_def same_ids_def map_of_Health health_of_def Let_def split: option.split)

text \<open>The supervisor under the facade is a supervisor of the fleet.\<close>

lemma batur_fleet: "batur_reach b \<Longrightarrow> \<exists>vo. sup_reach vo (bt_sup b)"
proof (induction rule: batur_reach.induct)
  case (fresh b)
  then show ?case unfolding fresh_batur_def by (metis sup_reach.fresh)
next
  case (more b b')
  then obtain vo where vo: "sup_reach vo (bt_sup b)" by blast
  have "bt_sup b' = bt_sup b \<or> sup_step (bt_sup b) (bt_sup b')" using more(2)
  proof (induction rule: batur_step.induct)
    case (attach b i auth device)
    then show ?case by (auto simp: Attach_def Let_def split: prod.split sum.split intro: sup_step.intros) (metis fst_conv sup_step.add)+
  next
    case (detach b T i)
    then show ?case by (auto simp: Detach_def split: prod.split sum.split) (metis fst_conv sup_step.remove)+
  next
    case (start b)
    then show ?case by (auto simp: BaturStart_def Let_def split: prod.split sum.split) (metis fst_conv sup_step.run)+
  qed (auto simp: BaturStop_def intro: sup_step.intros)
  then show ?case using vo sup_reach.more by metis
qed

subsection \<open>Properties\<close>



end
