(* ===== verification/ApiE2e.thy ===== *)
theory ApiE2e
  imports Link Conversation ApiMessage Delimited
begin

text \<open>
  Encrypted sending of \<^verbatim>\<open>api/e2e.go\<close>: the ratchet of a target is loaded from the engine's
  store or started from the target's bundle, the text is sealed and sent, and the new
  state is stored afterwards. The session's \<open>Send\<close> is a function from the node to its
  error, \<open>encoding/json\<close> on ratchet states and the random bytes are parameters. The peer
  of the properties is the relay of the mock server.
\<close>

subsection \<open>Operations\<close>

record 's E2eEnv =
  ee_ops :: "'s KV"
  ee_crypto :: E2eCrypto
  ee_json :: "persistedRatchet \<Rightarrow> bytes"
  ee_parse :: "bytes \<Rightarrow> string + persistedRatchet"
  ee_bundles :: "(string \<Rightarrow> string + PreKeyBundle) option"

text \<open>Random bytes, clock readings, and the two orders in which the one-time prekeys are ranged over.\<close>

record SendInput =
  si_eph :: "bytes option"
  si_seed :: "bytes option"
  si_id :: "bytes option"
  si_nanos :: int
  si_stamp :: Time
  si_otks :: "(u32 \<times> bytes) list"
  si_otks' :: "(u32 \<times> bytes) list"

datatype send_error = SendUnknownSession | SendEmptyTarget | SendNotOnline | SendNoBundleSource | ResolveBundle string
  | RatchetFailed e2e_error | RatchetParse string | RatchetStore kv_error | SessionSend string | PersistRatchet kv_error

definition e2eKey :: "string \<Rightarrow> string \<Rightarrow> string" where
  "e2eKey sessionID target = ''session/'' @ sessionID @ ''/e2e/'' @ target"

definition ratchet_result :: "e2e_error + 'a \<Rightarrow> send_error + 'a" where
  "ratchet_result r = (case r of Inl e \<Rightarrow> Inl (RatchetFailed e) | Inr x \<Rightarrow> Inr x)"

definition loadRatchet :: "'s E2eEnv \<Rightarrow> SendInput \<Rightarrow> Credentials \<Rightarrow> string \<Rightarrow> string \<Rightarrow> 's \<Rightarrow> send_error + Ratchet" where
  "loadRatchet E inp creds key to s =
     (case kv_Get (ee_ops E) key s of
        Inr raw \<Rightarrow> (case ee_parse E raw of Inl e \<Rightarrow> Inl (RatchetParse e) | Inr p \<Rightarrow> ratchet_result (RestoreRatchet p))
      | Inl e \<Rightarrow>
          if e \<noteq> ErrNotFound then Inl (RatchetStore e)
          else case ee_bundles E of
                 None \<Rightarrow> Inl SendNoBundleSource
               | Some bundles \<Rightarrow>
                   (case bundles to of
                      Inl e \<Rightarrow> Inl (ResolveBundle e)
                    | Inr bundle \<Rightarrow>
                        ratchet_result (and_then (RestoreIdentity (cr_IdentitySeed creds) (cr_IdentitySigSeed creds) (cr_RegistrationID creds)) (\<lambda>ident.
                          AliceSession (ee_crypto E) (si_eph inp) (si_otks inp) (si_otks' inp) bundle ident ProtocolInfoV1))))"

definition newMsgID :: "bytes option \<Rightarrow> int \<Rightarrow> string" where
  "newMsgID rand nanos = (case rand of Some b \<Rightarrow> base32_encode b | None \<Rightarrow> int_to_dec nanos)"

definition text_node :: "string \<Rightarrow> string \<Rightarrow> Envelope \<Rightarrow> node" where
  "text_node msgID to env =
     Node ''message'' [(''id'', VStr msgID), (''to'', VStr to), (''type'', VStr ''text'')] (VNodes [Node ''e2e'' [] (VBytes (Serialize env))])"

definition sent_event :: "string \<Rightarrow> string \<Rightarrow> string \<Rightarrow> Time \<Rightarrow> Message" where
  "sent_event msgID to msg stamp =
     \<lparr>mg_ID = msgID, mg_Chat = \<lparr>tg_JID = to\<rparr>, mg_Sender = \<lparr>tg_JID = ''''\<rparr>, mg_Text = msg, mg_Type = ''text'', mg_Stamp = stamp,
      mg_FromMe = True, mg_Media = None, mg_RawAttrs = []\<rparr>"

text \<open>
  \<open>SendText\<close>; \<open>sess\<close> are the credentials of the supervisor's session for the id, if there is
  one. The result is the store, the nodes that went out, and the message announced, whose
  id the call returns.
\<close>

definition SendText :: "'s E2eEnv \<Rightarrow> SendInput \<Rightarrow> (node \<Rightarrow> string option) \<Rightarrow> Credentials option \<Rightarrow> string \<Rightarrow> string \<Rightarrow> string \<Rightarrow> 's
    \<Rightarrow> 's \<times> node list \<times> (send_error + Message)" where
  "SendText E inp send sess sessionID to msg s =
     (case sess of
        None \<Rightarrow> (s, [], Inl SendUnknownSession)
      | Some creds \<Rightarrow>
          if to = '''' then (s, [], Inl SendEmptyTarget)
          else if cr_IdentitySeed creds = [] \<or> cr_IdentitySigSeed creds = [] then (s, [], Inl SendNotOnline)
          else
            let key = e2eKey sessionID to
            in case loadRatchet E inp creds key to s of
                 Inl e \<Rightarrow> (s, [], Inl e)
               | Inr rt \<Rightarrow>
                   (case Encrypt (ee_crypto E) (si_seed inp) (bytes_of_string msg) rt of
                      (rt, Inl e) \<Rightarrow> (s, [], Inl (RatchetFailed e))
                    | (rt, Inr env) \<Rightarrow>
                        let state = ee_json E (MarshalState rt);
                            msgID = newMsgID (si_id inp) (si_nanos inp);
                            n = text_node msgID to env
                        in case send n of
                             Some e \<Rightarrow> (s, [], Inl (SessionSend e))
                           | None \<Rightarrow>
                               (case kv_Set (ee_ops E) key state s of
                                  Inl e \<Rightarrow> (s, [n], Inl (PersistRatchet e))
                                | Inr s \<Rightarrow> (s, [n], Inr (sent_event msgID to msg (si_stamp inp))))))"

subsection \<open>The relay\<close>

text \<open>A text sent by the engine, as the server reads it off the wire and relays it.\<close>

fun exchange :: "'s E2eEnv \<Rightarrow> Crypto \<Rightarrow> Credentials \<Rightarrow> string \<Rightarrow> string \<Rightarrow> nat \<Rightarrow> (SendInput \<times> string \<times> int) list \<Rightarrow> 's \<Rightarrow> Server
    \<Rightarrow> 's \<times> Server \<times> (send_error + Message) list" where
  "exchange E C creds sess to d [] s sv = (s, sv, [])"
| "exchange E C creds sess to d ((inp, msg, t) # xs) s sv =
     (case SendText E inp (\<lambda>_. None) (Some creds) sess to msg s of
        (s, nodes, res) \<Rightarrow>
          (case exchange E C creds sess to d xs s (fold (\<lambda>n. relayE2E C (ee_crypto E) t d (norm_node n)) nodes sv) of
             (s, sv, rs) \<Rightarrow> (s, sv, res # rs)))"

definition relayed :: "string \<Rightarrow> string \<Rightarrow> string \<Rightarrow> int \<Rightarrow> node" where
  "relayed account target msg t =
     Node ''message'' [(''id'', VStr (''E2E'' @ fmt_0d 6 (t mod 1000000))), (''from'', VStr account), (''to'', VStr target), (''type'', VStr ''text'')]
       (VNodes [Node ''plain'' [] (VStr msg)])"

lemma text_node_norm:
  assumes "to \<noteq> ''''"
  shows "ChildByTag (norm_node (text_node i to env)) ''e2e'' = Some (norm_node (Node ''e2e'' [] (VBytes (Serialize env))))"
    "BytesContent (norm_node (Node ''e2e'' [] (VBytes (Serialize env)))) = Some (Serialize env)"
    "MustStringAttr (norm_node (text_node i to env)) ''to'' = to"
proof -
  show "ChildByTag (norm_node (text_node i to env)) ''e2e'' = Some (norm_node (Node ''e2e'' [] (VBytes (Serialize env))))"
    by (simp add: text_node_def norm_node.simps ChildByTag_def Children_def)
  show "BytesContent (norm_node (Node ''e2e'' [] (VBytes (Serialize env)))) = Some (Serialize env)"
    by (simp add: norm_node.simps BytesContent_def blob_val_def)
  have "StringAttr (norm_node (text_node i to env)) ''to'' = Some to"
    using assms by (intro StringAttr_norm(1)) (simp_all add: text_node_def)
  then show "MustStringAttr (norm_node (text_node i to env)) ''to'' = to" by (simp add: MustStringAttr_def)
qed

lemma push_ratchet: "push C d n (sv\<lparr>sv_e2eRatchet := r\<rparr>) = (push C d n sv)\<lparr>sv_e2eRatchet := r\<rparr>" for sv :: Server
  by (cases sv) (simp add: push_def upd_session_def split: prod.split)

lemma push_keeps:
  "sv_devices (push C d n sv) = sv_devices sv" "sv_e2eKeys (push C d n sv) = sv_e2eKeys sv" "sv_e2eRatchet (push C d n sv) = sv_e2eRatchet sv"
  "ds_reg (sv_sessions (push C d n sv) ! k) = ds_reg (sv_sessions sv ! k)" for sv :: Server
  by (simp_all add: push_def upd_session_def split: prod.split) (cases "d < length (sv_sessions sv)"; auto simp: nth_list_update not_less list_update_beyond)

text \<open>What the relay does with a text: decrypts it under the sender's account and pushes it to the target.\<close>

lemma relay_text:
  fixes sv :: Server
  assumes "to \<noteq> ''''" "map_of (sv_devices sv) to = Some target" "ParseEnvelope (Serialize env) = Inr env'"
    and "account = rg_AccountJID (ds_reg (sv_sessions sv ! d))" "taccount = rg_AccountJID (ds_reg (sv_sessions sv ! target))"
    and "en_Type env' = EnvInit \<and> BobSession E (sv_e2eKeys sv) env' ProtocolInfoV1 = Inr (b, bytes_of_string msg) \<or>
      en_Type env' \<noteq> EnvInit \<and> map_of (sv_e2eRatchet sv) account = Some b0 \<and> Decrypt E env' b0 = (b, Inr (bytes_of_string msg))"
  shows "relayE2E C E t d (norm_node (text_node i to env)) sv =
    (push C target (relayed account taccount msg t) sv)\<lparr>sv_e2eRatchet := AList.update account b (sv_e2eRatchet sv)\<rparr>"
  using assms(6)
  by (auto simp: relayE2E_def text_node_norm [OF assms(1)] assms(2,3) assms(4,5) [symmetric] push_ratchet relayed_def)

subsection \<open>Properties\<close>

definition ratchet_json :: "'s E2eEnv \<Rightarrow> bool" where
  "ratchet_json E \<longleftrightarrow> (\<forall>p. ee_parse E (ee_json E p) = Inr p)"

lemma Encrypt_rand: "ra_sendingChain r \<noteq> None \<Longrightarrow> Encrypt C rnd pt r = Encrypt C rnd' pt r"
  by (simp add: Encrypt_def ensureSendingChain_def)

lemma load_stored:
  assumes "ratchet_json E" "kv_Get (ee_ops E) key s = Inr (ee_json E (MarshalState a))" "ratchet_wf a"
  shows "loadRatchet E inp creds key to s = Inr (a\<lparr>ra_signer := None\<rparr>)"
  using assms by (simp add: loadRatchet_def ratchet_json_def ratchet_result_def Restore_Marshal)

text \<open>The stored ratchet of the target and the server's ratchet of the account are in step.\<close>

definition in_step :: "'s E2eEnv \<Rightarrow> bytes option \<Rightarrow> Ratchet option \<Rightarrow> bool" where
  "in_step E raw rt \<longleftrightarrow>
     (\<exists>a b used. raw = Some (ee_json E (MarshalState a)) \<and> rt = Some b \<and> linked (ee_crypto E) used a b \<and> ra_sendingChain a \<noteq> None)"

text \<open>A message on the chain, in the form the stored state is loaded in.\<close>

lemma later_message:
  assumes "e2e_ok C" "linked C used a b" "ra_sendingChain a \<noteq> None" "length pt < 2 ^ 63"
  shows "\<exists>a' b' env. Encrypt C rnd pt (a\<lparr>ra_signer := None\<rparr>) = (a', Inr env) \<and> ParseEnvelope (Serialize env) = Inr env \<and>
    en_Type env \<noteq> EnvInit \<and> Decrypt C env b = (b', Inr pt) \<and> linked C used a' b' \<and> ra_sendingChain a' \<noteq> None"
proof -
  let ?start = "a\<lparr>ra_signer := None\<rparr>"
  have "ratchet_wf a" using assms(2) by (simp add: linked_def side_ok_def)
  then have l: "linked C used ?start b" using linked_restart [OF assms(2)] by (simp add: restart_eq)
  obtain ck where ck: "ra_sendingChain ?start = Some ck" using assms(3) by auto
  obtain s where s: "ra_sendingDH ?start = Some s" "ra_recvChain b = Some ck" "ra_recvPub b = c_pub C s"
    "ra_receivingCounter b = ra_sendingCounter ?start"
    using l ck by (auto simp: linked_def can_send_def)
  let ?m = "msg_env C s (ra_previousCounter ?start) (ra_sendingCounter ?start) ck pt"
  let ?next = "?start\<lparr>ra_sendingChain := Some (snd (kdfChain C ck)), ra_sendingCounter := ra_sendingCounter ?start + 1\<rparr>"
  have side: "ra_isInitiator ?start \<longrightarrow> ra_initSent ?start" using l by (simp add: linked_def side_ok_def)
  have e: "Encrypt C rnd' pt ?start = (?next, Inr ?m)" for rnd' by (rule Encrypt_on_chain [OF assms(1) ck s(1) side])
  obtain a' b' where d: "deliver C [] pt ?start b = (a', b', Inr pt)" "linked C used a' b'"
    using deliver_on_chain [OF assms(1) l assms(4) ck] by blast
  have "ParseEnvelope (Serialize ?m) = Inr ?m" by (rule msg_env_simps(5) [OF assms(1,4)])
  moreover from this have "a' = ?next" "Decrypt C ?m b = (b', Inr pt)" using d(1) e by (auto simp: deliver_def split: prod.splits)
  moreover have "en_Type ?m \<noteq> EnvInit"
    using expandMessageKey_ok [OF assms(1)] by (auto simp: msg_env_def no_envelope_def EnvInit_def EnvRatchet_def Let_def split: sum.split)
  ultimately show ?thesis using e [of rnd] d(2) by (intro exI [of _ ?next] exI [of _ b'] exI [of _ ?m]) auto
qed

text \<open>The first message to a target whose keys the server answers with.\<close>

lemma first_message:
  assumes "e2e_ok C" "NewBobKeys C (Some ds) (Some g) (Some reg) (Some spk) (Some sid) (Some opk) (Some oid) = Inr (keys, bundle)"
    and "length ds = 32" "length spk = 32" "length opk = 32" "length (id_DH alice) = 32" "length eph = 32" "length pt < 2 ^ 63"
  shows "\<exists>a0 a b env env'. AliceSession C (Some eph) (pk_OneTimePreKeys bundle) (pk_OneTimePreKeys bundle) bundle alice info = Inr a0 \<and>
    Encrypt C rnd pt a0 = (a, Inr env) \<and> ParseEnvelope (Serialize env) = Inr env' \<and> en_Type env' = EnvInit \<and>
    BobSession C keys env' info = Inr (b, pt) \<and> linked C {c_pub C eph} a b \<and> ra_sendingChain a \<noteq> None"
proof -
  obtain a b where f: "first_flight C keys bundle alice eph info pt = Inr ((a, b), pt)" "linked C {c_pub C eph} a b"
    using first_flight_linked [OF assms(1,6) _ assms(7,4,5,8) NewBobKeys_Inr [OF assms(2)], of info] assms(3) by auto
  then obtain a0 where as: "AliceSession C (Some eph) (pk_OneTimePreKeys bundle) (pk_OneTimePreKeys bundle) bundle alice info = Inr a0"
    by (auto simp: first_flight_def and_then_eq_Inr)
  obtain a1 res where e: "Encrypt C None pt a0 = (a1, res)" by fastforce
  with f(1) as obtain env where res: "res = Inr env" by (cases res) (simp_all add: first_flight_def)
  with f(1) as e obtain env' where "a1 = a" "ParseEnvelope (Serialize env) = Inr env'" "BobSession C keys env' info = Inr (b, pt)"
    by (auto simp: first_flight_def and_then_eq_Inr)
  with as e res have a0: "AliceSession C (Some eph) (pk_OneTimePreKeys bundle) (pk_OneTimePreKeys bundle) bundle alice info = Inr a0"
    "Encrypt C None pt a0 = (a, Inr env)" "ParseEnvelope (Serialize env) = Inr env'" "BobSession C keys env' info = Inr (b, pt)" by simp_all
  have sc: "ra_sendingChain a0 \<noteq> None" using a0(1) by (auto simp: AliceSession_def and_then_eq_Inr split: option.splits)
  then have "ra_sendingChain a \<noteq> None" using a0(2)
    by (auto simp: Encrypt_def ensureSendingChain_def then_st_def start_envelope_def Let_def split: prod.splits sum.splits if_splits)
  moreover have "en_Type env' = EnvInit" using a0(4) by (auto simp: BobSession_def split: if_splits)
  ultimately show ?thesis using a0 f(2) Encrypt_rand [OF sc, of C rnd pt None] by auto
qed

context kv
begin

text \<open>One text, first or later: it goes out, the relay pushes it to the target, and the two stay in step.\<close>

lemma send_step:
  fixes sv :: Server
  assumes env: "ee_ops E = ops" "e2e_ok (ee_crypto E)" "ratchet_json E" "ee_bundles E = Some bundles" "bundles to = Inr bundle"
    and keys: "NewBobKeys (ee_crypto E) (Some ds) (Some g) (Some reg) (Some spk) (Some sid) (Some opk) (Some oid) = Inr (sv_e2eKeys sv, bundle)"
      "length ds = 32" "length spk = 32" "length opk = 32"
    and creds: "length (cr_IdentitySeed creds) = 32" "length (cr_IdentitySigSeed creds) = 32"
    and inp: "si_eph inp = Some eph" "length eph = 32" "si_otks inp = pk_OneTimePreKeys bundle" "si_otks' inp = pk_OneTimePreKeys bundle" "length msg < 2 ^ 63"
    and sv: "to \<noteq> ''''" "map_of (sv_devices sv) to = Some target" "account = rg_AccountJID (ds_reg (sv_sessions sv ! d))"
      "taccount = rg_AccountJID (ds_reg (sv_sessions sv ! target))"
    and st: "inv s" "admits (e2eKey sess to)"
      "contents s (e2eKey sess to) = None \<or> in_step E (contents s (e2eKey sess to)) (map_of (sv_e2eRatchet sv) account)"
  shows "\<exists>s' n r. SendText E inp (\<lambda>_. None) (Some creds) sess to msg s =
      (s', [n], Inr (sent_event (newMsgID (si_id inp) (si_nanos inp)) to msg (si_stamp inp))) \<and> inv s' \<and>
    relayE2E C (ee_crypto E) t d (norm_node n) sv = (push C target (relayed account taccount msg t) sv)\<lparr>sv_e2eRatchet := r\<rparr> \<and>
    in_step E (contents s' (e2eKey sess to)) (map_of r account)"
proof -
  let ?C = "ee_crypto E" and ?k = "e2eKey sess to" and ?i = "newMsgID (si_id inp) (si_nanos inp)"
  have pt: "length (bytes_of_string msg) < 2 ^ 63" using inp(5) by simp
  have get: "kv_Get (ee_ops E) ?k s = (case contents s ?k of None \<Rightarrow> Inl ErrNotFound | Some v \<Rightarrow> Inr v)" using get [OF st(1,2)] env(1) by simp
  have "\<exists>a0 a b used env env'. loadRatchet E inp creds ?k to s = Inr a0 \<and> Encrypt ?C (si_seed inp) (bytes_of_string msg) a0 = (a, Inr env) \<and>
    ParseEnvelope (Serialize env) = Inr env' \<and> linked ?C used a b \<and> ra_sendingChain a \<noteq> None \<and>
    (en_Type env' = EnvInit \<and> BobSession ?C (sv_e2eKeys sv) env' ProtocolInfoV1 = Inr (b, bytes_of_string msg) \<or>
     en_Type env' \<noteq> EnvInit \<and> (\<exists>b0. map_of (sv_e2eRatchet sv) account = Some b0 \<and> Decrypt ?C env' b0 = (b, Inr (bytes_of_string msg))))"
  proof (cases "contents s ?k")
    case None
    let ?alice = "\<lparr>id_DH = cr_IdentitySeed creds, id_signSeed = cr_IdentitySigSeed creds, id_RegID = cr_RegistrationID creds\<rparr>"
    have "RestoreIdentity (cr_IdentitySeed creds) (cr_IdentitySigSeed creds) (cr_RegistrationID creds) = Inr ?alice"
      using creds by (simp add: RestoreIdentity_def e2e_KeyPairFromSeed_def)
    then have "loadRatchet E inp creds ?k to s =
        ratchet_result (AliceSession ?C (Some eph) (pk_OneTimePreKeys bundle) (pk_OneTimePreKeys bundle) bundle ?alice ProtocolInfoV1)"
      using None env(4,5) inp(1,3,4) get by (simp add: loadRatchet_def)
    moreover obtain a0 a b env env' where "AliceSession ?C (Some eph) (pk_OneTimePreKeys bundle) (pk_OneTimePreKeys bundle) bundle ?alice ProtocolInfoV1 = Inr a0"
      "Encrypt ?C (si_seed inp) (bytes_of_string msg) a0 = (a, Inr env)" "ParseEnvelope (Serialize env) = Inr env'" "en_Type env' = EnvInit"
      "BobSession ?C (sv_e2eKeys sv) env' ProtocolInfoV1 = Inr (b, bytes_of_string msg)" "linked ?C {c_pub ?C eph} a b" "ra_sendingChain a \<noteq> None"
      using first_message [OF env(2) keys(1-4) _ inp(2) pt, of ?alice ProtocolInfoV1 "si_seed inp"] creds(1) by auto
    ultimately show ?thesis by (simp add: ratchet_result_def) blast
  next
    case (Some raw)
    then obtain a b used where ab: "raw = ee_json E (MarshalState a)" "map_of (sv_e2eRatchet sv) account = Some b" "linked ?C used a b"
      "ra_sendingChain a \<noteq> None" using st(3) by (auto simp: in_step_def)
    have "loadRatchet E inp creds ?k to s = Inr (a\<lparr>ra_signer := None\<rparr>)"
      using ab(1,3) Some get by (intro load_stored env(3)) (simp_all add: linked_def side_ok_def)
    then show ?thesis using later_message [OF env(2) ab(3,4) pt, of "si_seed inp"] ab(2) by blast
  qed
  then obtain a0 a b used env env' where m: "loadRatchet E inp creds ?k to s = Inr a0"
    "Encrypt ?C (si_seed inp) (bytes_of_string msg) a0 = (a, Inr env)" "ParseEnvelope (Serialize env) = Inr env'" "linked ?C used a b" "ra_sendingChain a \<noteq> None"
    "en_Type env' = EnvInit \<and> BobSession ?C (sv_e2eKeys sv) env' ProtocolInfoV1 = Inr (b, bytes_of_string msg) \<or>
     en_Type env' \<noteq> EnvInit \<and> (\<exists>b0. map_of (sv_e2eRatchet sv) account = Some b0 \<and> Decrypt ?C env' b0 = (b, Inr (bytes_of_string msg)))"
    by blast
  obtain s' where s': "kv_Set ops ?k (ee_json E (MarshalState a)) s = Inr s'" "inv s'" "contents s' = (contents s)(?k \<mapsto> ee_json E (MarshalState a))"
    using set_ok [OF st(1,2)] by blast
  have "cr_IdentitySeed creds \<noteq> []" "cr_IdentitySigSeed creds \<noteq> []" using creds by auto
  then have "SendText E inp (\<lambda>_. None) (Some creds) sess to msg s = (s', [text_node ?i to env], Inr (sent_event ?i to msg (si_stamp inp)))"
    using m(1,2) s'(1) sv(1) env(1) by (simp add: SendText_def Let_def)
  moreover have "relayE2E C ?C t d (norm_node (text_node ?i to env)) sv =
      (push C target (relayed account taccount msg t) sv)\<lparr>sv_e2eRatchet := AList.update account b (sv_e2eRatchet sv)\<rparr>"
    using m(6) relay_text [OF sv(1,2) m(3) sv(3,4), where E = ?C and b = b and msg = msg and C = C and t = t and i = ?i] by blast
  moreover have "in_step E (contents s' ?k) (map_of (AList.update account b (sv_e2eRatchet sv)) account)"
    using m(4,5) s'(3) by (auto simp: in_step_def update_conv')
  ultimately show ?thesis using s'(2) by blast
qed

lemma exchange_relays:
  fixes sv :: Server
  assumes env: "ee_ops E = ops" "e2e_ok (ee_crypto E)" "ratchet_json E" "ee_bundles E = Some bundles" "bundles to = Inr bundle"
    and keys: "NewBobKeys (ee_crypto E) (Some ds) (Some g) (Some reg) (Some spk) (Some sid) (Some opk) (Some oid) = Inr (sv_e2eKeys sv, bundle)"
      "length ds = 32" "length spk = 32" "length opk = 32"
    and creds: "length (cr_IdentitySeed creds) = 32" "length (cr_IdentitySigSeed creds) = 32"
    and xs: "\<forall>(inp, msg, t) \<in> set xs. (\<exists>eph. si_eph inp = Some eph \<and> length eph = 32) \<and> si_otks inp = pk_OneTimePreKeys bundle \<and>
      si_otks' inp = pk_OneTimePreKeys bundle \<and> length msg < 2 ^ 63"
    and sv: "to \<noteq> ''''" "map_of (sv_devices sv) to = Some target" "account = rg_AccountJID (ds_reg (sv_sessions sv ! d))"
      "taccount = rg_AccountJID (ds_reg (sv_sessions sv ! target))"
    and st: "inv s" "admits (e2eKey sess to)"
      "contents s (e2eKey sess to) = None \<or> in_step E (contents s (e2eKey sess to)) (map_of (sv_e2eRatchet sv) account)"
  shows "\<exists>s' r. exchange E C creds sess to d xs s sv =
    (s', (fold (\<lambda>(inp, msg, t). push C target (relayed account taccount msg t)) xs sv)\<lparr>sv_e2eRatchet := r\<rparr>,
     map (\<lambda>(inp, msg, t). Inr (sent_event (newMsgID (si_id inp) (si_nanos inp)) to msg (si_stamp inp))) xs)"
  using keys(1) xs sv st
proof (induction xs arbitrary: s sv)
  case Nil
  show ?case by (intro exI [of _ s] exI [of _ "sv_e2eRatchet sv"]) (cases sv; simp)
next
  case (Cons x xs)
  obtain inp msg t where x: "x = (inp, msg, t)" by (cases x)
  obtain eph where eph: "si_eph inp = Some eph" "length eph = 32" "si_otks inp = pk_OneTimePreKeys bundle" "si_otks' inp = pk_OneTimePreKeys bundle" "length msg < 2 ^ 63"
    using Cons.prems(2) x by auto
  from send_step [OF env Cons.prems(1) keys(2-4) creds eph Cons.prems(3-9), of C t]
  obtain s1 n r1 where 1: "SendText E inp (\<lambda>_. None) (Some creds) sess to msg s = (s1, [n], Inr (sent_event (newMsgID (si_id inp) (si_nanos inp)) to msg (si_stamp inp)))"
    "inv s1" "relayE2E C (ee_crypto E) t d (norm_node n) sv = (push C target (relayed account taccount msg t) sv)\<lparr>sv_e2eRatchet := r1\<rparr>"
    "in_step E (contents s1 (e2eKey sess to)) (map_of r1 account)" by blast
  let ?sv = "(push C target (relayed account taccount msg t) sv)\<lparr>sv_e2eRatchet := r1\<rparr>"
  obtain s' r where 2: "exchange E C creds sess to d xs s1 ?sv =
      (s', (fold (\<lambda>(inp, msg, t). push C target (relayed account taccount msg t)) xs ?sv)\<lparr>sv_e2eRatchet := r\<rparr>,
       map (\<lambda>(inp, msg, t). Inr (sent_event (newMsgID (si_id inp) (si_nanos inp)) to msg (si_stamp inp))) xs)"
    using Cons.IH [of ?sv s1] Cons.prems 1(2,4) by (auto simp: push_keeps)
  have "fold (\<lambda>(inp, msg, t). push C target (relayed account taccount msg t)) ys (sv'\<lparr>sv_e2eRatchet := q\<rparr>) =
      (fold (\<lambda>(inp, msg, t). push C target (relayed account taccount msg t)) ys sv')\<lparr>sv_e2eRatchet := q\<rparr>" for sv' :: Server and ys :: "(SendInput \<times> string \<times> int) list" and q
    by (induction ys arbitrary: sv') (auto simp: push_ratchet)
  then show ?case using 1(1,3) 2 by (intro exI [of _ s'] exI [of _ r]) (simp add: x)
qed

end

text \<open>
  C12 (functional). Texts arrive. Over any store that keeps its contract, take a session whose identity is
  provisioned, a target registered at the relay, and the relay's own bundle; send any
  number of texts to it, each call loading and storing the ratchet anew, each node read
  by the relay as it comes off the wire. Every call succeeds, and the relay pushes to the
  target's connection exactly these texts, in order, with the sender's account, and
  changes nothing else but its ratchets.
\<close>

theorem texts_arrive:
  fixes E :: "'s E2eEnv" and sv :: Server
  assumes "kv (ee_ops E) contents I admits" "I s" "admits (e2eKey sess to)" "contents s (e2eKey sess to) = None"
    and "e2e_ok (ee_crypto E)" "ratchet_json E" "ee_bundles E = Some bundles" "bundles to = Inr bnd"
    and "NewBobKeys (ee_crypto E) (Some ds) (Some g) (Some reg) (Some spk) (Some sid) (Some opk) (Some oid) = Inr (sv_e2eKeys sv, bnd)"
      "length ds = 32" "length spk = 32" "length opk = 32"
    and "length (cr_IdentitySeed creds) = 32" "length (cr_IdentitySigSeed creds) = 32"
    and "\<forall>(inp, msg, t) \<in> set xs. (\<exists>eph. si_eph inp = Some eph \<and> length eph = 32) \<and> si_otks inp = pk_OneTimePreKeys bnd \<and>
      si_otks' inp = pk_OneTimePreKeys bnd \<and> length msg < 2 ^ 63"
    and "to \<noteq> ''''" "map_of (sv_devices sv) to = Some target" "account = rg_AccountJID (ds_reg (sv_sessions sv ! d))"
      "taccount = rg_AccountJID (ds_reg (sv_sessions sv ! target))"
  shows "\<exists>s' r. exchange E C creds sess to d xs s sv =
    (s', (fold (\<lambda>(inp, msg, t). push C target (relayed account taccount msg t)) xs sv)\<lparr>sv_e2eRatchet := r\<rparr>,
     map (\<lambda>(inp, msg, t). Inr (sent_event (newMsgID (si_id inp) (si_nanos inp)) to msg (si_stamp inp))) xs)"
  by (rule kv.exchange_relays [OF assms(1) refl assms(5-19) assms(2,3)]) (simp add: assms(4))

text \<open>
  C25 (safety). A store that fails after the send costs the secrecy of two messages: the call reports
  the error but the node is out, and the next text to that target goes out under the same
  ratchet key, counter, message key and nonce, although the state is stored late so that
  counters never run ahead of the wire.
\<close>

theorem failed_store_reuses_key:
  fixes E :: "'s E2eEnv"
  assumes "e2e_ok (ee_crypto E)" "ratchet_json E" "ratchet_wf a" "ra_sendingChain a = Some ck" "ra_sendingDH a = Some k"
      "ra_isInitiator a \<longrightarrow> ra_initSent a"
    and "kv_Get (ee_ops E) (e2eKey sess to) s = Inr (ee_json E (MarshalState a))"
    and "\<forall>raw. kv_Set (ee_ops E) (e2eKey sess to) raw s = Inl err"
    and "to \<noteq> ''''" "cr_IdentitySeed creds \<noteq> []" "cr_IdentitySigSeed creds \<noteq> []"
  shows "\<exists>i1 i2 env1 env2 key nonce aad.
    SendText E inp1 (\<lambda>_. None) (Some creds) sess to msg1 s = (s, [text_node i1 to env1], Inl (PersistRatchet err)) \<and>
    SendText E inp2 (\<lambda>_. None) (Some creds) sess to msg2 s = (s, [text_node i2 to env2], Inl (PersistRatchet err)) \<and>
    en_RatchetPub env1 = en_RatchetPub env2 \<and> en_Counter env1 = en_Counter env2 \<and>
    en_Body env1 = c_seal (ee_crypto E) key nonce (bytes_of_string msg1) aad \<and>
    en_Body env2 = c_seal (ee_crypto E) key nonce (bytes_of_string msg2) aad"
proof -
  let ?C = "ee_crypto E"
  let ?env = "\<lambda>msg. msg_env ?C k (ra_previousCounter a) (ra_sendingCounter a) ck (bytes_of_string msg)"
  have "loadRatchet E inp creds (e2eKey sess to) to s = Inr (a\<lparr>ra_signer := None\<rparr>)" for inp by (rule load_stored [OF assms(2,7,3)])
  moreover have "Encrypt ?C rnd (bytes_of_string msg) (a\<lparr>ra_signer := None\<rparr>) =
      (a\<lparr>ra_signer := None, ra_sendingChain := Some (snd (kdfChain ?C ck)), ra_sendingCounter := ra_sendingCounter a + 1\<rparr>, Inr (?env msg))" for rnd msg
    using Encrypt_on_chain [OF assms(1), of "a\<lparr>ra_signer := None\<rparr>" ck k rnd "bytes_of_string msg"] assms(4-6) by simp
  ultimately have send: "SendText E inp (\<lambda>_. None) (Some creds) sess to msg s =
      (s, [text_node (newMsgID (si_id inp) (si_nanos inp)) to (?env msg)], Inl (PersistRatchet err))" for inp msg
    using assms(8-11) by (simp add: SendText_def Let_def)
  obtain key nonce where "expandMessageKey ?C (fst (kdfChain ?C ck)) = Inr (key, nonce)" using expandMessageKey_ok [OF assms(1)] by blast
  then have "\<exists>aad. \<forall>msg. en_Body (?env msg) = c_seal ?C key nonce (bytes_of_string msg) aad"
    by (simp add: msg_env_def Let_def) blast
  then show ?thesis using send msg_env_simps(1,3) [OF assms(1)] by metis
qed

text \<open>A codec of ratchet states, and the toy parties of \<open>Conversation\<close> behind the toy server of \<open>Link\<close>.\<close>

definition enc_skip :: "skipKV \<Rightarrow> bytes" where
  "enc_skip k = enc_bytes (sv_Key k) @ unary (unat (sv_PN k)) @ unary (unat (sv_N k)) @ enc_bytes (sv_V k)"

definition dec_skip :: "bytes \<Rightarrow> skipKV \<times> bytes" where
  "dec_skip b = (let (k, b) = dec_bytes b; (pn, b) = read_unary b; (n, b) = read_unary b; (v, b) = dec_bytes b
     in (\<lparr>sv_Key = k, sv_PN = of_nat pn, sv_N = of_nat n, sv_V = v\<rparr>, b))"

definition ratchet_blobs :: "persistedRatchet \<Rightarrow> bytes list" where
  "ratchet_blobs p = [pr_RootKey p, pr_SendingChain p, pr_RecvChain p, pr_SendingDHSeed p, pr_RecvPub p, pr_PeerIdentity p, pr_PeerSig p,
     pr_InitInfo p, pr_SelfDH p, pr_SelfSig p]"

definition ratchet_numbers :: "persistedRatchet \<Rightarrow> nat list" where
  "ratchet_numbers p = [nat (pr_Version p), nat (- pr_Version p), of_bool (pr_HaveRecvPub p), of_bool (pr_InitSent p), of_bool (pr_IsInitiator p)] @
     map unat [pr_SendingCounter p, pr_ReceivingCounter p, pr_PreviousCounter p, pr_RetiredSendCount p, pr_PeerRegID p, pr_OpkID p, pr_SpkID p, pr_SelfRegID p]"

definition enc_ratchet :: "persistedRatchet \<Rightarrow> bytes" where
  "enc_ratchet p = enc_many enc_bytes (ratchet_blobs p) @ enc_many unary (ratchet_numbers p) @ enc_many enc_skip (pr_Skipped p)"

definition dec_ratchet :: "bytes \<Rightarrow> string + persistedRatchet" where
  "dec_ratchet b =
     (let (bs, b) = dec_many dec_bytes b; (ns, b) = dec_many read_unary b; (ks, b) = dec_many dec_skip b
      in Inr \<lparr>pr_Version = int (ns ! 0) - int (ns ! 1), pr_RootKey = bs ! 0, pr_SendingChain = bs ! 1, pr_RecvChain = bs ! 2, pr_SendingDHSeed = bs ! 3,
           pr_RecvPub = bs ! 4, pr_HaveRecvPub = (ns ! 2 = 1), pr_InitSent = (ns ! 3 = 1), pr_IsInitiator = (ns ! 4 = 1),
           pr_SendingCounter = of_nat (ns ! 5), pr_ReceivingCounter = of_nat (ns ! 6), pr_PreviousCounter = of_nat (ns ! 7),
           pr_RetiredSendCount = of_nat (ns ! 8), pr_PeerIdentity = bs ! 5, pr_PeerSig = bs ! 6, pr_PeerRegID = of_nat (ns ! 9),
           pr_OpkID = of_nat (ns ! 10), pr_SpkID = of_nat (ns ! 11), pr_InitInfo = bs ! 7, pr_SelfDH = bs ! 8, pr_SelfSig = bs ! 9,
           pr_SelfRegID = of_nat (ns ! 12), pr_Skipped = ks\<rparr>)"

lemma dec_enc_skip: "dec_skip (enc_skip k @ r) = (k, r)"
  by (cases k) (simp add: dec_skip_def enc_skip_def dec_enc_bytes read_unary_unary)

lemma dec_enc_ratchet: "dec_ratchet (enc_ratchet p) = Inr p"
  using dec_enc_many [of dec_bytes enc_bytes "ratchet_blobs p", OF dec_enc_bytes]
    dec_enc_many [of read_unary unary "ratchet_numbers p", OF read_unary_unary] dec_enc_many_end [of dec_skip enc_skip "pr_Skipped p", OF dec_enc_skip]
  by (cases p) (simp add: dec_ratchet_def enc_ratchet_def ratchet_blobs_def ratchet_numbers_def)

definition toy_env :: "Memory E2eEnv" where
  "toy_env = \<lparr>ee_ops = Memory_KV, ee_crypto = toy_e2e, ee_json = enc_ratchet, ee_parse = dec_ratchet, ee_bundles = Some (\<lambda>_. Inr toy_bundle)\<rparr>"

definition toy_input :: SendInput where
  "toy_input = \<lparr>si_eph = Some (replicate 32 9), si_seed = None, si_id = None, si_nanos = 1, si_stamp = time_Unix 1,
     si_otks = pk_OneTimePreKeys toy_bundle, si_otks' = pk_OneTimePreKeys toy_bundle\<rparr>"

definition toy_identity :: Credentials where
  "toy_identity = toy_creds\<lparr>cr_IdentitySeed := replicate 32 7, cr_IdentitySigSeed := replicate 32 8\<rparr>"

definition toy_device :: "string \<Rightarrow> deviceSession" where
  "toy_device account = \<lparr>ds_reg = toy_reg\<lparr>rg_AccountJID := account\<rparr>, ds_resumed = False, ds_send = NewCipher (replicate 32 0),
     ds_recv = NewCipher (replicate 32 0), ds_reqCount = 0, ds_closed = False, ds_out = []\<rparr>"

definition toy_relay :: Server where
  "toy_relay = toy_server\<lparr>sv_sessions := [toy_device ''a'', toy_device ''b''], sv_devices := [(''a'', 0), (''b'', 1)]\<rparr>"

lemma texts_arrive_witness:
  "\<exists>s r. exchange toy_env toy_crypto toy_identity ''dev'' ''b'' 0 [(toy_input, ''hi'', 1), (toy_input, ''you'', 2)] NewMemory toy_relay =
    (s, (push toy_crypto 1 (relayed ''a'' ''b'' ''you'' 2) (push toy_crypto 1 (relayed ''a'' ''b'' ''hi'' 1) toy_relay))\<lparr>sv_e2eRatchet := r\<rparr>,
     [Inr (sent_event (newMsgID None 1) ''b'' ''hi'' (time_Unix 1)), Inr (sent_event (newMsgID None 1) ''b'' ''you'' (time_Unix 1))])"
proof -
  let ?xs = "[(toy_input, ''hi'', 1 :: int), (toy_input, ''you'', 2)]"
  have env: "ee_ops toy_env = Memory_KV" "ee_crypto toy_env = toy_e2e" "ratchet_json toy_env" "ee_bundles toy_env = Some (\<lambda>_. Inr toy_bundle)"
    by (simp_all add: toy_env_def ratchet_json_def dec_enc_ratchet)
  have sv: "sv_e2eKeys toy_relay = toy_keys" "map_of (sv_devices toy_relay) ''b'' = Some 1"
    "rg_AccountJID (ds_reg (sv_sessions toy_relay ! 0)) = ''a''" "rg_AccountJID (ds_reg (sv_sessions toy_relay ! 1)) = ''b''"
    by (simp_all add: toy_relay_def toy_server_def NewServer_def toy_device_def Let_def)
  have inp: "si_eph toy_input = Some (replicate 32 9)" "si_otks toy_input = pk_OneTimePreKeys toy_bundle" "si_otks' toy_input = pk_OneTimePreKeys toy_bundle"
    "si_id toy_input = None" "si_nanos toy_input = 1" "si_stamp toy_input = time_Unix 1" by (simp_all add: toy_input_def)
  have cr: "length (cr_IdentitySeed toy_identity) = 32" "length (cr_IdentitySigSeed toy_identity) = 32" by (simp_all add: toy_identity_def)
  have mem: "mem_inv NewMemory" "mem_contents NewMemory k = None" for k by (simp_all add: mem_inv_def mem_contents_def NewMemory_def)
  have kvt: "kv (ee_ops toy_env) mem_contents mem_inv (\<lambda>_. True)" unfolding env by (rule mem.kv_axioms)
  have ok: "e2e_ok (ee_crypto toy_env)" unfolding env by (rule toy_e2e_ok)
  have kb: "NewBobKeys (ee_crypto toy_env) (Some (replicate 32 1)) (Some (replicate 32 2)) (Some [0, 0, 0, 9]) (Some (replicate 32 3))
    (Some [0, 0, 0, 5]) (Some (replicate 32 4)) (Some [0, 0, 0, 6]) = Inr (sv_e2eKeys toy_relay, toy_bundle)" unfolding env sv by (rule toy_bob)
  have xs: "\<forall>(inp, msg, t) \<in> set ?xs. (\<exists>eph. si_eph inp = Some eph \<and> length eph = 32) \<and> si_otks inp = pk_OneTimePreKeys toy_bundle \<and>
      si_otks' inp = pk_OneTimePreKeys toy_bundle \<and> length msg < 2 ^ 63" by (simp add: inp)
  have "\<exists>s' r. exchange toy_env toy_crypto toy_identity ''dev'' ''b'' 0 ?xs NewMemory toy_relay =
    (s', (fold (\<lambda>(inp, msg, t). push toy_crypto 1 (relayed ''a'' ''b'' msg t)) ?xs toy_relay)\<lparr>sv_e2eRatchet := r\<rparr>,
     map (\<lambda>(inp, msg, t). Inr (sent_event (newMsgID (si_id inp) (si_nanos inp)) ''b'' msg (si_stamp inp))) ?xs)"
    by (rule texts_arrive [OF kvt mem(1) TrueI mem(2) ok env(3,4) refl kb _ _ _ cr xs _ sv(2) sv(3,4) [symmetric]]) simp_all
  then show ?thesis by (simp add: inp)
qed

definition toy_ratchet :: Ratchet where
  "toy_ratchet = \<lparr>ra_rootKey = replicate 32 1, ra_sendingChain = Some (replicate 32 2), ra_recvChain = None, ra_sendingDH = Some (replicate 32 9),
     ra_recvPub = replicate 32 0, ra_haveRecvPub = False, ra_initSent = True, ra_isInitiator = True, ra_sendingCounter = 1, ra_receivingCounter = 0,
     ra_previousCounter = 0, ra_retiredSendCount = 0, ra_skipped = [], ra_selfDH = [], ra_selfSig = [], ra_selfID = 0, ra_signer = None,
     ra_peerIdentityPub = [], ra_peerSigPub = [], ra_peerRegID = 0, ra_opkID = 0, ra_spkID = 0, ra_initInfo = [], ra_maxSkip = MaxSkippedMessageKeys\<rparr>"

definition full_disk :: "Memory E2eEnv" where
  "full_disk = toy_env\<lparr>ee_ops := Memory_KV\<lparr>kv_Set := (\<lambda>_ _ _. Inl ErrIO)\<rparr>\<rparr>"

lemma failed_store_reuses_key_witness:
  "\<exists>i1 i2 env1 env2 key nonce aad.
    SendText full_disk toy_input (\<lambda>_. None) (Some toy_identity) ''dev'' ''b'' ''hi'' \<lparr>mem_data = [(e2eKey ''dev'' ''b'', enc_ratchet (MarshalState toy_ratchet))]\<rparr>
      = (\<lparr>mem_data = [(e2eKey ''dev'' ''b'', enc_ratchet (MarshalState toy_ratchet))]\<rparr>, [text_node i1 ''b'' env1], Inl (PersistRatchet ErrIO)) \<and>
    SendText full_disk toy_input (\<lambda>_. None) (Some toy_identity) ''dev'' ''b'' ''you'' \<lparr>mem_data = [(e2eKey ''dev'' ''b'', enc_ratchet (MarshalState toy_ratchet))]\<rparr>
      = (\<lparr>mem_data = [(e2eKey ''dev'' ''b'', enc_ratchet (MarshalState toy_ratchet))]\<rparr>, [text_node i2 ''b'' env2], Inl (PersistRatchet ErrIO)) \<and>
    en_Counter env1 = en_Counter env2 \<and>
    en_Body env1 = c_seal toy_e2e key nonce (bytes_of_string ''hi'') aad \<and> en_Body env2 = c_seal toy_e2e key nonce (bytes_of_string ''you'') aad"
proof -
  let ?s = "\<lparr>mem_data = [(e2eKey ''dev'' ''b'', enc_ratchet (MarshalState toy_ratchet))]\<rparr>"
  have E: "ee_crypto full_disk = toy_e2e" "ratchet_json full_disk" "ee_json full_disk = enc_ratchet"
    "kv_Get (ee_ops full_disk) (e2eKey ''dev'' ''b'') ?s = Inr (ee_json full_disk (MarshalState toy_ratchet))"
    "\<forall>raw. kv_Set (ee_ops full_disk) (e2eKey ''dev'' ''b'') raw ?s = Inl ErrIO"
    by (simp_all add: full_disk_def toy_env_def ratchet_json_def dec_enc_ratchet Memory_Get_def)
  have wf: "ratchet_wf toy_ratchet" "ra_sendingChain toy_ratchet = Some (replicate 32 2)" "ra_sendingDH toy_ratchet = Some (replicate 32 9)"
    "ra_isInitiator toy_ratchet \<longrightarrow> ra_initSent toy_ratchet" by (simp_all add: toy_ratchet_def ratchet_wf_def)
  have ok: "e2e_ok (ee_crypto full_disk)" using toy_e2e_ok E(1) by simp
  have ids: "''b'' \<noteq> ''''" "cr_IdentitySeed toy_identity \<noteq> []" "cr_IdentitySigSeed toy_identity \<noteq> []" by (simp_all add: toy_identity_def)
  from failed_store_reuses_key [OF ok E(2) wf E(4,5) ids, of toy_input "''hi''" toy_input "''you''"]
  show ?thesis unfolding E(1) by blast
qed

end
