(* ===== verification/ApiSync.thy ===== *)
theory ApiSync
  imports Sync Mockserver
begin

text \<open>
  The contacts and chats snapshots of \<^verbatim>\<open>api/sync.go\<close>: two stages of the sync runner whose
  fetchers request pages over the session, decode them, and collect what they decoded;
  at the end of a run the collected lists replace the stored snapshots. The session's
  request is a function from the query to the answer, the JSON of the snapshots and the
  clock are parameters, the store is any backend of the interface \<open>KV\<close>.
\<close>

subsection \<open>Data\<close>

record Contact =
  ct_JID :: string
  ct_Name :: string
  ct_Updated :: int

record ChatSummary =
  cs_JID :: string
  cs_Unread :: int
  cs_LastSync :: int

definition snapshotKey :: "string \<Rightarrow> string \<Rightarrow> string" where
  "snapshotKey sessionID kind = ''session/'' @ sessionID @ ''/snapshot/'' @ kind"

record 's SyncEnv =
  se_ops :: "'s KV"
  se_params :: SyncParams
  se_contacts_json :: "Contact list \<Rightarrow> bytes"
  se_contacts_parse :: "bytes \<Rightarrow> string + Contact list"
  se_chats_json :: "ChatSummary list \<Rightarrow> bytes"
  se_chats_parse :: "bytes \<Rightarrow> string + ChatSummary list"
  se_now :: int

datatype snapshot_error = SnapUnknownSession | SnapRun sync_error | SnapStore kv_error | SnapParse string

subsection \<open>Decoding items\<close>

text \<open>
  The value of \<open>strconv.Atoi\<close> with its error dropped: 0 for a text that is not a number, the
  nearest \<open>int64\<close> for one out of range. The scan stops at the first digit that leaves 64
  bits, so what follows it does not matter.
\<close>

fun scan_u64 :: "nat \<Rightarrow> string \<Rightarrow> nat option" where
  "scan_u64 v [] = Some v"
| "scan_u64 v (c # cs) =
     (let n = (of_char c :: nat)
      in if 48 \<le> n \<and> n \<le> 57 then
           (if 10 * v + (n - 48) \<ge> 2 ^ 64 then Some (10 * v + (n - 48)) else scan_u64 (10 * v + (n - 48)) cs)
         else None)"

definition Atoi_or_zero :: "string \<Rightarrow> int" where
  "Atoi_or_zero s =
     (let (neg, ds) = (case s of [] \<Rightarrow> (False, []) | c # cs \<Rightarrow> if c = CHR ''-'' then (True, cs) else if c = CHR ''+'' then (False, cs) else (False, s))
      in if ds = [] then 0
         else case scan_u64 0 ds of
                None \<Rightarrow> 0
              | Some v \<Rightarrow> if neg then max (- (2 ^ 63)) (- int v) else min (2 ^ 63 - 1) (int v))"

definition contact_of :: "node \<Rightarrow> Contact" where
  "contact_of it = \<lparr>ct_JID = MustStringAttr it ''jid'', ct_Name = MustStringAttr it ''name'', ct_Updated = 0\<rparr>"

definition chat_of :: "node \<Rightarrow> ChatSummary" where
  "chat_of it = \<lparr>cs_JID = MustStringAttr it ''jid'', cs_Unread = Atoi_or_zero (MustStringAttr it ''unread''), cs_LastSync = 0\<rparr>"

subsection \<open>Fetching\<close>

definition sync_query :: "string \<Rightarrow> string \<Rightarrow> node" where
  "sync_query stage cursor =
     Node ''iq'' [(''type'', VStr ''get''), (''xmlns'', VStr ''batur.sync''), (''stage'', VStr stage), (''cursor'', VStr cursor)] VNil"

definition pageFetcher :: "(node \<Rightarrow> string + node) \<Rightarrow> string \<Rightarrow> string \<Rightarrow> string + node Page" where
  "pageFetcher request stage cursor =
     (case request (sync_query stage cursor) of
        Inl e \<Rightarrow> Inl e
      | Inr resp \<Rightarrow>
          (case ChildByTag resp ''sync'' of
             None \<Rightarrow> Inl ''batur: sync reply missing <sync>''
           | Some syncNode \<Rightarrow> Inr \<lparr>pg_Items = Children syncNode, pg_Cursor = MustStringAttr syncNode ''cursor''\<rparr>))"

definition api_runner :: "'s SyncEnv \<Rightarrow> (node \<Rightarrow> string + node) \<Rightarrow> string \<Rightarrow> ('s, node) Runner" where
  "api_runner E request sessionID =
     \<lparr>r_Session = sessionID, r_Store = Some (se_ops E),
      r_Stages = [\<lparr>st_Name = ''contacts'', st_Fetch = pageFetcher request ''contacts''\<rparr>,
        \<lparr>st_Name = ''chats'', st_Fetch = pageFetcher request ''chats''\<rparr>],
      r_ForceRestart = False\<rparr>"

text \<open>What the sink of a stage has collected.\<close>

definition collected :: "string \<Rightarrow> (string \<times> node list) list \<Rightarrow> node list" where
  "collected stage fetched = concat (map snd (filter (\<lambda>x. fst x = stage) fetched))"

subsection \<open>Snapshots\<close>

definition saveSnapshot :: "'s SyncEnv \<Rightarrow> string \<Rightarrow> string \<Rightarrow> bytes \<Rightarrow> ('s, node) SyncState \<Rightarrow> snapshot_error + ('s, node) SyncState" where
  "saveSnapshot E sessionID kind raw ss =
     (case kv_Set (se_ops E) (snapshotKey sessionID kind) raw (ss_store ss) of
        Inl e \<Rightarrow> Inl (SnapStore e)
      | Inr s \<Rightarrow> Inr (ss\<lparr>ss_store := s\<rparr>))"

definition loadSnapshot :: "'s SyncEnv \<Rightarrow> string \<Rightarrow> string \<Rightarrow> (bytes \<Rightarrow> string + 'v list) \<Rightarrow> 's \<Rightarrow> snapshot_error + 'v list" where
  "loadSnapshot E sessionID kind parse s =
     (case kv_Get (se_ops E) (snapshotKey sessionID kind) s of
        Inl e \<Rightarrow> if e = ErrNotFound then Inr [] else Inl (SnapStore e)
      | Inr raw \<Rightarrow> (case parse raw of Inl e \<Rightarrow> Inl (SnapParse e) | Inr v \<Rightarrow> Inr v))"

definition Contacts :: "'s SyncEnv \<Rightarrow> string \<Rightarrow> 's \<Rightarrow> snapshot_error + Contact list" where
  "Contacts E sessionID s = loadSnapshot E sessionID ''contacts'' (se_contacts_parse E) s"

definition Chats :: "'s SyncEnv \<Rightarrow> string \<Rightarrow> 's \<Rightarrow> snapshot_error + ChatSummary list" where
  "Chats E sessionID s = loadSnapshot E sessionID ''chats'' (se_chats_parse E) s"

text \<open>
  \<open>RunSync\<close>; \<open>sess\<close> is the supervisor's session for the id. Its result are the contacts and chats
  it announces on the bus.
\<close>

definition RunSync :: "nat \<Rightarrow> 's SyncEnv \<Rightarrow> (node \<Rightarrow> string + node) \<Rightarrow> 't option \<Rightarrow> string \<Rightarrow> ('s, node) SyncState
    \<Rightarrow> ('s, node) SyncState \<times> (snapshot_error + Contact list \<times> ChatSummary list)" where
  "RunSync fuel E request sess sessionID ss =
     (case sess of
        None \<Rightarrow> (ss, Inl SnapUnknownSession)
      | Some _ \<Rightarrow>
          (case Run fuel (se_params E) (api_runner E request sessionID) (ss\<lparr>ss_fetched := []\<rparr>) of
             (ss, Inl e) \<Rightarrow> (ss, Inl (SnapRun e))
           | (ss, Inr _) \<Rightarrow>
               let contacts = map (\<lambda>c. (contact_of c)\<lparr>ct_Updated := se_now E\<rparr>) (collected ''contacts'' (ss_fetched ss));
                   chats = map (\<lambda>c. (chat_of c)\<lparr>cs_LastSync := se_now E\<rparr>) (collected ''chats'' (ss_fetched ss))
               in case saveSnapshot E sessionID ''contacts'' (se_contacts_json E contacts) ss of
                    Inl e \<Rightarrow> (ss, Inl e)
                  | Inr ss \<Rightarrow>
                      (case saveSnapshot E sessionID ''chats'' (se_chats_json E chats) ss of
                         Inl e \<Rightarrow> (ss, Inl e)
                       | Inr ss \<Rightarrow> (ss, Inr (contacts, chats)))))"

subsection \<open>Over a store that keeps its contract\<close>

text \<open>\<open>encoding/json\<close> returns the lists it encoded when their texts are valid UTF-8.\<close>

definition snapshot_json :: "'s SyncEnv \<Rightarrow> bool" where
  "snapshot_json E \<longleftrightarrow>
     (\<forall>l. (\<forall>c \<in> set l. utf8 (ct_JID c) \<and> utf8 (ct_Name c)) \<longrightarrow> se_contacts_parse E (se_contacts_json E l) = Inr l) \<and>
     (\<forall>l. (\<forall>c \<in> set l. utf8 (cs_JID c)) \<longrightarrow> se_chats_parse E (se_chats_json E l) = Inr l)"

definition items_text :: "node Page list \<Rightarrow> bool" where
  "items_text ps \<longleftrightarrow> (\<forall>p \<in> set ps. \<forall>it \<in> set (pg_Items p). utf8 (MustStringAttr it ''jid'') \<and> utf8 (MustStringAttr it ''name''))"

definition items_of :: "node Page list \<Rightarrow> node list" where
  "items_of ps = concat (map pg_Items ps)"

definition contacts_of :: "'s SyncEnv \<Rightarrow> node Page list \<Rightarrow> Contact list" where
  "contacts_of E ps = map (\<lambda>c. (contact_of c)\<lparr>ct_Updated := se_now E\<rparr>) (items_of ps)"

definition chats_of :: "'s SyncEnv \<Rightarrow> node Page list \<Rightarrow> ChatSummary list" where
  "chats_of E ps = map (\<lambda>c. (chat_of c)\<lparr>cs_LastSync := se_now E\<rparr>) (items_of ps)"

lemma collected_append [simp]: "collected stage (xs @ ys) = collected stage xs @ collected stage ys"
  by (simp add: collected_def)

lemma collected_items [simp]: "collected stage (page_items name ps) = (if name = stage then items_of ps else [])"
  by (induction ps) (auto simp: collected_def page_items_def items_of_def)

lemma stage_keys [simp]: "sync_key r ''contacts'' \<noteq> sync_key r ''chats''"
  by (simp add: sync_key_def)

lemma snapshot_keys [simp]:
  "snapshotKey i ''contacts'' \<noteq> snapshotKey i ''chats''"
  "sync_key (api_runner E req i) stage \<noteq> snapshotKey i kind" "snapshotKey i kind \<noteq> sync_key (api_runner E req i) stage"
  by (auto simp: snapshotKey_def sync_key_def sync_prefix_def api_runner_def)

lemma run_stages_Cons:
  "run_stages fuel P r (st # sts) ss =
     (case run_stages fuel P r [st] ss of (ss, Inl e) \<Rightarrow> (ss, Inl e) | (ss, Inr _) \<Rightarrow> run_stages fuel P r sts ss)"
  by (simp split: sum.split option.split prod.split)

lemma Run_two:
  assumes "r_Stages r = [s1, s2]"
    and "run_stages fuel P r [s1] (Sync.emit (sync_event.SyncStarted (r_Session r) (stageNames r)) ss) = (ss1, Inr ())"
    and "run_stages fuel P r [s2] ss1 = (ss2, Inr ())"
  shows "Run fuel P r ss = (Sync.emit (sync_event.SyncCompleted (r_Session r)) ss2, Inr ())"
  unfolding Run_def assms(1) run_stages_Cons [of _ _ _ s1 "[s2]"] assms(2) by (simp add: assms(3) del: run_stages.simps)

context kv
begin

text \<open>A run from positions with \<open>pc\<close> and \<open>ph\<close> to come: the snapshots are exactly those pages.\<close>

lemma RunSync_pos:
  fixes E :: "'s SyncEnv"
  assumes "se_ops E = ops" "inv (ss_store ss)" "json_ok (se_params E)" "snapshot_json E" "sess \<noteq> None"
    and "\<And>stage. admits (sync_key (api_runner E request i) stage)" "\<And>kind. admits (snapshotKey i kind)"
    and "length pc \<le> fuel" "length ph \<le> fuel" "items_text pc" "items_text ph"
    and "sync_pos (se_params E) (pageFetcher request ''contacts'') ''contacts'' pc tc (contents (ss_store ss) (sync_key (api_runner E request i) ''contacts''))"
    and "sync_pos (se_params E) (pageFetcher request ''chats'') ''chats'' ph th (contents (ss_store ss) (sync_key (api_runner E request i) ''chats''))"
  shows "\<exists>ss'. RunSync fuel E request sess i ss = (ss', Inr (contacts_of E pc, chats_of E ph)) \<and> inv (ss_store ss') \<and>
    Contacts E i (ss_store ss') = Inr (contacts_of E pc) \<and> Chats E i (ss_store ss') = Inr (chats_of E ph) \<and>
    sync_pos (se_params E) (pageFetcher request ''contacts'') ''contacts'' [] tc (contents (ss_store ss') (sync_key (api_runner E request i) ''contacts'')) \<and>
    sync_pos (se_params E) (pageFetcher request ''chats'') ''chats'' [] th (contents (ss_store ss') (sync_key (api_runner E request i) ''chats''))"
proof -
  let ?r = "api_runner E request i" and ?P = "se_params E"
  let ?s1 = "\<lparr>st_Name = ''contacts'', st_Fetch = pageFetcher request ''contacts''\<rparr>"
  let ?s2 = "\<lparr>st_Name = ''chats'', st_Fetch = pageFetcher request ''chats''\<rparr>"
  let ?ss = "Sync.emit (sync_event.SyncStarted i (stageNames ?r)) (ss\<lparr>ss_fetched := []\<rparr>)"
  have r: "r_Store ?r = Some ops" "\<not> r_ForceRestart ?r" "r_Stages ?r = [?s1, ?s2]" "r_Session ?r = i" using assms(1) by (simp_all add: api_runner_def)
  have names: "utf8 ''contacts''" "utf8 ''chats''" by (simp_all add: utf8_def byte_of_char_def)
  have "progressed ?P ?r contents inv ?s1 (pageFetcher request ''contacts'') tc pc ?ss (run_stages fuel ?P ?r [?s1] ?ss)"
    using assms r names by (intro run_stage_pos) (simp_all add: agrees_def)
  then obtain ss1 where 1: "run_stages fuel ?P ?r [?s1] ?ss = (ss1, Inr ())" "inv (ss_store ss1)" "ss_fetched ss1 = page_items ''contacts'' pc"
    "\<And>k. k \<noteq> sync_key ?r ''contacts'' \<Longrightarrow> contents (ss_store ss1) k = contents (ss_store ss) k"
    "sync_pos ?P (pageFetcher request ''contacts'') ''contacts'' [] tc (contents (ss_store ss1) (sync_key ?r ''contacts''))"
    unfolding progressed_def by auto
  have "contents (ss_store ss1) (sync_key ?r ''chats'') = contents (ss_store ss) (sync_key ?r ''chats'')"
    using 1(4) [of "sync_key ?r ''chats''"] stage_keys [of ?r] by metis
  then have "progressed ?P ?r contents inv ?s2 (pageFetcher request ''chats'') th ph ss1 (run_stages fuel ?P ?r [?s2] ss1)"
    using assms r names 1(2) by (intro run_stage_pos) (simp_all add: agrees_def)
  then obtain ss2 where 2: "run_stages fuel ?P ?r [?s2] ss1 = (ss2, Inr ())" "inv (ss_store ss2)"
    "ss_fetched ss2 = page_items ''contacts'' pc @ page_items ''chats'' ph"
    "\<And>k. k \<noteq> sync_key ?r ''chats'' \<Longrightarrow> contents (ss_store ss2) k = contents (ss_store ss1) k"
    "sync_pos ?P (pageFetcher request ''chats'') ''chats'' [] th (contents (ss_store ss2) (sync_key ?r ''chats''))"
    unfolding progressed_def using 1(3) by auto
  let ?s = "Sync.emit (sync_event.SyncCompleted i) ss2"
  have run: "Run fuel ?P ?r (ss\<lparr>ss_fetched := []\<rparr>) = (?s, Inr ())"
    using Run_two [OF r(3), of fuel ?P "ss\<lparr>ss_fetched := []\<rparr>"] 1(1) 2(1) by (simp add: r(4) del: run_stages.simps)
  obtain sa where a: "kv_Set ops (snapshotKey i ''contacts'') (se_contacts_json E (contacts_of E pc)) (ss_store ss2) = Inr sa" "inv sa"
    "contents sa = (contents (ss_store ss2))(snapshotKey i ''contacts'' \<mapsto> se_contacts_json E (contacts_of E pc))"
    using set_ok [OF 2(2) assms(7)] by blast
  obtain sb where b: "kv_Set ops (snapshotKey i ''chats'') (se_chats_json E (chats_of E ph)) sa = Inr sb" "inv sb"
    "contents sb = (contents sa)(snapshotKey i ''chats'' \<mapsto> se_chats_json E (chats_of E ph))"
    using set_ok [OF a(2) assms(7)] by blast
  obtain sess' where s: "sess = Some sess'" using assms(5) by blast
  have "RunSync fuel E request sess i ss = (?s\<lparr>ss_store := sb\<rparr>, Inr (contacts_of E pc, chats_of E ph))"
    using run a(1) b(1) assms(1) 2(3)
    by (simp add: RunSync_def s saveSnapshot_def contacts_of_def chats_of_def Let_def)
  moreover have "Contacts E i sb = Inr (contacts_of E pc)" "Chats E i sb = Inr (chats_of E ph)"
  proof -
    have "\<forall>c \<in> set (contacts_of E pc). utf8 (ct_JID c) \<and> utf8 (ct_Name c)" "\<forall>c \<in> set (chats_of E ph). utf8 (cs_JID c)"
      using assms(10,11) by (auto simp: items_text_def contacts_of_def chats_of_def items_of_def contact_of_def chat_of_def)
    then show "Contacts E i sb = Inr (contacts_of E pc)" "Chats E i sb = Inr (chats_of E ph)"
      using assms(1,4,7) get [OF b(2)] by (simp_all add: Contacts_def Chats_def loadSnapshot_def b(3) a(3) snapshot_json_def)
  qed
  moreover have "contents sb (sync_key ?r stage) = contents (ss_store ss2) (sync_key ?r stage)" for stage by (simp add: a(3) b(3))
  moreover have "contents (ss_store ss2) (sync_key ?r ''contacts'') = contents (ss_store ss1) (sync_key ?r ''contacts'')"
    using 2(4) stage_keys [of ?r] by metis
  ultimately show ?thesis using 1(5) 2(5) b(2) by simp
qed

end

subsection \<open>Properties\<close>

lemma sync_pos_complete: "sync_pos P f name [] tot raw \<Longrightarrow> sync_pos P g name [] tot raw"
  using sync_pos_done [of P f name tot raw] by (auto simp: sync_pos_def)

text \<open>
  C14 (functional). The first synchronisation of a session gets everything. Over any store that keeps its
  contract, against a server that serves contacts and chats in any number of pages, \<open>RunSync\<close>
  succeeds, and afterwards \<open>Contacts\<close> and \<open>Chats\<close> return exactly the items of all pages, in
  the server's order and stamped with the time of the run; these are also what it announces.
\<close>

theorem sync_snapshot:
  fixes E :: "'s SyncEnv"
  assumes "kv (se_ops E) contents I admits" "I (ss_store ss)" "json_ok (se_params E)" "snapshot_json E" "sess \<noteq> None"
    and "\<forall>stage. admits (sync_key (api_runner E request i) stage)" "\<forall>kind. admits (snapshotKey i kind)"
    and "\<forall>stage. contents (ss_store ss) (sync_key (api_runner E request i) stage) = None"
    and "pages (pageFetcher request ''contacts'') '''' pc" "pages (pageFetcher request ''chats'') '''' ph"
    and "length pc \<le> fuel" "length ph \<le> fuel" "items_text pc" "items_text ph"
  shows "\<exists>ss'. RunSync fuel E request sess i ss = (ss', Inr (contacts_of E pc, chats_of E ph)) \<and> I (ss_store ss') \<and>
    Contacts E i (ss_store ss') = Inr (contacts_of E pc) \<and> Chats E i (ss_store ss') = Inr (chats_of E ph)"
proof -
  have pos: "sync_pos (se_params E) (pageFetcher request name) name ps (item_count ps) (contents (ss_store ss) (sync_key (api_runner E request i) name))"
    if "pages (pageFetcher request name) '''' ps" for name ps
    using assms(8) that by (simp add: sync_pos_def)
  show ?thesis
    using kv.RunSync_pos [OF assms(1) refl assms(2-5) _ _ assms(11-14) pos [OF assms(9)] pos [OF assms(10)]] assms(6,7) by blast
qed

text \<open>
  C26 (safety). The next synchronisation throws it all away. After a synchronisation that completed,
  every further \<open>RunSync\<close> of the session finds both stages complete, fetches nothing, whatever the
  server would answer, succeeds, and replaces both snapshots by empty ones; the comment
  on \<open>RunSync\<close> calls it safe to call repeatedly.
\<close>

theorem sync_again_empties:
  fixes E :: "'s SyncEnv"
  assumes "kv (se_ops E) contents I admits" "I (ss_store ss)" "json_ok (se_params E)" "snapshot_json E" "sess \<noteq> None"
    and "\<forall>stage. admits (sync_key (api_runner E request i) stage)" "\<forall>kind. admits (snapshotKey i kind)"
    and "\<forall>stage. contents (ss_store ss) (sync_key (api_runner E request i) stage) = None"
    and "pages (pageFetcher request ''contacts'') '''' pc" "pages (pageFetcher request ''chats'') '''' ph"
    and "length pc \<le> fuel" "length ph \<le> fuel" "items_text pc" "items_text ph"
    and "(ss1, res1) = RunSync fuel E request sess i ss"
  shows "\<exists>ss2. RunSync fuel E request' sess i ss1 = (ss2, Inr ([], [])) \<and> Contacts E i (ss_store ss2) = Inr [] \<and> Chats E i (ss_store ss2) = Inr []"
proof -
  have key: "sync_key (api_runner E request' i) = sync_key (api_runner E request i)"
    by (simp add: sync_key_def sync_prefix_def api_runner_def fun_eq_iff)
  have pos: "sync_pos (se_params E) (pageFetcher request name) name ps (item_count ps) (contents (ss_store ss) (sync_key (api_runner E request i) name))"
    if "pages (pageFetcher request name) '''' ps" for name ps
    using assms(8) that by (simp add: sync_pos_def)
  from kv.RunSync_pos [OF assms(1) refl assms(2-5) _ _ assms(11-14) pos [OF assms(9)] pos [OF assms(10)]] assms(6,7,15)
  have "I (ss_store ss1)"
    "sync_pos (se_params E) (pageFetcher request' ''contacts'') ''contacts'' [] (item_count pc) (contents (ss_store ss1) (sync_key (api_runner E request' i) ''contacts''))"
    "sync_pos (se_params E) (pageFetcher request' ''chats'') ''chats'' [] (item_count ph) (contents (ss_store ss1) (sync_key (api_runner E request' i) ''chats''))"
    unfolding key by (auto intro: sync_pos_complete)
  from kv.RunSync_pos [OF assms(1) refl this(1) assms(3-5) _ _ _ _ _ _ this(2,3), where fuel = fuel] assms(6,7)
  show ?thesis unfolding key by (auto simp: items_text_def contacts_of_def chats_of_def items_of_def)
qed

text \<open>The mock server as the peer: ten contacts and seven chats in pages of three.\<close>

definition mock_request :: "node \<Rightarrow> string + node" where
  "mock_request n = Inr (syncPage ''1'' (MustStringAttr n ''stage'') (MustStringAttr n ''cursor''))"

definition mock_pages :: "string \<Rightarrow> (int list \<times> string) list \<Rightarrow> node Page list" where
  "mock_pages stage = map (\<lambda>(ks, c). \<lparr>pg_Items = map (sync_item stage) ks, pg_Cursor = c\<rparr>)"

lemma mock_fetch:
  "pageFetcher mock_request stage cursor =
     (let tot = (if stage = ''chats'' then 7 else 10); (items, e) = sync_items 3 stage tot (if cursor \<noteq> '''' then scan_int cursor else 0)
      in Inr \<lparr>pg_Items = items, pg_Cursor = (if e < tot then int_to_dec e else '''')\<rparr>)"
  by (simp add: pageFetcher_def mock_request_def syncPage_def sync_query_def ChildByTag_def Children_def MustStringAttr_def StringAttr_def Let_def split: prod.split)

lemma mock_cursors:
  "int_to_dec 3 = ''3''" "int_to_dec 6 = ''6''" "int_to_dec 9 = ''9''" "scan_int ''3'' = 3" "scan_int ''6'' = 6" "scan_int ''9'' = 9"
  "utf8 ''3''" "utf8 ''6''" "utf8 ''9''"
  by code_simp+

lemma mock_contacts:
  "pages (pageFetcher mock_request ''contacts'') '''' (mock_pages ''contacts'' [([0, 1, 2], ''3''), ([3, 4, 5], ''6''), ([6, 7, 8], ''9''), ([9], '''')])"
  unfolding mock_pages_def list.map prod.case
  by (intro pages_step pages_end) (simp_all add: mock_fetch mock_cursors numeral_3_eq_3 Let_def)

lemma mock_chats:
  "pages (pageFetcher mock_request ''chats'') '''' (mock_pages ''chats'' [([0, 1, 2], ''3''), ([3, 4, 5], ''6''), ([6], '''')])"
  unfolding mock_pages_def list.map prod.case
  by (intro pages_step pages_end) (simp_all add: mock_fetch mock_cursors numeral_3_eq_3 Let_def)

definition enc_contact :: "Contact \<Rightarrow> bytes" where
  "enc_contact c = enc_str (ct_JID c) @ enc_str (ct_Name c) @ enc_int (ct_Updated c)"

definition dec_contact :: "bytes \<Rightarrow> Contact \<times> bytes" where
  "dec_contact b = (let (j, b) = dec_str b; (n, b) = dec_str b; (u, b) = dec_int b in (\<lparr>ct_JID = j, ct_Name = n, ct_Updated = u\<rparr>, b))"

definition enc_chat :: "ChatSummary \<Rightarrow> bytes" where
  "enc_chat c = enc_str (cs_JID c) @ enc_int (cs_Unread c) @ enc_int (cs_LastSync c)"

definition dec_chat :: "bytes \<Rightarrow> ChatSummary \<times> bytes" where
  "dec_chat b = (let (j, b) = dec_str b; (n, b) = dec_int b; (u, b) = dec_int b in (\<lparr>cs_JID = j, cs_Unread = n, cs_LastSync = u\<rparr>, b))"

definition sample_env :: "Memory SyncEnv" where
  "sample_env = \<lparr>se_ops = Memory_KV, se_params = sample_params,
     se_contacts_json = enc_many enc_contact, se_contacts_parse = (\<lambda>b. Inr (fst (dec_many dec_contact b))),
     se_chats_json = enc_many enc_chat, se_chats_parse = (\<lambda>b. Inr (fst (dec_many dec_chat b))), se_now = 5\<rparr>"

lemma sample_snapshot_json: "snapshot_json sample_env"
proof -
  have "dec_contact (enc_contact c @ r) = (c, r)" for c r by (cases c) (simp add: dec_contact_def enc_contact_def)
  moreover have "dec_chat (enc_chat c @ r) = (c, r)" for c r by (cases c) (simp add: dec_chat_def enc_chat_def)
  ultimately show ?thesis by (simp add: snapshot_json_def sample_env_def dec_enc_many_end)
qed

definition fresh_sync :: "(Memory, node) SyncState" where
  "fresh_sync = \<lparr>ss_store = NewMemory, ss_events = [], ss_ticks = 0, ss_fetched = []\<rparr>"

lemma mock_texts: "items_text (mock_pages ''contacts'' [([0, 1, 2], ''3''), ([3, 4, 5], ''6''), ([6, 7, 8], ''9''), ([9], '''')])"
  "items_text (mock_pages ''chats'' [([0, 1, 2], ''3''), ([3, 4, 5], ''6''), ([6], '''')])"
  by code_simp+

lemma mock_setup:
  "kv (se_ops sample_env) mem_contents mem_inv (\<lambda>_. True)" "mem_inv (ss_store fresh_sync)" "json_ok (se_params sample_env)"
  "\<forall>stage. mem_contents (ss_store fresh_sync) (sync_key (api_runner sample_env mock_request ''s'') stage) = None"
  using mem.kv_axioms sample_json by (simp_all add: sample_env_def fresh_sync_def mem_inv_def mem_contents_def NewMemory_def)

lemma sync_snapshot_witness:
  "\<exists>ss' cs. RunSync 4 sample_env mock_request (Some ()) ''s'' fresh_sync = (ss', Inr cs) \<and>
     (\<exists>l. Contacts sample_env ''s'' (ss_store ss') = Inr l \<and> map ct_Name l = map (\<lambda>k. ''Contact '' @ int_to_dec k) [0, 1, 2, 3, 4, 5, 6, 7, 8, 9]) \<and>
     (\<exists>l. Chats sample_env ''s'' (ss_store ss') = Inr l \<and> map cs_Unread l = [0, 1, 2, 3, 0, 1, 2])"
proof -
  let ?c = "mock_pages ''contacts'' [([0, 1, 2], ''3''), ([3, 4, 5], ''6''), ([6, 7, 8], ''9''), ([9], '''')]"
  let ?h = "mock_pages ''chats'' [([0, 1, 2], ''3''), ([3, 4, 5], ''6''), ([6], '''')]"
  have "map ct_Name (contacts_of sample_env ?c) = map (\<lambda>k. ''Contact '' @ int_to_dec k) [0, 1, 2, 3, 4, 5, 6, 7, 8, 9]"
    by (simp add: contacts_of_def items_of_def mock_pages_def contact_of_def sync_item_def MustStringAttr_def StringAttr_def)
  moreover have "map cs_Unread (chats_of sample_env ?h) = map (\<lambda>k. Atoi_or_zero (int_to_dec (rem4 k))) [0, 1, 2, 3, 4, 5, 6]"
    by (simp add: chats_of_def items_of_def mock_pages_def chat_of_def sync_item_def MustStringAttr_def StringAttr_def)
  moreover have "map (\<lambda>k. int_to_dec (rem4 k)) [0, 1, 2, 3, 4, 5, 6] = [''0'', ''1'', ''2'', ''3'', ''0'', ''1'', ''2'']" by code_simp
  moreover have "Atoi_or_zero ''0'' = 0" "Atoi_or_zero ''1'' = 1" "Atoi_or_zero ''2'' = 2" "Atoi_or_zero ''3'' = 3" by (simp_all add: Atoi_or_zero_def)
  moreover have "length ?c \<le> 4" "length ?h \<le> 4" by (simp_all add: mock_pages_def)
  ultimately show ?thesis
    using sync_snapshot [OF mock_setup(1-3) sample_snapshot_json, of "Some ()" mock_request "''s''" ?c ?h 4] mock_setup(4) mock_contacts mock_chats mock_texts
    by auto
qed

lemma sync_again_empties_witness:
  "\<exists>ss1 res ss2. RunSync 4 sample_env mock_request (Some ()) ''s'' fresh_sync = (ss1, res) \<and>
     RunSync 4 sample_env mock_request (Some ()) ''s'' ss1 = (ss2, Inr ([], [])) \<and> Contacts sample_env ''s'' (ss_store ss2) = Inr []"
proof -
  let ?c = "mock_pages ''contacts'' [([0, 1, 2], ''3''), ([3, 4, 5], ''6''), ([6, 7, 8], ''9''), ([9], '''')]"
  let ?h = "mock_pages ''chats'' [([0, 1, 2], ''3''), ([3, 4, 5], ''6''), ([6], '''')]"
  obtain ss1 res where r: "RunSync 4 sample_env mock_request (Some ()) ''s'' fresh_sync = (ss1, res)" by fastforce
  have "length ?c \<le> 4" "length ?h \<le> 4" by (simp_all add: mock_pages_def)
  from sync_again_empties [OF mock_setup(1-3) sample_snapshot_json _ _ _ mock_setup(4) mock_contacts mock_chats this mock_texts r [symmetric], of mock_request]
  show ?thesis using r by auto
qed

end
