(* ===== verification/ApiServer.thy ===== *)
theory ApiServer
  imports History SecureKV StateMachine
begin

text \<open>
  The HTTP server of \<^verbatim>\<open>apiserver\<close>, its own logic: the check of the configuration and the
  bearer token, the code names of errors, the paging of the history, the filters of the
  event streams and the commands of the WebSocket bridge, and the session rows of the
  metrics. Routing, HTTP itself and JSON belong to the Go library; a handler is a
  function from the request's parts to its response, and a Go panic is a value.
\<close>

subsection \<open>Configuration and access\<close>

record ApiServer =
  as_Batur :: bool
  as_Bind :: string
  as_Token :: string
  as_MaxBodyBytes :: int
  as_WSPingInterval :: int

datatype server_error = NilBatur | ErrNoToken

definition localhostOnly :: "ApiServer \<Rightarrow> bool" where
  "localhostOnly s \<longleftrightarrow> as_Bind s = '''' \<or> prefix ''127.0.0.1:'' (as_Bind s) \<or> prefix ''localhost:'' (as_Bind s)"

definition NewApiServer :: "ApiServer \<Rightarrow> server_error + ApiServer" where
  "NewApiServer s =
     (if \<not> as_Batur s then Inl NilBatur
      else if as_Token s = '''' \<and> \<not> localhostOnly s then Inl ErrNoToken
      else Inr s)"

definition httpCodeName :: "int \<Rightarrow> string" where
  "httpCodeName code =
     (if code = 400 then ''bad_request'' else if code = 401 then ''unauthorized'' else if code = 403 then ''forbidden''
      else if code = 404 then ''not_found'' else if code = 405 then ''method_not_allowed'' else if code = 408 then ''request_timeout''
      else if code = 413 then ''body_too_large'' else if code = 415 then ''unsupported_media_type'' else if code = 429 then ''too_many_requests''
      else if code = 500 then ''internal'' else if code = 502 then ''bad_gateway'' else if code = 503 then ''unavailable''
      else if code = 504 then ''gateway_timeout''
      else if code \<ge> 400 \<and> code < 500 then ''client_error''
      else if code \<ge> 500 then ''server_error''
      else ''ok'')"

text \<open>A response: its status with an error and the error's code name, or with a value.\<close>

datatype 'v response = Failure int string string | Success int 'v | Panics

definition writeErr :: "int \<Rightarrow> string \<Rightarrow> 'v response" where
  "writeErr code msg = Failure code msg (httpCodeName code)"

definition bodyLimit :: "ApiServer \<Rightarrow> int" where
  "bodyLimit s = (if as_MaxBodyBytes s > 0 then as_MaxBodyBytes s else 2 ^ 20)"

text \<open>The wrapper \<open>auth\<close> around a handler; \<open>header\<close> is the value of the \<open>Authorization\<close> header, \<open>sha\<close> is SHA-256.\<close>

definition auth :: "(bytes \<Rightarrow> bytes) \<Rightarrow> ApiServer \<Rightarrow> string \<Rightarrow> string \<Rightarrow> 'v response \<Rightarrow> 'v response" where
  "auth sha s path header served =
     (if path = ''/v1/health'' then served
      else if as_Token s \<noteq> '''' then
        (let got = TrimPrefix header ''Bearer ''
         in if sha (bytes_of_string got) \<noteq> sha (bytes_of_string (as_Token s)) then writeErr 401 ''bad token'' else served)
      else served)"

subsection \<open>History pages\<close>

text \<open>
  \<open>fmt.Sscanf\<close> with \<open>%d\<close> into a variable: blanks without a newline, a sign, digits in the range
  of an \<open>int\<close>; a failed scan leaves the variable as it was.
\<close>

definition scan_decimal :: "int \<Rightarrow> string \<Rightarrow> int" where
  "scan_decimal old ds =
     (let n = takeWhile (\<lambda>c. c \<in> set ''0123456789'') ds
      in if n = [] then old else case parse_dec_acc 0 n of None \<Rightarrow> old | Some v \<Rightarrow> int v)"

definition scan_into :: "int \<Rightarrow> string \<Rightarrow> int" where
  "scan_into old s =
     (let b = bytes_of_string s; rest = trim_left (length b) white_space b; skipped = take (length b - length rest) b; t = string_of_bytes rest;
          (neg, ds) = (case t of [] \<Rightarrow> (False, []) | c # cs \<Rightarrow> if c = CHR ''-'' then (True, cs) else if c = CHR ''+'' then (False, cs) else (False, t));
          v = (if takeWhile (\<lambda>c. c \<in> set ''0123456789'') ds = [] then old else if neg then - scan_decimal 0 ds else scan_decimal 0 ds)
      in if 0x0A \<in> set skipped \<or> \<not> (- (2 ^ 63) \<le> v \<and> v < 2 ^ 63) then old else v)"

definition page_limit :: "string \<Rightarrow> int" where
  "page_limit v = (let limit = (if v \<noteq> '''' then scan_into 50 v else 50) in if limit < 1 then 1 else if limit > 500 then 500 else limit)"

definition page_cursor :: "string \<Rightarrow> int" where
  "page_cursor v = (if v \<noteq> '''' then scan_into 0 v else 0)"

datatype history_body = ChatIndex "string list" | MessagePage string "StoredMessage list" int

text \<open>A slice with a negative bound is the panic of the handler.\<close>

definition page_of :: "int \<Rightarrow> int \<Rightarrow> 'm list \<Rightarrow> ('m list \<times> int) option" where
  "page_of cursor limit l =
     (if cursor \<ge> int (length l) then Some ([], -1)
      else if cursor < 0 then None
      else
        let e = min (cursor + limit) (int (length l))
        in Some (take (nat e - nat cursor) (drop (nat cursor) l), if e < int (length l) then e else -1))"

definition hSessionHistory :: "(history_error \<Rightarrow> string) \<Rightarrow> 's HistoryStore option \<Rightarrow> string \<Rightarrow> string \<Rightarrow> string \<Rightarrow> string \<Rightarrow> 's
    \<Rightarrow> history_body response" where
  "hSessionHistory errtext hist i chat limit cursor s =
     (if chat = '''' then
        (case RecentChats hist i s of Inl e \<Rightarrow> writeErr 400 (errtext e) | Inr chats \<Rightarrow> Success 200 (ChatIndex chats))
      else
        (case History.History hist i chat (int HistoryWindow) s of
           Inl e \<Rightarrow> writeErr 400 (errtext e)
         | Inr l \<Rightarrow>
             (case page_of (page_cursor cursor) (page_limit limit) l of
                None \<Rightarrow> Panics
              | Some (page, nxt) \<Rightarrow> Success 200 (MessagePage chat page nxt))))"

definition hSessionHistoryOne :: "(history_error \<Rightarrow> string) \<Rightarrow> 's HistoryStore option \<Rightarrow> string \<Rightarrow> string \<Rightarrow> string \<Rightarrow> 's \<Rightarrow> StoredMessage response" where
  "hSessionHistoryOne errtext hist i msgID chat s =
     (case HistoryOne hist i msgID chat s of
        Inl e \<Rightarrow> writeErr (if e = ErrUnknownMessage then 404 else 400) (errtext e)
      | Inr m \<Rightarrow> Success 200 m)"

subsection \<open>Event streams\<close>

text \<open>What an event of the bus carries to this layer: its session and its data.\<close>

record live_event =
  le_Session :: string
  le_Data :: payload_data

definition evChat :: "live_event \<Rightarrow> string" where
  "evChat ev =
     (case le_Data ev of
        PNode d \<Rightarrow> (case StringAttr d ''from'' of Some c \<Rightarrow> c | None \<Rightarrow> (case StringAttr d ''to'' of Some c \<Rightarrow> c | None \<Rightarrow> ''''))
      | PMessage m \<Rightarrow> tg_JID (mg_Chat m)
      | POther \<Rightarrow> '''')"

text \<open>The filter of the stream of server-sent events.\<close>

definition hEvents_filter :: "string \<Rightarrow> string \<Rightarrow> live_event \<Rightarrow> bool" where
  "hEvents_filter sessionFilter chatFilter ev =
     (if sessionFilter \<noteq> '''' \<and> le_Session ev \<noteq> sessionFilter then False
      else if chatFilter \<noteq> '''' \<and> evChat ev \<noteq> chatFilter then False
      else True)"

record wsEventBridge =
  wb_enabled :: bool
  wb_session :: string
  wb_chat :: string

definition wants :: "wsEventBridge \<Rightarrow> live_event \<Rightarrow> bool" where
  "wants b ev =
     (if \<not> wb_enabled b then False
      else if wb_session b \<noteq> '''' \<and> le_Session ev \<noteq> wb_session b then False
      else if wb_chat b \<noteq> '''' \<and> evChat ev \<noteq> wb_chat b then False
      else True)"

record wsCommand =
  cm_Op :: string
  cm_Session :: string
  cm_To :: string
  cm_Text :: string
  cm_JID :: string

record wsEnvelope =
  we_Type :: string
  we_Op :: string
  we_Ok :: bool
  we_ID :: string
  we_Session :: string
  we_Error :: string

definition envelope :: "string \<Rightarrow> wsEnvelope" where
  "envelope typ = \<lparr>we_Type = typ, we_Op = '''', we_Ok = False, we_ID = '''', we_Session = '''', we_Error = ''''\<rparr>"

text \<open>
  One round of the bridge's command loop on a frame, \<open>None\<close> where its JSON is bad. What
  \<open>SendText\<close> and \<open>RunSync\<close> return is an argument: the message id or the error's text.
\<close>

definition bridge_command :: "(string \<Rightarrow> string \<Rightarrow> string \<Rightarrow> string + string) \<Rightarrow> (string \<Rightarrow> string option) \<Rightarrow> wsCommand option \<Rightarrow> wsEventBridge
    \<Rightarrow> wsEventBridge \<times> wsEnvelope" where
  "bridge_command sendText runSync frame b =
     (case frame of
        None \<Rightarrow> (b, (envelope ''error'')\<lparr>we_Error := ''bad command frame''\<rparr>)
      | Some cmd \<Rightarrow>
          if cm_Op cmd = '''' then (b, (envelope ''error'')\<lparr>we_Error := ''bad command frame''\<rparr>)
          else if cm_Op cmd = ''ping'' then (b, envelope ''pong'')
          else if cm_Op cmd = ''send'' then
            (let rep = (envelope ''result'')\<lparr>we_Op := ''send''\<rparr>
             in (b, if cm_Session cmd = '''' \<or> cm_To cmd = '''' then rep\<lparr>we_Error := ''session and to required'', we_Ok := False\<rparr>
                    else case sendText (cm_Session cmd) (cm_To cmd) (cm_Text cmd) of
                           Inr i \<Rightarrow> rep\<lparr>we_Ok := True, we_ID := i\<rparr>
                         | Inl e \<Rightarrow> rep\<lparr>we_Ok := False, we_ID := '''', we_Error := e\<rparr>))
          else if cm_Op cmd = ''sync'' then
            (let rep = (envelope ''result'')\<lparr>we_Op := ''sync''\<rparr>
             in (b, case runSync (cm_Session cmd) of Some e \<Rightarrow> rep\<lparr>we_Error := e\<rparr> | None \<Rightarrow> rep\<lparr>we_Ok := True\<rparr>))
          else if cm_Op cmd = ''subscribe'' then
            (b\<lparr>wb_enabled := True, wb_session := cm_Session cmd, wb_chat := cm_JID cmd\<rparr>,
             (envelope ''result'')\<lparr>we_Op := ''subscribe'', we_Ok := True, we_Session := cm_Session cmd, we_ID := cm_JID cmd\<rparr>)
          else if cm_Op cmd = ''unsubscribe'' then
            (b\<lparr>wb_enabled := False, wb_session := '''', wb_chat := ''''\<rparr>, (envelope ''result'')\<lparr>we_Op := ''unsubscribe'', we_Ok := True\<rparr>)
          else (b, (envelope ''error'')\<lparr>we_Error := ''unknown op '' @ cm_Op cmd\<rparr>))"

definition new_bridge :: wsEventBridge where
  "new_bridge = \<lparr>wb_enabled = False, wb_session = '''', wb_chat = ''''\<rparr>"

text \<open>
  A running bridge. The command loop, the subscriber's callback and the streaming
  goroutine interleave; they share the filter, under its mutex, and the buffered
  channel \<open>ch\<close> of 256 events. \<open>br_taken\<close> and \<open>br_seen\<close> record, for the statements, the events
  taken from the channel with the filter in force, and the events the callback got.
\<close>

record bridge_run =
  br_filter :: wsEventBridge
  br_ch :: "live_event list"
  br_close :: bool
  br_reading :: bool
  br_streaming :: bool
  br_sent :: "live_event list"
  br_replies :: "wsEnvelope list"
  br_pings :: nat
  br_taken :: "(wsEventBridge \<times> live_event) list"
  br_seen :: "live_event list"
  br_dropped :: nat

datatype bridge_input = Frame "wsCommand option" | ReceiveFails | Callback live_event | Tick | TakeEvent bool | CloseSeen

definition start_bridge :: bridge_run where
  "start_bridge = \<lparr>br_filter = new_bridge, br_ch = [], br_close = False, br_reading = True, br_streaming = True, br_sent = [],
     br_replies = [], br_pings = 0, br_taken = [], br_seen = [], br_dropped = 0\<rparr>"

definition bridge_callback :: "live_event \<Rightarrow> bridge_run \<Rightarrow> bridge_run" where
  "bridge_callback ev r =
     (let r = r\<lparr>br_seen := br_seen r @ [ev]\<rparr>
      in if length (br_ch r) < 256 then r\<lparr>br_ch := br_ch r @ [ev]\<rparr> else r\<lparr>br_dropped := Suc (br_dropped r)\<rparr>)"

text \<open>One event in the streaming goroutine; \<open>ok\<close> is whether the connection takes the frame.\<close>

definition bridge_take :: "(live_event \<Rightarrow> bool) \<Rightarrow> bool \<Rightarrow> bridge_run \<Rightarrow> bridge_run option" where
  "bridge_take marshals ok r =
     (case br_ch r of
        [] \<Rightarrow> None
      | ev # rest \<Rightarrow>
          let f = br_filter r; r = r\<lparr>br_ch := rest, br_taken := br_taken r @ [(f, ev)]\<rparr>
          in Some (if \<not> wants f ev then r
                   else if \<not> marshals ev then r
                   else if \<not> ok then r\<lparr>br_streaming := False\<rparr>
                   else r\<lparr>br_sent := br_sent r @ [ev]\<rparr>))"

text \<open>
  One step of the bridge, \<open>None\<close> where the goroutine it belongs to has ended or waits. When the
  bus refuses the subscription the streaming goroutine ends at once.
\<close>

definition bridge_step :: "(string \<Rightarrow> string \<Rightarrow> string \<Rightarrow> string + string) \<Rightarrow> (string \<Rightarrow> string option) \<Rightarrow> (live_event \<Rightarrow> bool)
    \<Rightarrow> bridge_input \<Rightarrow> bridge_run \<Rightarrow> bridge_run option" where
  "bridge_step sendText runSync marshals i r =
     (case i of
        Frame cmd \<Rightarrow>
          if br_reading r then
            let (b, rep) = bridge_command sendText runSync cmd (br_filter r)
            in Some (r\<lparr>br_filter := b, br_replies := br_replies r @ [rep]\<rparr>)
          else None
      | ReceiveFails \<Rightarrow> if br_reading r then Some (r\<lparr>br_reading := False, br_close := True\<rparr>) else None
      | Callback ev \<Rightarrow> if br_streaming r then Some (bridge_callback ev r) else None
      | Tick \<Rightarrow> if br_streaming r then Some (r\<lparr>br_pings := Suc (br_pings r)\<rparr>) else None
      | TakeEvent ok \<Rightarrow> if br_streaming r then bridge_take marshals ok r else None
      | CloseSeen \<Rightarrow> if br_streaming r \<and> br_close r then Some (r\<lparr>br_streaming := False\<rparr>) else None)"

inductive bridge_reach :: "(string \<Rightarrow> string \<Rightarrow> string \<Rightarrow> string + string) \<Rightarrow> (string \<Rightarrow> string option) \<Rightarrow> (live_event \<Rightarrow> bool)
    \<Rightarrow> bridge_run \<Rightarrow> bool" for sendText runSync marshals where
  bridge_start: "bridge_reach sendText runSync marshals start_bridge"
| bridge_deaf: "bridge_reach sendText runSync marshals (start_bridge\<lparr>br_close := True, br_streaming := False\<rparr>)"
| bridge_next: "bridge_reach sendText runSync marshals r \<Longrightarrow> bridge_step sendText runSync marshals i r = Some r'
    \<Longrightarrow> bridge_reach sendText runSync marshals r'"

subsection \<open>Session metrics\<close>

definition metric_states :: "State list" where
  "metric_states = [Stopped, Starting, Connecting, Authenticating, Syncing, Online, Degraded, Reconnecting, Error]"

text \<open>The rows of the state gauge for sessions by id with their reported states, and the count of online ones.\<close>

definition state_rows :: "(string \<times> string) list \<Rightarrow> (string \<times> string \<times> nat) list" where
  "state_rows health =
     concat (map (\<lambda>(i, h). map (\<lambda>st. (i, state_name st, if h = state_name st then 1 else 0)) metric_states) (sort_key fst health))"

definition online_sessions :: "(string \<times> string) list \<Rightarrow> nat" where
  "online_sessions health = length (filter (\<lambda>(i, h). h = state_name Online) (sort_key fst health))"

subsection \<open>Access\<close>

text \<open>
  A server that accepted a bind beyond localhost has a token, and every request to another
  path than the health check is served exactly when its \<open>Authorization\<close> header is the token,
  after the \<open>Bearer\<close> scheme or bare; every other request is answered with 401. The
  hypothesis on \<open>sha\<close> is that no other text has the hash of the token.
\<close>

theorem access_needs_token:
  assumes "NewApiServer s = Inr s'" "\<not> localhostOnly s" "path \<noteq> ''/v1/health''"
    and "\<And>b. sha b = sha (bytes_of_string (as_Token s')) \<Longrightarrow> b = bytes_of_string (as_Token s')"
    and "served \<noteq> Failure 401 ''bad token'' ''unauthorized''"
  shows "as_Token s' \<noteq> '''' \<and>
    (if header = ''Bearer '' @ as_Token s' \<or> header = as_Token s' \<and> \<not> prefix ''Bearer '' header
     then auth sha s' path header served = served
     else auth sha s' path header served = Failure 401 ''bad token'' ''unauthorized'')"
proof -
  have t: "as_Token s' \<noteq> ''''" using assms(1,2) by (auto simp: NewApiServer_def split: if_splits)
  have "sha (bytes_of_string got) = sha (bytes_of_string (as_Token s')) \<longleftrightarrow> got = as_Token s'" for got
    using assms(4) [of "bytes_of_string got"] by (metis string_of_bytes_of_string)
  moreover have "TrimPrefix header ''Bearer '' = as_Token s' \<longleftrightarrow>
      header = ''Bearer '' @ as_Token s' \<or> header = as_Token s' \<and> \<not> prefix ''Bearer '' header"
    by (auto simp: TrimPrefix_def prefix_def)
  ultimately show ?thesis using t assms(3) by (simp add: auth_def writeErr_def httpCodeName_def Let_def)
qed

definition sample_server :: ApiServer where
  "sample_server = \<lparr>as_Batur = True, as_Bind = '':8080'', as_Token = ''t'', as_MaxBodyBytes = 0, as_WSPingInterval = 0\<rparr>"

lemma access_needs_token_witness:
  "auth (\<lambda>b. b) sample_server ''/metrics'' ''Bearer t'' (Success 200 ()) = Success 200 () \<and>
   auth (\<lambda>b. b) sample_server ''/metrics'' ''Bearer u'' (Success 200 ()) = Failure 401 ''bad token'' ''unauthorized''"
  using access_needs_token [of sample_server sample_server "''/metrics''" "\<lambda>b. b" "Success 200 ()" "''Bearer t''"]
    access_needs_token [of sample_server sample_server "''/metrics''" "\<lambda>b. b" "Success 200 ()" "''Bearer u''"]
  by (simp add: sample_server_def NewApiServer_def localhostOnly_def)

subsection \<open>Paging\<close>

lemma digit_cases: "48 \<le> n \<Longrightarrow> n \<le> 57 \<Longrightarrow> n \<in> {48, 49, 50, 51, 52, 53, 54, 55, 56, 57 :: nat}"
  by (simp only: insert_iff empty_iff) arith

lemma digit_in: "48 \<le> (of_char c :: nat) \<Longrightarrow> (of_char c :: nat) \<le> 57 \<Longrightarrow> c \<in> set ''0123456789''"
proof -
  assume "48 \<le> (of_char c :: nat)" "(of_char c :: nat) \<le> 57"
  from digit_cases [OF this] have "(of_char c :: nat) \<in> of_char ` set ''0123456789''" by simp
  then show ?thesis by (simp only: inj_image_mem_iff [OF inj_of_char])
qed
text \<open>A cursor the handler gave out is read back.\<close>

lemma scan_into_dec: "n < 2 ^ 63 \<Longrightarrow> scan_into old (nat_to_dec n) = int n"
proof -
  assume n: "n < 2 ^ 63"
  let ?s = "nat_to_dec n"
  obtain c cs where s: "?s = c # cs" by (meson nat_to_dec_nonempty neq_Nil_conv)
  have c: "48 \<le> (of_char c :: nat)" "(of_char c :: nat) \<le> 57" using nat_to_dec_digits [of c n] s by auto
  have "unat (byte_of_char c) = of_char c" by (rule unat_byte_of_char)
  then have "\<not> ascii_space (byte_of_char c)" "byte_of_char c < 0x80" using c by (auto simp: ascii_space_def word_less_nat_alt)
  then have trim: "trim_left (length (bytes_of_string ?s)) white_space (bytes_of_string ?s) = bytes_of_string ?s"
    using trim_left_spaces [of white_space "[]" "byte_of_char c" _ "bytes_of_string cs"] s by simp
  have "takeWhile (\<lambda>c. c \<in> set ''0123456789'') ?s = ?s"
    using nat_to_dec_digits digit_in by (simp only: takeWhile_eq_all_conv) blast
  moreover have "c \<noteq> CHR ''-''" "c \<noteq> CHR ''+''" using c by auto
  then have "(case ?s of [] \<Rightarrow> (False, []) | c # cs \<Rightarrow> if c = CHR ''-'' then (True, cs) else if c = CHR ''+'' then (False, cs) else (False, ?s)) = (False, ?s)"
    by (simp add: s)
  moreover have "scan_decimal 0 ?s = int n" using calculation(1) unfolding scan_decimal_def by (simp only: Let_def parse_nat_to_dec) simp
  ultimately show ?thesis using n
    by (simp only: scan_into_def Let_def trim string_of_bytes_of_string split_conv) simp
qed

lemma page_cursor_dec: "n < 2 ^ 63 \<Longrightarrow> page_cursor (int_to_dec (int n)) = int n"
  by (simp add: page_cursor_def int_to_dec_def scan_into_dec)

text \<open>
  A client that follows \<open>next_cursor\<close>; \<open>get\<close> answers a request with the given cursor parameter.
\<close>

fun fetch_all :: "(string \<Rightarrow> history_body response) \<Rightarrow> nat \<Rightarrow> string \<Rightarrow> StoredMessage list option" where
  "fetch_all get 0 cursor = None"
| "fetch_all get (Suc n) cursor =
     (case get cursor of
        Success _ (MessagePage _ page nxt) \<Rightarrow> if nxt = -1 then Some page else map_option ((@) page) (fetch_all get n (int_to_dec nxt))
      | _ \<Rightarrow> None)"

lemma page_limit_pos: "\<exists>m. page_limit v = int (Suc m)"
proof -
  have "1 \<le> page_limit v" by (simp add: page_limit_def Let_def)
  then show ?thesis by (intro exI [of _ "nat (page_limit v - 1)"]) simp
qed

lemma page_of_last: "length l \<le> k + Suc m \<Longrightarrow> page_of (int k) (int (Suc m)) l = Some (drop k l, -1)"
  by (auto simp: page_of_def)

lemma page_of_inner: "k + Suc m < length l \<Longrightarrow> page_of (int k) (int (Suc m)) l = Some (take (Suc m) (drop k l), int (k + Suc m))"
  by (simp add: page_of_def nat_add_distrib)

text \<open>One request and the rest: the page is the stretch of the log up to the next cursor.\<close>

lemma fetch_from:
  assumes "chat \<noteq> ''''" "History.History hist i chat (int HistoryWindow) s = Inr l" "page_cursor cursor = int k" "length l - k \<le> Suc n"
    "length l < 2 ^ 63"
  shows "fetch_all (\<lambda>cur. hSessionHistory errtext hist i chat limit cur s) (Suc n) cursor = Some (drop k l)"
  using assms(3,4)
proof (induction n arbitrary: k cursor)
  case 0
  obtain m where m: "page_limit limit = int (Suc m)" using page_limit_pos by blast
  then have "page_of (int k) (page_limit limit) l = Some (drop k l, -1)" using page_of_last [of l k m] 0(2) by simp
  then show ?case using assms(1,2) 0(1) by (simp add: hSessionHistory_def)
next
  case (Suc n)
  obtain m where m: "page_limit limit = int (Suc m)" using page_limit_pos by blast
  let ?k = "k + Suc m"
  show ?case
  proof (cases "?k < length l")
    case True
    have "page_cursor (int_to_dec (int ?k)) = int ?k"
      using True assms(5) by (intro page_cursor_dec) linarith
    then have "fetch_all (\<lambda>cur. hSessionHistory errtext hist i chat limit cur s) (Suc n) (int_to_dec (int ?k)) = Some (drop ?k l)"
      using Suc.prems(2) by (intro Suc.IH) linarith+
    moreover have "take (Suc m) (drop k l) @ drop ?k l = drop k l" by (metis add.commute append_take_drop_id drop_drop)
    ultimately show ?thesis using assms(1,2) Suc.prems(1) m page_of_inner [OF True]
      by (simp add: hSessionHistory_def del: of_nat_add of_nat_Suc)
  next
    case False
    then show ?thesis using assms(1,2) Suc.prems(1) m page_of_last [of l k m] by (simp add: hSessionHistory_def)
  qed
qed

lemma returned_window: "History.History hist i chat (int HistoryWindow) s = Inr l \<Longrightarrow> length l \<le> HistoryWindow"
  by (auto simp: History.History_def Let_def HistoryWindow_def split: option.splits if_splits)

text \<open>
  C27 (liveness). Whatever page size it asks for, a client that starts without a cursor and follows
  \<open>next_cursor\<close> gets after at most 256 requests exactly the log the engine returns, every
  message once and in order.
\<close>

theorem history_paging:
  assumes "chat \<noteq> ''''" "hist \<noteq> None"
  shows "\<exists>l. History.History hist i chat (int HistoryWindow) s = Inr l \<and>
    fetch_all (\<lambda>cursor. hSessionHistory errtext hist i chat limit cursor s) HistoryWindow '''' = Some l"
proof -
  obtain l where l: "History.History hist i chat (int HistoryWindow) s = Inr l" using assms(2) by (auto simp: History.History_def Let_def)
  have "length l \<le> HistoryWindow" by (rule returned_window [OF l])
  then have "fetch_all (\<lambda>cursor. hSessionHistory errtext hist i chat limit cursor s) (Suc 255) '''' = Some (drop 0 l)"
    by (intro fetch_from [OF assms(1) l]) (simp_all add: page_cursor_def HistoryWindow_def)
  then show ?thesis using l by (simp add: HistoryWindow_def del: fetch_all.simps)
qed

definition sample_log :: "StoredMessage list" where
  "sample_log = map (\<lambda>i. \<lparr>sm_ID = i, sm_Chat = ''c'', sm_Sender = '''', sm_Text = '''', sm_Type = ''text'', sm_FromMe = False,
     sm_Ack = AckReceived, sm_Timestamp = 0, sm_Media = None\<rparr>) [''1'', ''2'', ''3'']"

definition log_reader :: "Memory HistoryStore" where
  "log_reader = \<lparr>hs_ops = Memory_KV\<lparr>kv_Get := (\<lambda>_ _. Inr [])\<rparr>, hs_marshal = (\<lambda>_. []), hs_unmarshal = (\<lambda>_. Some sample_log), hs_now = 0\<rparr>"

lemma history_paging_witness:
  "fetch_all (\<lambda>cursor. hSessionHistory (\<lambda>_. '''') (Some log_reader) ''s'' ''c'' ''2'' cursor NewMemory) HistoryWindow '''' = Some sample_log"
  using history_paging [of "''c''" "Some log_reader" "''s''" NewMemory "\<lambda>_. ''''" "''2''"]
  by (auto simp: History.History_def log_reader_def loadLocked_def Let_def sample_log_def HistoryWindow_def)

text \<open>A negative cursor is not refused: slicing the log with it panics.\<close>

lemma negative_cursor_panics:
  assumes "chat \<noteq> ''''" "hist = Some h" "page_cursor cursor < 0"
  shows "hSessionHistory errtext hist i chat limit cursor s = Panics"
  using assms by (simp add: hSessionHistory_def History.History_def page_of_def Let_def)

subsection \<open>The bridge\<close>

definition passes :: "(live_event \<Rightarrow> bool) \<Rightarrow> wsEventBridge \<times> live_event \<Rightarrow> bool" where
  "passes marshals p \<longleftrightarrow> wb_enabled (fst p) \<and> hEvents_filter (wb_session (fst p)) (wb_chat (fst p)) (snd p) \<and> marshals (snd p)"

text \<open>An enabled bridge filters like the stream of server-sent events.\<close>

lemma wants_filter: "wants b ev \<longleftrightarrow> wb_enabled b \<and> hEvents_filter (wb_session b) (wb_chat b) ev"
  by (simp add: wants_def hEvents_filter_def)

text \<open>The reply that confirms a subscription.\<close>

definition subscribed_reply :: "wsEventBridge \<Rightarrow> wsEnvelope" where
  "subscribed_reply f = (envelope ''result'')\<lparr>we_Op := ''subscribe'', we_Ok := True, we_Session := wb_session f, we_ID := wb_chat f\<rparr>"

lemma bridge_command_filter:
  assumes "bridge_command sendText runSync cmd b = (b', rep)" "wb_enabled b'"
  shows "b' = b \<or> rep = subscribed_reply b'"
  using assms by (auto simp: bridge_command_def subscribed_reply_def Let_def split: option.splits if_splits)

definition bridge_inv :: "(live_event \<Rightarrow> bool) \<Rightarrow> bridge_run \<Rightarrow> bool" where
  "bridge_inv marshals r \<longleftrightarrow>
     length (br_ch r) \<le> 256 \<and> subseq (map snd (br_taken r) @ br_ch r) (br_seen r) \<and>
     length (br_taken r) + length (br_ch r) + br_dropped r = length (br_seen r) \<and>
     (br_streaming r \<longrightarrow> br_sent r = map snd (filter (passes marshals) (br_taken r))) \<and>
     prefix (br_sent r) (map snd (filter (passes marshals) (br_taken r))) \<and>
     (\<forall>f \<in> insert (br_filter r) (fst ` set (br_taken r)). wb_enabled f \<longrightarrow> subscribed_reply f \<in> set (br_replies r))"

lemma bridge_callback_inv: "bridge_inv marshals r \<Longrightarrow> bridge_inv marshals (bridge_callback ev r)"
  by (auto simp: bridge_inv_def bridge_callback_def Let_def subseq_rev_drop_many simp flip: append_assoc
      intro: list_emb_append_mono subseq_order.trans)

lemma bridge_take_inv: "bridge_inv marshals r \<Longrightarrow> br_streaming r \<Longrightarrow> bridge_take marshals ok r = Some r' \<Longrightarrow> bridge_inv marshals r'"
  by (auto simp: bridge_inv_def bridge_take_def Let_def wants_filter passes_def split: list.splits if_splits)

lemma bridge_frame_inv:
  assumes "bridge_inv marshals r" "bridge_command sendText runSync cmd (br_filter r) = (b, rep)"
  shows "bridge_inv marshals (r\<lparr>br_filter := b, br_replies := br_replies r @ [rep]\<rparr>)"
  using assms(1) bridge_command_filter [OF assms(2)] by (auto simp: bridge_inv_def)

lemma bridge_step_inv: "bridge_inv marshals r \<Longrightarrow> bridge_step sendText runSync marshals i r = Some r' \<Longrightarrow> bridge_inv marshals r'"
  using bridge_callback_inv [of marshals r] bridge_take_inv [of marshals r] bridge_frame_inv [of marshals r]
  by (cases i) (auto simp: bridge_step_def split: if_splits prod.splits, auto simp: bridge_inv_def)

lemma bridge_reach_inv: "bridge_reach sendText runSync marshals r \<Longrightarrow> bridge_inv marshals r"
proof (induction rule: bridge_reach.induct)
  case (bridge_next r i r')
  then show ?case by (metis bridge_step_inv)
qed (simp_all add: bridge_inv_def start_bridge_def new_bridge_def)

definition sample_command :: "wsCommand" where
  "sample_command = \<lparr>cm_Op = ''subscribe'', cm_Session = ''s'', cm_To = '''', cm_Text = '''', cm_JID = ''''\<rparr>"

definition sample_event :: "string \<Rightarrow> live_event" where
  "sample_event i = \<lparr>le_Session = i, le_Data = POther\<rparr>"

fun bridge_steps :: "bridge_input list \<Rightarrow> bridge_run \<Rightarrow> bridge_run option" where
  "bridge_steps [] r = Some r"
| "bridge_steps (i # is) r =
     (case bridge_step (\<lambda>_ _ _. Inl '''') (\<lambda>_. None) (\<lambda>_. True) i r of None \<Rightarrow> None | Some r' \<Rightarrow> bridge_steps is r')"

lemma bridge_steps_reach:
  "bridge_steps is r = Some r' \<Longrightarrow> bridge_reach (\<lambda>_ _ _. Inl '''') (\<lambda>_. None) (\<lambda>_. True) r
    \<Longrightarrow> bridge_reach (\<lambda>_ _ _. Inl '''') (\<lambda>_. None) (\<lambda>_. True) r'"
  by (induction "is" r rule: bridge_steps.induct) (auto split: option.splits intro: bridge_next)

definition sample_inputs :: "bridge_input list" where
  "sample_inputs = [Frame (Some sample_command), Callback (sample_event ''s''), Callback (sample_event ''t''), TakeEvent True, TakeEvent True]"

lemmas sample_bridge_defs = sample_inputs_def sample_event_def sample_command_def bridge_step_def bridge_command_def bridge_callback_def
  bridge_take_def start_bridge_def new_bridge_def wants_def envelope_def


subsection \<open>Metrics\<close>

text \<open>A session has one row with value 1, except in the state \<open>STOPPING\<close>, which the list lacks.\<close>

lemma state_row_sum: "sum_list (map (\<lambda>(_, _, v). v) (state_rows [(i, state_name st)])) = (if st = Stopping then 0 else 1)"
  by (cases st) (simp_all add: state_rows_def metric_states_def state_name_def)

end
