(* ===== verification/ApiHandlers.thy ===== *)
theory ApiHandlers
  imports Batur ApiE2e ApiSync ApiServer
begin

text \<open>
  The handlers of \<^verbatim>\<open>apiserver/apiserver.go\<close> that call the engine: sessions, raw requests,
  texts and sync. A handler is a function from the parts of the request to its response
  and what it changed. The body of a request is what \<open>encoding/json\<close> made of it under the
  size limit, \<open>errtext\<close> is the text of an error.
\<close>

subsection \<open>Sessions\<close>

definition hSessions :: "'s Batur \<Rightarrow> SessionStatus list response" where
  "hSessions b = Success 200 (concat (map (\<lambda>i. case BaturStatus i b of Inl _ \<Rightarrow> [] | Inr st \<Rightarrow> [st]) (BaturSessions b)))"

definition hSessionGet :: "(api_error \<Rightarrow> string) \<Rightarrow> string \<Rightarrow> 's Batur \<Rightarrow> SessionStatus response" where
  "hSessionGet errtext i b = (case BaturStatus i b of Inl e \<Rightarrow> writeErr 404 (errtext e) | Inr st \<Rightarrow> Success 200 st)"

definition hSessionDelete :: "(api_error \<Rightarrow> string) \<Rightarrow> transport \<Rightarrow> string \<Rightarrow> 's Batur \<Rightarrow> 's Batur \<times> bool response" where
  "hSessionDelete errtext T i b =
     (case Detach T i b of (b, Inl e) \<Rightarrow> (b, writeErr 404 (errtext e)) | (b, Inr _) \<Rightarrow> (b, Success 200 True))"

subsection \<open>Raw requests\<close>

datatype 'v decoded = BodyTooLarge | BadJSON | Decoded 'v

text \<open>The items of \<open>content\<close> are what the node's JSON reader returns for each, an error or a node.\<close>

record iqRequest =
  iq_Tag :: string
  iq_Attrs :: "(string \<times> val) list"
  iq_Content :: "(string + node) list"
  iq_Timeout :: string

definition decode_body :: "'v decoded \<Rightarrow> ('v \<Rightarrow> 'r response) \<Rightarrow> 'r response" where
  "decode_body body k =
     (case body of
        BodyTooLarge \<Rightarrow> writeErr 413 ''body too large''
      | BadJSON \<Rightarrow> writeErr 400 ''bad request json''
      | Decoded req \<Rightarrow> k req)"

fun iq_kids :: "(string + node) list \<Rightarrow> val \<Rightarrow> string + val" where
  "iq_kids [] content = Inr content"
| "iq_kids (Inl e # cs) content = Inl e"
| "iq_kids (Inr n # cs) content = iq_kids cs (VNodes ((case content of VNodes kids \<Rightarrow> kids | _ \<Rightarrow> []) @ [n]))"

definition iq_status :: "api_error \<Rightarrow> int" where
  "iq_status e = (if e = ErrUnknownSession then 404 else if e = ApiNotOnline then 409 else 502)"

definition hSessionIQ :: "(api_error \<Rightarrow> string) \<Rightarrow> (string \<Rightarrow> int option) \<Rightarrow> (int option \<Rightarrow> node \<Rightarrow> session_error + node) \<Rightarrow> string
    \<Rightarrow> iqRequest decoded \<Rightarrow> 's Batur \<Rightarrow> node response" where
  "hSessionIQ errtext parseDuration request i body b =
     decode_body body (\<lambda>req.
       if iq_Tag req = '''' then writeErr 400 ''tag required''
       else case iq_kids (iq_Content req) VNil of
              Inl e \<Rightarrow> writeErr 400 (''bad content node: '' @ e)
            | Inr content \<Rightarrow>
                if iq_Timeout req \<noteq> '''' \<and> parseDuration (iq_Timeout req) = None then writeErr 400 ''bad timeout''
                else
                  let timeout = (if iq_Timeout req \<noteq> '''' then parseDuration (iq_Timeout req) else None)
                  in case RequestNode (request timeout) i (Node (iq_Tag req) (iq_Attrs req) content) b of
                       Inl e \<Rightarrow> writeErr (iq_status e) (errtext e)
                     | Inr resp \<Rightarrow> Success 200 resp)"

subsection \<open>Texts\<close>

record textRequest =
  tx_To :: string
  tx_Text :: string

text \<open>\<open>sendText\<close> is the engine's \<open>SendText\<close> for a target and a text, over the stored ratchets.\<close>

definition hSessionText :: "(send_error \<Rightarrow> string) \<Rightarrow> (string \<Rightarrow> string \<Rightarrow> 's \<Rightarrow> 's \<times> node list \<times> (send_error + Message)) \<Rightarrow> textRequest decoded \<Rightarrow> 's
    \<Rightarrow> 's \<times> node list \<times> bool response" where
  "hSessionText errtext sendText body s =
     (case body of
        Decoded req \<Rightarrow>
          if tx_To req = '''' then (s, [], writeErr 400 ''to/text required'')
          else (case sendText (tx_To req) (tx_Text req) s of
                  (s, nodes, Inl e) \<Rightarrow>
                    (s, nodes, if e = SendNoBundleSource then Failure 501 ''no bundle source configured for this engine instance'' ''''
                               else writeErr 400 (errtext e))
                | (s, nodes, Inr _) \<Rightarrow> (s, nodes, Success 202 True))
      | _ \<Rightarrow> (s, [], decode_body body (\<lambda>_. Panics)))"

subsection \<open>Sync and snapshots\<close>

definition hSessionSync :: "(snapshot_error \<Rightarrow> string) \<Rightarrow> ('s, node) SyncState \<times> (snapshot_error + 'r) \<Rightarrow> ('s, node) SyncState \<times> bool response" where
  "hSessionSync errtext result =
     (case result of
        (ss, Inl e) \<Rightarrow> (ss, writeErr (if Contains (errtext e) ''unknown session'' then 404 else 500) (errtext e))
      | (ss, Inr _) \<Rightarrow> (ss, Success 200 True))"

definition hSessionContacts :: "(snapshot_error \<Rightarrow> string) \<Rightarrow> 's SyncEnv \<Rightarrow> string \<Rightarrow> 's \<Rightarrow> Contact list response" where
  "hSessionContacts errtext E i s = (case Contacts E i s of Inl e \<Rightarrow> writeErr 500 (errtext e) | Inr l \<Rightarrow> Success 200 l)"

definition hSessionChats :: "(snapshot_error \<Rightarrow> string) \<Rightarrow> 's SyncEnv \<Rightarrow> string \<Rightarrow> 's \<Rightarrow> ChatSummary list response" where
  "hSessionChats errtext E i s = (case Chats E i s of Inl e \<Rightarrow> writeErr 500 (errtext e) | Inr l \<Rightarrow> Success 200 l)"

subsection \<open>Properties\<close>

subsection \<open>Sessions over HTTP\<close>

lemma sessions_listed:
  assumes "batur_reach b"
  shows "\<exists>l. hSessions b = Success 200 l \<and> map su_ID l = BaturSessions b"
proof -
  note ids = same_ids_reach [OF assms]
  have "\<forall>i \<in> set (BaturSessions b). \<exists>st. BaturStatus i b = Inr st \<and> su_ID st = i"
    using status_known [OF ids] ids by (auto simp: BaturSessions_def Sessions_def same_ids_def)
  then have "map su_ID (concat (map (\<lambda>i. case BaturStatus i b of Inl _ \<Rightarrow> [] | Inr st \<Rightarrow> [st]) l)) = l" if "set l \<subseteq> set (BaturSessions b)" for l
    using that by (induction l) auto
  then show ?thesis by (simp add: hSessions_def)
qed

text \<open>Removing a session leaves the others' entries and objects.\<close>

lemma detach_others:
  assumes "batur_reach b" "j \<noteq> i"
  shows "BaturStatus j (fst (Detach T i b)) = BaturStatus j b"
proof (cases "i \<in> set (bt_sess b) \<and> map_of (vs_sessions (bt_sup b)) j \<noteq> None")
  case True
  note ids = same_ids_reach [OF assms(1)]
  obtain vo where "sup_reach vo (bt_sup b)" using batur_fleet [OF assms(1)] by blast
  then have reg: "reg_ok (bt_sup b)" using fleet_reach by (auto simp: fleet_inv_def)
  obtain k where k: "map_of (vs_sessions (bt_sup b)) i = Some k" using True ids map_of_eq_None_iff [of "vs_sessions (bt_sup b)" i]
    by (auto simp: same_ids_def)
  obtain l where l: "map_of (vs_sessions (bt_sup b)) j = Some l" using True by blast
  have "l \<noteq> k" "l < length (vs_objs (bt_sup b))"
    using reg_okD(1,2) [OF reg map_of_SomeD [OF k]] reg_okD(1,2) [OF reg map_of_SomeD [OF l]] assms(2) by auto
  then have "vs_objs (fst (Remove T i (bt_sup b))) ! l = vs_objs (bt_sup b) ! l"
    by (simp add: Remove_def k upd_obj_def)
  moreover have "map_of (vs_sessions (fst (Remove T i (bt_sup b)))) j = Some l" using l assms(2) by (simp add: Remove_def k delete_conv')
  moreover have "health_of (fst (Remove T i (bt_sup b))) j m = health_of (bt_sup b) j m" for m
    by (simp add: health_of_def Remove_def k Let_def split: option.split)
  ultimately show ?thesis using True l by (simp add: Detach_cases [OF ids] BaturStatus_def map_of_Health)
next
  case False
  note ids = same_ids_reach [OF assms(1)]
  have "map_of (vs_sessions (fst (Remove T i (bt_sup b)))) j = map_of (vs_sessions (bt_sup b)) j"
    using assms(2) by (auto simp: Remove_def delete_conv' split: option.split)
  then show ?thesis using False
    by (cases "i \<in> set (bt_sess b)") (auto simp: Detach_def BaturStatus_def map_of_Health split: prod.split sum.split option.split)
qed

lemma detach_sessions:
  assumes "batur_reach b"
  shows "BaturSessions (fst (Detach T i b)) = removeAll i (BaturSessions b)"
proof (cases "i \<in> set (bt_sess b)")
  case True
  note ids = same_ids_reach [OF assms]
  then show ?thesis using True map_of_eq_None_iff [of "vs_sessions (bt_sup b)" i]
    by (cases "map_of (vs_sessions (bt_sup b)) i")
      (auto simp: Detach_cases [OF ids] BaturSessions_def Sessions_def Remove_def delete_keys same_ids_def)
next
  case False
  note ids = same_ids_reach [OF assms]
  have "i \<notin> set (BaturSessions b)" using False ids by (simp add: BaturSessions_def Sessions_def same_ids_def)
  then show ?thesis using False by (simp add: Detach_cases [OF ids])
qed



subsection \<open>Statuses of a raw request\<close>

text \<open>The content of the node sent is the list of the body's nodes, if it has any.\<close>

lemma iq_kids_nodes: "iq_kids cs (VNodes kids) =
    (case find isl cs of Some e \<Rightarrow> Inl (projl e) | None \<Rightarrow> Inr (VNodes (kids @ map projr cs)))"
proof (induction cs arbitrary: kids)
  case (Cons c cs)
  then show ?case by (cases c) (auto split: option.split)
qed simp

lemma iq_kids_spec: "iq_kids cs VNil =
    (case find isl cs of Some e \<Rightarrow> Inl (projl e) | None \<Rightarrow> Inr (if cs = [] then VNil else VNodes (map projr cs)))"
proof (cases cs)
  case (Cons c cs')
  then show ?thesis by (cases c) (auto simp: iq_kids_nodes split: option.split)
qed simp

definition iq_accepted :: "(string \<Rightarrow> int option) \<Rightarrow> iqRequest \<Rightarrow> bool" where
  "iq_accepted parseDuration req \<longleftrightarrow>
     iq_Tag req \<noteq> '''' \<and> \<not> list_ex isl (iq_Content req) \<and> (iq_Timeout req \<noteq> '''' \<longrightarrow> parseDuration (iq_Timeout req) \<noteq> None)"

definition iq_request_node :: "iqRequest \<Rightarrow> node" where
  "iq_request_node req = Node (iq_Tag req) (iq_Attrs req) (if iq_Content req = [] then VNil else VNodes (map projr (iq_Content req)))"

lemma no_error_found: "\<not> list_ex isl cs \<Longrightarrow> find isl cs = None"
  by (simp add: find_None_iff list_ex_iff)

text \<open>
  The statuses of a raw request. A request answers 413 exactly when its body is
  over the limit, and 400 exactly when the body, its tag, a content node or its timeout is
  malformed; otherwise 404 exactly when the supervisor has no session object for the id,
  502 exactly when the session's request fails, and 200 with the peer's answer to the
  node the body describes. The status 409 that the handler has for a session that is not
  online is never sent.
\<close>

theorem iq_statuses:
  "case body of
     BodyTooLarge \<Rightarrow> hSessionIQ errtext parseDuration request i body b = Failure 413 ''body too large'' ''body_too_large''
   | BadJSON \<Rightarrow> hSessionIQ errtext parseDuration request i body b = Failure 400 ''bad request json'' ''bad_request''
   | Decoded req \<Rightarrow>
       if \<not> iq_accepted parseDuration req then \<exists>msg. hSessionIQ errtext parseDuration request i body b = Failure 400 msg ''bad_request''
       else if SupSession i (bt_sup b) = None
       then hSessionIQ errtext parseDuration request i body b = Failure 404 (errtext ErrUnknownSession) ''not_found''
       else case request (if iq_Timeout req \<noteq> '''' then parseDuration (iq_Timeout req) else None) (iq_request_node req) of
              Inl e \<Rightarrow> hSessionIQ errtext parseDuration request i body b = Failure 502 (errtext (RequestFailed e)) ''bad_gateway''
            | Inr resp \<Rightarrow> hSessionIQ errtext parseDuration request i body b = Success 200 resp"
proof (cases body)
  case (Decoded req)
  show ?thesis
  proof (cases "iq_accepted parseDuration req")
    case True
    then have "iq_kids (iq_Content req) VNil = Inr (if iq_Content req = [] then VNil else VNodes (map projr (iq_Content req)))"
      using no_error_found [of "iq_Content req"] by (simp add: iq_kids_spec iq_accepted_def)
    then show ?thesis using True Decoded
      by (cases "SupSession i (bt_sup b)";
          cases "request (if iq_Timeout req \<noteq> '''' then parseDuration (iq_Timeout req) else None) (iq_request_node req)")
        (auto simp: hSessionIQ_def decode_body_def iq_accepted_def RequestNode_def iq_request_node_def iq_status_def writeErr_def httpCodeName_def Let_def)
  next
    case False
    then show ?thesis using Decoded
      by (auto simp: hSessionIQ_def decode_body_def iq_accepted_def iq_kids_spec writeErr_def httpCodeName_def list_ex_iff find_None_iff split: option.splits)
  qed
qed (simp_all add: hSessionIQ_def decode_body_def writeErr_def httpCodeName_def)

end
