(* ===== verification/Spec2Isabelle.thy ===== *)
theory Spec2Isabelle
  imports Decoded Wacert StateMachine SecureKV Sync Noise Events WsHandshake Conversation Link History Fleet Pipe ApiHandlers
begin

text \<open>
  \<^bold>\<open>Batur.\<close> A verification library for BaturWhatsApi, a multi-device messaging engine in Go.

  \<^bold>\<open>The program.\<close> A \<open>Session\<close> (\<^verbatim>\<open>src/session\<close>) dials a server over a transport
  (\<^verbatim>\<open>src/transport\<close>), runs a Noise XX handshake (\<^verbatim>\<open>src/security/noise\<close>) whose messages are
  protobuf records (\<^verbatim>\<open>src/internal/wapb\<close>, \<^verbatim>\<open>src/protocol/pb\<close>), hands the server's key and
  certificate chain to an authentication policy (\<^verbatim>\<open>src/security/wacert\<close>), and then
  exchanges encrypted binary nodes (\<^verbatim>\<open>src/protocol/binary\<close>, \<^verbatim>\<open>src/protocol/token\<close>), answers
  requests by id and publishes events on a bus (\<^verbatim>\<open>src/events\<close>). Its lifecycle is the state machine of
  \<^verbatim>\<open>src/statemachine\<close>. A supervisor (\<^verbatim>\<open>src/supervisor\<close>) keeps a fleet of sessions running
  with retries and backoff. The application interface (\<^verbatim>\<open>src/api\<close>) registers sessions,
  sends end-to-end encrypted texts (\<^verbatim>\<open>src/security/e2e\<close>), synchronises contacts and chats
  with resumable checkpoints (\<^verbatim>\<open>src/sync\<close>) and keeps message logs; all of it persists
  through a key-value interface with a memory, a file and a sealed implementation
  (\<^verbatim>\<open>src/storage\<close>). The HTTP server (\<^verbatim>\<open>src/apiserver\<close>) puts the interface on the network.

  \<^bold>\<open>Conventions.\<close> Errors are values of a sum type, one constructor per error of the code.
  Go integers are words where they wrap, else \<open>int\<close> or \<open>nat\<close>. A map is an association list
  where its order is observable and a function otherwise. Code that several goroutines
  run is cut at the points where they can interleave, and a property of it is an
  invariant of an inductive reachability predicate over every interleaving. Cryptographic
  primitives, JSON, clocks, randomness and sockets are arguments; what is assumed of them
  is a named predicate (\<open>crypto_ok\<close>, \<open>e2e_ok\<close>, \<open>json_ok\<close>, \<open>log_json\<close>, \<open>ratchet_json\<close> and others)
  that a concrete instance satisfies in the witnesses. History fields of a record, which
  record what happened for the statements, are named as such where they are declared.

  \<^bold>\<open>Theories.\<close>
  \<^item> \<open>Prelude\<close>, \<open>Gotime\<close>, \<open>Delimited\<close>, \<open>EventTypes\<close>: shared lemmas, decimal numerals and bytes, Go's
    \<open>time.Time\<close>, a concrete serialisation for witnesses, event names.
  \<^item> \<open>Pb\<close>, \<open>Wapb\<close>: the wire codec and the handshake messages; parsing inverts building.
  \<^item> \<open>Token\<close>, \<open>Jid\<close>, \<open>Node\<close>, \<open>Encoder\<close>, \<open>Decoder\<close>, \<open>Codec\<close>, \<open>Decoded\<close>: dictionary, addresses, node
    trees and their binary form. The decoder is total, its trees are well typed and no larger than
    the input, and decoding inverts encoding up to a normal form.
  \<^item> \<open>Hkdf\<close>, \<open>Noise\<close>: key derivation as in its RFC; two ends of an undisturbed handshake agree,
    and their ciphers are mirrored and open in order until the counter wraps.
  \<^item> \<open>Wacert\<close>: a chain is accepted exactly when root and intermediate issued it and it is valid.
  \<^item> \<open>Storage\<close>, \<open>FileStore\<close>, \<open>SecureKV\<close>: the locale \<open>kv\<close> states the contract of the storage
    interface; the memory store, the file store and the sealed store over each interpret it.
    Every client below is proved once against the locale.
  \<^item> \<open>StateMachine\<close>: transition table, watchers with bounded channels, the history as a chain of moves.
  \<^item> \<open>Events\<close>: the bus with its publishers and workers; bounds, accounting, order, progress.
  \<^item> \<open>Transport\<close>, \<open>WsFrame\<close>, \<open>WsConn\<close>, \<open>WsHandshake\<close>, \<open>Pipe\<close>: the locales \<open>frame_stream\<close> and
    \<open>frame_channel\<close> state the contract of a connection; the client's WebSocket connection and
    both directions of the in-memory pipe interpret them. Frames round-trip, fragmented
    messages are delivered in order, the first error is kept, and the two handshakes fit.
  \<^item> \<open>X3dh\<close>, \<open>Ratchet\<close>, \<open>Conversation\<close>: key agreement and double ratchet; conversations with
    restarts, messages out of order, the bounded store of skipped keys.
  \<^item> \<open>Session\<close>, \<open>SessionRun\<close>, \<open>SessionHistory\<close>, \<open>Mockserver\<close>, \<open>Link\<close>: the session engine as
    interleaved steps, the repository's mock server as its peer, and the two together. The
    locale \<open>auth_policy\<close> is what the engine asks of a policy; the trusted root and the pinning
    policy interpret it. The engine fails closed, goes online, answers requests with their
    own responses, and carries nodes in order both ways.
  \<^item> \<open>Supervisor\<close>, \<open>Fleet\<close>: registry, manage loops, backoff schedule, and how a cancelled loop ends.
  \<^item> \<open>Sync\<close>, \<open>ApiSync\<close>: the page loop with checkpoints and resumption, and the snapshots over it.
  \<^item> \<open>ApiMessage\<close>, \<open>History\<close>: the message model and the bounded logs, as a refinement of one
    abstract log per chat.
  \<^item> \<open>Batur\<close>, \<open>ApiE2e\<close>: the facade as a set of session ids, and texts from the call to the
    relay's peer through the stored ratchet.
  \<^item> \<open>ApiServer\<close>, \<open>ApiHandlers\<close>: token, paging, event filters and the WebSocket bridge; the
    handlers over the facade and their statuses.

  \<^bold>\<open>Bounds and fuel.\<close> The node decoder recurses on fuel above the number of bytes, which is
  never used up since every call reads a byte first. The page loop of a synchronisation
  may run forever against a server that never ends; its fuel is the number of pages,
  and the properties show that this is enough. The client that pages through a log
  needs at most 256 requests, the size of the window. Every other loop is structural or
  has a measure. The counters of the transport ciphers, the ratchet and the frame lengths
  keep their width.

  \<^bold>\<open>Not modelled.\<close> The command line, whose functions parse flags and print; the storage
  adapters, which are stubs; routing, HTTP, the access log and the metrics text of the
  server, which belong to the Go library; the JSON form of a node, which is for logs and
  whose key matching is that of \<open>encoding/json\<close>; floating-point protobuf fields; the jitter
  of a backoff wait; deadlines and timers, which are steps that may happen at any moment;
  operating-system failures under the file store.
\<close>

end
